(* ===== verification/Prelude.thy ===== *)
theory Prelude
  imports Main "HOL-Library.Word"
begin

unbundle bit_operations_syntax

text \<open>
  Shared ground of the development: machine integers, byte memories with the
  little-endian loads and stores that the page and record layouts of the sources use,
  the faults a C++ execution can end in, and the sequencing of fallible steps.

  A memory block is a total function from offsets to bytes. Every access that the
  sources make through a pointer is guarded in the model: a null pointer, an index
  outside its array and a failed \<open>assert\<close> are values of type \<open>fault\<close>, never an
  unspecified HOL value.
\<close>

type_synonym byte = "8 word"
type_synonym u8 = "8 word"
type_synonym u32 = "32 word"
type_synonym u64 = "64 word"
type_synonym mem = "nat \<Rightarrow> byte"

named_theorems mem_simps \<open>reads over writes of byte memories\<close>
named_theorems fault_simps \<open>sequencing of fallible steps\<close>

section \<open>Faults and sequencing\<close>

text \<open>How an execution can stop other than by returning.\<close>

datatype fault =
    AssertFailed     \<comment> \<open>\<open>assert\<close> of a false condition\<close>
  | NullDeref        \<comment> \<open>access through a null pointer\<close>
  | OutOfBounds      \<comment> \<open>access outside an array or an object\<close>
  | DanglingUse      \<comment> \<open>access to an object whose life has ended\<close>
  | DivByZero        \<comment> \<open>integer division by zero\<close>
  | Uninitialised    \<comment> \<open>read of a variable nothing was written to\<close>
  | Diverges         \<comment> \<open>a loop or a recursion that does not end\<close>

type_synonym 'a outcome = "fault + 'a"

definition bnd :: "'e + 'a \<Rightarrow> ('a \<Rightarrow> 'e + 'b) \<Rightarrow> 'e + 'b" where
  "bnd m f = (case m of Inl e \<Rightarrow> Inl e | Inr x \<Rightarrow> f x)"

lemma bnd_Inl [simp, fault_simps]: "bnd (Inl e) f = Inl e"
  by (simp add: bnd_def)

lemma bnd_Inr [simp, fault_simps]: "bnd (Inr x) f = f x"
  by (simp add: bnd_def)

lemma bnd_eq_Inr [fault_simps]:
  "bnd m f = Inr y \<longleftrightarrow> (\<exists>x. m = Inr x \<and> f x = Inr y)"
  by (cases m) auto

lemma bnd_assoc: "bnd (bnd m f) g = bnd m (\<lambda>x. bnd (f x) g)"
  by (cases m) auto

definition guard :: "'e \<Rightarrow> bool \<Rightarrow> 'e + unit" where
  "guard e b = (if b then Inr () else Inl e)"

lemma guard_True [simp, fault_simps]: "guard e True = Inr ()"
  by (simp add: guard_def)

lemma guard_False [simp, fault_simps]: "guard e False = Inl e"
  by (simp add: guard_def)

definition of_opt :: "'e \<Rightarrow> 'a option \<Rightarrow> 'e + 'a" where
  "of_opt e x = (case x of None \<Rightarrow> Inl e | Some y \<Rightarrow> Inr y)"

lemma of_opt_None [simp, fault_simps]: "of_opt e None = Inl e"
  by (simp add: of_opt_def)

lemma of_opt_Some [simp, fault_simps]: "of_opt e (Some y) = Inr y"
  by (simp add: of_opt_def)

section \<open>Byte memories\<close>

definition load32 :: "mem \<Rightarrow> nat \<Rightarrow> u32" where
  "load32 m a = ucast (m a) OR push_bit 8 (ucast (m (a + 1)))
     OR push_bit 16 (ucast (m (a + 2))) OR push_bit 24 (ucast (m (a + 3)))"

definition store32 :: "mem \<Rightarrow> nat \<Rightarrow> u32 \<Rightarrow> mem" where
  "store32 m a v = m(a := ucast v, a + 1 := ucast (drop_bit 8 v),
     a + 2 := ucast (drop_bit 16 v), a + 3 := ucast (drop_bit 24 v))"

text \<open>\<open>memcpy(dst + d, src + s, n)\<close>, \<open>memset(dst + d, v, n)\<close> and the bytes of an
  object written to or read from an offset.\<close>

definition memcpy :: "mem \<Rightarrow> nat \<Rightarrow> mem \<Rightarrow> nat \<Rightarrow> nat \<Rightarrow> mem" where
  "memcpy dst d src s n = (\<lambda>i. if d \<le> i \<and> i < d + n then src (s + (i - d)) else dst i)"

definition memset :: "mem \<Rightarrow> nat \<Rightarrow> byte \<Rightarrow> nat \<Rightarrow> mem" where
  "memset dst d v n = (\<lambda>i. if d \<le> i \<and> i < d + n then v else dst i)"

definition mread :: "mem \<Rightarrow> nat \<Rightarrow> nat \<Rightarrow> byte list" where
  "mread m a n = map (\<lambda>i. m (a + i)) [0..<n]"

definition mwrite :: "mem \<Rightarrow> nat \<Rightarrow> byte list \<Rightarrow> mem" where
  "mwrite m a bs = (\<lambda>i. if a \<le> i \<and> i < a + length bs then bs ! (i - a) else m i)"

subsection \<open>Words from their bytes\<close>

lemma ucast_bytes_join:
  fixes v :: u32
  shows "(ucast (ucast v :: byte) :: u32) OR push_bit 8 (ucast (ucast (drop_bit 8 v) :: byte))
     OR push_bit 16 (ucast (ucast (drop_bit 16 v) :: byte))
     OR push_bit 24 (ucast (ucast (drop_bit 24 v) :: byte)) = v"
proof (rule bit_word_eqI)
  fix n
  assume n: "n < LENGTH(32)"
  then consider "n < 8" | "8 \<le> n \<and> n < 16" | "16 \<le> n \<and> n < 24" | "24 \<le> n \<and> n < 32"
    by fastforce
  then show "bit ((ucast (ucast v :: byte) :: u32) OR push_bit 8 (ucast (ucast (drop_bit 8 v) :: byte))
     OR push_bit 16 (ucast (ucast (drop_bit 16 v) :: byte))
     OR push_bit 24 (ucast (ucast (drop_bit 24 v) :: byte))) n = bit v n"
    by cases (auto simp: bit_simps)
qed

lemma load32_store32_same [simp, mem_simps]: "load32 (store32 m a v) a = v"
  by (simp add: load32_def store32_def ucast_bytes_join)

lemma load32_store32_other [mem_simps]:
  "b + 4 \<le> a \<or> a + 4 \<le> b \<Longrightarrow> load32 (store32 m a v) b = load32 m b"
  by (auto simp: load32_def store32_def)

lemma store32_other [mem_simps]: "i < a \<or> a + 4 \<le> i \<Longrightarrow> store32 m a v i = m i"
  by (auto simp: store32_def)

lemma load32_cong:
  "(\<And>i. i < 4 \<Longrightarrow> m (a + i) = m' (b + i)) \<Longrightarrow> load32 m a = load32 m' b"
  unfolding load32_def
proof -
  assume h: "\<And>i. i < 4 \<Longrightarrow> m (a + i) = m' (b + i)"
  have "m a = m' b" using h [of 0] by simp
  moreover have "m (a + 1) = m' (b + 1)" using h [of 1] by simp
  moreover have "m (a + 2) = m' (b + 2)" using h [of 2] by simp
  moreover have "m (a + 3) = m' (b + 3)" using h [of 3] by simp
  ultimately show "ucast (m a) OR push_bit 8 (ucast (m (a + 1))) OR push_bit 16 (ucast (m (a + 2)))
      OR push_bit 24 (ucast (m (a + 3))) = (ucast (m' b) OR push_bit 8 (ucast (m' (b + 1)))
      OR push_bit 16 (ucast (m' (b + 2))) OR push_bit 24 (ucast (m' (b + 3))) :: u32)"
    by simp
qed

lemma load32_upd_other [mem_simps]: "i < b \<or> b + 4 \<le> i \<Longrightarrow> load32 (m(i := v)) b = load32 m b"
  by (rule load32_cong) auto

lemma load32_memcpy_in [mem_simps]:
  "d \<le> a \<Longrightarrow> a + 4 \<le> d + n \<Longrightarrow> load32 (memcpy dst d src s n) a = load32 src (s + (a - d))"
  by (rule load32_cong) (auto simp: memcpy_def add.assoc)

lemma load32_memcpy_out [mem_simps]:
  "a + 4 \<le> d \<or> d + n \<le> a \<Longrightarrow> load32 (memcpy dst d src s n) a = load32 dst a"
  by (rule load32_cong) (auto simp: memcpy_def)

lemma load32_memset_out [mem_simps]:
  "a + 4 \<le> d \<or> d + n \<le> a \<Longrightarrow> load32 (memset dst d v n) a = load32 dst a"
  by (rule load32_cong) (auto simp: memset_def)

lemma load32_mwrite_out [mem_simps]:
  "a + 4 \<le> d \<or> d + length bs \<le> a \<Longrightarrow> load32 (mwrite dst d bs) a = load32 dst a"
  by (rule load32_cong) (auto simp: mwrite_def)

lemma memcpy_in [mem_simps]:
  "d \<le> i \<Longrightarrow> i < d + n \<Longrightarrow> memcpy dst d src s n i = src (s + (i - d))"
  by (simp add: memcpy_def)

lemma memcpy_out [mem_simps]: "i < d \<or> d + n \<le> i \<Longrightarrow> memcpy dst d src s n i = dst i"
  by (auto simp: memcpy_def)

lemma memset_out [mem_simps]: "i < d \<or> d + n \<le> i \<Longrightarrow> memset dst d v n i = dst i"
  by (auto simp: memset_def)

lemma mwrite_out [mem_simps]: "i < a \<or> a + length bs \<le> i \<Longrightarrow> mwrite m a bs i = m i"
  by (auto simp: mwrite_def)

lemma length_mread [simp]: "length (mread m a n) = n"
  by (simp add: mread_def)

lemma nth_mread [simp]: "i < n \<Longrightarrow> mread m a n ! i = m (a + i)"
  by (simp add: mread_def)

lemma mread_cong:
  "(\<And>i. i < n \<Longrightarrow> m (a + i) = m' (b + i)) \<Longrightarrow> mread m a n = mread m' b n"
  by (simp add: mread_def)

lemma mread_mwrite_same [simp, mem_simps]: "mread (mwrite m a bs) a (length bs) = bs"
  by (rule nth_equalityI) (auto simp: mwrite_def)

lemma mread_mwrite_part:
  "k + n \<le> length bs \<Longrightarrow> mread (mwrite m a bs) (a + k) n = take n (drop k bs)"
  by (rule nth_equalityI) (auto simp: mwrite_def)

lemma mread_mwrite_out [mem_simps]:
  "b + n \<le> a \<or> a + length bs \<le> b \<Longrightarrow> mread (mwrite m a bs) b n = mread m b n"
  by (rule mread_cong) (auto simp: mwrite_def)

lemma mread_store32_out [mem_simps]:
  "b + n \<le> a \<or> a + 4 \<le> b \<Longrightarrow> mread (store32 m a v) b n = mread m b n"
  by (rule mread_cong) (auto simp: store32_def)

lemma mread_memcpy_in [mem_simps]:
  "d \<le> b \<Longrightarrow> b + k \<le> d + n \<Longrightarrow> mread (memcpy dst d src s n) b k = mread src (s + (b - d)) k"
  by (rule mread_cong) (auto simp: memcpy_def add.assoc)

lemma mread_memcpy_out [mem_simps]:
  "b + k \<le> d \<or> d + n \<le> b \<Longrightarrow> mread (memcpy dst d src s n) b k = mread dst b k"
  by (rule mread_cong) (auto simp: memcpy_def)

section \<open>Words\<close>

lemma unat_mult_small:
  "unat a * unat b < 2 ^ LENGTH('a::len) \<Longrightarrow> unat (a * b :: 'a word) = unat a * unat b"
  by (simp add: unat_word_ariths)

lemma unat_add_small:
  "unat a + unat b < 2 ^ LENGTH('a::len) \<Longrightarrow> unat (a + b :: 'a word) = unat a + unat b"
  by (simp add: unat_word_ariths)

lemma unat_half_sum:
  fixes a b :: u32
  assumes "unat a < 2 ^ 31" and "unat b < 2 ^ 31"
  shows "unat ((a + b) div 2) = (unat a + unat b) div 2"
  using assms by (simp add: unat_div unat_add_small)

lemma unat_pred_less:
  fixes i c :: "'a::len word"
  assumes "c < i"
  shows "unat (i - 1) = unat i - 1" and "0 < unat i"
proof -
  have "i \<noteq> 0" using assms by auto
  then show "unat (i - 1) = unat i - 1" by (simp add: unat_minus_one)
  show "0 < unat i" using \<open>i \<noteq> 0\<close> by (simp add: unat_gt_0)
qed

section \<open>Decimal text\<close>

text \<open>\<open>std::to_string\<close> and stream output of an unsigned integer.\<close>

definition digit_char :: "nat \<Rightarrow> char" where
  "digit_char d = ''0123456789'' ! d"

fun show_nat :: "nat \<Rightarrow> string" where
  "show_nat n = (if n < 10 then [digit_char n] else show_nat (n div 10) @ [digit_char (n mod 10)])"

declare show_nat.simps [simp del]

lemma show_nat_not_Nil [simp]: "show_nat n \<noteq> []"
  by (subst show_nat.simps) simp

text \<open>The same for a signed integer.\<close>

definition show_integer :: "int \<Rightarrow> string" where
  "show_integer i = (if i < 0 then CHR ''-'' # show_nat (nat (- i)) else show_nat (nat i))"

end
