(* ===== verification/Db_Status.thy ===== *)
theory Db_Status
  imports Prelude
begin

text \<open>
  The status codes, statement records and constants of the page-based database
  (\<open>db_lab/status.h\<close>, \<open>statement.h\<close>, \<open>consts.h\<close>). A \<open>Status\<close> is
  returned by value; the macro \<open>STATUS_CHECK(f)\<close> returns early with the status of \<open>f\<close>
  unless it is \<open>OK\<close>, which is \<open>STATUS_CHECK\<close> below.
\<close>

datatype StatusType =
    INVALID_CMD | INVALID_ST | ILLIGLE_ST
  | PAGE_INVALID | PAGE_NUM_OVERFLOW | PAGE_LOAD_ERR | PAGE_FLUSH_ERR
  | CURSOR_END_OF_FILE
  | CELL_OVERFLOW
  | CHILD_OVERFLOW
  | EMPTY_KEY | KEY_OVERFLOW
  | OK | EMPTY | EXIT

record Status =
  st_type :: StatusType
  err_msg :: string

definition Status_default :: Status where
  "Status_default = \<lparr>st_type = OK, err_msg = ''''\<rparr>"

definition Status_ok :: "Status \<Rightarrow> bool" where
  "Status_ok s \<longleftrightarrow> st_type s = OK"

definition mk_status :: "StatusType \<Rightarrow> string \<Rightarrow> Status" where
  "mk_status t msg = \<lparr>st_type = t, err_msg = msg\<rparr>"

text \<open>
  A step of a \<open>Status\<close>-returning routine yields the status and the new state. The macro
  continues with the state after the step when the status is \<open>OK\<close> and returns the pair
  otherwise.
\<close>

definition STATUS_CHECK ::
  "(Status \<times> 's) outcome \<Rightarrow> ('s \<Rightarrow> (Status \<times> 's) outcome) \<Rightarrow> (Status \<times> 's) outcome" where
  "STATUS_CHECK r k = bnd r (\<lambda>(status, s). if Status_ok status then k s else Inr (status, s))"

datatype StatementType = INVALID | SELECT | DELETE | INSERT

record Statement =
  stmt_type :: StatementType
  stmt_st :: string

definition Statement_default :: Statement where
  "Statement_default = \<lparr>stmt_type = INVALID, stmt_st = ''''\<rparr>"

definition PROMPT :: string where "PROMPT = ''db > ''"
definition CMD_PREFIX :: string where "CMD_PREFIX = ''.''"
definition CMD_EXIT :: string where "CMD_EXIT = ''.exit''"
definition ST_SELECT :: string where "ST_SELECT = ''select''"
definition ST_DELETE :: string where "ST_DELETE = ''delete''"
definition ST_INSERT :: string where "ST_INSERT = ''insert''"

definition MAX_STORE_SIZE :: nat where "MAX_STORE_SIZE = 1024 * 1024 * 1024"

lemma Status_ok_default [simp]: "Status_ok Status_default"
  by (simp add: Status_ok_def Status_default_def)

lemma Status_ok_mk_status [simp]: "Status_ok (mk_status t msg) \<longleftrightarrow> t = OK"
  by (simp add: Status_ok_def mk_status_def)

lemma st_type_default [simp]: "st_type Status_default = OK"
  by (simp add: Status_default_def)

lemma st_type_mk_status [simp]: "st_type (mk_status t msg) = t"
  by (simp add: mk_status_def)

lemma STATUS_CHECK_ok [simp]: "Status_ok st \<Longrightarrow> STATUS_CHECK (Inr (st, s)) k = k s"
  by (simp add: STATUS_CHECK_def)

lemma STATUS_CHECK_fail [simp]: "\<not> Status_ok st \<Longrightarrow> STATUS_CHECK (Inr (st, s)) k = Inr (st, s)"
  by (simp add: STATUS_CHECK_def)

lemma STATUS_CHECK_fault [simp]: "STATUS_CHECK (Inl e) k = Inl e"
  by (simp add: STATUS_CHECK_def)

end
