(* ===== verification/Db_Schema.thy ===== *)
theory Db_Schema
  imports Db_Status
begin

text \<open>
  The row type \<open>UserSchema\<close> (\<open>db_lab/user_schema.h\<close>). The struct is 292 bytes: the
  id at offset 0, the two character arrays at 4 and 36, and one byte of tail padding that
  \<open>memcpy\<close> copies with the rest. \<open>SerializeTo\<close> and \<open>DeserializeFrom\<close> copy the object
  representation, \<open>ToString\<close> prints the arrays as C strings, that is up to the first zero
  byte found from the start of the array on, wherever in the object that byte lies.
\<close>

definition NameSize :: nat where "NameSize = 32"
definition EMailSize :: nat where "EMailSize = 255"
definition sizeof_UserSchema :: nat where "sizeof_UserSchema = 292"

record UserSchema =
  us_id :: u32
  us_username :: "byte list"
  us_email :: "byte list"
  us_pad :: byte

definition UserSchema_wf :: "UserSchema \<Rightarrow> bool" where
  "UserSchema_wf u \<longleftrightarrow> length (us_username u) = NameSize \<and> length (us_email u) = EMailSize"

definition byte_of_char :: "char \<Rightarrow> byte" where
  "byte_of_char c = word_of_nat (of_char c)"

definition char_of_byte :: "byte \<Rightarrow> char" where
  "char_of_byte b = char_of (unat b)"

text \<open>\<open>memset(dst, 0, n)\<close> followed by \<open>strncpy(dst, s, n)\<close>.\<close>

definition strncpy_bytes :: "nat \<Rightarrow> string \<Rightarrow> byte list" where
  "strncpy_bytes n s =
     (let c = take n (takeWhile (\<lambda>b. b \<noteq> 0) (map byte_of_char s))
      in c @ replicate (n - length c) 0)"

definition UserSchema_SetUserName :: "string option \<Rightarrow> UserSchema \<Rightarrow> UserSchema" where
  "UserSchema_SetUserName un u =
     (let u = u\<lparr>us_username := replicate NameSize 0\<rparr> in
      case un of None \<Rightarrow> u | Some s \<Rightarrow> u\<lparr>us_username := strncpy_bytes NameSize s\<rparr>)"

definition UserSchema_SetEmail :: "string option \<Rightarrow> UserSchema \<Rightarrow> UserSchema" where
  "UserSchema_SetEmail e u =
     (let u = u\<lparr>us_email := replicate EMailSize 0\<rparr> in
      case e of None \<Rightarrow> u | Some s \<Rightarrow> u\<lparr>us_email := strncpy_bytes EMailSize s\<rparr>)"

definition u32_bytes :: "u32 \<Rightarrow> byte list" where
  "u32_bytes v = [ucast v, ucast (drop_bit 8 v), ucast (drop_bit 16 v), ucast (drop_bit 24 v)]"

text \<open>The object representation of a row.\<close>

definition UserSchema_bytes :: "UserSchema \<Rightarrow> byte list" where
  "UserSchema_bytes u = u32_bytes (us_id u) @ us_username u @ us_email u @ [us_pad u]"

definition UserSchema_SerializeTo :: "UserSchema \<Rightarrow> mem \<Rightarrow> nat \<Rightarrow> mem" where
  "UserSchema_SerializeTo u destination off = mwrite destination off (UserSchema_bytes u)"

definition UserSchema_DeserializeFrom :: "mem \<Rightarrow> nat \<Rightarrow> UserSchema" where
  "UserSchema_DeserializeFrom source off =
     \<lparr>us_id = load32 source off,
      us_username = mread source (off + 4) NameSize,
      us_email = mread source (off + 4 + NameSize) EMailSize,
      us_pad = source (off + 291)\<rparr>"

text \<open>Stream output of a character array that starts at the head of \<open>bs\<close>: the bytes up
  to the first zero; running off the object is a fault.\<close>

definition cstr :: "byte list \<Rightarrow> string outcome" where
  "cstr bs = (if 0 \<in> set bs then Inr (map char_of_byte (takeWhile (\<lambda>b. b \<noteq> 0) bs))
              else Inl OutOfBounds)"

definition UserSchema_ToString :: "UserSchema \<Rightarrow> string outcome" where
  "UserSchema_ToString u =
     bnd (cstr (drop 4 (UserSchema_bytes u))) (\<lambda>username.
     bnd (cstr (drop (4 + NameSize) (UserSchema_bytes u))) (\<lambda>email.
       Inr (''('' @ show_nat (unat (us_id u)) @ '', '' @ username @ '', '' @ email @ '')'')))"

section \<open>Layout facts\<close>

lemmas schema_sizes = NameSize_def EMailSize_def sizeof_UserSchema_def

lemma length_UserSchema_bytes [simp]:
  "UserSchema_wf u \<Longrightarrow> length (UserSchema_bytes u) = sizeof_UserSchema"
  by (simp add: UserSchema_bytes_def UserSchema_wf_def u32_bytes_def schema_sizes)

lemma length_strncpy_bytes [simp]: "length (strncpy_bytes n s) = n"
  by (simp add: strncpy_bytes_def Let_def)

lemma UserSchema_wf_SetUserName [simp]:
  "UserSchema_wf u \<Longrightarrow> UserSchema_wf (UserSchema_SetUserName un u)"
  by (auto simp: UserSchema_wf_def UserSchema_SetUserName_def Let_def split: option.split)

lemma UserSchema_wf_SetEmail [simp]:
  "UserSchema_wf u \<Longrightarrow> UserSchema_wf (UserSchema_SetEmail e u)"
  by (auto simp: UserSchema_wf_def UserSchema_SetEmail_def Let_def split: option.split)

lemma load32_mwrite_u32_bytes:
  "load32 (mwrite m a (u32_bytes v @ bs)) a = v"
proof -
  have "load32 (mwrite m a (u32_bytes v @ bs)) a = load32 (store32 m a v) a"
    by (rule load32_cong) (auto simp: mwrite_def store32_def u32_bytes_def nth_Cons less_Suc_eq
        numeral_eq_Suc split: nat.split)
  then show ?thesis by simp
qed

lemma drop4_bytes: "drop 4 (UserSchema_bytes u) = us_username u @ us_email u @ [us_pad u]"
  by (simp add: UserSchema_bytes_def u32_bytes_def)

lemma drop36_bytes:
  assumes "UserSchema_wf u"
  shows "drop (4 + NameSize) (UserSchema_bytes u) = us_email u @ [us_pad u]"
proof -
  have "drop (4 + NameSize) (UserSchema_bytes u) = drop NameSize (drop 4 (UserSchema_bytes u))"
    by (simp add: add.commute)
  then show ?thesis using assms by (simp add: drop4_bytes UserSchema_wf_def)
qed

lemma mread_UserSchema_username:
  assumes "UserSchema_wf u"
  shows "mread (mwrite m a (UserSchema_bytes u)) (a + 4) NameSize = us_username u"
proof -
  have "mread (mwrite m a (UserSchema_bytes u)) (a + 4) NameSize
      = take NameSize (drop 4 (UserSchema_bytes u))"
    using assms by (intro mread_mwrite_part) (simp add: schema_sizes)
  also have "\<dots> = us_username u"
    using assms by (simp add: UserSchema_bytes_def u32_bytes_def UserSchema_wf_def)
  finally show ?thesis .
qed

lemma mread_UserSchema_email:
  assumes "UserSchema_wf u"
  shows "mread (mwrite m a (UserSchema_bytes u)) (a + 4 + NameSize) EMailSize = us_email u"
proof -
  have "mread (mwrite m a (UserSchema_bytes u)) (a + (4 + NameSize)) EMailSize
      = take EMailSize (drop (4 + NameSize) (UserSchema_bytes u))"
    using assms by (intro mread_mwrite_part) (simp add: schema_sizes)
  also have "\<dots> = us_email u"
    using assms by (simp add: drop36_bytes UserSchema_wf_def)
  finally show ?thesis by (simp add: add.assoc)
qed

lemma UserSchema_bytes_pad:
  "UserSchema_wf u \<Longrightarrow> UserSchema_bytes u ! 291 = us_pad u"
  by (simp add: UserSchema_bytes_def u32_bytes_def UserSchema_wf_def nth_append schema_sizes)

lemma deserialize_serialize:
  assumes "UserSchema_wf u"
  shows "UserSchema_DeserializeFrom (UserSchema_SerializeTo u m off) off = u"
proof -
  have "load32 (mwrite m off (UserSchema_bytes u)) off = us_id u"
    by (simp add: UserSchema_bytes_def load32_mwrite_u32_bytes)
  moreover have "mwrite m off (UserSchema_bytes u) (off + 291) = us_pad u"
    using assms by (simp add: mwrite_def UserSchema_bytes_pad schema_sizes)
  ultimately show ?thesis
    using assms by (simp add: UserSchema_DeserializeFrom_def UserSchema_SerializeTo_def
        mread_UserSchema_username mread_UserSchema_email)
qed

lemma deserialize_cong:
  "(\<And>i. i < 292 \<Longrightarrow> m (a + i) = m' (b + i)) \<Longrightarrow>
   UserSchema_DeserializeFrom m a = UserSchema_DeserializeFrom m' b"
  unfolding UserSchema_DeserializeFrom_def schema_sizes
  by (auto intro!: load32_cong mread_cong simp: add.assoc)

lemma UserSchema_wf_Deserialize [simp]: "UserSchema_wf (UserSchema_DeserializeFrom m a)"
  by (simp add: UserSchema_wf_def UserSchema_DeserializeFrom_def)

section \<open>Printing\<close>

lemma char_of_byte_of_char [simp]: "char_of_byte (byte_of_char c) = c"
proof -
  have "of_char c < (256 :: nat)" by simp
  then have "unat (word_of_nat (of_char c) :: byte) = of_char c"
    by (simp add: unat_of_nat)
  then show ?thesis by (simp add: char_of_byte_def byte_of_char_def)
qed

lemma byte_of_char_eq_0 [simp]: "byte_of_char c = 0 \<longleftrightarrow> c = CHR 0x00"
proof
  assume "byte_of_char c = 0"
  then have "char_of_byte (byte_of_char c) = char_of_byte 0" by (rule arg_cong)
  then have "c = char_of_byte 0" by (simp only: char_of_byte_of_char)
  then show "c = CHR 0x00" by (simp add: char_of_byte_def char_of_def)
qed (simp add: byte_of_char_def)

text \<open>A string with no zero byte, as \<open>c_str()\<close> of ordinary text.\<close>

definition plain_text :: "string \<Rightarrow> bool" where
  "plain_text s \<longleftrightarrow> CHR 0x00 \<notin> set s"

lemma takeWhile_plain:
  "plain_text s \<Longrightarrow> takeWhile (\<lambda>b. b \<noteq> 0) (map byte_of_char s) = map byte_of_char s"
  by (auto simp: plain_text_def takeWhile_eq_all_conv)

lemma strncpy_short:
  "plain_text s \<Longrightarrow> length s \<le> n \<Longrightarrow>
   strncpy_bytes n s = map byte_of_char s @ replicate (n - length s) 0"
  by (simp add: strncpy_bytes_def takeWhile_plain)

lemma takeWhile_text:
  "plain_text s \<Longrightarrow> takeWhile (\<lambda>b. b \<noteq> 0) (map byte_of_char s @ 0 # bs) = map byte_of_char s"
  by (induction s) (auto simp: plain_text_def)

lemma cstr_text: "plain_text s \<Longrightarrow> cstr (map byte_of_char s @ 0 # bs) = Inr s"
  by (simp add: cstr_def takeWhile_text comp_def)

lemma cstr_padded:
  "plain_text s \<Longrightarrow> length s < n \<Longrightarrow> cstr (strncpy_bytes n s @ bs) = Inr s"
  by (cases "n - length s") (auto simp: strncpy_short cstr_text)

lemma set_user_fields:
  "us_username (UserSchema_SetEmail e u) = us_username u"
  "us_email (UserSchema_SetEmail (Some em) u) = strncpy_bytes EMailSize em"
  "us_username (UserSchema_SetUserName (Some un) u) = strncpy_bytes NameSize un"
  "us_email (UserSchema_SetUserName n u) = us_email u"
  "us_id (UserSchema_SetEmail e u) = us_id u"
  "us_id (UserSchema_SetUserName n u) = us_id u"
  "us_pad (UserSchema_SetEmail e u) = us_pad u"
  "us_pad (UserSchema_SetUserName n u) = us_pad u"
  by (auto simp: UserSchema_SetEmail_def UserSchema_SetUserName_def Let_def split: option.split)

section \<open>Properties\<close>

text \<open>Serialising a row to a buffer and deserialising it from the same offset gives the
  row back, and no byte outside the row's 292 bytes is touched.\<close>

theorem UserSchema_roundtrip:
  assumes "UserSchema_wf u"
  shows "UserSchema_DeserializeFrom (UserSchema_SerializeTo u m off) off = u \<and>
    (\<forall>i. i < off \<or> off + sizeof_UserSchema \<le> i \<longrightarrow> UserSchema_SerializeTo u m off i = m i)"
proof (intro conjI)
  show "UserSchema_DeserializeFrom (UserSchema_SerializeTo u m off) off = u"
    using assms by (rule deserialize_serialize)
  show "\<forall>i. i < off \<or> off + sizeof_UserSchema \<le> i \<longrightarrow> UserSchema_SerializeTo u m off i = m i"
    using assms by (simp add: UserSchema_SerializeTo_def mwrite_out)
qed

definition sample_user :: UserSchema where
  "sample_user = \<lparr>us_id = 7, us_username = replicate 32 65, us_email = replicate 255 66, us_pad = 0\<rparr>"

theorem UserSchema_roundtrip_witness:
  "UserSchema_DeserializeFrom (UserSchema_SerializeTo sample_user (\<lambda>_. 0) 296) 296 = sample_user \<and>
   UserSchema_SerializeTo sample_user (\<lambda>_. 0) 296 588 = 0"
proof -
  have "UserSchema_wf sample_user"
    by (simp add: UserSchema_wf_def sample_user_def schema_sizes)
  from UserSchema_roundtrip [OF this, of "\<lambda>_. 0" 296] show ?thesis
    by (simp add: schema_sizes)
qed

text \<open>What a row prints after its name and address were set from ordinary text that
  leaves room for the terminating zero in both arrays: the id and the two texts. A name
  that fills all 32 bytes has no terminating zero, so the name column continues with
  the bytes of the address.\<close>

theorem UserSchema_ToString_text:
  assumes "UserSchema_wf u" and "plain_text un" and "plain_text em"
    and "length un \<le> NameSize" and "length em < EMailSize"
  shows "UserSchema_ToString (UserSchema_SetEmail (Some em) (UserSchema_SetUserName (Some un) u)) =
    Inr (''('' @ show_nat (unat (us_id u)) @ '', '' @
      (if length un = NameSize then un @ em else un) @ '', '' @ em @ '')'')"
proof -
  let ?v = "UserSchema_SetEmail (Some em) (UserSchema_SetUserName (Some un) u)"
  have wf: "UserSchema_wf ?v" using assms(1) by simp
  have email: "cstr (strncpy_bytes EMailSize em @ [us_pad u]) = Inr em"
    using assms(3,5) by (simp add: cstr_padded)
  have name: "cstr (strncpy_bytes NameSize un @ strncpy_bytes EMailSize em @ [us_pad u])
      = Inr (if length un = NameSize then un @ em else un)"
  proof (cases "length un = NameSize")
    case True
    obtain k where "EMailSize - length em = Suc k"
      using assms(5) by (cases "EMailSize - length em") auto
    moreover have "plain_text (un @ em)" using assms(2,3) by (auto simp: plain_text_def)
    ultimately show ?thesis
      using True assms cstr_text [of "un @ em" "replicate k 0 @ [us_pad u]"]
      by (simp add: strncpy_short)
  next
    case False
    then show ?thesis using assms by (simp add: cstr_padded)
  qed
  show ?thesis
    by (simp add: UserSchema_ToString_def drop4_bytes drop36_bytes [OF wf] name email set_user_fields)
qed

theorem UserSchema_ToString_text_witness:
  "UserSchema_ToString (UserSchema_SetEmail (Some ''x'')
     (UserSchema_SetUserName (Some (replicate 32 (CHR ''a''))) sample_user)) =
   Inr (''(7, '' @ replicate 32 (CHR ''a'') @ ''x, x)'')"
proof -
  have "UserSchema_wf sample_user"
    by (simp add: UserSchema_wf_def sample_user_def schema_sizes)
  from UserSchema_ToString_text [OF this, of "replicate 32 (CHR ''a'')" "''x''"] show ?thesis
    by (simp add: plain_text_def schema_sizes sample_user_def show_nat.simps digit_char_def)
qed

end
