(* ===== verification/Db_Pager.thy ===== *)
theory Db_Pager
  imports Db_Schema
begin

text \<open>
  The page cache of the database (\<open>db_lab/pager.h\<close>): a table of page pointers over
  one file. A page pointer is modelled by its page number: \<open>pages[num]\<close> is the block of
  bytes, and whoever holds the pointer reads and writes that entry, so that two pointers
  to the same page alias as they do in the program.

  The operating system is a parameter: \<open>sys_env\<close> says which calls return \<open>-1\<close>, a
  file is its bytes and its length, \<open>read\<close> delivers what the file holds and \<open>write\<close>
  writes the whole page when they do not fail. \<open>calloc\<close> succeeds.
\<close>

record posix_file =
  pf_bytes :: mem
  pf_len :: nat

record sys_env =
  sys_open_err :: bool
  sys_fd :: int
  sys_read_err :: "nat \<Rightarrow> bool"
  sys_write_err :: "nat \<Rightarrow> bool"

definition pf_content :: "posix_file \<Rightarrow> mem" where
  "pf_content f = (\<lambda>i. if i < pf_len f then pf_bytes f i else 0)"

definition sys_read :: "posix_file \<Rightarrow> nat \<Rightarrow> nat \<Rightarrow> mem \<Rightarrow> mem" where
  "sys_read f off n buf = (\<lambda>i. if i < n \<and> off + i < pf_len f then pf_bytes f (off + i) else buf i)"

definition sys_write :: "posix_file \<Rightarrow> nat \<Rightarrow> nat \<Rightarrow> mem \<Rightarrow> posix_file" where
  "sys_write f off n buf =
     f\<lparr>pf_bytes := memcpy (pf_content f) off buf 0 n, pf_len := max (pf_len f) (off + n)\<rparr>"

text \<open>The system behaves: no call fails.\<close>

definition sys_reliable :: "sys_env \<Rightarrow> bool" where
  "sys_reliable env \<longleftrightarrow> \<not> sys_open_err env \<and> (\<forall>off. \<not> sys_read_err env off) \<and>
     (\<forall>off. \<not> sys_write_err env off)"

definition PAGE_SIZE :: nat where "PAGE_SIZE = 4 * 1024"
definition MAX_PAGES :: nat where "MAX_PAGES = MAX_STORE_SIZE div PAGE_SIZE"
definition ROWS_PER_PAGE :: nat where "ROWS_PER_PAGE = PAGE_SIZE div sizeof_UserSchema"

record Pager =
  pg_file :: posix_file
  file_descriptor :: int
  file_length :: u32
  num_pages :: u32
  pages :: "nat \<Rightarrow> mem option"

definition Pager_Open :: "sys_env \<Rightarrow> posix_file \<Rightarrow> Pager option" where
  "Pager_Open env f =
     (if sys_open_err env then None
      else (let len = (word_of_nat (pf_len f) :: u32) in
        Some \<lparr>pg_file = f, file_descriptor = sys_fd env, file_length = len,
              num_pages = len div word_of_nat PAGE_SIZE, pages = (\<lambda>_. None)\<rparr>))"

definition page_offset :: "u32 \<Rightarrow> nat" where
  "page_offset num = unat (num * word_of_nat PAGE_SIZE)"

definition Pager_OnPageMissing :: "sys_env \<Rightarrow> u32 \<Rightarrow> Pager \<Rightarrow> (Status \<times> Pager) outcome" where
  "Pager_OnPageMissing env num p =
     (if MAX_PAGES \<le> unat num then Inl OutOfBounds
      else
        let p = p\<lparr>pages := (pages p)(unat num \<mapsto> (\<lambda>_. 0))\<rparr>;
            off = page_offset num
        in if num < num_pages p \<and> sys_read_err env off
           then Inr (mk_status PAGE_LOAD_ERR (''PAGE_LOAD_ERR: load page '' @ show_nat (unat num)), p)
           else
             let p = (if num < num_pages p
                      then p\<lparr>pages := (pages p)(unat num \<mapsto> sys_read (pg_file p) off PAGE_SIZE (\<lambda>_. 0))\<rparr>
                      else p);
                 p = (if num_pages p \<le> num then p\<lparr>num_pages := num + 1\<rparr> else p)
             in Inr (Status_default, p))"

definition Pager_FlushPage :: "sys_env \<Rightarrow> u32 \<Rightarrow> Pager \<Rightarrow> (Status \<times> Pager) outcome" where
  "Pager_FlushPage env num p =
     (if MAX_PAGES < unat num
      then Inr (mk_status PAGE_NUM_OVERFLOW (''PAGE_NUM_OVERFLOW: '' @ show_nat (unat num)), p)
      else if MAX_PAGES \<le> unat num then Inl OutOfBounds
      else case pages p (unat num) of
          None \<Rightarrow> Inr (Status_default, p)
        | Some page \<Rightarrow>
            if sys_write_err env (page_offset num)
            then Inr (mk_status PAGE_FLUSH_ERR (''PAGE_FLUSH_ERR: '' @ show_nat (unat num)), p)
            else Inr (Status_default,
                   p\<lparr>pg_file := sys_write (pg_file p) (page_offset num) PAGE_SIZE page\<rparr>))"

text \<open>\<open>Close\<close> visits every slot; a page that cannot be flushed stays cached and its
  message goes to standard error, the list returned.\<close>

fun Pager_Close_loop ::
  "sys_env \<Rightarrow> nat list \<Rightarrow> Pager \<Rightarrow> string list \<Rightarrow> (Pager \<times> string list) outcome" where
  "Pager_Close_loop env [] p errs = Inr (p, errs)"
| "Pager_Close_loop env (num # nums) p errs =
     (if pages p num = None then Pager_Close_loop env nums p errs
      else bnd (Pager_FlushPage env (word_of_nat num) p) (\<lambda>(status, p).
        if \<not> Status_ok status then Pager_Close_loop env nums p (errs @ [err_msg status])
        else Pager_Close_loop env nums (p\<lparr>pages := (pages p)(num := None)\<rparr>) errs))"

definition Pager_Close :: "sys_env \<Rightarrow> Pager \<Rightarrow> (Pager \<times> string list) outcome" where
  "Pager_Close env p = Pager_Close_loop env [0..<MAX_PAGES] p []"

text \<open>A page pointer is handed out only with an \<open>OK\<close> status; it is the page number.\<close>

definition Pager_GetPage :: "sys_env \<Rightarrow> u32 \<Rightarrow> Pager \<Rightarrow> (Status \<times> Pager) outcome" where
  "Pager_GetPage env num p =
     (let status = (if MAX_PAGES < unat num
        then mk_status PAGE_NUM_OVERFLOW (''PAGE_NUM_OVERFLOW: '' @ show_nat (unat num))
        else Status_default)
      in if MAX_PAGES \<le> unat num then Inl OutOfBounds
         else if pages p (unat num) = None then Pager_OnPageMissing env num p
         else Inr (status, p))"

definition Pager_PageNums :: "Pager \<Rightarrow> u32" where
  "Pager_PageNums p = num_pages p"

definition Pager_destroy :: "sys_env \<Rightarrow> Pager \<Rightarrow> (Pager \<times> string list) outcome" where
  "Pager_destroy env p = bnd (Pager_Close env p) (\<lambda>(p, errs).
     Inr (if file_descriptor p \<noteq> -1 then p\<lparr>file_descriptor := -1\<rparr> else p, errs))"

section \<open>Sizes and offsets\<close>

lemmas pager_sizes = PAGE_SIZE_def MAX_STORE_SIZE_def

lemma MAX_PAGES_eq: "MAX_PAGES = 262144"
  by (simp add: MAX_PAGES_def pager_sizes)

lemma PAGE_SIZE_eq: "PAGE_SIZE = 4096"
  by (simp add: PAGE_SIZE_def)

lemma page_offset_eq: "unat num < MAX_PAGES \<Longrightarrow> page_offset num = unat num * 4096"
  by (simp add: page_offset_def PAGE_SIZE_eq MAX_PAGES_eq unat_mult_small)

lemma pf_content_sys_write [simp]:
  "pf_content (sys_write f off n buf) i =
     (if off \<le> i \<and> i < off + n then buf (i - off) else pf_content f i)"
  by (auto simp: pf_content_def sys_write_def memcpy_def)

lemma pf_len_sys_write [simp]: "pf_len (sys_write f off n buf) = max (pf_len f) (off + n)"
  by (simp add: sys_write_def)

lemma sys_read_content:
  "i < n \<Longrightarrow> sys_read f off n (\<lambda>_. 0) i = pf_content f (off + i)"
  by (simp add: sys_read_def pf_content_def)

lemma in_page_iff:
  fixes i n :: nat
  shows "n * 4096 \<le> i \<and> i < n * 4096 + 4096 \<longleftrightarrow> i div 4096 = n"
  by auto

section \<open>Closing\<close>

lemma FlushPage_ok:
  assumes "sys_reliable env" and "n < MAX_PAGES" and "pages p n = Some page"
  shows "Pager_FlushPage env (word_of_nat n) p =
    Inr (Status_default, p\<lparr>pg_file := sys_write (pg_file p) (n * 4096) 4096 page\<rparr>)"
proof -
  have "unat (word_of_nat n :: u32) = n"
    using assms(2) by (simp add: unat_of_nat MAX_PAGES_eq)
  then show ?thesis
    using assms by (simp add: Pager_FlushPage_def sys_reliable_def page_offset_eq PAGE_SIZE_eq)
qed

definition cached_byte :: "Pager \<Rightarrow> nat \<Rightarrow> byte" where
  "cached_byte p i = (case pages p (i div 4096) of
     Some page \<Rightarrow> page (i mod 4096) | None \<Rightarrow> pf_content (pg_file p) i)"

lemma Close_loop_ok:
  assumes "sys_reliable env"
  shows "distinct ns \<Longrightarrow> \<forall>n \<in> set ns. n < MAX_PAGES \<Longrightarrow>
    \<exists>p'. Pager_Close_loop env ns p errs = Inr (p', errs) \<and>
      (\<forall>n. pages p' n = (if n \<in> set ns then None else pages p n)) \<and>
      num_pages p' = num_pages p \<and> file_descriptor p' = file_descriptor p \<and>
      pf_len (pg_file p) \<le> pf_len (pg_file p') \<and>
      pf_len (pg_file p') \<le> max (pf_len (pg_file p)) (MAX_PAGES * 4096) \<and>
      (\<forall>n \<in> set ns. pages p n \<noteq> None \<longrightarrow> (n + 1) * 4096 \<le> pf_len (pg_file p')) \<and>
      (\<forall>i. pf_content (pg_file p') i =
         (if i div 4096 \<in> set ns then cached_byte p i else pf_content (pg_file p) i))"
proof (induction ns arbitrary: p)
  case Nil
  show ?case by (intro exI [of _ p]) auto
next
  case (Cons n ns)
  show ?case
  proof (cases "pages p n")
    case None
    obtain p' where "Pager_Close_loop env ns p errs = Inr (p', errs)"
      and p': "\<forall>m. pages p' m = (if m \<in> set ns then None else pages p m)"
      and rest: "num_pages p' = num_pages p" "file_descriptor p' = file_descriptor p"
        "pf_len (pg_file p) \<le> pf_len (pg_file p')"
        "pf_len (pg_file p') \<le> max (pf_len (pg_file p)) (MAX_PAGES * 4096)"
        "\<forall>n \<in> set ns. pages p n \<noteq> None \<longrightarrow> (n + 1) * 4096 \<le> pf_len (pg_file p')"
      and c: "\<forall>i. pf_content (pg_file p') i =
         (if i div 4096 \<in> set ns then cached_byte p i else pf_content (pg_file p) i)"
      using Cons.IH [of p] Cons.prems by auto
    moreover have "cached_byte p i = pf_content (pg_file p) i" if "i div 4096 = n" for i
      using that None by (simp add: cached_byte_def)
    ultimately show ?thesis
      using None by (intro exI [of _ p']) auto
  next
    case (Some page)
    let ?q = "p\<lparr>pg_file := sys_write (pg_file p) (n * 4096) 4096 page, pages := (pages p)(n := None)\<rparr>"
    obtain p' where r: "Pager_Close_loop env ns ?q errs = Inr (p', errs)"
      and p': "\<forall>m. pages p' m = (if m \<in> set ns then None else pages ?q m)"
      and rest: "num_pages p' = num_pages ?q" "file_descriptor p' = file_descriptor ?q"
        "pf_len (pg_file ?q) \<le> pf_len (pg_file p')"
        "pf_len (pg_file p') \<le> max (pf_len (pg_file ?q)) (MAX_PAGES * 4096)"
        "\<forall>n \<in> set ns. pages ?q n \<noteq> None \<longrightarrow> (n + 1) * 4096 \<le> pf_len (pg_file p')"
      and c: "\<forall>i. pf_content (pg_file p') i =
         (if i div 4096 \<in> set ns then cached_byte ?q i else pf_content (pg_file ?q) i)"
      using Cons.IH [of ?q] Cons.prems by auto
    have n: "n < MAX_PAGES" "n \<notin> set ns" using Cons.prems by auto
    have "Pager_Close_loop env (n # ns) p errs = Inr (p', errs)"
      using r Some FlushPage_ok [OF assms n(1) Some] by simp
    moreover have "pf_content (pg_file p') i =
        (if i div 4096 \<in> set (n # ns) then cached_byte p i else pf_content (pg_file p) i)" for i
      using c n(2) Some in_page_iff [of n i]
      by (auto simp: cached_byte_def minus_mult_div_eq_mod [symmetric] mult.commute split: option.split)
    moreover have "(m + 1) * 4096 \<le> pf_len (pg_file p')"
      if "m \<in> set (n # ns)" and "pages p m \<noteq> None" for m
    proof (cases "m = n")
      case True
      then show ?thesis using rest(3) by simp
    next
      case False
      then show ?thesis using rest(5) that by simp
    qed
    ultimately show ?thesis
      using p' rest(1-4) n by (intro exI [of _ p'] conjI) auto
  qed
qed

section \<open>Properties\<close>

lemma GetPage_cached:
  "unat num < MAX_PAGES \<Longrightarrow> pages p (unat num) = Some page \<Longrightarrow>
   Pager_GetPage env num p = Inr (Status_default, p)"
  by (simp add: Pager_GetPage_def)

lemma GetPage_fresh:
  "unat num < MAX_PAGES \<Longrightarrow> pages p (unat num) = None \<Longrightarrow> num_pages p \<le> num \<Longrightarrow>
   Pager_GetPage env num p =
     Inr (Status_default, p\<lparr>pages := (pages p)(unat num \<mapsto> (\<lambda>_. 0)), num_pages := num + 1\<rparr>)"
  by (auto simp: Pager_GetPage_def Pager_OnPageMissing_def Let_def)

lemma GetPage_load:
  "unat num < MAX_PAGES \<Longrightarrow> pages p (unat num) = None \<Longrightarrow> num < num_pages p \<Longrightarrow>
   \<not> sys_read_err env (page_offset num) \<Longrightarrow>
   Pager_GetPage env num p = Inr (Status_default,
     p\<lparr>pages := (pages p)(unat num \<mapsto> sys_read (pg_file p) (unat num * 4096) 4096 (\<lambda>_. 0))\<rparr>)"
  by (auto simp: Pager_GetPage_def Pager_OnPageMissing_def Let_def page_offset_eq PAGE_SIZE_eq)

text \<open>C5. Durability: closing the pager on a reliable system empties the cache without an
  error message, and a pager opened afterwards on the resulting file delivers, for every
  page that was cached, exactly the bytes it had at the time of the close.\<close>

theorem Pager_close_reopen:
  assumes "sys_reliable env" and "pages p n = Some page" and "n < MAX_PAGES"
    and "pf_len (pg_file p) \<le> MAX_STORE_SIZE"
  shows "\<exists>p' q st q'. Pager_Close env p = Inr (p', []) \<and> (\<forall>m < MAX_PAGES. pages p' m = None) \<and>
    Pager_Open env (pg_file p') = Some q \<and>
    Pager_GetPage env (word_of_nat n) q = Inr (st, q') \<and> Status_ok st \<and>
    (\<exists>page'. pages q' n = Some page' \<and> (\<forall>i < PAGE_SIZE. page' i = page i))"
proof -
  obtain p' where close: "Pager_Close env p = Inr (p', [])"
    and none: "\<forall>m. pages p' m = (if m \<in> set [0..<MAX_PAGES] then None else pages p m)"
    and len: "pf_len (pg_file p') \<le> max (pf_len (pg_file p)) (MAX_PAGES * 4096)"
      "\<forall>n \<in> set [0..<MAX_PAGES]. pages p n \<noteq> None \<longrightarrow> (n + 1) * 4096 \<le> pf_len (pg_file p')"
    and content: "\<forall>i. pf_content (pg_file p') i =
      (if i div 4096 \<in> set [0..<MAX_PAGES] then cached_byte p i else pf_content (pg_file p) i)"
    using Close_loop_ok [OF assms(1), of "[0..<MAX_PAGES]" p "[]"] unfolding Pager_Close_def by auto
  let ?L = "pf_len (pg_file p')"
  obtain q where q: "Pager_Open env (pg_file p') = Some q" "pg_file q = pg_file p'"
      "pages q = (\<lambda>_. None)" "num_pages q = word_of_nat ?L div word_of_nat PAGE_SIZE"
    using assms(1) by (simp add: Pager_Open_def sys_reliable_def Let_def)
  have L: "?L \<le> 2 ^ 30" using len(1) assms(4) by (simp add: MAX_PAGES_eq pager_sizes)
  have nL: "(n + 1) * 4096 \<le> ?L" using len(2) assms(2,3) by simp
  have un: "unat (word_of_nat n :: u32) = n" using assms(3) by (simp add: unat_of_nat MAX_PAGES_eq)
  have "unat (num_pages q) = ?L div 4096"
    using L by (simp add: q PAGE_SIZE_eq unat_div unat_of_nat)
  then have lt: "word_of_nat n < num_pages q"
    using nL by (simp add: word_less_nat_alt un)
  have "Pager_GetPage env (word_of_nat n) q = Inr (Status_default,
     q\<lparr>pages := (pages q)(n \<mapsto> sys_read (pg_file q) (n * 4096) 4096 (\<lambda>_. 0))\<rparr>)"
    using GetPage_load [of "word_of_nat n" q env] assms(1,3) lt
    by (simp add: un q sys_reliable_def)
  moreover have "sys_read (pg_file q) (n * 4096) 4096 (\<lambda>_. 0) i = page i" if "i < PAGE_SIZE" for i
    using that assms(2,3) content
    by (simp add: sys_read_content q PAGE_SIZE_eq cached_byte_def)
  ultimately show ?thesis
    using close none q(1) by (intro exI [of _ p'] exI [of _ q] exI conjI) auto
qed

definition reliable_env :: sys_env where
  "reliable_env = \<lparr>sys_open_err = False, sys_fd = 3, sys_read_err = (\<lambda>_. False),
     sys_write_err = (\<lambda>_. False)\<rparr>"

definition sample_pager :: Pager where
  "sample_pager = \<lparr>pg_file = \<lparr>pf_bytes = (\<lambda>_. 0), pf_len = 0\<rparr>, file_descriptor = 3,
     file_length = 0, num_pages = 1, pages = [0 \<mapsto> (\<lambda>i. word_of_nat i)]\<rparr>"

lemma reliable_env_reliable [simp]: "sys_reliable reliable_env"
  by (simp add: sys_reliable_def reliable_env_def)

theorem Pager_close_reopen_witness:
  "\<exists>p' q st q'. Pager_Close reliable_env sample_pager = Inr (p', []) \<and>
    (\<forall>m < MAX_PAGES. pages p' m = None) \<and>
    Pager_Open reliable_env (pg_file p') = Some q \<and>
    Pager_GetPage reliable_env 0 q = Inr (st, q') \<and> Status_ok st \<and>
    (\<exists>page'. pages q' 0 = Some page' \<and> (\<forall>i < PAGE_SIZE. page' i = word_of_nat i))"
  using Pager_close_reopen [OF reliable_env_reliable, of sample_pager 0 "\<lambda>i. word_of_nat i"]
  by (simp add: sample_pager_def MAX_PAGES_eq)

text \<open>A failed load is remembered as a page of zeros: \<open>GetPage\<close> reports
  \<open>PAGE_LOAD_ERR\<close>, but the slot now holds a zeroed block, so the next \<open>GetPage\<close> of the
  same page answers \<open>OK\<close> with zeros instead of the page of the file.\<close>

theorem Pager_load_error_poisons_cache:
  assumes "unat num < MAX_PAGES" and "pages p (unat num) = None" and "num < num_pages p"
    and "sys_read_err env (page_offset num)"
  shows "\<exists>st p'. Pager_GetPage env num p = Inr (st, p') \<and> st_type st = PAGE_LOAD_ERR \<and>
    Pager_GetPage env num p' = Inr (Status_default, p') \<and> pages p' (unat num) = Some (\<lambda>_. 0)"
  using assms by (simp add: Pager_GetPage_def Pager_OnPageMissing_def Let_def)

theorem Pager_load_error_poisons_cache_witness:
  "\<exists>st p'. Pager_GetPage (reliable_env\<lparr>sys_read_err := \<lambda>_. True\<rparr>) 1 (sample_pager\<lparr>num_pages := 2\<rparr>)
      = Inr (st, p') \<and> st_type st = PAGE_LOAD_ERR \<and>
    Pager_GetPage (reliable_env\<lparr>sys_read_err := \<lambda>_. True\<rparr>) 1 p' = Inr (Status_default, p') \<and>
    pages p' (unat (1 :: u32)) = Some (\<lambda>_. 0)"
  by (rule Pager_load_error_poisons_cache) (simp_all add: sample_pager_def MAX_PAGES_eq)

text \<open>The range check of \<open>GetPage\<close> is never effective: for no page number and in no
  state does the call return \<open>PAGE_NUM_OVERFLOW\<close>; from \<open>MAX_PAGES\<close> on the page table
  itself is read out of bounds.\<close>

theorem Pager_GetPage_no_overflow_status:
  "(Pager_GetPage env num p = Inr (st, p') \<longrightarrow> st_type st \<noteq> PAGE_NUM_OVERFLOW) \<and>
   (Pager_GetPage env num p = Inl OutOfBounds \<longleftrightarrow> MAX_PAGES \<le> unat num)"
  by (auto simp: Pager_GetPage_def Pager_OnPageMissing_def Let_def split: if_splits)

theorem Pager_GetPage_no_overflow_status_witness:
  "Pager_GetPage reliable_env 262144 sample_pager = Inl OutOfBounds"
  using Pager_GetPage_no_overflow_status [of reliable_env 262144 sample_pager]
  by (simp add: MAX_PAGES_eq)

end
