(* ===== verification/Db_Node.thy ===== *)
theory Db_Node
  imports Db_Pager
begin

text \<open>
  The page formats of the database (\<open>db_lab/node.h\<close>) as views of 4096 bytes. The
  headers are packed to 4 bytes: the parent page at offset 0, the node type at 4, the root
  flag at 8; then for an internal page the number of keys (12) and the right child (16), for
  a leaf page the number of cells (12) and the next leaf (16); the cells follow from offset 20.
  An internal cell is a child page and a key, a leaf cell a key and a row.

  A pointer into a page is an offset of the page; \<open>None\<close> is the null pointer. Cell
  positions are computed in 32-bit arithmetic, so the bound checks of \<open>CellPtr\<close> are kept as
  the sources have them, wrap-around included.
\<close>

section \<open>Node\<close>

datatype NodeType = NONE | INTERNAL | LEAF

fun NodeType_val :: "NodeType \<Rightarrow> u32" where
  "NodeType_val NONE = 0"
| "NodeType_val INTERNAL = 1"
| "NodeType_val LEAF = 2"

definition sizeof_Node :: nat where "sizeof_Node = 12"

definition Node_IsRoot :: "mem \<Rightarrow> bool" where "Node_IsRoot page \<longleftrightarrow> page 8 \<noteq> 0"
definition Node_IsDirty :: "mem \<Rightarrow> bool" where
  "Node_IsDirty page \<longleftrightarrow> load32 page 4 \<noteq> NodeType_val NONE"
definition Node_SetRoot :: "bool \<Rightarrow> mem \<Rightarrow> mem" where
  "Node_SetRoot is_root page = page(8 := (if is_root then 1 else 0))"
definition Node_IsLeaf :: "mem \<Rightarrow> bool" where
  "Node_IsLeaf page \<longleftrightarrow> load32 page 4 = NodeType_val LEAF"
definition Node_IsInternal :: "mem \<Rightarrow> bool" where
  "Node_IsInternal page \<longleftrightarrow> load32 page 4 = NodeType_val INTERNAL"
definition Node_SetType :: "NodeType \<Rightarrow> mem \<Rightarrow> mem" where
  "Node_SetType t page = store32 page 4 (NodeType_val t)"
definition Node_GetType :: "mem \<Rightarrow> u32" where "Node_GetType page = load32 page 4"
definition Node_SetParentPage :: "u32 \<Rightarrow> mem \<Rightarrow> mem" where
  "Node_SetParentPage page_num page = store32 page 0 page_num"
definition Node_GetParentPage :: "mem \<Rightarrow> u32" where "Node_GetParentPage page = load32 page 0"

text \<open>Access through a pointer into the page: inside the page's bytes or a fault.\<close>

definition deref32 :: "mem \<Rightarrow> nat \<Rightarrow> u32 outcome" where
  "deref32 page a = (if a + 4 \<le> PAGE_SIZE then Inr (load32 page a) else Inl OutOfBounds)"

definition assign32 :: "mem \<Rightarrow> nat \<Rightarrow> u32 \<Rightarrow> mem outcome" where
  "assign32 page a v = (if a + 4 \<le> PAGE_SIZE then Inr (store32 page a v) else Inl OutOfBounds)"

section \<open>InternalNode\<close>

definition Internal_BodySize :: nat where "Internal_BodySize = PAGE_SIZE - sizeof_Node - 8"
definition Internal_ChildSize :: nat where "Internal_ChildSize = 4"
definition Internal_CellSize :: nat where "Internal_CellSize = 8"
definition Internal_MaxCells :: nat where
  "Internal_MaxCells = Internal_BodySize div Internal_CellSize - 1"

definition Internal_NumOfKeys :: "mem \<Rightarrow> u32" where "Internal_NumOfKeys page = load32 page 12"
definition Internal_SetNumOfKeys :: "u32 \<Rightarrow> mem \<Rightarrow> mem" where
  "Internal_SetNumOfKeys num page = store32 page 12 num"
definition Internal_RightChildPage :: "mem \<Rightarrow> u32" where
  "Internal_RightChildPage page = load32 page 16"
definition Internal_SetRightChild :: "u32 \<Rightarrow> mem \<Rightarrow> mem" where
  "Internal_SetRightChild rc page = store32 page 16 rc"

definition Internal_Reset :: "mem \<Rightarrow> mem" where
  "Internal_Reset page =
     memset (Internal_SetNumOfKeys 0 (Node_SetType INTERNAL page)) 20 0 Internal_BodySize"

definition Internal_CellPtr :: "u32 \<Rightarrow> nat option" where
  "Internal_CellPtr cell_num =
     (let pos = cell_num * word_of_nat Internal_CellSize
      in if pos + word_of_nat Internal_CellSize \<le> word_of_nat Internal_BodySize
         then Some (20 + unat pos) else None)"

definition Internal_ChildPtr :: "mem \<Rightarrow> u32 \<Rightarrow> nat option" where
  "Internal_ChildPtr page child_num =
     (let num_keys = Internal_NumOfKeys page
      in if num_keys < child_num then None
         else if child_num = num_keys then Some 16
         else Internal_CellPtr child_num)"

definition Internal_GetChildPageNum :: "mem \<Rightarrow> u32 \<Rightarrow> (Status \<times> u32 option) outcome" where
  "Internal_GetChildPageNum page child_num =
     (case Internal_ChildPtr page child_num of
        None \<Rightarrow> Inr (mk_status CHILD_OVERFLOW '''', None)
      | Some a \<Rightarrow> bnd (deref32 page a) (\<lambda>v. Inr (Status_default, Some v)))"

definition Internal_SetChild :: "u32 \<Rightarrow> u32 \<Rightarrow> mem \<Rightarrow> (Status \<times> mem) outcome" where
  "Internal_SetChild child_num child_page_num page =
     (case Internal_ChildPtr page child_num of
        None \<Rightarrow> Inr (mk_status CHILD_OVERFLOW ''CHILD_OVERFLOW'', page)
      | Some a \<Rightarrow> bnd (assign32 page a child_page_num) (\<lambda>page. Inr (Status_default, page)))"

definition Internal_KeyPtr :: "u32 \<Rightarrow> nat option" where
  "Internal_KeyPtr key_num =
     (case Internal_CellPtr key_num of None \<Rightarrow> None | Some a \<Rightarrow> Some (a + Internal_ChildSize))"

definition Internal_GetKey :: "mem \<Rightarrow> u32 \<Rightarrow> (Status \<times> u32 option) outcome" where
  "Internal_GetKey page key_num =
     (case Internal_KeyPtr key_num of
        None \<Rightarrow> Inr (mk_status KEY_OVERFLOW '''', None)
      | Some a \<Rightarrow> bnd (deref32 page a) (\<lambda>v. Inr (Status_default, Some v)))"

definition Internal_SetKey :: "u32 \<Rightarrow> u32 \<Rightarrow> mem \<Rightarrow> (Status \<times> mem) outcome" where
  "Internal_SetKey key_num key page =
     (case Internal_KeyPtr key_num of
        None \<Rightarrow> Inr (mk_status KEY_OVERFLOW ''KEY_OVERFLOW'', page)
      | Some a \<Rightarrow> bnd (assign32 page a key) (\<lambda>page. Inr (Status_default, page)))"

text \<open>The loop of \<open>FindCell\<close> runs while the two bounds differ; \<open>None\<close> is a loop that
  does not end, and a probe that reports an error leaves \<open>it_key\<close> unset.\<close>

partial_function (option) Internal_FindCell_loop ::
  "mem \<Rightarrow> u32 \<Rightarrow> u32 \<Rightarrow> u32 \<Rightarrow> u32 outcome option" where
  "Internal_FindCell_loop page key min_cell max_cell =
     (if min_cell \<noteq> max_cell then
        (case Internal_GetKey page ((min_cell + max_cell) div 2) of
           Inl e \<Rightarrow> Some (Inl e)
         | Inr (st, None) \<Rightarrow> Some (Inl Uninitialised)
         | Inr (st, Some it_key) \<Rightarrow>
             if key \<le> it_key
             then Internal_FindCell_loop page key min_cell ((min_cell + max_cell) div 2)
             else Internal_FindCell_loop page key ((min_cell + max_cell) div 2 + 1) max_cell)
      else Some (Inr min_cell))"

definition Internal_FindCell :: "mem \<Rightarrow> u32 \<Rightarrow> u32 outcome" where
  "Internal_FindCell page key =
     (case Internal_FindCell_loop page key 0 (Internal_NumOfKeys page) of
        None \<Rightarrow> Inl Diverges | Some r \<Rightarrow> r)"

definition Internal_GetMaxKey :: "mem \<Rightarrow> (Status \<times> u32 option) outcome" where
  "Internal_GetMaxKey page =
     (if Internal_NumOfKeys page \<le> 0 then Inr (mk_status EMPTY_KEY ''EMPTY_KEY'', None)
      else case Internal_KeyPtr (Internal_NumOfKeys page - 1) of
             None \<Rightarrow> Inl NullDeref
           | Some a \<Rightarrow> bnd (deref32 page a) (\<lambda>v. Inr (Status_default, Some v)))"

section \<open>LeafNode\<close>

definition Leaf_KeySize :: nat where "Leaf_KeySize = 4"
definition Leaf_BodySize :: nat where "Leaf_BodySize = PAGE_SIZE - sizeof_Node - 8"
definition Leaf_CellSize :: nat where "Leaf_CellSize = Leaf_KeySize + sizeof_UserSchema"
definition Leaf_CellsCapacity :: nat where "Leaf_CellsCapacity = Leaf_BodySize div Leaf_CellSize"
definition Leaf_RightSplitCount :: nat where
  "Leaf_RightSplitCount = (Leaf_CellsCapacity + 1) div 2"
definition Leaf_LeftSplitCount :: nat where
  "Leaf_LeftSplitCount = Leaf_CellsCapacity + 1 - Leaf_RightSplitCount"

definition Leaf_MetaInfoString :: string where
  "Leaf_MetaInfoString = ''< LeafNode Meta'' @ [CHR 0x0A] @
     ''  PageSize: '' @ show_nat PAGE_SIZE @ [CHR 0x0A] @
     ''  BodySize: '' @ show_nat Leaf_BodySize @ [CHR 0x0A] @
     ''  CellSize: '' @ show_nat Leaf_CellSize @ [CHR 0x0A] @
     ''  CellsCapacity: '' @ show_nat Leaf_CellsCapacity @ [CHR 0x0A] @
     ''  LeftSplitCount: '' @ show_nat Leaf_LeftSplitCount @ [CHR 0x0A] @
     ''  RightSplitCount: '' @ show_nat Leaf_RightSplitCount @ [CHR 0x0A] @ ''>''"

definition Leaf_NumOfCells :: "mem \<Rightarrow> u32" where "Leaf_NumOfCells page = load32 page 12"
definition Leaf_SetNumOfCells :: "u32 \<Rightarrow> mem \<Rightarrow> mem" where
  "Leaf_SetNumOfCells num page = store32 page 12 num"
definition Leaf_IncNumOfCells :: "mem \<Rightarrow> mem" where
  "Leaf_IncNumOfCells page = store32 page 12 (load32 page 12 + 1)"
definition Leaf_GetNextLeaf :: "mem \<Rightarrow> u32" where "Leaf_GetNextLeaf page = load32 page 16"
definition Leaf_SetNextLeaf :: "u32 \<Rightarrow> mem \<Rightarrow> mem" where
  "Leaf_SetNextLeaf leaf page = store32 page 16 leaf"
definition Leaf_HasNextLeaf :: "mem \<Rightarrow> bool" where
  "Leaf_HasNextLeaf page \<longleftrightarrow> load32 page 16 \<noteq> 0"

definition Leaf_Reset :: "mem \<Rightarrow> mem" where
  "Leaf_Reset page = Leaf_SetNextLeaf 0 (Leaf_SetNumOfCells 0 (Node_SetType LEAF page))"

definition Leaf_CellPtr :: "u32 \<Rightarrow> nat option" where
  "Leaf_CellPtr cell_num =
     (let pos = cell_num * word_of_nat Leaf_CellSize
      in if pos + word_of_nat Leaf_CellSize \<le> word_of_nat Leaf_BodySize
         then Some (20 + unat pos) else None)"

definition Leaf_CellKeyPtr :: "u32 \<Rightarrow> nat option" where
  "Leaf_CellKeyPtr cell_num = Leaf_CellPtr cell_num"

definition Leaf_CellValPtr :: "u32 \<Rightarrow> nat option" where
  "Leaf_CellValPtr cell_num =
     (case Leaf_CellPtr cell_num of None \<Rightarrow> None | Some a \<Rightarrow> Some (a + Leaf_KeySize))"

definition cell_overflow :: "u32 \<Rightarrow> Status" where
  "cell_overflow cell_num = mk_status CELL_OVERFLOW (''CELL_OVERFLOW: '' @ show_nat (unat cell_num))"

definition Leaf_PutKey :: "u32 \<Rightarrow> u32 \<Rightarrow> mem \<Rightarrow> (Status \<times> mem) outcome" where
  "Leaf_PutKey cell_num key page =
     (case Leaf_CellKeyPtr cell_num of
        None \<Rightarrow> Inr (cell_overflow cell_num, page)
      | Some a \<Rightarrow> bnd (assign32 page a key) (\<lambda>page. Inr (Status_default, page)))"

definition Leaf_PutVal :: "u32 \<Rightarrow> UserSchema \<Rightarrow> mem \<Rightarrow> (Status \<times> mem) outcome" where
  "Leaf_PutVal cell_num val page =
     (case Leaf_CellValPtr cell_num of
        None \<Rightarrow> Inr (cell_overflow cell_num, page)
      | Some a \<Rightarrow>
          if a + sizeof_UserSchema \<le> PAGE_SIZE
          then Inr (Status_default, UserSchema_SerializeTo val page a)
          else Inl OutOfBounds)"

definition Leaf_GetCellKeyVal :: "mem \<Rightarrow> u32 \<Rightarrow> (Status \<times> (u32 \<times> UserSchema) option) outcome" where
  "Leaf_GetCellKeyVal page cell_num =
     (case Leaf_CellPtr cell_num of
        None \<Rightarrow> Inr (cell_overflow cell_num, None)
      | Some a \<Rightarrow>
          if a + 4 + sizeof_UserSchema \<le> PAGE_SIZE
          then Inr (Status_default, Some (load32 page a, UserSchema_DeserializeFrom page (a + 4)))
          else Inl OutOfBounds)"

partial_function (option) Leaf_FindCell_loop ::
  "mem \<Rightarrow> u32 \<Rightarrow> u32 \<Rightarrow> u32 \<Rightarrow> u32 outcome option" where
  "Leaf_FindCell_loop page key min_cell max_cell =
     (if min_cell \<noteq> max_cell then
        (case Leaf_GetCellKeyVal page ((min_cell + max_cell) div 2) of
           Inl e \<Rightarrow> Some (Inl e)
         | Inr (st, None) \<Rightarrow> Some (Inl Uninitialised)
         | Inr (st, Some (it_key, val)) \<Rightarrow>
             if key = it_key then Some (Inr ((min_cell + max_cell) div 2))
             else if key < it_key
             then Leaf_FindCell_loop page key min_cell ((min_cell + max_cell) div 2)
             else Leaf_FindCell_loop page key ((min_cell + max_cell) div 2 + 1) max_cell)
      else Some (Inr min_cell))"

definition Leaf_FindCell :: "mem \<Rightarrow> u32 \<Rightarrow> u32 outcome" where
  "Leaf_FindCell page key =
     (case Leaf_FindCell_loop page key 0 (Leaf_NumOfCells page) of
        None \<Rightarrow> Inl Diverges | Some r \<Rightarrow> r)"

definition Leaf_GetMaxKey :: "mem \<Rightarrow> (Status \<times> u32 option) outcome" where
  "Leaf_GetMaxKey page =
     (if Leaf_NumOfCells page = 0 then Inr (mk_status EMPTY_KEY ''EMPTY_KEY'', None)
      else case Leaf_CellKeyPtr (Leaf_NumOfCells page - 1) of
             None \<Rightarrow> Inl NullDeref
           | Some a \<Rightarrow> bnd (deref32 page a) (\<lambda>v. Inr (Status_default, Some v)))"

section \<open>PageHelper\<close>

definition PageHelper_AsInternal :: "mem option \<Rightarrow> mem option" where
  "PageHelper_AsInternal page =
     (case page of None \<Rightarrow> None | Some m \<Rightarrow> if Node_IsInternal m then Some m else None)"

definition PageHelper_AsLeaf :: "mem option \<Rightarrow> mem option" where
  "PageHelper_AsLeaf page =
     (case page of None \<Rightarrow> None | Some m \<Rightarrow> if Node_IsLeaf m then Some m else None)"

definition PageHelper_GetMaxKey :: "mem option \<Rightarrow> (Status \<times> u32 option) outcome" where
  "PageHelper_GetMaxKey page =
     (case PageHelper_AsInternal page of
        None \<Rightarrow> (case PageHelper_AsLeaf page of
                   None \<Rightarrow> Inr (mk_status PAGE_INVALID '''', None)
                 | Some lpage \<Rightarrow> Leaf_GetMaxKey lpage)
      | Some ipage \<Rightarrow> Internal_GetMaxKey ipage)"

section \<open>Moving cells up\<close>

text \<open>The loop \<open>for (i = n; i > cell_num; --i) memcpy(CellPtr(i), CellPtr(i-1), CellSize)\<close>
  that both page kinds use to open a gap, over the page's own \<open>CellPtr\<close> and cell size.
  \<open>memcpy\<close> through a null pointer or past the page is a fault.\<close>

definition copy_cell ::
  "(u32 \<Rightarrow> nat option) \<Rightarrow> nat \<Rightarrow> u32 \<Rightarrow> mem \<Rightarrow> u32 \<Rightarrow> mem \<Rightarrow> mem outcome" where
  "copy_cell cell_ptr cell_size i src j dst =
     (case (cell_ptr i, cell_ptr j) of
        (Some d, Some s) \<Rightarrow>
          if d + cell_size \<le> PAGE_SIZE \<and> s + cell_size \<le> PAGE_SIZE
          then Inr (memcpy dst d src s cell_size) else Inl OutOfBounds
      | _ \<Rightarrow> Inl NullDeref)"

function shift_cells ::
  "(u32 \<Rightarrow> nat option) \<Rightarrow> nat \<Rightarrow> u32 \<Rightarrow> u32 \<Rightarrow> mem \<Rightarrow> mem outcome" where
  "shift_cells cell_ptr cell_size i cell_num page =
     (if cell_num < i
      then bnd (copy_cell cell_ptr cell_size i page (i - 1) page)
             (\<lambda>page. shift_cells cell_ptr cell_size (i - 1) cell_num page)
      else Inr page)"
  by pat_completeness auto
termination
  by (relation "measure (\<lambda>(cp, cs, i, c, m). unat i)")
    (auto simp: unat_pred_less)

declare shift_cells.simps [simp del]

end
