(* ===== verification/Db_Layout.thy ===== *)
theory Db_Layout
  imports Db_Node
begin

text \<open>
  What the page formats of \<open>Db_Node\<close> mean: the cells of a page as a list, and the laws
  by which the table layer uses them. Two interfaces are stated as locales and interpreted
  on both page kinds: \<open>cell_layout\<close> (where a cell lies, copying and shifting cells) and
  \<open>key_page\<close> (probing sorted keys), from which the two binary searches are proved.
\<close>

section \<open>Cells as lists\<close>

definition cell_at :: "nat \<Rightarrow> mem \<Rightarrow> nat \<Rightarrow> byte list" where
  "cell_at sz page i = mread page (20 + i * sz) sz"

definition leaf_cell :: "mem \<Rightarrow> nat \<Rightarrow> u32 \<times> UserSchema" where
  "leaf_cell page i =
     (load32 page (20 + i * 296), UserSchema_DeserializeFrom page (20 + i * 296 + 4))"

definition leaf_cells :: "mem \<Rightarrow> (u32 \<times> UserSchema) list" where
  "leaf_cells page = map (leaf_cell page) [0..<unat (Leaf_NumOfCells page)]"

definition leaf_keys :: "mem \<Rightarrow> u32 list" where
  "leaf_keys page = map fst (leaf_cells page)"

definition internal_key :: "mem \<Rightarrow> nat \<Rightarrow> u32" where
  "internal_key page i = load32 page (20 + i * 8 + 4)"

definition internal_child :: "mem \<Rightarrow> nat \<Rightarrow> u32" where
  "internal_child page i = load32 page (20 + i * 8)"

definition internal_keys :: "mem \<Rightarrow> u32 list" where
  "internal_keys page = map (internal_key page) [0..<unat (Internal_NumOfKeys page)]"

definition internal_children :: "mem \<Rightarrow> u32 list" where
  "internal_children page = map (internal_child page) [0..<unat (Internal_NumOfKeys page)]
     @ [Internal_RightChildPage page]"

text \<open>The specification of a search: no smaller key from the position on, no larger before.\<close>

definition insert_point :: "u32 list \<Rightarrow> u32 \<Rightarrow> nat \<Rightarrow> bool" where
  "insert_point ks k i \<longleftrightarrow> i \<le> length ks \<and> (\<forall>j < i. ks ! j \<le> k) \<and>
     (\<forall>j. i \<le> j \<longrightarrow> j < length ks \<longrightarrow> k \<le> ks ! j)"

definition lower_bound :: "u32 list \<Rightarrow> u32 \<Rightarrow> nat" where
  "lower_bound ks k = length (takeWhile (\<lambda>x. x < k) ks)"

definition insert_at :: "nat \<Rightarrow> 'a \<Rightarrow> 'a list \<Rightarrow> 'a list" where
  "insert_at i x xs = take i xs @ x # drop i xs"

lemma length_leaf_cells [simp]: "length (leaf_cells page) = unat (Leaf_NumOfCells page)"
  by (simp add: leaf_cells_def)

lemma length_leaf_keys [simp]: "length (leaf_keys page) = unat (Leaf_NumOfCells page)"
  by (simp add: leaf_keys_def)

lemma length_internal_keys [simp]: "length (internal_keys page) = unat (Internal_NumOfKeys page)"
  by (simp add: internal_keys_def)

lemma nth_leaf_cells [simp]: "i < unat (Leaf_NumOfCells page) \<Longrightarrow> leaf_cells page ! i = leaf_cell page i"
  by (simp add: leaf_cells_def)

lemma nth_leaf_keys [simp]:
  "i < unat (Leaf_NumOfCells page) \<Longrightarrow> leaf_keys page ! i = load32 page (20 + i * 296)"
  by (simp add: leaf_keys_def leaf_cell_def)

lemma nth_internal_keys [simp]:
  "i < unat (Internal_NumOfKeys page) \<Longrightarrow> internal_keys page ! i = internal_key page i"
  by (simp add: internal_keys_def)

lemma cell_at_nth: "b < sz \<Longrightarrow> cell_at sz page i ! b = page (20 + i * sz + b)"
  by (simp add: cell_at_def)

lemma leaf_cell_cong:
  assumes "cell_at 296 m i = cell_at 296 m' j"
  shows "leaf_cell m i = leaf_cell m' j"
proof -
  have b: "m (20 + i * 296 + b) = m' (20 + j * 296 + b)" if "b < 296" for b
    using that assms cell_at_nth by metis
  have "load32 m (20 + i * 296) = load32 m' (20 + j * 296)"
    using b by (intro load32_cong) simp
  moreover have "UserSchema_DeserializeFrom m (20 + i * 296 + 4)
      = UserSchema_DeserializeFrom m' (20 + j * 296 + 4)"
  proof (rule deserialize_cong)
    fix k :: nat
    assume "k < 292"
    then show "m (20 + i * 296 + 4 + k) = m' (20 + j * 296 + 4 + k)"
      using b [of "4 + k"] by (simp add: add.assoc)
  qed
  ultimately show ?thesis by (simp add: leaf_cell_def)
qed

lemma internal_cell_cong:
  assumes "cell_at 8 m i = cell_at 8 m' j"
  shows "internal_key m i = internal_key m' j" and "internal_child m i = internal_child m' j"
proof -
  have b: "m (20 + i * 8 + b) = m' (20 + j * 8 + b)" if "b < 8" for b
    using that assms cell_at_nth by metis
  show "internal_key m i = internal_key m' j"
    unfolding internal_key_def
  proof (rule load32_cong)
    fix k :: nat
    assume "k < 4"
    then show "m (20 + i * 8 + 4 + k) = m' (20 + j * 8 + 4 + k)"
      using b [of "4 + k"] by (simp add: add.assoc)
  qed
  show "internal_child m i = internal_child m' j"
    unfolding internal_child_def using b by (intro load32_cong) simp
qed

lemma insert_point_lower_bound:
  "insert_point ks k i \<Longrightarrow> \<forall>j < i. ks ! j < k \<Longrightarrow> i = lower_bound ks k"
proof -
  assume ip: "insert_point ks k i" and lt: "\<forall>j < i. ks ! j < k"
  let ?n = "length (takeWhile (\<lambda>x. x < k) ks)"
  have i: "i \<le> length ks" using ip by (simp add: insert_point_def)
  have "i \<le> ?n"
  proof (rule ccontr)
    assume "\<not> i \<le> ?n"
    then have "?n < i" by simp
    then have "?n < length ks" using i by simp
    then have "\<not> ks ! ?n < k" using nth_length_takeWhile by blast
    then show False using lt \<open>?n < i\<close> by blast
  qed
  moreover have "?n \<le> i"
  proof (rule ccontr)
    assume "\<not> ?n \<le> i"
    then have "i < ?n" by simp
    then have "takeWhile (\<lambda>x. x < k) ks ! i < k" using nth_mem set_takeWhileD by metis
    then have "ks ! i < k" using \<open>i < ?n\<close> takeWhile_nth by metis
    moreover have "i < length ks" using \<open>i < ?n\<close> length_takeWhile_le order.strict_trans2 by blast
    ultimately show False using ip by (auto simp: insert_point_def)
  qed
  ultimately show ?thesis by (simp add: lower_bound_def)
qed

lemma insert_point_Cons_bounds:
  assumes "insert_point ks k i" and "sorted ks"
  shows "sorted (insert_at i k ks)"
proof -
  have "\<forall>x \<in> set (take i ks). x \<le> k"
    using assms(1) by (auto simp: insert_point_def in_set_conv_nth)
  moreover have "\<forall>x \<in> set (drop i ks). k \<le> x"
    using assms(1) by (auto simp: insert_point_def in_set_conv_nth)
  moreover have "\<forall>x \<in> set (take i ks). \<forall>y \<in> set (drop i ks). x \<le> y"
    using calculation by fastforce
  ultimately show ?thesis
    using assms(2) by (auto simp: insert_at_def sorted_append sorted_wrt_take sorted_wrt_drop)
qed

section \<open>The layout of cells\<close>

locale cell_layout =
  fixes cell_ptr :: "u32 \<Rightarrow> nat option" and cell_size :: nat and cap :: nat
  assumes ptr: "i < cap \<Longrightarrow> cell_ptr (word_of_nat i) = Some (20 + i * cell_size)"
    and fits: "20 + cap * cell_size \<le> PAGE_SIZE"
    and cap_small: "cap < 2 ^ 31"
begin

lemma cell_end: "i < cap \<Longrightarrow> 20 + i * cell_size + cell_size \<le> PAGE_SIZE"
proof -
  assume "i < cap"
  then have "(i + 1) * cell_size \<le> cap * cell_size" by (intro mult_le_mono1) simp
  then show ?thesis using fits by simp
qed

lemma cells_apart:
  "k \<noteq> i \<Longrightarrow> 20 + k * cell_size + cell_size \<le> 20 + i * cell_size \<or>
     20 + i * cell_size + cell_size \<le> 20 + k * cell_size"
proof -
  assume "k \<noteq> i"
  then consider "k + 1 \<le> i" | "i + 1 \<le> k" by linarith
  then show ?thesis
  proof cases
    case 1
    then have "(k + 1) * cell_size \<le> i * cell_size" by (rule mult_le_mono1)
    then show ?thesis by simp
  next
    case 2
    then have "(i + 1) * cell_size \<le> k * cell_size" by (rule mult_le_mono1)
    then show ?thesis by simp
  qed
qed

lemma copy_cell_ok:
  "i < cap \<Longrightarrow> j < cap \<Longrightarrow>
   copy_cell cell_ptr cell_size (word_of_nat i) src (word_of_nat j) dst =
     Inr (memcpy dst (20 + i * cell_size) src (20 + j * cell_size) cell_size)"
  using cell_end by (simp add: copy_cell_def ptr)

lemma cell_at_memcpy:
  "cell_at cell_size (memcpy dst (20 + i * cell_size) src (20 + j * cell_size) cell_size) k =
     (if k = i then cell_at cell_size src j else cell_at cell_size dst k)"
proof (cases "k = i")
  case True
  then show ?thesis by (simp add: cell_at_def mread_memcpy_in)
next
  case False
  then show ?thesis
    using cells_apart [of k i] by (simp add: cell_at_def mread_memcpy_out)
qed

lemma header_memcpy: "b < 20 \<Longrightarrow> memcpy dst (20 + i * cell_size) src s n b = dst b"
  by (simp add: memcpy_out)

lemma shift_cells_ok:
  assumes "c \<le> n" and "n < cap"
  shows "\<exists>m'. shift_cells cell_ptr cell_size (word_of_nat n) (word_of_nat c) m = Inr m' \<and>
    (\<forall>k. cell_at cell_size m' k =
       (if c < k \<and> k \<le> n then cell_at cell_size m (k - 1) else cell_at cell_size m k)) \<and>
    (\<forall>b < 20. m' b = m b)"
  using assms
proof (induction n arbitrary: m)
  case 0
  then show ?case by (subst shift_cells.simps) (intro exI [of _ m], simp)
next
  case (Suc n)
  have un: "unat (word_of_nat (Suc n) :: u32) = Suc n" "unat (word_of_nat c :: u32) = c"
    using Suc.prems cap_small by (simp_all add: unat_of_nat del: of_nat_Suc)
  show ?case
  proof (cases "c = Suc n")
    case True
    then show ?thesis by (subst shift_cells.simps) (intro exI [of _ m], auto)
  next
    case False
    then have c: "c \<le> n" using Suc.prems by simp
    let ?m = "memcpy m (20 + Suc n * cell_size) m (20 + n * cell_size) cell_size"
    have "word_of_nat c < (word_of_nat (Suc n) :: u32)"
      using c un by (simp add: word_less_nat_alt del: of_nat_Suc)
    moreover have "word_of_nat (Suc n) - 1 = (word_of_nat n :: u32)" by simp
    moreover have "copy_cell cell_ptr cell_size (word_of_nat (Suc n)) m (word_of_nat n) m = Inr ?m"
      using Suc.prems by (intro copy_cell_ok) auto
    ultimately have step: "shift_cells cell_ptr cell_size (word_of_nat (Suc n)) (word_of_nat c) m
        = shift_cells cell_ptr cell_size (word_of_nat n) (word_of_nat c) ?m"
      by (subst shift_cells.simps) (simp del: of_nat_Suc)
    obtain m' where m': "shift_cells cell_ptr cell_size (word_of_nat n) (word_of_nat c) ?m = Inr m'"
      "\<forall>k. cell_at cell_size m' k =
         (if c < k \<and> k \<le> n then cell_at cell_size ?m (k - 1) else cell_at cell_size ?m k)"
      "\<forall>b < 20. m' b = ?m b"
      using Suc.IH [of ?m] c Suc.prems by auto
    have "cell_at cell_size m' k =
       (if c < k \<and> k \<le> Suc n then cell_at cell_size m (k - 1) else cell_at cell_size m k)" for k
      using m'(2) c cell_at_memcpy [of m "Suc n" m n] by auto
    moreover have "\<forall>b < 20. m' b = m b" using m'(3) by (simp add: memcpy_out)
    ultimately show ?thesis using step m'(1) by (intro exI [of _ m']) simp
  qed
qed

end

section \<open>Searching sorted keys\<close>

locale key_page =
  fixes num :: "mem \<Rightarrow> u32" and key_of :: "mem \<Rightarrow> u32 \<Rightarrow> u32 option outcome"
    and keys :: "mem \<Rightarrow> u32 list" and cap :: nat
  assumes cap_small: "cap < 2 ^ 31"
    and keys_length: "length (keys page) = unat (num page)"
    and key_read: "unat (num page) \<le> cap \<Longrightarrow> i < length (keys page) \<Longrightarrow>
      key_of page (word_of_nat i) = Inr (Some (keys page ! i))"
begin

text \<open>The loop invariant, with positions as naturals.\<close>

definition search_inv :: "mem \<Rightarrow> u32 \<Rightarrow> nat \<Rightarrow> nat \<Rightarrow> bool" where
  "search_inv page k lo hi \<longleftrightarrow> lo \<le> hi \<and> hi \<le> length (keys page) \<and>
     (\<forall>j < lo. keys page ! j < k) \<and> (\<forall>j. hi \<le> j \<longrightarrow> j < length (keys page) \<longrightarrow> k \<le> keys page ! j)"

lemma search_start: "search_inv page k 0 (length (keys page))"
  by (simp add: search_inv_def)

lemma search_left:
  assumes "sorted (keys page)" and "search_inv page k lo hi" and "lo < hi"
    and "k \<le> keys page ! ((lo + hi) div 2)"
  shows "search_inv page k lo ((lo + hi) div 2)"
proof -
  have "k \<le> keys page ! j" if "(lo + hi) div 2 \<le> j" "j < length (keys page)" for j
    using assms(1,4) that sorted_nth_mono order_trans by blast
  then show ?thesis using assms(2,3) by (auto simp: search_inv_def)
qed

lemma search_right:
  assumes "sorted (keys page)" and "search_inv page k lo hi" and "lo < hi"
    and "keys page ! ((lo + hi) div 2) < k"
  shows "search_inv page k ((lo + hi) div 2 + 1) hi"
proof -
  have mid: "(lo + hi) div 2 < length (keys page)" "(lo + hi) div 2 < hi"
    using assms(2,3) by (auto simp: search_inv_def)
  have "keys page ! j < k" if "j < (lo + hi) div 2 + 1" for j
  proof -
    have "keys page ! j \<le> keys page ! ((lo + hi) div 2)"
      using assms(1) that mid(1) by (intro sorted_nth_mono) auto
    then show ?thesis using assms(4) by (rule order.strict_trans1)
  qed
  then show ?thesis using assms(2) mid(2) by (auto simp: search_inv_def)
qed

lemma search_stop:
  "search_inv page k i i \<Longrightarrow> insert_point (keys page) k i \<and> i = lower_bound (keys page) k"
  using insert_point_lower_bound [of "keys page" k i]
  by (auto simp: search_inv_def insert_point_def intro: less_imp_le)

lemma search_stop_hit:
  assumes "sorted (keys page)" and "search_inv page k i i" and "k \<in> set (keys page)"
  shows "i < length (keys page) \<and> keys page ! i = k"
proof -
  obtain j where j: "j < length (keys page)" "keys page ! j = k"
    using assms(3) by (auto simp: in_set_conv_nth)
  then have "i \<le> j" using assms(2) by (auto simp: search_inv_def not_less [symmetric])
  then have "keys page ! i \<le> k" using assms(1) j sorted_nth_mono by blast
  then show ?thesis using assms(2) j \<open>i \<le> j\<close> by (auto simp: search_inv_def intro: antisym)
qed

lemma search_hit:
  assumes "sorted (keys page)" and "i < length (keys page)" and "keys page ! i = k"
  shows "insert_point (keys page) k i"
  using assms by (auto simp: insert_point_def intro: sorted_nth_mono)

lemma search_mid:
  assumes "unat (num page) \<le> cap" and "search_inv page k lo hi" and "lo < hi"
  shows "((word_of_nat lo + word_of_nat hi) div 2 :: u32) = word_of_nat ((lo + hi) div 2)"
    and "key_of page (word_of_nat ((lo + hi) div 2)) = Inr (Some (keys page ! ((lo + hi) div 2)))"
    and "word_of_nat lo \<noteq> (word_of_nat hi :: u32)"
proof -
  have bound: "lo < 2 ^ 31" "hi < 2 ^ 31"
    using assms cap_small keys_length [of page] by (auto simp: search_inv_def)
  have un: "unat (word_of_nat lo :: u32) = lo" "unat (word_of_nat hi :: u32) = hi"
    using bound by (simp_all add: unat_of_nat)
  have "unat ((word_of_nat lo + word_of_nat hi) div 2 :: u32) = (lo + hi) div 2"
    using bound un by (subst unat_half_sum) simp_all
  then show "((word_of_nat lo + word_of_nat hi) div 2 :: u32) = word_of_nat ((lo + hi) div 2)"
    using bound by (simp add: word_unat_eq_iff unat_of_nat)
  show "key_of page (word_of_nat ((lo + hi) div 2)) = Inr (Some (keys page ! ((lo + hi) div 2)))"
    using assms by (intro key_read) (auto simp: search_inv_def)
  show "word_of_nat lo \<noteq> (word_of_nat hi :: u32)"
    using un assms(3) by auto
qed

end

end
