(* ===== verification/Db_Search.thy ===== *)
theory Db_Search
  imports Db_Layout
begin

text \<open>
  The page kinds of the database meet the layout and search interfaces, and the two binary
  searches of \<open>node.h\<close> are correct: they end, and on sorted keys they return the position the
  key belongs at.
\<close>

section \<open>Sizes\<close>

lemma leaf_sizes:
  "Leaf_CellSize = 296" "Leaf_BodySize = 4076" "Leaf_CellsCapacity = 13"
  "Leaf_RightSplitCount = 7" "Leaf_LeftSplitCount = 7" "Leaf_KeySize = 4"
  by (simp_all add: Leaf_CellSize_def Leaf_KeySize_def Leaf_BodySize_def Leaf_CellsCapacity_def
      Leaf_RightSplitCount_def Leaf_LeftSplitCount_def PAGE_SIZE_def sizeof_Node_def schema_sizes)

lemma internal_sizes:
  "Internal_CellSize = 8" "Internal_BodySize = 4076" "Internal_MaxCells = 508"
  "Internal_ChildSize = 4"
  by (simp_all add: Internal_CellSize_def Internal_BodySize_def Internal_MaxCells_def
      Internal_ChildSize_def PAGE_SIZE_def sizeof_Node_def)

section \<open>Interpretations\<close>

lemma Leaf_CellPtr_nat:
  assumes "i < 13"
  shows "Leaf_CellPtr (word_of_nat i) = Some (20 + i * 296)"
proof -
  have u: "unat (word_of_nat i :: u32) = i" using assms by (simp add: unat_of_nat)
  have pos: "unat (word_of_nat i * 296 :: u32) = i * 296"
    using assms u by (subst unat_mult_small) simp_all
  then have "unat (word_of_nat i * 296 + 296 :: u32) = i * 296 + 296"
    using assms by (subst unat_add_small) simp_all
  then have "word_of_nat i * 296 + 296 \<le> (4076 :: u32)"
    using assms by (simp add: word_le_nat_alt)
  then show ?thesis by (simp add: Leaf_CellPtr_def leaf_sizes pos)
qed

lemma Internal_CellPtr_nat:
  assumes "i < 509"
  shows "Internal_CellPtr (word_of_nat i) = Some (20 + i * 8)"
proof -
  have u: "unat (word_of_nat i :: u32) = i" using assms by (simp add: unat_of_nat)
  have pos: "unat (word_of_nat i * 8 :: u32) = i * 8"
    using assms u by (subst unat_mult_small) simp_all
  then have "unat (word_of_nat i * 8 + 8 :: u32) = i * 8 + 8"
    using assms by (subst unat_add_small) simp_all
  then have "word_of_nat i * 8 + 8 \<le> (4076 :: u32)"
    using assms by (simp add: word_le_nat_alt)
  then show ?thesis by (simp add: Internal_CellPtr_def internal_sizes pos)
qed

interpretation leaf_layout: cell_layout Leaf_CellPtr 296 13
  by unfold_locales (simp_all add: Leaf_CellPtr_nat PAGE_SIZE_eq)

interpretation internal_layout: cell_layout Internal_CellPtr 8 509
  by unfold_locales (simp_all add: Internal_CellPtr_nat PAGE_SIZE_eq)

lemma Leaf_GetCellKeyVal_nat:
  "i < 13 \<Longrightarrow> Leaf_GetCellKeyVal page (word_of_nat i) = Inr (Status_default, Some (leaf_cell page i))"
  by (simp add: Leaf_GetCellKeyVal_def Leaf_CellPtr_nat leaf_cell_def schema_sizes PAGE_SIZE_eq)

lemma Internal_KeyPtr_nat: "i < 509 \<Longrightarrow> Internal_KeyPtr (word_of_nat i) = Some (20 + i * 8 + 4)"
  by (simp add: Internal_KeyPtr_def Internal_CellPtr_nat internal_sizes)

lemma Internal_GetKey_nat:
  "i < 509 \<Longrightarrow> Internal_GetKey page (word_of_nat i) = Inr (Status_default, Some (internal_key page i))"
  by (simp add: Internal_GetKey_def Internal_KeyPtr_nat internal_key_def deref32_def PAGE_SIZE_eq)

interpretation leaf_search: key_page Leaf_NumOfCells
  "\<lambda>page i. bnd (Leaf_GetCellKeyVal page i) (\<lambda>(st, kv). Inr (map_option fst kv))" leaf_keys 13
  by unfold_locales (simp_all add: Leaf_GetCellKeyVal_nat leaf_cell_def)

interpretation internal_search: key_page Internal_NumOfKeys
  "\<lambda>page i. bnd (Internal_GetKey page i) (\<lambda>(st, k). Inr k)" internal_keys 509
  by unfold_locales (simp_all add: Internal_GetKey_nat)

section \<open>The loops\<close>

text \<open>One round of the search in an internal page.\<close>

lemma Internal_FindCell_round:
  assumes "unat (Internal_NumOfKeys page) \<le> 509" and inv: "internal_search.search_inv page key lo hi" and "lo < hi"
  shows "Internal_FindCell_loop page key (word_of_nat lo) (word_of_nat hi) =
    (if key \<le> internal_keys page ! ((lo + hi) div 2)
     then Internal_FindCell_loop page key (word_of_nat lo) (word_of_nat ((lo + hi) div 2))
     else Internal_FindCell_loop page key (word_of_nat ((lo + hi) div 2 + 1)) (word_of_nat hi))"
proof -
  let ?mid = "(lo + hi) div 2"
  note mid = internal_search.search_mid [OF assms]
  have "?mid < 509" using inv assms(1,3) by (auto simp: internal_search.search_inv_def)
  then have "Internal_GetKey page (word_of_nat ?mid) = Inr (Status_default, Some (internal_keys page ! ?mid))"
    using mid(2) by (simp add: Internal_GetKey_nat)
  then show ?thesis
    by (subst Internal_FindCell_loop.simps) (simp add: mid(1,3) add.commute [of "1 :: u32" "word_of_nat ?mid"])
qed

lemma Internal_FindCell_loop_ok:
  assumes "sorted (internal_keys page)" and "unat (Internal_NumOfKeys page) \<le> 509"
  shows "internal_search.search_inv page key lo hi \<Longrightarrow>
    Internal_FindCell_loop page key (word_of_nat lo) (word_of_nat hi) =
      Some (Inr (word_of_nat (lower_bound (internal_keys page) key)))"
proof (induction "hi - lo" arbitrary: lo hi rule: less_induct)
  case less
  show ?case
  proof (cases "lo < hi")
    case False
    then have "lo = hi" using less.prems by (simp add: internal_search.search_inv_def)
    then show ?thesis
      using less.prems internal_search.search_stop by (subst Internal_FindCell_loop.simps) auto
  next
    case True
    let ?mid = "(lo + hi) div 2"
    note round = Internal_FindCell_round [OF assms(2) less.prems True]
    have dec: "?mid - lo < hi - lo" "hi - (?mid + 1) < hi - lo" using True by linarith+
    show ?thesis
    proof (cases "key \<le> internal_keys page ! ?mid")
      case left: True
      note IH = less.hyps [OF dec(1) internal_search.search_left [OF assms(1) less.prems True left]]
      show ?thesis unfolding round using left by (simp only: if_True IH)
    next
      case right: False
      then have "internal_keys page ! ?mid < key" by simp
      note IH = less.hyps [OF dec(2) internal_search.search_right [OF assms(1) less.prems True this]]
      show ?thesis unfolding round using right by (simp only: if_False IH)
    qed
  qed
qed

text \<open>One round of the search in a leaf.\<close>

lemma Leaf_FindCell_round:
  assumes "unat (Leaf_NumOfCells page) \<le> 13" and inv: "leaf_search.search_inv page key lo hi" and "lo < hi"
  shows "Leaf_FindCell_loop page key (word_of_nat lo) (word_of_nat hi) =
    (if key = leaf_keys page ! ((lo + hi) div 2) then Some (Inr (word_of_nat ((lo + hi) div 2)))
     else if key < leaf_keys page ! ((lo + hi) div 2)
     then Leaf_FindCell_loop page key (word_of_nat lo) (word_of_nat ((lo + hi) div 2))
     else Leaf_FindCell_loop page key (word_of_nat ((lo + hi) div 2 + 1)) (word_of_nat hi))"
proof -
  let ?mid = "(lo + hi) div 2"
  note mid = leaf_search.search_mid [OF assms]
  have len: "?mid < length (leaf_keys page)" using inv assms(3) by (auto simp: leaf_search.search_inv_def)
  then have "?mid < 13" using assms(1) by simp
  then obtain val where "Leaf_GetCellKeyVal page (word_of_nat ?mid) = Inr (Status_default, Some (leaf_keys page ! ?mid, val))"
    using len by (simp add: Leaf_GetCellKeyVal_nat leaf_cell_def)
  then show ?thesis
    by (subst Leaf_FindCell_loop.simps) (simp add: mid(1,3) add.commute [of "1 :: u32" "word_of_nat ?mid"])
qed

lemma Leaf_FindCell_loop_ok:
  assumes "sorted (leaf_keys page)" and "unat (Leaf_NumOfCells page) \<le> 13"
  shows "leaf_search.search_inv page key lo hi \<Longrightarrow>
    \<exists>i. Leaf_FindCell_loop page key (word_of_nat lo) (word_of_nat hi) = Some (Inr (word_of_nat i)) \<and>
      insert_point (leaf_keys page) key i \<and>
      (if key \<in> set (leaf_keys page) then i < length (leaf_keys page) \<and> leaf_keys page ! i = key
       else i = lower_bound (leaf_keys page) key)"
proof (induction "hi - lo" arbitrary: lo hi rule: less_induct)
  case less
  show ?case
  proof (cases "lo < hi")
    case False
    then have eq: "lo = hi" using less.prems by (simp add: leaf_search.search_inv_def)
    then have inv: "leaf_search.search_inv page key hi hi" using less.prems by simp
    have "Leaf_FindCell_loop page key (word_of_nat lo) (word_of_nat hi) = Some (Inr (word_of_nat hi))"
      using eq by (subst Leaf_FindCell_loop.simps) simp
    then show ?thesis
      using leaf_search.search_stop [OF inv] leaf_search.search_stop_hit [OF assms(1) inv]
      by (intro exI [of _ hi]) (auto simp del: nth_leaf_keys length_leaf_keys)
  next
    case True
    let ?mid = "(lo + hi) div 2"
    note round = Leaf_FindCell_round [OF assms(2) less.prems True]
    have len: "?mid < length (leaf_keys page)" using less.prems True by (auto simp: leaf_search.search_inv_def)
    have dec: "?mid - lo < hi - lo" "hi - (?mid + 1) < hi - lo" using True by linarith+
    consider (hit) "key = leaf_keys page ! ?mid" | (left) "key < leaf_keys page ! ?mid"
      | (right) "leaf_keys page ! ?mid < key" by fastforce
    then show ?thesis
    proof cases
      case hit
      have "key \<in> set (leaf_keys page)" using hit len nth_mem by metis
      moreover have "insert_point (leaf_keys page) key ?mid"
        using leaf_search.search_hit [OF assms(1) len hit [symmetric]] .
      ultimately show ?thesis using hit round len by (intro exI [of _ ?mid]) simp
    next
      case left
      note IH = less.hyps [OF dec(1) leaf_search.search_left [OF assms(1) less.prems True]]
      show ?thesis unfolding round using IH left by (simp only: if_True if_False less_le simp_thms)
    next
      case right
      then have "key \<noteq> leaf_keys page ! ?mid" "\<not> key < leaf_keys page ! ?mid" by auto
      then show ?thesis unfolding round
        using less.hyps [OF dec(2) leaf_search.search_right [OF assms(1) less.prems True right]] by (simp only: if_False)
    qed
  qed
qed

section \<open>Properties\<close>

lemma Internal_FindCell_ok:
  "sorted (internal_keys page) \<Longrightarrow> unat (Internal_NumOfKeys page) \<le> 509 \<Longrightarrow>
   Internal_FindCell page key = Inr (word_of_nat (lower_bound (internal_keys page) key))"
  using Internal_FindCell_loop_ok [of page key 0 "unat (Internal_NumOfKeys page)"]
    internal_search.search_start [of page key]
  by (simp add: Internal_FindCell_def)

lemma Leaf_FindCell_ok:
  "sorted (leaf_keys page) \<Longrightarrow> unat (Leaf_NumOfCells page) \<le> 13 \<Longrightarrow>
   \<exists>i. Leaf_FindCell page key = Inr (word_of_nat i) \<and> insert_point (leaf_keys page) key i \<and>
     (if key \<in> set (leaf_keys page) then i < length (leaf_keys page) \<and> leaf_keys page ! i = key
      else i = lower_bound (leaf_keys page) key)"
  using Leaf_FindCell_loop_ok [of page key 0 "unat (Leaf_NumOfCells page)"]
    leaf_search.search_start [of page key]
  by (auto simp: Leaf_FindCell_def)

text \<open>C3. Search in a sorted leaf page always ends and returns a position at which the key
  can be inserted without breaking the order: no cell before it has a larger key, no cell
  from it on a smaller one. When the key is present the position holds it, otherwise it is
  the number of smaller keys.\<close>

theorem Leaf_FindCell_correct:
  assumes "sorted (leaf_keys page)" and "unat (Leaf_NumOfCells page) \<le> Leaf_CellsCapacity"
  shows "\<exists>i. Leaf_FindCell page key = Inr (word_of_nat i) \<and> insert_point (leaf_keys page) key i \<and>
    (if key \<in> set (leaf_keys page) then i < length (leaf_keys page) \<and> leaf_keys page ! i = key
     else i = lower_bound (leaf_keys page) key)"
  using assms by (intro Leaf_FindCell_ok) (simp_all add: leaf_sizes)

text \<open>A leaf page with keys 10 and 20.\<close>

definition two_key_leaf :: mem where
  "two_key_leaf = store32 (store32 (store32 (Leaf_Reset (\<lambda>_. 0)) 12 2) 20 10) 316 20"

lemma two_key_leaf_keys: "Leaf_NumOfCells two_key_leaf = 2" "leaf_keys two_key_leaf = [10, 20]"
  by (simp_all add: two_key_leaf_def Leaf_NumOfCells_def leaf_keys_def leaf_cells_def leaf_cell_def
      load32_store32_other upt_rec)

theorem Leaf_FindCell_correct_witness:
  "\<exists>i. Leaf_FindCell two_key_leaf 15 = Inr (word_of_nat i) \<and>
    insert_point (leaf_keys two_key_leaf) 15 i \<and>
    (if 15 \<in> set (leaf_keys two_key_leaf)
     then i < length (leaf_keys two_key_leaf) \<and> leaf_keys two_key_leaf ! i = 15
     else i = lower_bound (leaf_keys two_key_leaf) 15)"
  by (rule Leaf_FindCell_correct) (simp_all add: two_key_leaf_keys leaf_sizes)

text \<open>C4. Search in an internal page always ends and returns the number of keys smaller than
  the searched one, which is the index of the child that covers it.\<close>

theorem Internal_FindCell_correct:
  assumes "sorted (internal_keys page)" and "unat (Internal_NumOfKeys page) \<le> Internal_MaxCells"
  shows "Internal_FindCell page key = Inr (word_of_nat (lower_bound (internal_keys page) key))"
  using assms by (intro Internal_FindCell_ok) (simp_all add: internal_sizes)

definition two_key_internal :: mem where
  "two_key_internal = store32 (store32 (store32 (Internal_Reset (\<lambda>_. 0)) 12 2) 24 10) 32 20"

lemma two_key_internal_keys:
  "Internal_NumOfKeys two_key_internal = 2" "internal_keys two_key_internal = [10, 20]"
  by (simp_all add: two_key_internal_def Internal_NumOfKeys_def internal_keys_def internal_key_def
      load32_store32_other upt_rec)

theorem Internal_FindCell_correct_witness: "Internal_FindCell two_key_internal 15 = Inr 1"
  using Internal_FindCell_correct [of two_key_internal 15]
  by (simp add: two_key_internal_keys internal_sizes lower_bound_def)



end
