(* ===== verification/Db_Table.thy ===== *)
theory Db_Table
  imports Db_Search
begin

text \<open>
  The table of the database (\<open>db_lab/table.h\<close>): a B-tree of pages under a cursor. The
  state is the table with its pager; a page pointer is the page number, so every read and
  write through a \<open>LeafPage*\<close> or \<open>InternalPage*\<close> goes to the pager's entry. Operations
  return the status and the new table; a null pointer, a failed \<open>assert\<close> and a search that
  does not end are faults.
\<close>

record Table =
  root_page_num :: u32
  pager :: Pager

record Cursor =
  cur_page_num :: u32
  cur_cell_num :: u32
  end_of_table :: bool

section \<open>Pages through pointers\<close>

definition page_of :: "Table \<Rightarrow> u32 \<Rightarrow> mem option" where
  "page_of t n = pages (pager t) (unat n)"

definition set_page :: "u32 \<Rightarrow> mem \<Rightarrow> Table \<Rightarrow> Table" where
  "set_page n m t = t\<lparr>pager := (pager t)\<lparr>pages := (pages (pager t))(unat n \<mapsto> m)\<rparr>\<rparr>"

definition read_page :: "u32 \<Rightarrow> Table \<Rightarrow> mem outcome" where
  "read_page n t = of_opt NullDeref (page_of t n)"

definition upd_page :: "u32 \<Rightarrow> (mem \<Rightarrow> mem) \<Rightarrow> Table \<Rightarrow> Table outcome" where
  "upd_page n f t = bnd (read_page n t) (\<lambda>m. Inr (set_page n (f m) t))"

text \<open>A page method that can fail, applied through the pointer.\<close>

definition call_page ::
  "u32 \<Rightarrow> (mem \<Rightarrow> (Status \<times> mem) outcome) \<Rightarrow> Table \<Rightarrow> (Status \<times> Table) outcome" where
  "call_page n f t = bnd (read_page n t) (\<lambda>m. bnd (f m) (\<lambda>(st, m'). Inr (st, set_page n m' t)))"

text \<open>\<open>STATUS_CHECK\<close> around a call with an output parameter.\<close>

definition CHECK_VAL ::
  "(Status \<times> 'v option) outcome \<Rightarrow> 's \<Rightarrow> ('v \<Rightarrow> (Status \<times> 's) outcome) \<Rightarrow> (Status \<times> 's) outcome" where
  "CHECK_VAL r s k = bnd r (\<lambda>(st, v).
     if Status_ok st then (case v of None \<Rightarrow> Inl Uninitialised | Some x \<Rightarrow> k x) else Inr (st, s))"

definition Table_GetPage :: "sys_env \<Rightarrow> u32 \<Rightarrow> Table \<Rightarrow> (Status \<times> Table) outcome" where
  "Table_GetPage env n t =
     bnd (Pager_GetPage env n (pager t)) (\<lambda>(st, p). Inr (st, t\<lparr>pager := p\<rparr>))"

section \<open>Table\<close>

definition Table_Open :: "sys_env \<Rightarrow> posix_file \<Rightarrow> Table outcome" where
  "Table_Open env f =
     (case Pager_Open env f of
        None \<Rightarrow> Inl NullDeref
      | Some p \<Rightarrow>
          let t = \<lparr>root_page_num = 0, pager = p\<rparr> in
          if num_pages p = 0
          then bnd (Table_GetPage env 0 t) (\<lambda>(status, t).
                 bnd (guard AssertFailed (Status_ok status)) (\<lambda>_.
                   upd_page 0 (\<lambda>leaf. Node_SetRoot True (Leaf_Reset leaf)) t))
          else Inr t)"

definition Table_NumOfPages :: "Table \<Rightarrow> u32" where "Table_NumOfPages t = num_pages (pager t)"
definition Table_GetRootPageNum :: "Table \<Rightarrow> u32" where "Table_GetRootPageNum t = root_page_num t"

definition Table_GetRootPage :: "sys_env \<Rightarrow> Table \<Rightarrow> (mem option \<times> Table) outcome" where
  "Table_GetRootPage env t =
     bnd (Table_GetPage env (root_page_num t) t) (\<lambda>(status, t).
       if \<not> Status_ok status then Inr (None, t) else Inr (page_of t (root_page_num t), t))"

definition Table_ToString :: "Table \<Rightarrow> string" where
  "Table_ToString t = ''<Table: RootPageNum='' @ show_nat (unat (root_page_num t)) @
     '' PageNums='' @ show_nat (unat (num_pages (pager t))) @ ''>''"

definition Table_Close :: "sys_env \<Rightarrow> Table \<Rightarrow> (Table \<times> string list) outcome" where
  "Table_Close env t = bnd (Pager_Close env (pager t)) (\<lambda>(p, errs). Inr (t\<lparr>pager := p\<rparr>, errs))"

definition Table_SplitRoot :: "sys_env \<Rightarrow> u32 \<Rightarrow> Table \<Rightarrow> (Status \<times> Table) outcome" where
  "Table_SplitRoot env right_child_page_num t =
     (let left_child_page_num = Pager_PageNums (pager t); root_num = root_page_num t in
      STATUS_CHECK (Table_GetPage env root_num t) (\<lambda>t.
      STATUS_CHECK (Table_GetPage env left_child_page_num t) (\<lambda>t.
      STATUS_CHECK (Table_GetPage env right_child_page_num t) (\<lambda>t.
      bnd (read_page root_num t) (\<lambda>root.
      bnd (guard AssertFailed (Node_IsRoot root)) (\<lambda>_.
      bnd (upd_page left_child_page_num
             (\<lambda>left. Node_SetRoot False (memcpy left 0 root 0 PAGE_SIZE)) t) (\<lambda>t.
      bnd (upd_page root_num
             (\<lambda>root. Internal_SetNumOfKeys 1 (Node_SetRoot True (Internal_Reset root))) t) (\<lambda>t.
      bnd (call_page root_num (Internal_SetChild 0 left_child_page_num) t) (\<lambda>(_, t).
      bnd (read_page left_child_page_num t) (\<lambda>left.
      CHECK_VAL (Leaf_GetMaxKey left) t (\<lambda>left_max_key.
      STATUS_CHECK (call_page root_num (Internal_SetKey 0 left_max_key) t) (\<lambda>t.
      bnd (upd_page root_num (Internal_SetRightChild right_child_page_num) t) (\<lambda>t.
      bnd (upd_page left_child_page_num (Node_SetParentPage root_num) t) (\<lambda>t.
      bnd (upd_page right_child_page_num (Node_SetParentPage root_num) t) (\<lambda>t.
        Inr (Status_default, t))))))))))))))))"

section \<open>Cursor\<close>

definition Cursor_GetLeafPage :: "sys_env \<Rightarrow> u32 \<Rightarrow> Table \<Rightarrow> (Status \<times> Table) outcome" where
  "Cursor_GetLeafPage env num t =
     bnd (Table_GetPage env num t) (\<lambda>(status, t).
       if \<not> Status_ok status then Inr (status, t)
       else bnd (upd_page num (\<lambda>leaf. if \<not> Node_IsDirty leaf then Leaf_Reset leaf else leaf) t)
              (\<lambda>t. Inr (status, t)))"

definition Cursor_Value :: "sys_env \<Rightarrow> Cursor \<Rightarrow> Table \<Rightarrow> (nat option \<times> Table) outcome" where
  "Cursor_Value env c t =
     bnd (Cursor_GetLeafPage env (cur_page_num c) t) (\<lambda>(status, t).
       if \<not> Status_ok status then Inr (None, t) else Inr (Leaf_CellValPtr (cur_cell_num c), t))"

definition Cursor_InsertInternal ::
  "sys_env \<Rightarrow> u32 \<Rightarrow> u32 \<Rightarrow> u32 \<Rightarrow> Table \<Rightarrow> (Status \<times> Table) outcome" where
  "Cursor_InsertInternal env parent child child_page_num t =
     CHECK_VAL (PageHelper_GetMaxKey (page_of t child)) t (\<lambda>max_key.
     bnd (read_page parent t) (\<lambda>pm.
     let num_keys = Internal_NumOfKeys pm in
     bnd (upd_page parent (Internal_SetNumOfKeys (num_keys + 1)) t) (\<lambda>t.
     bnd (read_page parent t) (\<lambda>pm.
     bnd (Internal_FindCell pm num_keys) (\<lambda>index.
     bnd (guard AssertFailed (\<not> Internal_MaxCells \<le> unat num_keys)) (\<lambda>_.
     let right_child_page = Internal_RightChildPage pm in
     STATUS_CHECK (Table_GetPage env right_child_page t) (\<lambda>t.
     CHECK_VAL (PageHelper_GetMaxKey (page_of t right_child_page)) t (\<lambda>right_child_max_key.
     if right_child_max_key < max_key
     then bnd (call_page parent (Internal_SetKey num_keys right_child_max_key) t) (\<lambda>(_, t).
          bnd (call_page parent (Internal_SetChild num_keys right_child_page) t) (\<lambda>(_, t).
          bnd (upd_page parent (Internal_SetRightChild child_page_num) t) (\<lambda>t.
            Inr (Status_default, t))))
     else bnd (read_page parent t) (\<lambda>pm.
          bnd (shift_cells Internal_CellPtr Internal_CellSize num_keys index pm) (\<lambda>pm.
          STATUS_CHECK (call_page parent (Internal_SetKey index max_key) (set_page parent pm t)) (\<lambda>t.
          STATUS_CHECK (call_page parent (Internal_SetChild index child_page_num) t) (\<lambda>t.
            Inr (Status_default, t)))))))))))))"

text \<open>Stage 2 of the split: the body of the loop for one \<open>i\<close>, and the loop
  \<open>for (i = CellsCapacity; i >= 0; --i)\<close>, whose argument is the number of iterations left,
  \<open>i + 1\<close>.\<close>

definition Cursor_split_cell ::
  "u32 \<Rightarrow> u32 \<Rightarrow> u32 \<Rightarrow> u32 \<Rightarrow> UserSchema \<Rightarrow> nat \<Rightarrow> Table \<Rightarrow> (Status \<times> Table) outcome" where
  "Cursor_split_cell curr_page next_page cell_num key row i t =
     (let des_page = (if Leaf_LeftSplitCount \<le> i then next_page else curr_page);
          curr_cell_num = word_of_nat (i mod Leaf_LeftSplitCount) in
      if Leaf_CellPtr curr_cell_num = None
      then Inr (mk_status CELL_OVERFLOW ''CELL_OVERFLOW'', t)
      else if unat cell_num < i
      then bnd (read_page curr_page t) (\<lambda>src. bnd (read_page des_page t) (\<lambda>dst.
             bnd (copy_cell Leaf_CellPtr Leaf_CellSize curr_cell_num src (word_of_nat (i - 1)) dst)
               (\<lambda>m. Inr (Status_default, set_page des_page m t))))
      else if i < unat cell_num
      then bnd (read_page curr_page t) (\<lambda>src. bnd (read_page des_page t) (\<lambda>dst.
             bnd (copy_cell Leaf_CellPtr Leaf_CellSize curr_cell_num src (word_of_nat i) dst)
               (\<lambda>m. Inr (Status_default, set_page des_page m t))))
      else STATUS_CHECK (call_page des_page (Leaf_PutKey curr_cell_num key) t) (\<lambda>t.
             call_page des_page (Leaf_PutVal curr_cell_num row) t))"

fun Cursor_split_loop ::
  "u32 \<Rightarrow> u32 \<Rightarrow> u32 \<Rightarrow> u32 \<Rightarrow> UserSchema \<Rightarrow> nat \<Rightarrow> Table \<Rightarrow> (Status \<times> Table) outcome" where
  "Cursor_split_loop curr_page next_page cell_num key row 0 t = Inr (Status_default, t)"
| "Cursor_split_loop curr_page next_page cell_num key row (Suc i) t =
     STATUS_CHECK (Cursor_split_cell curr_page next_page cell_num key row i t)
       (\<lambda>t. Cursor_split_loop curr_page next_page cell_num key row i t)"

text \<open>The last part of \<open>DoInsertAndSplit\<close> for a page that is not the root: the separator of
  the split child is rewritten in the parent and the new page is linked into it.\<close>

definition Cursor_split_parent ::
  "sys_env \<Rightarrow> u32 \<Rightarrow> u32 \<Rightarrow> u32 \<Rightarrow> Table \<Rightarrow> (Status \<times> Table) outcome" where
  "Cursor_split_parent env parent next_page old_max t =
     STATUS_CHECK (Table_GetPage env parent t) (\<lambda>t.
     CHECK_VAL (PageHelper_GetMaxKey (page_of t parent)) t (\<lambda>new_max.
     bnd (of_opt AssertFailed (PageHelper_AsInternal (page_of t parent))) (\<lambda>pm.
     bnd (Internal_FindCell pm old_max) (\<lambda>old_max_cell.
     STATUS_CHECK (call_page parent (Internal_SetKey old_max_cell new_max) t) (\<lambda>t.
     STATUS_CHECK (Cursor_InsertInternal env parent next_page next_page t) (\<lambda>t.
       Inr (Status_default, t)))))))"

definition Cursor_DoInsertAndSplit ::
  "sys_env \<Rightarrow> u32 \<Rightarrow> u32 \<Rightarrow> u32 \<Rightarrow> UserSchema \<Rightarrow> Table \<Rightarrow> (Status \<times> Table) outcome" where
  "Cursor_DoInsertAndSplit env cell_num curr_page key row t =
     (let next_page = Pager_PageNums (pager t) in
      STATUS_CHECK (Cursor_GetLeafPage env next_page t) (\<lambda>t.
      bnd (read_page curr_page t) (\<lambda>cm.
      CHECK_VAL (Leaf_GetMaxKey cm) t (\<lambda>old_max.
      bnd (upd_page next_page (\<lambda>m. Leaf_SetNextLeaf (Leaf_GetNextLeaf cm)
             (Node_SetParentPage (Node_GetParentPage cm) m)) t) (\<lambda>t.
      bnd (upd_page curr_page (Leaf_SetNextLeaf next_page) t) (\<lambda>t.
      STATUS_CHECK (Cursor_split_loop curr_page next_page cell_num key row (Suc Leaf_CellsCapacity) t) (\<lambda>t.
      bnd (upd_page curr_page (Leaf_SetNumOfCells (word_of_nat Leaf_LeftSplitCount)) t) (\<lambda>t.
      bnd (upd_page next_page (Leaf_SetNumOfCells (word_of_nat Leaf_RightSplitCount)) t) (\<lambda>t.
      bnd (read_page curr_page t) (\<lambda>cm.
      if Node_IsRoot cm then Table_SplitRoot env next_page t
      else Cursor_split_parent env (Node_GetParentPage cm) next_page old_max t))))))))))"

definition Cursor_ExecuteInsert ::
  "sys_env \<Rightarrow> Cursor \<Rightarrow> u32 \<Rightarrow> UserSchema \<Rightarrow> Table \<Rightarrow> (Status \<times> Table) outcome" where
  "Cursor_ExecuteInsert env c key row t =
     (let leaf = cur_page_num c; cell_num = cur_cell_num c in
      STATUS_CHECK (Cursor_GetLeafPage env leaf t) (\<lambda>t.
      bnd (read_page leaf t) (\<lambda>m.
      if Leaf_CellsCapacity \<le> unat (Leaf_NumOfCells m)
      then Cursor_DoInsertAndSplit env cell_num leaf key row t
      else
        bnd (if cell_num < Leaf_NumOfCells m
             then shift_cells Leaf_CellPtr Leaf_CellSize (Leaf_NumOfCells m) cell_num m
             else Inr m) (\<lambda>m.
        let t = set_page leaf (Leaf_IncNumOfCells m) t in
        STATUS_CHECK (call_page leaf (Leaf_PutKey cell_num key) t) (\<lambda>t.
          call_page leaf (Leaf_PutVal cell_num row) t)))))"

definition Cursor_Advance :: "sys_env \<Rightarrow> Cursor \<Rightarrow> Table \<Rightarrow> (Status \<times> Cursor \<times> Table) outcome" where
  "Cursor_Advance env c t =
     (if end_of_table c
      then Inr (mk_status CURSOR_END_OF_FILE ''CURSOR_END_OF_FILE'', c, t)
      else bnd (Cursor_GetLeafPage env (cur_page_num c) t) (\<lambda>(status, t).
        if \<not> Status_ok status then Inr (status, c, t)
        else bnd (read_page (cur_page_num c) t) (\<lambda>leaf.
          let c = c\<lparr>cur_cell_num := cur_cell_num c + 1\<rparr> in
          if Leaf_NumOfCells leaf \<le> cur_cell_num c
          then (if Leaf_GetNextLeaf leaf = 0 then Inr (status, c\<lparr>end_of_table := True\<rparr>, t)
                else Inr (status, c\<lparr>cur_page_num := Leaf_GetNextLeaf leaf, cur_cell_num := 0\<rparr>, t))
          else Inr (status, c, t))))"

section \<open>Search\<close>

definition Table_LeafPageFind :: "mem \<Rightarrow> u32 \<Rightarrow> Cursor \<Rightarrow> Cursor outcome" where
  "Table_LeafPageFind page key cursor =
     bnd (Leaf_FindCell page key) (\<lambda>cell. Inr (cursor\<lparr>cur_cell_num := cell\<rparr>))"

text \<open>One call of \<open>InternalPageFind\<close> up to its recursive call: it returns a status with
  the cursor, or descends to an internal page.\<close>

datatype find_step = FindReturn Status Cursor | FindDescend u32

definition Table_InternalPageFind_step ::
  "sys_env \<Rightarrow> u32 \<Rightarrow> u32 \<Rightarrow> Cursor \<Rightarrow> Table \<Rightarrow> (find_step \<times> Table) outcome" where
  "Table_InternalPageFind_step env page key cursor t =
     bnd (read_page page t) (\<lambda>pm.
     bnd (Internal_FindCell pm key) (\<lambda>cell_num.
     bnd (Internal_GetChildPageNum pm cell_num) (\<lambda>(status, child).
       if \<not> Status_ok status then Inr (FindReturn status cursor, t)
       else case child of None \<Rightarrow> Inl Uninitialised
       | Some page_num \<Rightarrow>
         bnd (Table_GetPage env page_num t) (\<lambda>(status, t).
           if \<not> Status_ok status then Inr (FindReturn status cursor, t)
           else case PageHelper_AsLeaf (page_of t page_num) of
             Some lpage \<Rightarrow>
               bnd (Table_LeafPageFind lpage key (cursor\<lparr>cur_page_num := page_num\<rparr>)) (\<lambda>cursor.
                 Inr (FindReturn Status_default cursor, t))
           | None \<Rightarrow>
               (case PageHelper_AsInternal (page_of t page_num) of
                  None \<Rightarrow> Inr (FindReturn (mk_status PAGE_INVALID '''') cursor, t)
                | Some _ \<Rightarrow> Inr (FindDescend page_num, t))))))"

partial_function (option) Table_InternalPageFind ::
  "sys_env \<Rightarrow> u32 \<Rightarrow> u32 \<Rightarrow> Cursor \<Rightarrow> Table \<Rightarrow> (Status \<times> Cursor \<times> Table) outcome option" where
  "Table_InternalPageFind env page key cursor t =
     (case Table_InternalPageFind_step env page key cursor t of
        Inl e \<Rightarrow> Some (Inl e)
      | Inr (FindReturn status cursor, t) \<Rightarrow> Some (Inr (status, cursor, t))
      | Inr (FindDescend page, t) \<Rightarrow> Table_InternalPageFind env page key cursor t)"

definition of_loop :: "'a outcome option \<Rightarrow> 'a outcome" where
  "of_loop r = (case r of None \<Rightarrow> Inl Diverges | Some x \<Rightarrow> x)"

definition Table_Find :: "sys_env \<Rightarrow> u32 \<Rightarrow> Table \<Rightarrow> (Cursor option \<times> Table) outcome" where
  "Table_Find env key t =
     bnd (Table_GetPage env (root_page_num t) t) (\<lambda>(status, t).
       if \<not> Status_ok status then Inr (None, t)
       else
         let cursor = \<lparr>cur_page_num = root_page_num t, cur_cell_num = 0, end_of_table = False\<rparr> in
         case PageHelper_AsInternal (page_of t (root_page_num t)) of
           Some _ \<Rightarrow>
             bnd (of_loop (Table_InternalPageFind env (root_page_num t) key cursor t))
               (\<lambda>(status, cursor, t). Inr (if Status_ok status then Some cursor else None, t))
         | None \<Rightarrow>
             (case PageHelper_AsLeaf (page_of t (root_page_num t)) of
                None \<Rightarrow> Inr (None, t)
              | Some lpage \<Rightarrow>
                  bnd (Table_LeafPageFind lpage key cursor) (\<lambda>cursor. Inr (Some cursor, t))))"

definition Table_Insert :: "sys_env \<Rightarrow> u32 \<Rightarrow> UserSchema \<Rightarrow> Table \<Rightarrow> (Status \<times> Table) outcome" where
  "Table_Insert env key row t =
     bnd (Table_Find env key t) (\<lambda>(cursor, t).
       case cursor of
         None \<Rightarrow> Inr (mk_status KEY_OVERFLOW '''', t)
       | Some c \<Rightarrow> Cursor_ExecuteInsert env c key row t)"

definition Table_StartCursor :: "sys_env \<Rightarrow> Table \<Rightarrow> (Cursor option \<times> Table) outcome" where
  "Table_StartCursor env t =
     bnd (Table_Find env 0 t) (\<lambda>(c, t).
       case c of
         None \<Rightarrow> Inl NullDeref
       | Some c \<Rightarrow>
           bnd (Cursor_GetLeafPage env (cur_page_num c) t) (\<lambda>(status, t).
             if \<not> Status_ok status then Inr (None, t)
             else bnd (read_page (cur_page_num c) t) (\<lambda>leaf.
               Inr (Some (c\<lparr>end_of_table := (Leaf_NumOfCells leaf = 0)\<rparr>), t))))"

text \<open>The scan shared by \<open>execute_select\<close> and \<open>DumpTree\<close>: while the cursor is not at the
  end, decode the row it stands on, print it, and advance (whatever \<open>Advance\<close> answers).
  \<open>render\<close> gives the printed line from page number, cell number and row. One round of the
  loop, then the loop with the lines printed so far.\<close>

definition Table_scan_step ::
  "sys_env \<Rightarrow> (u32 \<Rightarrow> u32 \<Rightarrow> UserSchema \<Rightarrow> string outcome) \<Rightarrow> Cursor \<Rightarrow> Table
     \<Rightarrow> (string \<times> Cursor \<times> Table) outcome" where
  "Table_scan_step env render c t =
     bnd (Cursor_Value env c t) (\<lambda>(ptr, t).
     bnd (of_opt NullDeref ptr) (\<lambda>a.
     bnd (read_page (cur_page_num c) t) (\<lambda>leaf.
     bnd (guard OutOfBounds (a + sizeof_UserSchema \<le> PAGE_SIZE)) (\<lambda>_.
     bnd (render (cur_page_num c) (cur_cell_num c) (UserSchema_DeserializeFrom leaf a)) (\<lambda>line.
     bnd (Cursor_Advance env c t) (\<lambda>(_, c, t).
       Inr (line, c, t)))))))"

partial_function (option) Table_scan ::
  "sys_env \<Rightarrow> (u32 \<Rightarrow> u32 \<Rightarrow> UserSchema \<Rightarrow> string outcome) \<Rightarrow> Cursor \<Rightarrow> Table \<Rightarrow> string list
     \<Rightarrow> (string list \<times> Table) outcome option" where
  "Table_scan env render c t lines =
     (if end_of_table c then Some (Inr (lines, t))
      else case Table_scan_step env render c t of
             Inl e \<Rightarrow> Some (Inl e)
           | Inr (line, c, t) \<Rightarrow> Table_scan env render c t (lines @ [line]))"

definition dump_line :: "u32 \<Rightarrow> u32 \<Rightarrow> UserSchema \<Rightarrow> string outcome" where
  "dump_line page_num cell_num row = bnd (UserSchema_ToString row) (\<lambda>s.
     Inr (''[Page='' @ show_nat (unat page_num) @ '',CellNum='' @ show_nat (unat cell_num) @ '']: '' @ s))"

definition Table_DumpTree :: "sys_env \<Rightarrow> Table \<Rightarrow> (string list \<times> Table) outcome" where
  "Table_DumpTree env t =
     bnd (Table_StartCursor env t) (\<lambda>(c, t).
     bnd (of_opt NullDeref c) (\<lambda>c. of_loop (Table_scan env dump_line c t [])))"

end
