(* ===== verification/Db_Insert.thy ===== *)
theory Db_Insert
  imports Db_Table
begin

text \<open>
  Insertion into a leaf page of the table. The lemmas first say what the page primitives do
  through a pointer, then what opening a gap and writing a cell does to the list of cells,
  and finally that \<open>ExecuteInsert\<close> on a page with room is list insertion.
\<close>

section \<open>Pages through pointers\<close>

lemma page_of_set_page: "page_of (set_page n m t) k = (if unat k = unat n then Some m else page_of t k)"
  by (simp add: page_of_def set_page_def)

lemma page_of_set_page_same [simp]: "page_of (set_page n m t) n = Some m"
  by (simp add: page_of_set_page)

lemma page_of_set_page_other [simp]: "k \<noteq> n \<Longrightarrow> page_of (set_page n m t) k = page_of t k"
  by (simp add: page_of_set_page word_unat_eq_iff)

lemma set_page_simps [simp]:
  "num_pages (pager (set_page n m t)) = num_pages (pager t)"
  "root_page_num (set_page n m t) = root_page_num t"
  "set_page n m (set_page n m' t) = set_page n m t"
  "pg_file (pager (set_page n m t)) = pg_file (pager t)"
  by (simp_all add: set_page_def)

lemma set_page_id [simp]: "page_of t n = Some m \<Longrightarrow> set_page n m t = t"
  by (simp add: page_of_def set_page_def fun_upd_idem)

lemma set_page_commute:
  "k \<noteq> n \<Longrightarrow> set_page k m' (set_page n m t) = set_page n m (set_page k m' t)"
  by (simp add: set_page_def fun_upd_twist word_unat_eq_iff)

lemma read_page_simp [simp]: "page_of t n = Some m \<Longrightarrow> read_page n t = Inr m"
  by (simp add: read_page_def)

lemma upd_page_simp [simp]: "page_of t n = Some m \<Longrightarrow> upd_page n f t = Inr (set_page n (f m) t)"
  by (simp add: upd_page_def)

lemma call_page_simp:
  "page_of t n = Some m \<Longrightarrow> f m = Inr (st, m') \<Longrightarrow> call_page n f t = Inr (st, set_page n m' t)"
  by (simp add: call_page_def)

lemma CHECK_VAL_ok [simp]: "CHECK_VAL (Inr (Status_default, Some x)) s k = k x"
  by (simp add: CHECK_VAL_def)

lemma Table_GetPage_cached [simp]:
  "unat n < MAX_PAGES \<Longrightarrow> page_of t n = Some m \<Longrightarrow> Table_GetPage env n t = Inr (Status_default, t)"
  by (simp add: Table_GetPage_def GetPage_cached page_of_def)

definition grow :: "u32 \<Rightarrow> Table \<Rightarrow> Table" where
  "grow n t = t\<lparr>pager := (pager t)\<lparr>num_pages := n\<rparr>\<rparr>"

lemma grow_simps [simp]:
  "page_of (grow n t) k = page_of t k" "num_pages (pager (grow n t)) = n"
  "root_page_num (grow n t) = root_page_num t"
  by (simp_all add: grow_def page_of_def)

lemma Table_GetPage_fresh:
  assumes "unat n < MAX_PAGES" and "page_of t n = None" and "num_pages (pager t) \<le> n"
  shows "Table_GetPage env n t = Inr (Status_default, grow (n + 1) (set_page n (\<lambda>_. 0) t))"
  using assms by (simp add: Table_GetPage_def GetPage_fresh page_of_def grow_def set_page_def)

lemma Cursor_GetLeafPage_cached [simp]:
  "unat n < MAX_PAGES \<Longrightarrow> page_of t n = Some m \<Longrightarrow> Node_IsDirty m \<Longrightarrow>
   Cursor_GetLeafPage env n t = Inr (Status_default, t)"
  by (simp add: Cursor_GetLeafPage_def)

lemma Node_IsLeaf_Dirty: "Node_IsLeaf m \<Longrightarrow> Node_IsDirty m"
  by (simp add: Node_IsLeaf_def Node_IsDirty_def)

lemma Node_kinds_disjoint: "Node_IsLeaf m \<Longrightarrow> \<not> Node_IsInternal m"
  by (simp add: Node_IsLeaf_def Node_IsInternal_def)

lemma AsLeaf_simp [simp]: "Node_IsLeaf m \<Longrightarrow> PageHelper_AsLeaf (Some m) = Some m"
  by (simp add: PageHelper_AsLeaf_def)

lemma AsInternal_simp [simp]: "Node_IsInternal m \<Longrightarrow> PageHelper_AsInternal (Some m) = Some m"
  by (simp add: PageHelper_AsInternal_def)

lemma AsInternal_leaf [simp]: "Node_IsLeaf m \<Longrightarrow> PageHelper_AsInternal (Some m) = None"
  by (simp add: PageHelper_AsInternal_def Node_kinds_disjoint)

lemma AsLeaf_internal [simp]: "Node_IsInternal m \<Longrightarrow> PageHelper_AsLeaf (Some m) = None"
  using Node_kinds_disjoint by (auto simp: PageHelper_AsLeaf_def)

section \<open>Header fields\<close>

text \<open>Everything a page header says except the number of cells or keys.\<close>

definition node_meta :: "mem \<Rightarrow> u32 \<times> u32 \<times> byte \<times> u32" where
  "node_meta page = (load32 page 0, load32 page 4, page 8, load32 page 16)"

lemma node_meta_fields:
  assumes "node_meta m = node_meta m'"
  shows "Node_GetParentPage m = Node_GetParentPage m'" "Node_IsLeaf m = Node_IsLeaf m'"
    "Node_IsInternal m = Node_IsInternal m'" "Node_IsRoot m = Node_IsRoot m'"
    "Node_IsDirty m = Node_IsDirty m'" "Leaf_GetNextLeaf m = Leaf_GetNextLeaf m'"
    "Internal_RightChildPage m = Internal_RightChildPage m'"
  using assms by (simp_all add: node_meta_def Node_GetParentPage_def Node_IsLeaf_def
      Node_IsInternal_def Node_IsRoot_def Node_IsDirty_def Leaf_GetNextLeaf_def
      Internal_RightChildPage_def)

lemma header_bytes:
  assumes "\<And>b. b < 20 \<Longrightarrow> m' b = m b"
  shows "node_meta m' = node_meta m" "Leaf_NumOfCells m' = Leaf_NumOfCells m"
    "Internal_NumOfKeys m' = Internal_NumOfKeys m"
proof -
  have "load32 m' a = load32 m a" if "a + 4 \<le> 20" for a
    using that assms by (intro load32_cong) simp
  then show "node_meta m' = node_meta m" "Leaf_NumOfCells m' = Leaf_NumOfCells m"
    "Internal_NumOfKeys m' = Internal_NumOfKeys m"
    using assms by (simp_all add: node_meta_def Leaf_NumOfCells_def Internal_NumOfKeys_def)
qed

lemma cell_at_header:
  "(\<And>b. 20 \<le> b \<Longrightarrow> m' b = m b) \<Longrightarrow> cell_at sz m' k = cell_at sz m k"
  unfolding cell_at_def by (rule mread_cong) simp

lemma Leaf_IncNumOfCells_fields:
  "Leaf_NumOfCells (Leaf_IncNumOfCells m) = Leaf_NumOfCells m + 1"
  "node_meta (Leaf_IncNumOfCells m) = node_meta m"
  "cell_at sz (Leaf_IncNumOfCells m) k = cell_at sz m k"
  by (simp_all add: Leaf_IncNumOfCells_def Leaf_NumOfCells_def node_meta_def load32_store32_other
      store32_other cell_at_def mread_store32_out)

lemma Leaf_SetNumOfCells_fields:
  "Leaf_NumOfCells (Leaf_SetNumOfCells n m) = n"
  "node_meta (Leaf_SetNumOfCells n m) = node_meta m"
  "cell_at sz (Leaf_SetNumOfCells n m) k = cell_at sz m k"
  by (simp_all add: Leaf_SetNumOfCells_def Leaf_NumOfCells_def node_meta_def load32_store32_other
      store32_other cell_at_def mread_store32_out)

section \<open>Writing one cell\<close>

definition put_cell :: "nat \<Rightarrow> u32 \<Rightarrow> UserSchema \<Rightarrow> mem \<Rightarrow> mem" where
  "put_cell i key row m = UserSchema_SerializeTo row (store32 m (20 + i * 296) key) (20 + i * 296 + 4)"

lemma put_cell_header: "UserSchema_wf row \<Longrightarrow> b < 20 \<Longrightarrow> put_cell i key row m b = m b"
  by (simp add: put_cell_def UserSchema_SerializeTo_def mwrite_out store32_other)

lemma put_cell_same:
  assumes "UserSchema_wf row"
  shows "leaf_cell (put_cell i key row m) i = (key, row)"
proof -
  have "load32 (put_cell i key row m) (20 + i * 296) = key"
    by (simp add: put_cell_def UserSchema_SerializeTo_def load32_mwrite_out)
  moreover have "UserSchema_DeserializeFrom (put_cell i key row m) (20 + i * 296 + 4) = row"
    unfolding put_cell_def using assms by (rule deserialize_serialize)
  ultimately show ?thesis by (simp add: leaf_cell_def)
qed

lemma put_cell_other:
  assumes "UserSchema_wf row" and "k \<noteq> i"
  shows "cell_at 296 (put_cell i key row m) k = cell_at 296 m k"
proof -
  have "20 + k * 296 + 296 \<le> 20 + i * 296 \<or> 20 + i * 296 + 296 \<le> 20 + k * 296"
    using assms(2) by (rule leaf_layout.cells_apart)
  then show ?thesis
    using assms(1)
    by (auto simp: cell_at_def put_cell_def UserSchema_SerializeTo_def schema_sizes
        mread_mwrite_out mread_store32_out)
qed

lemma put_cell_calls:
  assumes "i < 13" and "page_of t n = Some m"
  shows "STATUS_CHECK (call_page n (Leaf_PutKey (word_of_nat i) key) t)
      (\<lambda>t. call_page n (Leaf_PutVal (word_of_nat i) row) t)
    = Inr (Status_default, set_page n (put_cell i key row m) t)"
proof -
  have "Leaf_PutKey (word_of_nat i) key m = Inr (Status_default, store32 m (20 + i * 296) key)"
    using assms(1) by (simp add: Leaf_PutKey_def Leaf_CellKeyPtr_def Leaf_CellPtr_nat assign32_def PAGE_SIZE_eq)
  moreover have "Leaf_PutVal (word_of_nat i) row m' =
      Inr (Status_default, UserSchema_SerializeTo row m' (20 + i * 296 + 4))" for m'
    using assms(1)
    by (simp add: Leaf_PutVal_def Leaf_CellValPtr_def Leaf_CellPtr_nat leaf_sizes schema_sizes PAGE_SIZE_eq)
  ultimately show ?thesis
    using assms(2) by (simp add: call_page_simp put_cell_def)
qed

section \<open>Insertion in lists\<close>

lemma length_insert_at [simp]: "i \<le> length xs \<Longrightarrow> length (insert_at i x xs) = Suc (length xs)"
  by (simp add: insert_at_def)

lemma nth_insert_at:
  "i \<le> length xs \<Longrightarrow> k \<le> length xs \<Longrightarrow>
   insert_at i x xs ! k = (if k < i then xs ! k else if k = i then x else xs ! (k - 1))"
proof (cases "i < k")
  case True
  then obtain d where "k = i + Suc d" using less_imp_Suc_add by fastforce
  then show "i \<le> length xs \<Longrightarrow> k \<le> length xs \<Longrightarrow> ?thesis"
    by (simp add: insert_at_def nth_append)
next
  case False
  then show "i \<le> length xs \<Longrightarrow> k \<le> length xs \<Longrightarrow> ?thesis"
    by (auto simp: insert_at_def nth_append)
qed

lemma map_insert_at: "map f (insert_at i x xs) = insert_at i (f x) (map f xs)"
  by (simp add: insert_at_def take_map drop_map)

lemma set_insert_at: "set (insert_at i x xs) = insert x (set xs)"
  by (simp add: insert_at_def) (metis append_take_drop_id set_append)

section \<open>Insertion into a page with room\<close>

text \<open>The page that results: the cells from \<open>i\<close> on moved up, the count increased, the new
  cell written.\<close>

lemma leaf_insert_cells:
  assumes wf: "UserSchema_wf row" and n: "unat (Leaf_NumOfCells m) < 13"
    and i: "i \<le> unat (Leaf_NumOfCells m)"
    and shift: "\<And>k. cell_at 296 m' k = (if i < k \<and> k \<le> unat (Leaf_NumOfCells m)
        then cell_at 296 m (k - 1) else cell_at 296 m k)"
    and hdr: "\<And>b. b < 20 \<Longrightarrow> m' b = m b"
  shows "leaf_cells (put_cell i key row (Leaf_IncNumOfCells m')) = insert_at i (key, row) (leaf_cells m)"
    and "node_meta (put_cell i key row (Leaf_IncNumOfCells m')) = node_meta m"
    and "unat (Leaf_NumOfCells (put_cell i key row (Leaf_IncNumOfCells m'))) = unat (Leaf_NumOfCells m) + 1"
proof -
  let ?n = "unat (Leaf_NumOfCells m)"
  let ?p = "put_cell i key row (Leaf_IncNumOfCells m')"
  have hp: "\<And>b. b < 20 \<Longrightarrow> ?p b = Leaf_IncNumOfCells m' b" using wf by (rule put_cell_header)
  have num: "Leaf_NumOfCells ?p = Leaf_NumOfCells m + 1"
    using header_bytes(2) [OF hp] header_bytes(2) [OF hdr] by (simp add: Leaf_IncNumOfCells_fields)
  then show num': "unat (Leaf_NumOfCells ?p) = ?n + 1"
    using n by (simp add: unat_add_small)
  show "node_meta ?p = node_meta m"
    using header_bytes(1) [OF hp] header_bytes(1) [OF hdr] by (simp add: Leaf_IncNumOfCells_fields)
  have cell: "leaf_cell ?p k = (if k < i then leaf_cell m k else if k = i then (key, row)
      else leaf_cell m (k - 1))" if "k \<le> ?n" for k
  proof (cases "k = i")
    case True
    then show ?thesis using wf by (simp add: put_cell_same)
  next
    case False
    have "cell_at 296 ?p k = cell_at 296 m' k"
      using put_cell_other [OF wf False] by (simp add: Leaf_IncNumOfCells_fields)
    then have "leaf_cell ?p k = leaf_cell m' k" by (rule leaf_cell_cong)
    moreover have "leaf_cell m' k = (if k < i then leaf_cell m k else leaf_cell m (k - 1))"
      using shift [of k] that False by (auto intro: leaf_cell_cong split: if_splits)
    ultimately show ?thesis using False by simp
  qed
  show "leaf_cells ?p = insert_at i (key, row) (leaf_cells m)"
  proof (rule nth_equalityI)
    show "length (leaf_cells ?p) = length (insert_at i (key, row) (leaf_cells m))"
      using num' i by simp
    fix k
    assume "k < length (leaf_cells ?p)"
    then have k: "k \<le> ?n" using num' by simp
    have "leaf_cells ?p ! k = leaf_cell ?p k" using k num' by simp
    also have "\<dots> = insert_at i (key, row) (leaf_cells m) ! k"
      using cell [OF k] k i by (auto simp: nth_insert_at)
    finally show "leaf_cells ?p ! k = insert_at i (key, row) (leaf_cells m) ! k" .
  qed
qed

lemma ExecuteInsert_room:
  assumes page: "page_of t (cur_page_num c) = Some m" and "unat (cur_page_num c) < MAX_PAGES"
    and leaf: "Node_IsLeaf m" and n: "unat (Leaf_NumOfCells m) < 13"
    and i: "i \<le> unat (Leaf_NumOfCells m)" "cur_cell_num c = word_of_nat i"
    and wf: "UserSchema_wf row"
  shows "\<exists>m'. Cursor_ExecuteInsert env c key row t = Inr (Status_default, set_page (cur_page_num c) m' t) \<and>
    leaf_cells m' = insert_at i (key, row) (leaf_cells m) \<and> node_meta m' = node_meta m \<and>
    unat (Leaf_NumOfCells m') = unat (Leaf_NumOfCells m) + 1"
proof -
  let ?n = "unat (Leaf_NumOfCells m)"
  have un: "unat (word_of_nat i :: u32) = i" using n i by (simp add: unat_of_nat)
  obtain m' where m': "(if word_of_nat i < Leaf_NumOfCells m
      then shift_cells Leaf_CellPtr Leaf_CellSize (Leaf_NumOfCells m) (word_of_nat i) m else Inr m) = Inr m'"
    and cells: "\<And>k. cell_at 296 m' k = (if i < k \<and> k \<le> ?n then cell_at 296 m (k - 1) else cell_at 296 m k)"
    and hdr: "\<And>b. b < 20 \<Longrightarrow> m' b = m b"
  proof (cases "i < ?n")
    case True
    then show ?thesis
      using that leaf_layout.shift_cells_ok [of i ?n m] n un
      by (auto simp: leaf_sizes word_less_nat_alt)
  next
    case False
    then have "i = ?n" using i by simp
    then show ?thesis using un by (intro that [of m]) (auto simp: word_less_nat_alt)
  qed
  let ?p = "put_cell i key row (Leaf_IncNumOfCells m')"
  have "Cursor_ExecuteInsert env c key row t = Inr (Status_default, set_page (cur_page_num c) ?p t)"
    using assms m' put_cell_calls [of i "set_page (cur_page_num c) (Leaf_IncNumOfCells m') t"
        "cur_page_num c" "Leaf_IncNumOfCells m'" key row]
    by (simp add: Cursor_ExecuteInsert_def Node_IsLeaf_Dirty leaf_sizes)
  then show ?thesis using leaf_insert_cells [OF wf n i(1) cells hdr] by (intro exI [of _ ?p]) simp
qed

end
