(* ===== verification/Db_Split.thy ===== *)
theory Db_Split
  imports Db_Insert
begin

text \<open>
  Splitting a full leaf (\<open>Cursor::DoInsertAndSplit\<close>) and a full root
  (\<open>Table::SplitRoot\<close>). Stage 2 of the split copies in place, from the last cell down;
  the lemmas show that the two pages together hold the old cells with the new one
  inserted.
\<close>

section \<open>Stage 2\<close>

text \<open>The cell that position \<open>k\<close> of the fourteen must hold.\<close>

definition split_target :: "mem \<Rightarrow> nat \<Rightarrow> u32 \<Rightarrow> UserSchema \<Rightarrow> nat \<Rightarrow> u32 \<times> UserSchema" where
  "split_target m c key row k =
     (if k < c then leaf_cell m k else if k = c then (key, row) else leaf_cell m (k - 1))"

lemma split_cell_ok:
  assumes pages: "page_of t curr_page = Some cm"
      "page_of t (if 7 \<le> i then next_page else curr_page) = Some dm"
    and i: "i \<le> 13" and c: "c \<le> 13" and wf: "UserSchema_wf row"
    and old: "\<And>k. k \<le> i \<Longrightarrow> leaf_cell cm k = leaf_cell m k"
  shows "\<exists>dm'. Cursor_split_cell curr_page next_page (word_of_nat c) key row i t =
      Inr (Status_default, set_page (if 7 \<le> i then next_page else curr_page) dm' t) \<and>
    leaf_cell dm' (i mod 7) = split_target m c key row i \<and>
    (\<forall>k. k \<noteq> i mod 7 \<longrightarrow> leaf_cell dm' k = leaf_cell dm k) \<and> (\<forall>b < 20. dm' b = dm b)"
proof -
  define des where "des = (if 7 \<le> i then next_page else curr_page)"
  let ?j = "i mod 7"
  note pages' = pages(1) pages(2) [folded des_def]
  note unf = Cursor_split_cell_def [of curr_page next_page "word_of_nat c" key row i t,
      unfolded Let_def leaf_sizes, folded des_def]
  have j: "?j < 13" by (rule order.strict_trans [of _ 7]) simp_all
  have uc: "unat (word_of_nat c :: u32) = c" using c by (simp add: unat_of_nat)
  have ptr: "Leaf_CellPtr (word_of_nat ?j) = Some (20 + ?j * 296)"
    using j by (rule Leaf_CellPtr_nat)
  show ?thesis
    unfolding des_def [symmetric]
  proof (cases "i = c")
    case True
    let ?d = "put_cell ?j key row dm"
    have "Cursor_split_cell curr_page next_page (word_of_nat c) key row i t =
        Inr (Status_default, set_page des ?d t)"
      using True ptr uc put_cell_calls [OF j pages'(2), of key row] unfolding unf by auto
    moreover have "leaf_cell ?d k = leaf_cell dm k" if "k \<noteq> ?j" for k
      using put_cell_other [OF wf that] by (rule leaf_cell_cong)
    ultimately show "\<exists>dm'. Cursor_split_cell curr_page next_page (word_of_nat c) key row i t =
        Inr (Status_default, set_page des dm' t) \<and>
      leaf_cell dm' ?j = split_target m c key row i \<and>
      (\<forall>k. k \<noteq> ?j \<longrightarrow> leaf_cell dm' k = leaf_cell dm k) \<and> (\<forall>b < 20. dm' b = dm b)"
      using True wf by (intro exI [of _ ?d]) (simp add: put_cell_same put_cell_header split_target_def)
  next
    case False
    let ?s = "if c < i then i - 1 else i"
    let ?d = "memcpy dm (20 + ?j * 296) cm (20 + ?s * 296) 296"
    have s: "?s < 13" using False i c by auto
    have cell: "Cursor_split_cell curr_page next_page (word_of_nat c) key row i t =
        Inr (Status_default, set_page des ?d t)"
      using False ptr uc pages' leaf_layout.copy_cell_ok [OF j s, of cm dm]
      by (cases "c < i") (simp_all add: unf)
    have cells: "cell_at 296 ?d k = (if k = ?j then cell_at 296 cm ?s else cell_at 296 dm k)" for k
      by (rule leaf_layout.cell_at_memcpy)
    have "leaf_cell ?d ?j = leaf_cell cm ?s"
      using cells by (intro leaf_cell_cong) simp
    moreover have "leaf_cell cm ?s = split_target m c key row i"
      using old False by (simp add: split_target_def)
    moreover have "leaf_cell ?d k = leaf_cell dm k" if "k \<noteq> ?j" for k
      using cells that by (intro leaf_cell_cong) simp
    ultimately show "\<exists>dm'. Cursor_split_cell curr_page next_page (word_of_nat c) key row i t =
        Inr (Status_default, set_page des dm' t) \<and>
      leaf_cell dm' ?j = split_target m c key row i \<and>
      (\<forall>k. k \<noteq> ?j \<longrightarrow> leaf_cell dm' k = leaf_cell dm k) \<and> (\<forall>b < 20. dm' b = dm b)"
      using cell by (intro exI [of _ ?d]) (simp add: leaf_layout.header_memcpy)
  qed
qed

text \<open>One round of the loop: cell \<open>i\<close> goes to its place in one of the two pages.\<close>

lemma split_cell_round:
  assumes "curr_page \<noteq> next_page" and "c \<le> 13" and "UserSchema_wf row" and i: "i \<le> 13"
    and t: "page_of t curr_page = Some cm" "page_of t next_page = Some nm" and old: "\<And>k. k \<le> i \<Longrightarrow> leaf_cell cm k = leaf_cell m k"
  shows "\<exists>cm' nm'. Cursor_split_cell curr_page next_page (word_of_nat c) key row i t =
        Inr (Status_default, set_page curr_page cm' (set_page next_page nm' t)) \<and>
      (\<forall>k. leaf_cell cm' k = (if k = i \<and> i < 7 then split_target m c key row i else leaf_cell cm k)) \<and>
      (\<forall>k. leaf_cell nm' k = (if k + 7 = i then split_target m c key row i else leaf_cell nm k)) \<and>
      (\<forall>b < 20. cm' b = cm b \<and> nm' b = nm b)"
proof -
  let ?dm = "if 7 \<le> i then nm else cm" and ?des = "if 7 \<le> i then next_page else curr_page"
  have des: "page_of t ?des = Some ?dm" using t by simp
  obtain d where d: "Cursor_split_cell curr_page next_page (word_of_nat c) key row i t = Inr (Status_default, set_page ?des d t)"
      "leaf_cell d (i mod 7) = split_target m c key row i"
      "\<forall>k. k \<noteq> i mod 7 \<longrightarrow> leaf_cell d k = leaf_cell ?dm k" "\<forall>b < 20. d b = ?dm b"
    using split_cell_ok [of t curr_page cm i next_page ?dm c row m key, OF t(1) des] i assms(2,3) old by blast
  have im: "i mod 7 = (if 7 \<le> i then i - 7 else i)" using i by presburger
  show ?thesis
  proof (cases "7 \<le> i")
    case True
    have "set_page curr_page cm (set_page next_page d t) = set_page next_page d t" using t(1) assms(1) by simp
    moreover have "leaf_cell d k = (if k + 7 = i then split_target m c key row i else leaf_cell nm k)" for k
      using d(2,3) im True by auto
    ultimately show ?thesis using d(1,4) True by (intro exI [of _ cm] exI [of _ d]) simp
  next
    case False
    have "set_page curr_page d (set_page next_page nm t) = set_page curr_page d t" using t(2) by simp
    moreover have "leaf_cell d k = (if k = i \<and> i < 7 then split_target m c key row i else leaf_cell cm k)" for k
      using d(2,3) im False by auto
    ultimately show ?thesis using d(1,4) False by (intro exI [of _ d] exI [of _ nm]) auto
  qed
qed

lemma split_loop_ok:
  assumes "curr_page \<noteq> next_page" and "c \<le> 13" and "UserSchema_wf row"
  shows "j \<le> 14 \<Longrightarrow> page_of t curr_page = Some cm \<Longrightarrow> page_of t next_page = Some nm \<Longrightarrow>
    (\<And>k. k < j \<Longrightarrow> leaf_cell cm k = leaf_cell m k) \<Longrightarrow>
    \<exists>cm' nm'. Cursor_split_loop curr_page next_page (word_of_nat c) key row j t =
        Inr (Status_default, set_page curr_page cm' (set_page next_page nm' t)) \<and>
      (\<forall>k < 7. leaf_cell cm' k = (if k < j then split_target m c key row k else leaf_cell cm k)) \<and>
      (\<forall>k < 7. leaf_cell nm' k = (if k + 7 < j then split_target m c key row (k + 7) else leaf_cell nm k)) \<and>
      (\<forall>b < 20. cm' b = cm b \<and> nm' b = nm b)"
proof (induction j arbitrary: t cm nm)
  case 0
  then show ?case
    by (intro exI [of _ cm] exI [of _ nm]) simp
next
  case (Suc i)
  have i: "i \<le> 13" using Suc.prems(1) by simp
  obtain c1 n1 where r1: "Cursor_split_cell curr_page next_page (word_of_nat c) key row i t =
        Inr (Status_default, set_page curr_page c1 (set_page next_page n1 t))"
      "\<And>k. leaf_cell c1 k = (if k = i \<and> i < 7 then split_target m c key row i else leaf_cell cm k)"
      "\<And>k. leaf_cell n1 k = (if k + 7 = i then split_target m c key row i else leaf_cell nm k)"
      "\<forall>b < 20. c1 b = cm b \<and> n1 b = nm b"
    using split_cell_round [OF assms i Suc.prems(2,3), of m key] Suc.prems(4) by (metis less_Suc_eq_le)
  let ?t = "set_page curr_page c1 (set_page next_page n1 t)"
  have "\<And>k. k < i \<Longrightarrow> leaf_cell c1 k = leaf_cell m k" using r1(2) Suc.prems(4) by simp
  then obtain cm' nm' where r: "Cursor_split_loop curr_page next_page (word_of_nat c) key row i ?t =
        Inr (Status_default, set_page curr_page cm' (set_page next_page nm' ?t))"
      "\<forall>k < 7. leaf_cell cm' k = (if k < i then split_target m c key row k else leaf_cell c1 k)"
      "\<forall>k < 7. leaf_cell nm' k = (if k + 7 < i then split_target m c key row (k + 7) else leaf_cell n1 k)"
      "\<forall>b < 20. cm' b = c1 b \<and> nm' b = n1 b"
    using Suc.IH [of ?t c1 n1] i assms(1) by auto
  have "set_page curr_page cm' (set_page next_page nm' ?t) = set_page curr_page cm' (set_page next_page nm' t)"
    using assms(1) by (simp add: set_page_commute [of next_page curr_page])
  then show ?case using r1(1,4) r r1(2,3) by (intro exI [of _ cm'] exI [of _ nm']) (auto simp: less_Suc_eq)
qed

section \<open>Header writes\<close>

lemma leaf_cell_header:
  "(\<And>b. 20 \<le> b \<Longrightarrow> m' b = m b) \<Longrightarrow> leaf_cell m' k = leaf_cell m k"
  by (intro leaf_cell_cong cell_at_header) simp

lemma header_setters [simp]:
  "leaf_cell (Leaf_SetNextLeaf v m) k = leaf_cell m k"
  "leaf_cell (Node_SetParentPage v m) k = leaf_cell m k"
  "leaf_cell (Leaf_SetNumOfCells v m) k = leaf_cell m k"
  "leaf_cell (Node_SetRoot b m) k = leaf_cell m k"
  by (rule leaf_cell_header; simp add: Leaf_SetNextLeaf_def Node_SetParentPage_def
      Leaf_SetNumOfCells_def Node_SetRoot_def store32_other)+

lemma meta_setters [simp]:
  "node_meta (Leaf_SetNextLeaf v m) = (load32 m 0, load32 m 4, m 8, v)"
  "node_meta (Node_SetParentPage v m) = (v, load32 m 4, m 8, load32 m 16)"
  "node_meta (Leaf_SetNumOfCells n m) = node_meta m"
  "node_meta (Node_SetRoot b m) = (load32 m 0, load32 m 4, (if b then 1 else 0), load32 m 16)"
  "Leaf_NumOfCells (Leaf_SetNextLeaf v m) = Leaf_NumOfCells m"
  "Leaf_NumOfCells (Node_SetParentPage v m) = Leaf_NumOfCells m"
  "Leaf_NumOfCells (Leaf_SetNumOfCells n m) = n"
  "Leaf_NumOfCells (Node_SetRoot b m) = Leaf_NumOfCells m"
  by (simp_all add: node_meta_def Leaf_SetNextLeaf_def Node_SetParentPage_def Leaf_SetNumOfCells_def
      Node_SetRoot_def Leaf_NumOfCells_def load32_store32_other store32_other load32_upd_other)

lemma leaf_cells_eqI:
  "unat (Leaf_NumOfCells m) = n \<Longrightarrow> length xs = n \<Longrightarrow> (\<And>k. k < n \<Longrightarrow> leaf_cell m k = xs ! k) \<Longrightarrow>
   leaf_cells m = xs"
  by (rule nth_equalityI) auto

lemma split_target_list:
  assumes "unat (Leaf_NumOfCells m) = 13" and "c \<le> 13" and "k < 14"
  shows "split_target m c key row k = insert_at c (key, row) (leaf_cells m) ! k"
  using assms by (subst nth_insert_at) (auto simp: split_target_def)

lemma Leaf_GetMaxKey_ok:
  assumes "0 < unat (Leaf_NumOfCells m)" and "unat (Leaf_NumOfCells m) \<le> 13"
  shows "Leaf_GetMaxKey m = Inr (Status_default, Some (fst (last (leaf_cells m))))"
proof -
  let ?n = "unat (Leaf_NumOfCells m)"
  have nz: "Leaf_NumOfCells m \<noteq> 0" using assms(1) by (metis less_irrefl unat_0)
  have eq: "word_of_nat (?n - 1) = Leaf_NumOfCells m - 1"
    using assms nz by (simp add: word_unat_eq_iff unat_minus_one unat_of_nat)
  have "Leaf_CellPtr (Leaf_NumOfCells m - 1) = Some (20 + (?n - 1) * 296)"
    using Leaf_CellPtr_nat [of "?n - 1"] assms unfolding eq by simp
  moreover have "leaf_cells m \<noteq> []" using assms(1) by (metis length_leaf_cells list.size(3) less_irrefl)
  then have "fst (last (leaf_cells m)) = load32 m (20 + (?n - 1) * 296)"
    using assms(1) by (simp add: last_conv_nth leaf_cell_def)
  ultimately show ?thesis
    using assms nz
    by (simp add: Leaf_GetMaxKey_def Leaf_CellKeyPtr_def deref32_def PAGE_SIZE_eq)
qed

lemma Leaf_Reset_zero:
  "load32 (Leaf_Reset (\<lambda>_. 0)) 4 = 2" "Leaf_Reset (\<lambda>_. 0) 8 = 0" "\<not> Node_IsDirty (\<lambda>_. 0)"
  by (simp_all add: Leaf_Reset_def Leaf_SetNextLeaf_def Leaf_SetNumOfCells_def Node_SetType_def
      node_meta_def Node_IsDirty_def load32_store32_other store32_other load32_def [of "\<lambda>_. 0"])

section \<open>The common part of a leaf split\<close>

lemma DoInsertAndSplit_prefix:
  fixes t cp np m key row c env
  assumes np: "np = num_pages (pager t)" "unat np < MAX_PAGES" "page_of t np = None" "cp \<noteq> np"
    and m: "page_of t cp = Some m" "unat (Leaf_NumOfCells m) = 13"
    and c: "c \<le> 13" and wf: "UserSchema_wf row"
  defines "L \<equiv> insert_at c (key, row) (leaf_cells m)"
  shows "\<exists>t' cm nm. Cursor_DoInsertAndSplit env (word_of_nat c) cp key row t =
      (if Node_IsRoot m then Table_SplitRoot env np t'
       else Cursor_split_parent env (Node_GetParentPage m) np (fst (last (leaf_cells m))) t') \<and>
    (\<forall>k. page_of t' k = (if k = cp then Some cm else if k = np then Some nm else page_of t k)) \<and>
    num_pages (pager t') = np + 1 \<and> root_page_num t' = root_page_num t \<and>
    leaf_cells cm = take 7 L \<and> leaf_cells nm = drop 7 L \<and>
    node_meta cm = (load32 m 0, load32 m 4, m 8, np) \<and>
    node_meta nm = (load32 m 0, 2, 0, load32 m 16)"
proof -
  let ?cur = "Leaf_SetNextLeaf np m"
  let ?new = "Leaf_SetNextLeaf (Leaf_GetNextLeaf m)
      (Node_SetParentPage (Node_GetParentPage m) (Leaf_Reset (\<lambda>_. 0)))"
  let ?tz = "set_page np (Leaf_Reset (\<lambda>_. 0)) (grow (np + 1) (set_page np (\<lambda>_. 0) t))"
  let ?tb = "set_page cp ?cur (set_page np ?new ?tz)"
  have get: "Cursor_GetLeafPage env np t = Inr (Status_default, ?tz)"
    using np by (simp add: Cursor_GetLeafPage_def Table_GetPage_fresh Leaf_Reset_zero)
  have max: "Leaf_GetMaxKey m = Inr (Status_default, Some (fst (last (leaf_cells m))))"
    using m(2) by (intro Leaf_GetMaxKey_ok) simp_all
  have pg: "page_of ?tb cp = Some ?cur" "page_of ?tb np = Some ?new" using np(4) by auto
  obtain cm' nm' where loop: "Cursor_split_loop cp np (word_of_nat c) key row 14 ?tb =
        Inr (Status_default, set_page cp cm' (set_page np nm' ?tb))"
    and cells: "\<forall>k < 7. leaf_cell cm' k = split_target m c key row k"
      "\<forall>k < 7. leaf_cell nm' k = split_target m c key row (k + 7)"
    and hdr: "\<forall>b < 20. cm' b = ?cur b \<and> nm' b = ?new b"
    using split_loop_ok [OF np(4) c wf _ pg, of 14 m key] by auto
  let ?cm = "Leaf_SetNumOfCells 7 cm'" and ?nm = "Leaf_SetNumOfCells 7 nm'"
  let ?t' = "set_page np ?nm (set_page cp ?cm (set_page cp cm' (set_page np nm' ?tb)))"
  have meta: "node_meta cm' = node_meta ?cur" "node_meta nm' = node_meta ?new"
    using hdr header_bytes(1) by auto
  have metas: "node_meta ?cm = (load32 m 0, load32 m 4, m 8, np)"
      "node_meta ?nm = (load32 m 0, 2, 0, load32 m 16)"
    by (simp_all add: meta Leaf_GetNextLeaf_def Node_GetParentPage_def Leaf_Reset_zero
        Node_SetParentPage_def load32_store32_other store32_other)
  have root: "Node_IsRoot ?cm = Node_IsRoot m" "Node_GetParentPage ?cm = Node_GetParentPage m"
    using metas(1) by (simp_all add: node_meta_def Node_IsRoot_def Node_GetParentPage_def)
  have eq: "Cursor_DoInsertAndSplit env (word_of_nat c) cp key row t =
      (if Node_IsRoot m then Table_SplitRoot env np ?t'
       else Cursor_split_parent env (Node_GetParentPage m) np (fst (last (leaf_cells m))) ?t')"
    using np m get max loop root
    by (simp add: Cursor_DoInsertAndSplit_def Let_def Pager_PageNums_def leaf_sizes numeral_eq_Suc)
  have len: "length L = 14" using m(2) c by (simp add: L_def)
  have "leaf_cells ?cm = take 7 L"
    using cells(1) len split_target_list [OF m(2) c] by (intro leaf_cells_eqI [of _ 7]) (simp_all add: L_def)
  moreover have "leaf_cells ?nm = drop 7 L"
    using cells(2) len split_target_list [OF m(2) c]
    by (intro leaf_cells_eqI [of _ 7]) (simp_all add: L_def add.commute [of 7])
  ultimately show ?thesis
    using eq metas np(4) by (intro exI [of _ ?t'] exI [of _ ?cm] exI [of _ ?nm]) (simp add: page_of_set_page word_unat_eq_iff)
qed

end
