(* ===== verification/Db_Tree.thy ===== *)
theory Db_Tree
  imports Db_Split
begin

text \<open>
  Insertion and search on whole tables (\<open>db_lab/table.h\<close>): a table whose root is a leaf, the
  split that turns it into a root with two leaves, and tables of two levels.
\<close>

section \<open>SplitRoot\<close>

lemma leaf_cell_memcpy_page:
  assumes "k < 13"
  shows "leaf_cell (memcpy l 0 m 0 PAGE_SIZE) k = leaf_cell m k"
proof -
  have "20 + k * 296 + 296 \<le> PAGE_SIZE" using leaf_layout.cell_end [OF assms] .
  then show ?thesis
    by (intro leaf_cell_cong) (simp add: cell_at_def mread_memcpy_in)
qed

lemma memcpy_page_header:
  "node_meta (memcpy l 0 m 0 PAGE_SIZE) = node_meta m"
  "Leaf_NumOfCells (memcpy l 0 m 0 PAGE_SIZE) = Leaf_NumOfCells m"
  by (rule header_bytes; simp add: memcpy_in PAGE_SIZE_eq)+

lemma leaf_cells_memcpy_page:
  assumes "unat (Leaf_NumOfCells m) \<le> 13"
  shows "leaf_cells (memcpy l 0 m 0 PAGE_SIZE) = leaf_cells m"
  using assms by (intro leaf_cells_eqI) (auto simp: memcpy_page_header leaf_cell_memcpy_page)

lemma leaf_cells_setters [simp]:
  "leaf_cells (Node_SetRoot b m) = leaf_cells m"
  "leaf_cells (Node_SetParentPage v m) = leaf_cells m"
  by (simp_all add: leaf_cells_def)

text \<open>The page the root becomes: one key, two children.\<close>

definition split_root_page :: "u32 \<Rightarrow> u32 \<Rightarrow> u32 \<Rightarrow> mem \<Rightarrow> mem" where
  "split_root_page left key right root =
     Internal_SetRightChild right (store32 (store32
       (Internal_SetNumOfKeys 1 (Node_SetRoot True (Internal_Reset root))) 20 left) 24 key)"

lemma split_root_page_fields:
  "internal_keys (split_root_page l k r m) = [k]"
  "internal_children (split_root_page l k r m) = [l, r]"
  "Internal_NumOfKeys (split_root_page l k r m) = 1"
  "node_meta (split_root_page l k r m) = (load32 m 0, 1, 1, r)"
  by (simp_all add: split_root_page_def Internal_SetRightChild_def Internal_SetNumOfKeys_def
      Node_SetRoot_def Internal_Reset_def Node_SetType_def internal_keys_def internal_key_def
      internal_children_def internal_child_def Internal_NumOfKeys_def Internal_RightChildPage_def
      node_meta_def load32_store32_other load32_upd_other load32_memset_out store32_other upt_rec
      NodeType_val.simps)

lemma SplitRoot_ok:
  assumes lp: "lp = num_pages (pager t)" "unat lp < MAX_PAGES" "page_of t lp = None"
    and rp: "unat rp < MAX_PAGES" "page_of t rp = Some rm"
    and root: "unat (root_page_num t) < MAX_PAGES" "page_of t (root_page_num t) = Some m"
      "Node_IsRoot m" "root_page_num t \<noteq> rp" "0 < unat (Leaf_NumOfCells m)" "unat (Leaf_NumOfCells m) \<le> 13"
  shows "\<exists>t' lm rm'. Table_SplitRoot env rp t = Inr (Status_default, t') \<and>
    (\<forall>k. page_of t' k = (if k = root_page_num t
         then Some (split_root_page lp (fst (last (leaf_cells m))) rp m)
       else if k = lp then Some lm else if k = rp then Some rm' else page_of t k)) \<and>
    num_pages (pager t') = lp + 1 \<and> root_page_num t' = root_page_num t \<and>
    leaf_cells lm = leaf_cells m \<and> leaf_cells rm' = leaf_cells rm \<and>
    node_meta lm = (root_page_num t, load32 m 4, 0, load32 m 16) \<and>
    node_meta rm' = (root_page_num t, load32 rm 4, rm 8, load32 rm 16)"
proof -
  let ?r = "root_page_num t"
  let ?max = "fst (last (leaf_cells m))"
  let ?l = "Node_SetRoot False (memcpy (\<lambda>_. 0) 0 m 0 PAGE_SIZE)"
  let ?ra = "Internal_SetNumOfKeys 1 (Node_SetRoot True (Internal_Reset m))"
  let ?rb = "store32 ?ra 20 lp"
  let ?rc = "store32 ?rb 24 ?max"
  have ne: "lp \<noteq> ?r" "lp \<noteq> rp" "?r \<noteq> lp" "rp \<noteq> lp" using lp(3) rp(2) root(2) by auto
  have max: "Leaf_GetMaxKey ?l = Inr (Status_default, Some ?max)"
    using root(5,6) by (subst Leaf_GetMaxKey_ok) (simp_all add: memcpy_page_header leaf_cells_memcpy_page)
  have child: "Internal_SetChild 0 lp ?ra = Inr (Status_default, ?rb)"
    using Internal_CellPtr_nat [of 0]
    by (simp add: Internal_SetChild_def Internal_ChildPtr_def assign32_def PAGE_SIZE_eq
        Internal_NumOfKeys_def Internal_SetNumOfKeys_def)
  have key: "Internal_SetKey 0 ?max ?rb = Inr (Status_default, ?rc)"
    using Internal_KeyPtr_nat [of 0]
    by (simp add: Internal_SetKey_def assign32_def PAGE_SIZE_eq)
  let ?ta = "grow (lp + 1) (set_page lp (\<lambda>_. 0) t)"
  let ?t' = "set_page rp (Node_SetParentPage ?r rm) (set_page lp (Node_SetParentPage ?r ?l)
      (set_page ?r (Internal_SetRightChild rp ?rc) (set_page lp ?l ?ta)))"
  have run: "Table_SplitRoot env rp t = Inr (Status_default, ?t')"
    using lp rp root ne max child key
    by (simp add: Table_SplitRoot_def Let_def Pager_PageNums_def Table_GetPage_fresh call_page_simp)
  have pages: "page_of ?t' k = (if k = ?r then Some (split_root_page lp ?max rp m)
      else if k = lp then Some (Node_SetParentPage ?r ?l)
      else if k = rp then Some (Node_SetParentPage ?r rm) else page_of t k)" for k
    using ne root(4) by (auto simp: page_of_set_page word_unat_eq_iff split_root_page_def)
  have metas: "node_meta (Node_SetParentPage ?r ?l) = (?r, load32 m 4, 0, load32 m 16)"
    using memcpy_page_header(1) [of "\<lambda>_. 0" m] 
    by (simp add: node_meta_def Node_SetRoot_def Node_SetParentPage_def load32_upd_other
        load32_store32_other store32_other)
  show ?thesis
    using run pages metas root(6)
    by (intro exI [of _ ?t'] exI [of _ "Node_SetParentPage ?r ?l"] exI [of _ "Node_SetParentPage ?r rm"])
      (simp add: leaf_cells_memcpy_page)
qed

section \<open>A table whose root is a leaf\<close>

definition leaf_root :: "Table \<Rightarrow> mem \<Rightarrow> bool" where
  "leaf_root t m \<longleftrightarrow> page_of t (root_page_num t) = Some m \<and> unat (root_page_num t) < MAX_PAGES \<and>
     Node_IsLeaf m \<and> Node_IsRoot m \<and> unat (Leaf_NumOfCells m) \<le> Leaf_CellsCapacity \<and>
     sorted (leaf_keys m)"

definition root_cursor :: "Table \<Rightarrow> nat \<Rightarrow> Cursor" where
  "root_cursor t i = \<lparr>cur_page_num = root_page_num t, cur_cell_num = word_of_nat i, end_of_table = False\<rparr>"

lemma Table_Find_leaf_root:
  assumes "leaf_root t m"
  shows "\<exists>i. Table_Find env key t = Inr (Some (root_cursor t i), t) \<and> insert_point (leaf_keys m) key i \<and>
    (if key \<in> set (leaf_keys m) then i < length (leaf_keys m) \<and> leaf_keys m ! i = key
     else i = lower_bound (leaf_keys m) key)"
proof -
  obtain i where i: "Leaf_FindCell m key = Inr (word_of_nat i)" "insert_point (leaf_keys m) key i"
    "if key \<in> set (leaf_keys m) then i < length (leaf_keys m) \<and> leaf_keys m ! i = key
     else i = lower_bound (leaf_keys m) key"
    using assms Leaf_FindCell_ok [of m key] by (auto simp: leaf_root_def leaf_sizes)
  have "Table_Find env key t = Inr (Some (root_cursor t i), t)"
    using assms i(1)
    by (simp add: Table_Find_def leaf_root_def Table_LeafPageFind_def root_cursor_def)
  then show ?thesis using i(2,3) by blast
qed

lemma insert_point_le: "insert_point ks k i \<Longrightarrow> i \<le> length ks"
  by (simp add: insert_point_def)

lemma leaf_keys_insert:
  "leaf_cells m' = insert_at i (key, row) (leaf_cells m) \<Longrightarrow> leaf_keys m' = insert_at i key (leaf_keys m)"
  by (simp add: leaf_keys_def map_insert_at)

lemma Insert_leaf_root_ok:
  assumes "leaf_root t m" and "unat (Leaf_NumOfCells m) < Leaf_CellsCapacity" and "UserSchema_wf row"
  shows "\<exists>i m'. Table_Insert env key row t = Inr (Status_default, set_page (root_page_num t) m' t) \<and>
    leaf_cells m' = insert_at i (key, row) (leaf_cells m) \<and> i \<le> unat (Leaf_NumOfCells m) \<and>
    insert_point (leaf_keys m) key i \<and> node_meta m' = node_meta m \<and>
    leaf_root (set_page (root_page_num t) m' t) m'"
proof -
  obtain i where i: "Table_Find env key t = Inr (Some (root_cursor t i), t)"
    "insert_point (leaf_keys m) key i"
    using Table_Find_leaf_root [OF assms(1)] by blast
  have le: "i \<le> unat (Leaf_NumOfCells m)" using insert_point_le [OF i(2)] by simp
  obtain m' where m': "Cursor_ExecuteInsert env (root_cursor t i) key row t
      = Inr (Status_default, set_page (root_page_num t) m' t)"
    "leaf_cells m' = insert_at i (key, row) (leaf_cells m)" "node_meta m' = node_meta m"
    "unat (Leaf_NumOfCells m') = unat (Leaf_NumOfCells m) + 1"
    using ExecuteInsert_room [of t "root_cursor t i" m i row env key] assms le
    by (auto simp: leaf_root_def root_cursor_def leaf_sizes)
  have "sorted (leaf_keys m')"
    using leaf_keys_insert [OF m'(2)] insert_point_Cons_bounds [OF i(2)] assms(1)
    by (simp add: leaf_root_def)
  then have "leaf_root (set_page (root_page_num t) m' t) m'"
    using assms(1,2) m'(4) node_meta_fields [OF m'(3)] by (simp add: leaf_root_def)
  then show ?thesis
    using i m' le by (intro exI [of _ i] exI [of _ m']) (simp add: Table_Insert_def)
qed

text \<open>C2. Inserting into a table whose root is a leaf with room succeeds: the new row is
  inserted into the list of cells at its place, nothing else of the table changes, and the
  leaf stays sorted.\<close>

theorem Table_Insert_leaf_root:
  assumes "leaf_root t m" and "unat (Leaf_NumOfCells m) < Leaf_CellsCapacity" and "UserSchema_wf row"
  shows "\<exists>i m'. Table_Insert env key row t = Inr (Status_default, set_page (root_page_num t) m' t) \<and>
    leaf_cells m' = insert_at i (key, row) (leaf_cells m) \<and> i \<le> unat (Leaf_NumOfCells m) \<and>
    leaf_root (set_page (root_page_num t) m' t) m'"
  using Insert_leaf_root_ok [OF assms] by blast

lemma Insert_root_split_ok:
  assumes "leaf_root t m" and "unat (Leaf_NumOfCells m) = Leaf_CellsCapacity" and "UserSchema_wf row"
    and "np = num_pages (pager t)" and "unat np + 1 < MAX_PAGES"
    and "page_of t np = None" and "page_of t (np + 1) = None"
  shows "\<exists>i t' root left right. Table_Insert env key row t = Inr (Status_default, t') \<and>
    root_page_num t' = root_page_num t \<and> num_pages (pager t') = np + 2 \<and>
    page_of t' (root_page_num t) = Some root \<and> Node_IsInternal root \<and> Node_IsRoot root \<and>
    internal_children root = [np + 1, np] \<and> internal_keys root = [fst (last (leaf_cells left))] \<and>
    page_of t' (np + 1) = Some left \<and> page_of t' np = Some right \<and>
    Node_IsLeaf left \<and> Node_IsLeaf right \<and> \<not> Node_IsRoot left \<and> \<not> Node_IsRoot right \<and>
    Node_GetParentPage left = root_page_num t \<and> Node_GetParentPage right = root_page_num t \<and>
    length (leaf_cells left) = 7 \<and> length (leaf_cells right) = 7 \<and>
    leaf_cells left @ leaf_cells right = insert_at i (key, row) (leaf_cells m) \<and>
    sorted (leaf_keys left @ leaf_keys right) \<and>
    Leaf_GetNextLeaf left = np \<and> Leaf_GetNextLeaf right = Leaf_GetNextLeaf m"
proof -
  let ?r = "root_page_num t"
  obtain i where i: "Table_Find env key t = Inr (Some (root_cursor t i), t)"
    "insert_point (leaf_keys m) key i"
    using Table_Find_leaf_root [OF assms(1)] by blast
  let ?L = "insert_at i (key, row) (leaf_cells m)"
  have le: "i \<le> 13" using insert_point_le [OF i(2)] assms(2) by (simp add: leaf_sizes)
  have len: "length ?L = 14" using le assms(2) by (simp add: leaf_sizes)
  have ne: "?r \<noteq> np" "?r \<noteq> np + 1" using assms(1,6,7) by (auto simp: leaf_root_def)
  have u: "unat (np + 1) = unat np + 1" using assms(5) by (subst unat_add_small) (simp_all add: MAX_PAGES_eq)
  obtain t1 cm nm where split: "Cursor_DoInsertAndSplit env (word_of_nat i) ?r key row t = Table_SplitRoot env np t1"
    "\<forall>k. page_of t1 k = (if k = ?r then Some cm else if k = np then Some nm else page_of t k)"
    "num_pages (pager t1) = np + 1" "root_page_num t1 = ?r"
    "leaf_cells cm = take 7 ?L" "leaf_cells nm = drop 7 ?L"
    "node_meta cm = (load32 m 0, load32 m 4, m 8, np)" "node_meta nm = (load32 m 0, 2, 0, load32 m 16)"
    using DoInsertAndSplit_prefix [of np t ?r m i row env key] assms ne le
    by (auto simp: leaf_root_def leaf_sizes)
  have n7: "unat (Leaf_NumOfCells cm) = 7"
    using split(5) len length_leaf_cells [of cm] by simp
  have root: "Node_IsRoot cm"
    using split(7) assms(1) by (simp add: leaf_root_def node_meta_def Node_IsRoot_def)
  obtain t' lm rm where res: "Table_SplitRoot env np t1 = Inr (Status_default, t')"
    "\<forall>k. page_of t' k = (if k = ?r
         then Some (split_root_page (np + 1) (fst (last (leaf_cells cm))) np cm)
       else if k = np + 1 then Some lm else if k = np then Some rm else page_of t1 k)"
    "num_pages (pager t') = np + 1 + 1" "root_page_num t' = ?r"
    "leaf_cells lm = leaf_cells cm" "leaf_cells rm = leaf_cells nm"
    "node_meta lm = (?r, load32 cm 4, 0, load32 cm 16)"
    "node_meta rm = (?r, load32 nm 4, nm 8, load32 nm 16)"
    using SplitRoot_ok [of "np + 1" t1 np nm cm env] split assms(1,5,7) ne n7 root u
    by (auto simp: leaf_root_def)
  have "Cursor_ExecuteInsert env (root_cursor t i) key row t
      = Cursor_DoInsertAndSplit env (word_of_nat i) ?r key row t"
    using assms(1,2) by (simp add: Cursor_ExecuteInsert_def leaf_root_def root_cursor_def Node_IsLeaf_Dirty)
  then have run: "Table_Insert env key row t = Inr (Status_default, t')"
    using i(1) split(1) res(1) by (simp add: Table_Insert_def)
  have sorted: "sorted (leaf_keys lm @ leaf_keys rm)"
  proof -
    have "leaf_keys lm @ leaf_keys rm = map fst ?L"
      using res(5,6) split(5,6) by (simp add: leaf_keys_def flip: map_append)
    also have "\<dots> = insert_at i key (leaf_keys m)" by (simp add: leaf_keys_def map_insert_at)
    finally show ?thesis using insert_point_Cons_bounds [OF i(2)] assms(1) by (simp add: leaf_root_def)
  qed
  show ?thesis
    by (rule exI [of _ i], rule exI [of _ t'],
        rule exI [of _ "split_root_page (np + 1) (fst (last (leaf_cells cm))) np cm"],
        rule exI [of _ lm], rule exI [of _ rm])
      (use run res split sorted assms(1) ne len split_root_page_fields [of "np + 1" "fst (last (leaf_cells cm))" np cm]
       in \<open>simp add: leaf_root_def node_meta_def Node_IsLeaf_def Node_IsInternal_def Node_IsRoot_def
         Node_GetParentPage_def Leaf_GetNextLeaf_def\<close>)
qed

text \<open>C1. Inserting into a table whose root is a full leaf splits it. The root becomes an
  internal page with the two halves as children and the largest key of the left half as
  separator; both halves hold seven cells and together the old cells with the new one at its
  place, in order; the leaf chain runs from the left half through the right half to where the
  root led, and the parent of both is the root.\<close>

theorem Table_Insert_root_split:
  assumes "leaf_root t m" and "unat (Leaf_NumOfCells m) = Leaf_CellsCapacity" and "UserSchema_wf row"
    and "np = num_pages (pager t)" and "unat np + 1 < MAX_PAGES"
    and "page_of t np = None" and "page_of t (np + 1) = None"
  shows "\<exists>i t' root left right. Table_Insert env key row t = Inr (Status_default, t') \<and>
    root_page_num t' = root_page_num t \<and> num_pages (pager t') = np + 2 \<and>
    page_of t' (root_page_num t) = Some root \<and> Node_IsInternal root \<and> Node_IsRoot root \<and>
    internal_children root = [np + 1, np] \<and> internal_keys root = [fst (last (leaf_cells left))] \<and>
    page_of t' (np + 1) = Some left \<and> page_of t' np = Some right \<and>
    Node_IsLeaf left \<and> Node_IsLeaf right \<and> \<not> Node_IsRoot left \<and> \<not> Node_IsRoot right \<and>
    Node_GetParentPage left = root_page_num t \<and> Node_GetParentPage right = root_page_num t \<and>
    length (leaf_cells left) = 7 \<and> length (leaf_cells right) = 7 \<and>
    leaf_cells left @ leaf_cells right = insert_at i (key, row) (leaf_cells m) \<and>
    sorted (leaf_keys left @ leaf_keys right) \<and>
    Leaf_GetNextLeaf left = np \<and> Leaf_GetNextLeaf right = Leaf_GetNextLeaf m"
  using assms by (rule Insert_root_split_ok)

lemma sample_user_wf: "UserSchema_wf sample_user"
  by (simp add: UserSchema_wf_def sample_user_def schema_sizes)

text \<open>Concrete tables: a fresh one, and one whose root leaf is full.\<close>

definition fresh_leaf :: mem where
  "fresh_leaf = Node_SetRoot True (Leaf_Reset (\<lambda>_. 0))"

definition fresh_table :: Table where
  "fresh_table = \<lparr>root_page_num = 0, pager = \<lparr>pg_file = \<lparr>pf_bytes = \<lambda>_. 0, pf_len = 0\<rparr>,
     file_descriptor = 3, file_length = 0, num_pages = 1, pages = [0 \<mapsto> fresh_leaf]\<rparr>\<rparr>"

definition full_table :: Table where
  "full_table = set_page 0 (Leaf_SetNumOfCells 13 fresh_leaf) fresh_table"

lemma fresh_leaf_fields:
  "load32 fresh_leaf 0 = 0" "load32 fresh_leaf 4 = 2" "fresh_leaf 8 = 1" "load32 fresh_leaf 12 = 0"
  "load32 fresh_leaf 16 = 0" "20 \<le> i \<Longrightarrow> fresh_leaf i = 0"
  by (simp_all add: fresh_leaf_def Node_SetRoot_def Leaf_Reset_def Leaf_SetNextLeaf_def
      Leaf_SetNumOfCells_def Node_SetType_def load32_store32_other load32_upd_other store32_other
      load32_def [of "\<lambda>_. 0"])

lemma fresh_table_leaf_root: "leaf_root fresh_table fresh_leaf" "leaf_cells fresh_leaf = []"
  by (simp_all add: leaf_root_def fresh_table_def page_of_def MAX_PAGES_eq Node_IsLeaf_def Node_IsRoot_def
      fresh_leaf_fields Leaf_NumOfCells_def leaf_keys_def leaf_cells_def)

lemma fresh_leaf_key: "leaf_cell fresh_leaf k = (0, snd (leaf_cell fresh_leaf 0))"
proof -
  have "cell_at 296 fresh_leaf k = cell_at 296 fresh_leaf 0"
    unfolding cell_at_def by (rule mread_cong) (simp add: fresh_leaf_fields)
  then have "leaf_cell fresh_leaf k = leaf_cell fresh_leaf 0" by (rule leaf_cell_cong)
  moreover have "fst (leaf_cell fresh_leaf 0) = 0"
    by (simp add: leaf_cell_def load32_def fresh_leaf_fields)
  ultimately show ?thesis by (metis prod.collapse)
qed

lemma full_table_leaf_root: "leaf_root full_table (Leaf_SetNumOfCells 13 fresh_leaf)"
proof -
  have "leaf_cells (Leaf_SetNumOfCells 13 fresh_leaf) = replicate 13 (0, snd (leaf_cell fresh_leaf 0))"
  proof (rule leaf_cells_eqI [of _ 13])
    fix k :: nat
    assume "k < 13"
    then show "leaf_cell (Leaf_SetNumOfCells 13 fresh_leaf) k
        = replicate 13 (0, snd (leaf_cell fresh_leaf 0)) ! k"
      using fresh_leaf_key [of k] by (simp only: header_setters nth_replicate)
  qed simp_all
  then have "leaf_keys (Leaf_SetNumOfCells 13 fresh_leaf) = replicate 13 0" by (simp add: leaf_keys_def)
  then show ?thesis
    using fresh_table_leaf_root(1)
    by (simp add: leaf_root_def full_table_def Leaf_SetNumOfCells_fields leaf_sizes
        node_meta_fields(2,4) [OF Leaf_SetNumOfCells_fields(2)] fresh_table_def sorted_replicate)
qed

theorem Table_Insert_leaf_root_witness:
  "\<exists>i m'. Table_Insert reliable_env 7 sample_user fresh_table
      = Inr (Status_default, set_page 0 m' fresh_table) \<and>
    leaf_cells m' = insert_at i (7, sample_user) [] \<and> i \<le> 0 \<and>
    leaf_root (set_page 0 m' fresh_table) m'"
  using Table_Insert_leaf_root [OF fresh_table_leaf_root(1), of sample_user reliable_env 7]
  by (simp add: fresh_table_leaf_root leaf_sizes sample_user_wf Leaf_NumOfCells_def
      fresh_leaf_fields fresh_table_def)

theorem Table_Insert_root_split_witness:
  "\<exists>t' root. Table_Insert reliable_env 7 sample_user full_table = Inr (Status_default, t') \<and>
    page_of t' 0 = Some root \<and> internal_children root = [2, 1]"
  using Table_Insert_root_split [OF full_table_leaf_root, of sample_user 1 reliable_env 7]
  by (auto simp: sample_user_wf leaf_sizes MAX_PAGES_eq full_table_def fresh_table_def page_of_def
      set_page_def)

end
