(* ===== verification/Db_Level.thy ===== *)
theory Db_Level
  imports Db_Tree
begin

text \<open>
  Tables of two levels: a root with separators and leaves below it. The invariant
  \<open>two_level\<close> says that every leaf is sorted and holds only keys between its separators;
  search finds every stored key, and insertion into a leaf with room keeps the invariant.
\<close>

section \<open>Separators\<close>

definition covers :: "u32 list \<Rightarrow> nat \<Rightarrow> u32 \<Rightarrow> bool" where
  "covers ks i k \<longleftrightarrow> (0 < i \<longrightarrow> ks ! (i - 1) < k) \<and> (i < length ks \<longrightarrow> k \<le> ks ! i)"

lemma lower_bound_le: "lower_bound ks k \<le> length ks"
  by (simp add: lower_bound_def length_takeWhile_le)

lemma covers_lower_bound: "covers ks (lower_bound ks k) k"
proof -
  let ?n = "length (takeWhile (\<lambda>x. x < k) ks)"
  have "ks ! (?n - 1) < k" if "0 < ?n"
    using that set_takeWhileD [of "takeWhile (\<lambda>x. x < k) ks ! (?n - 1)" "\<lambda>x. x < k" ks]
      takeWhile_nth [of "?n - 1" "\<lambda>x. x < k" ks] by simp
  moreover have "k \<le> ks ! ?n" if "?n < length ks"
    using nth_length_takeWhile [OF that] by simp
  ultimately show ?thesis by (simp add: covers_def lower_bound_def)
qed

lemma covers_unique:
  assumes "sorted ks" and "covers ks i k" and "i \<le> length ks"
  shows "i = lower_bound ks k"
proof (rule insert_point_lower_bound)
  have lt: "ks ! j < k" if "j < i" for j
  proof -
    have "ks ! j \<le> ks ! (i - 1)" using assms(1,3) that by (intro sorted_nth_mono) auto
    moreover have "ks ! (i - 1) < k" using assms(2) that by (simp add: covers_def)
    ultimately show ?thesis by simp
  qed
  then show "\<forall>j < i. ks ! j < k" by blast
  have "k \<le> ks ! j" if "i \<le> j" "j < length ks" for j
  proof -
    have "k \<le> ks ! i" using assms(2) that by (simp add: covers_def)
    also have "ks ! i \<le> ks ! j" using assms(1) that by (rule sorted_nth_mono)
    finally show ?thesis .
  qed
  then show "insert_point ks k i" using lt assms(3) by (auto simp: insert_point_def intro: less_imp_le)
qed

section \<open>The invariant\<close>

definition leaf_ok :: "u32 list \<Rightarrow> nat \<Rightarrow> mem option \<Rightarrow> bool" where
  "leaf_ok ks i page = (case page of None \<Rightarrow> False
     | Some m \<Rightarrow> Node_IsLeaf m \<and> unat (Leaf_NumOfCells m) \<le> Leaf_CellsCapacity \<and>
         sorted (leaf_keys m) \<and> (\<forall>k \<in> set (leaf_keys m). covers ks i k))"

definition two_level :: "Table \<Rightarrow> mem \<Rightarrow> bool" where
  "two_level t root \<longleftrightarrow> page_of t (root_page_num t) = Some root \<and>
     unat (root_page_num t) < MAX_PAGES \<and> Node_IsInternal root \<and>
     unat (Internal_NumOfKeys root) \<le> Internal_MaxCells \<and> sorted (internal_keys root) \<and>
     distinct (root_page_num t # internal_children root) \<and>
     (\<forall>i < length (internal_children root).
        unat (internal_children root ! i) < MAX_PAGES \<and>
        leaf_ok (internal_keys root) i (page_of t (internal_children root ! i)))"

lemma length_internal_children [simp]:
  "length (internal_children m) = Suc (unat (Internal_NumOfKeys m))"
  by (simp add: internal_children_def)

lemma GetChildPageNum_ok:
  assumes "unat (Internal_NumOfKeys m) \<le> 508" and "i \<le> unat (Internal_NumOfKeys m)"
  shows "Internal_GetChildPageNum m (word_of_nat i) = Inr (Status_default, Some (internal_children m ! i))"
proof (cases "i = unat (Internal_NumOfKeys m)")
  case True
  then show ?thesis
    by (simp add: Internal_GetChildPageNum_def Internal_ChildPtr_def deref32_def PAGE_SIZE_eq
        internal_children_def nth_append Internal_RightChildPage_def)
next
  case False
  have u: "unat (word_of_nat i :: u32) = i" using assms by (simp add: unat_of_nat)
  then have "\<not> Internal_NumOfKeys m < word_of_nat i" "word_of_nat i \<noteq> Internal_NumOfKeys m"
    using assms False by (auto simp: word_less_nat_alt)
  then show ?thesis
    using assms False
    by (simp add: Internal_GetChildPageNum_def Internal_ChildPtr_def Internal_CellPtr_nat deref32_def
        PAGE_SIZE_eq internal_children_def nth_append internal_child_def)
qed

lemma two_level_leaf:
  assumes "two_level t root" and "i \<le> unat (Internal_NumOfKeys root)"
  obtains m where "page_of t (internal_children root ! i) = Some m" "Node_IsLeaf m"
    "unat (internal_children root ! i) < MAX_PAGES" "unat (Leaf_NumOfCells m) \<le> 13" "sorted (leaf_keys m)"
    "\<And>k. k \<in> set (leaf_keys m) \<Longrightarrow> covers (internal_keys root) i k"
  using assms by (auto simp: two_level_def leaf_ok_def leaf_sizes less_Suc_eq_le split: option.splits)

section \<open>Search\<close>

lemma Table_Find_two_level:
  fixes key
  assumes tl: "two_level t root"
  defines "p \<equiv> internal_children root ! lower_bound (internal_keys root) key"
  shows "\<exists>i m. Table_Find env key t =
      Inr (Some \<lparr>cur_page_num = p, cur_cell_num = word_of_nat i, end_of_table = False\<rparr>, t) \<and>
    page_of t p = Some m \<and> insert_point (leaf_keys m) key i \<and>
    (if key \<in> set (leaf_keys m) then i < length (leaf_keys m) \<and> leaf_keys m ! i = key
     else i = lower_bound (leaf_keys m) key)"
proof -
  let ?n = "lower_bound (internal_keys root) key"
  have n: "?n \<le> unat (Internal_NumOfKeys root)" using lower_bound_le [of "internal_keys root" key] by simp
  obtain m where m: "page_of t p = Some m" "Node_IsLeaf m" "unat p < MAX_PAGES"
    "unat (Leaf_NumOfCells m) \<le> 13" "sorted (leaf_keys m)"
    using two_level_leaf [OF tl n] unfolding p_def by blast
  obtain i where i: "Leaf_FindCell m key = Inr (word_of_nat i)" "insert_point (leaf_keys m) key i"
    "if key \<in> set (leaf_keys m) then i < length (leaf_keys m) \<and> leaf_keys m ! i = key
     else i = lower_bound (leaf_keys m) key"
    using Leaf_FindCell_ok [OF m(5,4), of key] by blast
  have root: "page_of t (root_page_num t) = Some root" "unat (root_page_num t) < MAX_PAGES"
      "Node_IsInternal root" "unat (Internal_NumOfKeys root) \<le> 508" "sorted (internal_keys root)"
    using tl by (simp_all add: two_level_def internal_sizes)
  let ?c = "\<lambda>p. \<lparr>cur_page_num = p, cur_cell_num = 0, end_of_table = False\<rparr> :: Cursor"
  have "Table_InternalPageFind_step env (root_page_num t) key (?c (root_page_num t)) t =
      Inr (FindReturn Status_default ((?c p)\<lparr>cur_cell_num := word_of_nat i\<rparr>), t)"
    using root m i(1) GetChildPageNum_ok [OF root(4) n] Internal_FindCell_ok [OF root(5), of key]
    by (simp add: Table_InternalPageFind_step_def Table_LeafPageFind_def flip: p_def)
  then have "Table_InternalPageFind env (root_page_num t) key (?c (root_page_num t)) t =
      Some (Inr (Status_default, (?c p)\<lparr>cur_cell_num := word_of_nat i\<rparr>, t))"
    by (subst Table_InternalPageFind.simps) simp
  then have "Table_Find env key t =
      Inr (Some \<lparr>cur_page_num = p, cur_cell_num = word_of_nat i, end_of_table = False\<rparr>, t)"
    using root by (simp add: Table_Find_def of_loop_def)
  then show ?thesis using m(1) i(2,3) by blast
qed

text \<open>The rows stored below the root, leaf by leaf.\<close>

definition tree_rows :: "Table \<Rightarrow> mem \<Rightarrow> (u32 \<times> UserSchema) list" where
  "tree_rows t root = concat (map (\<lambda>p. case page_of t p of None \<Rightarrow> [] | Some m \<Rightarrow> leaf_cells m)
     (internal_children root))"

lemma two_level_member:
  assumes "two_level t root" and "key \<in> fst ` set (tree_rows t root)"
    and "page_of t (internal_children root ! lower_bound (internal_keys root) key) = Some m"
  shows "key \<in> set (leaf_keys m)"
proof -
  obtain i where i: "i < length (internal_children root)"
    and key: "key \<in> fst ` set (case page_of t (internal_children root ! i) of None \<Rightarrow> [] | Some m \<Rightarrow> leaf_cells m)"
  proof -
    obtain p where "p \<in> set (internal_children root)"
      "key \<in> fst ` set (case page_of t p of None \<Rightarrow> [] | Some m \<Rightarrow> leaf_cells m)"
      using assms(2) unfolding tree_rows_def by (auto simp only: set_concat set_map image_iff UN_iff)
    then show ?thesis using that by (metis in_set_conv_nth)
  qed
  then have i': "i \<le> unat (Internal_NumOfKeys root)" by simp
  obtain l where l: "page_of t (internal_children root ! i) = Some l"
    "\<And>k. k \<in> set (leaf_keys l) \<Longrightarrow> covers (internal_keys root) i k"
    using two_level_leaf [OF assms(1) i'] by metis
  have mem: "key \<in> set (leaf_keys l)" using key l(1) by (simp add: leaf_keys_def)
  have "i = lower_bound (internal_keys root) key"
    using assms(1) i' l(2) [OF mem] by (intro covers_unique) (simp_all add: two_level_def)
  then show ?thesis using assms(3) l(1) mem by simp
qed

text \<open>C6. On a table of two levels, search for a key ends without touching the table, in a
  leaf and at a position where the key belongs; a key that is stored anywhere in the table is
  found: the cursor stands on a cell that holds it.\<close>

theorem Table_Find_complete:
  assumes "two_level t root"
  shows "\<exists>c m i. Table_Find env key t = Inr (Some c, t) \<and> cur_page_num c \<in> set (internal_children root) \<and>
    page_of t (cur_page_num c) = Some m \<and> cur_cell_num c = word_of_nat i \<and>
    insert_point (leaf_keys m) key i \<and>
    (key \<in> fst ` set (tree_rows t root) \<longleftrightarrow> i < length (leaf_keys m) \<and> leaf_keys m ! i = key)"
proof -
  let ?n = "lower_bound (internal_keys root) key"
  let ?p = "internal_children root ! ?n"
  obtain i m where f: "Table_Find env key t =
      Inr (Some \<lparr>cur_page_num = ?p, cur_cell_num = word_of_nat i, end_of_table = False\<rparr>, t)"
    "page_of t ?p = Some m" "insert_point (leaf_keys m) key i"
    "if key \<in> set (leaf_keys m) then i < length (leaf_keys m) \<and> leaf_keys m ! i = key
     else i = lower_bound (leaf_keys m) key"
    using Table_Find_two_level [OF assms, of env key] by blast
  have n: "?n < length (internal_children root)" using lower_bound_le [of "internal_keys root" key] by simp
  then have mem: "?p \<in> set (internal_children root)" by (rule nth_mem)
  have "key \<in> fst ` set (tree_rows t root)" if "i < length (leaf_keys m)" "leaf_keys m ! i = key"
  proof -
    have "key \<in> fst ` set (leaf_cells m)" using that nth_mem [of i "leaf_keys m"] by (simp add: leaf_keys_def)
    then show ?thesis
      using mem f(2) by (force simp: tree_rows_def intro!: bexI [of _ ?p])
  qed
  moreover have "i < length (leaf_keys m) \<and> leaf_keys m ! i = key" if "key \<in> fst ` set (tree_rows t root)"
    using two_level_member [OF assms that f(2)] f(4) by argo
  ultimately have "key \<in> fst ` set (tree_rows t root) \<longleftrightarrow> i < length (leaf_keys m) \<and> leaf_keys m ! i = key"
    by blast
  then show ?thesis
    using f(1-3) mem
    by (intro exI [of _ "\<lparr>cur_page_num = ?p, cur_cell_num = word_of_nat i, end_of_table = False\<rparr>"]
        exI [of _ m] exI [of _ i]) (simp del: length_leaf_keys)
qed

section \<open>Insertion into a leaf with room\<close>

lemma internal_page_other:
  "two_level t root \<Longrightarrow> p \<in> set (internal_children root) \<Longrightarrow> p \<noteq> root_page_num t"
  by (auto simp: two_level_def)

lemma two_level_update:
  assumes tl: "two_level t root" and i: "i < length (internal_children root)"
    and ok: "leaf_ok (internal_keys root) i (Some m')"
  shows "two_level (set_page (internal_children root ! i) m' t) root"
proof -
  let ?p = "internal_children root ! i"
  have p: "?p \<noteq> root_page_num t" using internal_page_other [OF tl nth_mem [OF i]] .
  have "leaf_ok (internal_keys root) j (page_of (set_page ?p m' t) (internal_children root ! j))"
    if "j < length (internal_children root)" for j
  proof (cases "j = i")
    case True
    then show ?thesis using ok by simp
  next
    case False
    then have "internal_children root ! j \<noteq> ?p"
      using tl i that by (simp add: two_level_def nth_eq_iff_index_eq)
    then show ?thesis using tl that by (simp add: two_level_def)
  qed
  then show ?thesis using tl p by (simp add: two_level_def)
qed

text \<open>C7. Inserting into a table of two levels whose covering leaf has room succeeds: the row
  is inserted in that leaf at its place, no other page changes, and the table is again a
  table of two levels with the same root.\<close>

theorem Table_Insert_two_level:
  assumes "two_level t root" and "p = internal_children root ! lower_bound (internal_keys root) key"
    and "page_of t p = Some m" and "unat (Leaf_NumOfCells m) < Leaf_CellsCapacity" and "UserSchema_wf row"
  shows "\<exists>i m'. Table_Insert env key row t = Inr (Status_default, set_page p m' t) \<and>
    leaf_cells m' = insert_at i (key, row) (leaf_cells m) \<and> i \<le> unat (Leaf_NumOfCells m) \<and>
    two_level (set_page p m' t) root"
proof -
  let ?n = "lower_bound (internal_keys root) key"
  obtain i where f: "Table_Find env key t =
      Inr (Some \<lparr>cur_page_num = p, cur_cell_num = word_of_nat i, end_of_table = False\<rparr>, t)"
    "insert_point (leaf_keys m) key i"
    using Table_Find_two_level [OF assms(1), of env key] assms(2,3) by auto
  have n: "?n \<le> unat (Internal_NumOfKeys root)" using lower_bound_le [of "internal_keys root" key] by simp
  obtain ok: "Node_IsLeaf m" "unat p < MAX_PAGES" "sorted (leaf_keys m)"
    "\<And>k. k \<in> set (leaf_keys m) \<Longrightarrow> covers (internal_keys root) ?n k"
    using two_level_leaf [OF assms(1) n] assms(2,3) by (metis option.inject)
  have le: "i \<le> unat (Leaf_NumOfCells m)" using insert_point_le [OF f(2)] by simp
  obtain m' where m': "Cursor_ExecuteInsert env \<lparr>cur_page_num = p, cur_cell_num = word_of_nat i,
        end_of_table = False\<rparr> key row t = Inr (Status_default, set_page p m' t)"
    "leaf_cells m' = insert_at i (key, row) (leaf_cells m)" "node_meta m' = node_meta m"
    "unat (Leaf_NumOfCells m') = unat (Leaf_NumOfCells m) + 1"
    using ExecuteInsert_room [of t "\<lparr>cur_page_num = p, cur_cell_num = word_of_nat i,
        end_of_table = False\<rparr>" m i row env key] assms ok le by (auto simp: leaf_sizes)
  have keys: "leaf_keys m' = insert_at i key (leaf_keys m)" using m'(2) by (rule leaf_keys_insert)
  have "leaf_ok (internal_keys root) ?n (Some m')"
    using ok insert_point_Cons_bounds [OF f(2)] m'(4) assms(4) node_meta_fields(2) [OF m'(3)]
      covers_lower_bound by (auto simp: leaf_ok_def keys set_insert_at)
  then have "two_level (set_page p m' t) root"
    using two_level_update [OF assms(1), of ?n m'] assms(2) n by simp
  then show ?thesis
    using f(1) m' le by (intro exI [of _ i] exI [of _ m']) (simp add: Table_Insert_def)
qed

section \<open>The split of the root makes a table of two levels\<close>

lemma sorted_distinct_split:
  fixes xs :: "u32 list"
  assumes "sorted (xs @ ys)" and "distinct (xs @ ys)" and "xs \<noteq> []"
  shows "\<forall>k \<in> set xs. k \<le> last xs" and "\<forall>k \<in> set ys. last xs < k"
proof -
  have "sorted xs" using assms(1) by (simp add: sorted_append)
  have eq: "xs = butlast xs @ [last xs]" using assms(3) by simp
  have "sorted (butlast xs @ [last xs])" using \<open>sorted xs\<close> eq by simp
  then have "\<forall>k \<in> set (butlast xs). k \<le> last xs" by (simp add: sorted_append)
  then show "\<forall>k \<in> set xs. k \<le> last xs" by (metis eq set_append Un_iff empty_set list.simps(15) insert_iff empty_iff order_refl)
  have "last xs \<in> set xs" using assms(3) by simp
  then show "\<forall>k \<in> set ys. last xs < k"
    using assms(1,2) by (auto simp: sorted_append order.strict_iff_order)
qed

text \<open>C8. Inserting a new key into a table whose root is a full leaf with distinct keys
  gives a table of two levels that stores the old rows and the new one.\<close>

theorem root_split_two_level:
  assumes "leaf_root t m" and "unat (Leaf_NumOfCells m) = Leaf_CellsCapacity" and "UserSchema_wf row"
    and "np = num_pages (pager t)" and "unat np + 1 < MAX_PAGES"
    and "page_of t np = None" and "page_of t (np + 1) = None"
    and "distinct (leaf_keys m)" and "key \<notin> set (leaf_keys m)"
  shows "\<exists>i t' root. Table_Insert env key row t = Inr (Status_default, t') \<and> two_level t' root \<and>
    tree_rows t' root = insert_at i (key, row) (leaf_cells m)"
proof -
  obtain i t' root left right where r: "Table_Insert env key row t = Inr (Status_default, t')"
    "root_page_num t' = root_page_num t" "page_of t' (root_page_num t) = Some root" "Node_IsInternal root"
    "internal_children root = [np + 1, np]" "internal_keys root = [fst (last (leaf_cells left))]"
    "page_of t' (np + 1) = Some left" "page_of t' np = Some right" "Node_IsLeaf left" "Node_IsLeaf right"
    "length (leaf_cells left) = 7" "length (leaf_cells right) = 7"
    "leaf_cells left @ leaf_cells right = insert_at i (key, row) (leaf_cells m)"
    "sorted (leaf_keys left @ leaf_keys right)"
    using Insert_root_split_ok [OF assms(1-7), of env key] by blast
  let ?sep = "fst (last (leaf_cells left))"
  have ne: "leaf_keys left \<noteq> []" using r(11) by (auto simp: leaf_keys_def simp del: length_leaf_cells)
  have sep: "?sep = last (leaf_keys left)" using ne by (simp add: leaf_keys_def last_map)
  have keys: "leaf_keys left @ leaf_keys right = insert_at i key (leaf_keys m)"
    using r(13) by (simp add: leaf_keys_def map_insert_at flip: map_append)
  have "distinct (insert_at i key (leaf_keys m))"
    using assms(8,9) set_take_disj_set_drop_if_distinct [OF assms(8), of i i]
    by (auto simp: insert_at_def dest: in_set_takeD in_set_dropD)
  then have bounds: "\<forall>k \<in> set (leaf_keys left). k \<le> ?sep" "\<forall>k \<in> set (leaf_keys right). ?sep < k"
    using sorted_distinct_split [OF r(14)] ne keys sep by auto
  have u: "unat (np + 1) = unat np + 1" using assms(5) by (subst unat_add_small) (simp_all add: MAX_PAGES_eq)
  have dist: "distinct [root_page_num t, np + 1, np]"
    using assms(1,6,7) u by (auto simp: leaf_root_def)
  have "leaf_ok [?sep] 0 (Some left)" "leaf_ok [?sep] 1 (Some right)"
    using r(9-12,14) bounds by (auto simp: leaf_ok_def covers_def leaf_sizes sorted_append)
  moreover have "unat (root_page_num t) < MAX_PAGES" using assms(1) by (simp add: leaf_root_def)
  moreover have "unat (Internal_NumOfKeys root) = 1" using r(6) length_internal_keys [of root] by simp
  ultimately have "two_level t' root"
    using r(2-8) dist assms(5) u by (auto simp: two_level_def internal_sizes less_Suc_eq)
  moreover have "tree_rows t' root = insert_at i (key, row) (leaf_cells m)"
    using r(5,7,8,13) by (simp add: tree_rows_def)
  ultimately show ?thesis using r(1) by blast
qed

section \<open>Concrete tables of two levels\<close>

definition one_key_leaf :: "u32 \<Rightarrow> mem" where
  "one_key_leaf k = put_cell 0 k sample_user (Leaf_SetNumOfCells 1 (Node_SetRoot False fresh_leaf))"

definition two_leaf_root :: mem where
  "two_leaf_root = split_root_page 2 10 1 fresh_leaf"

definition two_leaf_table :: Table where
  "two_leaf_table = set_page 0 two_leaf_root (set_page 1 (one_key_leaf 20)
     (set_page 2 (one_key_leaf 10) (grow 3 fresh_table)))"

lemma one_key_leaf_fields:
  "leaf_cells (one_key_leaf k) = [(k, sample_user)]" "Leaf_NumOfCells (one_key_leaf k) = 1"
  "Node_IsLeaf (one_key_leaf k)"
proof -
  have hdr: "\<And>b. b < 20 \<Longrightarrow> one_key_leaf k b = Leaf_SetNumOfCells 1 (Node_SetRoot False fresh_leaf) b"
    unfolding one_key_leaf_def using sample_user_wf by (rule put_cell_header)
  show num: "Leaf_NumOfCells (one_key_leaf k) = 1" using header_bytes(2) [OF hdr] by simp
  show "leaf_cells (one_key_leaf k) = [(k, sample_user)]"
    using num by (intro leaf_cells_eqI [of _ 1]) (simp_all add: one_key_leaf_def put_cell_same sample_user_wf)
  show "Node_IsLeaf (one_key_leaf k)"
    using node_meta_fields(2) [OF header_bytes(1) [OF hdr]]
    by (simp add: Node_IsLeaf_def fresh_leaf_fields Node_SetRoot_def Leaf_SetNumOfCells_def
        load32_store32_other load32_upd_other)
qed

lemma two_leaf_table_ok:
  "two_level two_leaf_table two_leaf_root"
  "page_of two_leaf_table 1 = Some (one_key_leaf 20)" "page_of two_leaf_table 2 = Some (one_key_leaf 10)"
proof -
  show p: "page_of two_leaf_table 1 = Some (one_key_leaf 20)" "page_of two_leaf_table 2 = Some (one_key_leaf 10)"
    by (simp_all add: two_leaf_table_def)
  have "leaf_ok [10] 0 (Some (one_key_leaf 10))" "leaf_ok [10] (Suc 0) (Some (one_key_leaf 20))"
    by (simp_all add: leaf_ok_def one_key_leaf_fields leaf_keys_def covers_def leaf_sizes)
  moreover have "Node_IsInternal two_leaf_root"
    using split_root_page_fields(4) [of 2 10 1 fresh_leaf]
    by (simp add: two_leaf_root_def Node_IsInternal_def node_meta_def)
  ultimately show "two_level two_leaf_table two_leaf_root"
    using p by (simp add: two_level_def two_leaf_root_def split_root_page_fields internal_sizes MAX_PAGES_eq
        less_Suc_eq all_conj_distrib imp_conjL) (simp add: two_leaf_table_def fresh_table_def two_leaf_root_def MAX_PAGES_eq)
qed

theorem Table_Find_complete_witness:
  "\<exists>c m i. Table_Find reliable_env 20 two_leaf_table = Inr (Some c, two_leaf_table) \<and>
    page_of two_leaf_table (cur_page_num c) = Some m \<and> cur_cell_num c = word_of_nat i \<and>
    leaf_keys m ! i = 20"
proof -
  have "(20, sample_user) \<in> set (tree_rows two_leaf_table two_leaf_root)"
    using two_leaf_table_ok(2,3)
    by (simp add: tree_rows_def two_leaf_root_def split_root_page_fields one_key_leaf_fields)
  then have "20 \<in> fst ` set (tree_rows two_leaf_table two_leaf_root)" by force
  then show ?thesis
    using Table_Find_complete [OF two_leaf_table_ok(1), of reliable_env 20] by blast
qed

theorem Table_Insert_two_level_witness:
  "\<exists>m'. Table_Insert reliable_env 15 sample_user two_leaf_table
      = Inr (Status_default, set_page 1 m' two_leaf_table) \<and>
    two_level (set_page 1 m' two_leaf_table) two_leaf_root"
  using Table_Insert_two_level [OF two_leaf_table_ok(1), of 1 15 "one_key_leaf 20" sample_user reliable_env]
  by (auto simp: two_leaf_table_ok two_leaf_root_def split_root_page_fields lower_bound_def
      one_key_leaf_fields leaf_sizes sample_user_wf)

text \<open>A full root leaf with the keys 0 to 12.\<close>

definition seq_leaf :: mem where
  "seq_leaf = (\<lambda>i. if i < 20 then Leaf_SetNumOfCells 13 fresh_leaf i
     else if (i - 20) mod 296 = 0 then word_of_nat ((i - 20) div 296) else 0)"

lemma seq_leaf_header: "b < 20 \<Longrightarrow> seq_leaf b = Leaf_SetNumOfCells 13 fresh_leaf b"
  by (simp add: seq_leaf_def)

lemma seq_leaf_keys: "leaf_keys seq_leaf = map word_of_nat [0..<13]" "Leaf_NumOfCells seq_leaf = 13"
proof -
  show num: "Leaf_NumOfCells seq_leaf = 13" using header_bytes(2) [OF seq_leaf_header] by simp
  show "leaf_keys seq_leaf = map word_of_nat [0..<13]"
  proof (rule nth_equalityI)
    show "length (leaf_keys seq_leaf) = length (map word_of_nat [0..<13] :: u32 list)" by (simp add: num)
    fix i
    assume "i < length (leaf_keys seq_leaf)"
    then have i: "i < 13" by (simp add: num)
    have byte: "seq_leaf (20 + i * 296 + d) = (if d = 0 then word_of_nat i else 0)" if "d < 296" for d
    proof -
      have "20 + i * 296 + d - 20 = i * 296 + d" by simp
      moreover have "(i * 296 + d) mod 296 = d" "(i * 296 + d) div 296 = i" using that by simp_all
      ultimately show ?thesis by (simp only: seq_leaf_def) simp
    qed
    have b: "seq_leaf (20 + i * 296) = word_of_nat i" "seq_leaf (20 + i * 296 + 1) = 0"
      "seq_leaf (20 + i * 296 + 2) = 0" "seq_leaf (20 + i * 296 + 3) = 0"
      using byte [of 0] byte [of 1] byte [of 2] byte [of 3] by simp_all
    have "(ucast (word_of_nat i :: byte) :: u32) = word_of_nat i"
      using i by (simp add: word_unat_eq_iff unat_of_nat unsigned_ucast_eq take_bit_eq_mod)
    then show "leaf_keys seq_leaf ! i = (map word_of_nat [0..<13] :: u32 list) ! i"
      using i num b by (simp add: load32_def)
  qed
qed

theorem root_split_two_level_witness:
  "\<exists>i t' root. Table_Insert reliable_env 77 sample_user (set_page 0 seq_leaf fresh_table) = Inr (Status_default, t') \<and>
    two_level t' root \<and> tree_rows t' root = insert_at i (77, sample_user) (leaf_cells seq_leaf)"
proof (rule root_split_two_level [where np = 1])
  have "map (word_of_nat :: nat \<Rightarrow> u32) [0..<13] = [0, 1, 2, 3, 4, 5, 6, 7, 8, 9, 10, 11, 12]"
    by (simp add: upt_rec)
  note keys = seq_leaf_keys(1) [unfolded this]
  show "distinct (leaf_keys seq_leaf)" "77 \<notin> set (leaf_keys seq_leaf)" by (simp_all add: keys)
  show "leaf_root (set_page 0 seq_leaf fresh_table) seq_leaf"
    using fresh_table_leaf_root(1) node_meta_fields(2,4) [OF header_bytes(1) [OF seq_leaf_header]]
      node_meta_fields(2,4) [OF Leaf_SetNumOfCells_fields(2) [of 13 fresh_leaf]]
    by (simp add: leaf_root_def fresh_table_def seq_leaf_keys(2) leaf_sizes keys)
qed (simp_all add: seq_leaf_keys leaf_sizes sample_user_wf fresh_table_def MAX_PAGES_eq page_of_def set_page_def)

end
