(* ===== verification/Db_Parent.thy ===== *)
theory Db_Parent
  imports Db_Level
begin

text \<open>
  What \<open>DoInsertAndSplit\<close> does to the parent of a split leaf (\<open>db_lab/table.h\<close>). The index at
  which \<open>InsertInternal\<close> links the new page is searched with the number of keys where the
  largest key of the new page is meant, and after the number of keys was increased, so the
  search reads a cell nothing was written to.
\<close>

section \<open>The parent page step by step\<close>

text \<open>Key and child of the unused second cell of the page that \<open>SplitRoot\<close> leaves.\<close>

lemma split_root_page_unused:
  "internal_key (split_root_page l k r m) 0 = k" "internal_child (split_root_page l k r m) 0 = l"
  "internal_key (split_root_page l k r m) 1 = 0" "internal_child (split_root_page l k r m) 1 = 0"
proof -
  let ?m = "Internal_SetNumOfKeys 0 (Node_SetType INTERNAL m)"
  have zero: "load32 (memset ?m 20 0 Internal_BodySize) 28 = 0" "load32 (memset ?m 20 0 Internal_BodySize) 32 = 0"
    by (simp_all add: load32_def memset_def internal_sizes)
  then show "internal_key (split_root_page l k r m) 1 = 0" "internal_child (split_root_page l k r m) 1 = 0"
    "internal_key (split_root_page l k r m) 0 = k" "internal_child (split_root_page l k r m) 0 = l"
    by (simp_all add: split_root_page_def Internal_SetRightChild_def Internal_SetNumOfKeys_def
      Node_SetRoot_def Internal_Reset_def internal_key_def internal_child_def
      load32_store32_other load32_upd_other)
qed

text \<open>The page after the whole update: two keys, of which the second was never written, and
  the new page as right child.\<close>

definition linked_page :: "u32 \<Rightarrow> u32 \<Rightarrow> u32 \<Rightarrow> mem \<Rightarrow> mem" where
  "linked_page k max_key np m =
     store32 (store32 (Internal_SetNumOfKeys 2 (store32 m 24 k)) 40 max_key) 16 np"

lemma linked_page_fields:
  "Internal_NumOfKeys (linked_page k mk np m) = 2" "Internal_RightChildPage (linked_page k mk np m) = np"
  "internal_key (linked_page k mk np m) 0 = k"
  "internal_key (linked_page k mk np m) 1 = internal_key m 1"
  "internal_child (linked_page k mk np m) 0 = internal_child m 0"
  "internal_child (linked_page k mk np m) 1 = internal_child m 1"
  "Node_IsInternal (linked_page k mk np m) = Node_IsInternal m"
  by (simp_all add: linked_page_def Internal_SetNumOfKeys_def Internal_NumOfKeys_def
      Internal_RightChildPage_def internal_key_def internal_child_def Node_IsInternal_def
      load32_store32_other)

lemma linked_page_lists:
  "internal_keys (linked_page k mk np (split_root_page l k r m)) = [k, 0]"
  "internal_children (linked_page k mk np (split_root_page l k r m)) = [l, 0, np]"
  using split_root_page_unused(3,4) [of l k r m] split_root_page_unused(2) [of l k r m]
  by (simp_all add: internal_keys_def internal_children_def linked_page_fields [unfolded One_nat_def] upt_rec)

text \<open>With a zero second key every search for another key ends behind it.\<close>

lemma FindCell_zero_second:
  assumes "Internal_NumOfKeys m = 2" and "internal_key m 1 = 0" and "q \<noteq> 0"
  shows "Internal_FindCell m q = Inr 2"
proof -
  have probe: "Internal_GetKey m 1 = Inr (Status_default, Some 0)"
    using Internal_GetKey_nat [of 1 m] assms(2) by simp
  have "Internal_FindCell_loop m q 0 2 = Some (Inr 2)"
    using assms(3) probe
    by (subst Internal_FindCell_loop.simps) (simp, subst Internal_FindCell_loop.simps, simp)
  then show ?thesis using assms(1) by (simp add: Internal_FindCell_def)
qed

lemma InsertInternal_ok:
  assumes pm: "page_of t p = Some m" "Internal_NumOfKeys m = 1" "internal_key m 1 = 0"
      "Internal_RightChildPage m = r"
    and r: "page_of t r = Some rm" "unat r < MAX_PAGES" "r \<noteq> p" "PageHelper_GetMaxKey (Some rm) = Inr (Status_default, Some rmax)"
    and c: "page_of t c = Some cm" "PageHelper_GetMaxKey (Some cm) = Inr (Status_default, Some cmax)" "cmax \<le> rmax"
  shows "Cursor_InsertInternal env p c c t =
    Inr (Status_default, set_page p (store32 (store32 (Internal_SetNumOfKeys 2 m) 40 cmax) 16 c) t)"
proof -
  let ?m = "Internal_SetNumOfKeys 2 m"
  have f: "Internal_NumOfKeys ?m = 2" "internal_key ?m 1 = 0" "Internal_RightChildPage ?m = r"
    using pm by (simp_all add: Internal_SetNumOfKeys_def Internal_NumOfKeys_def internal_key_def
        Internal_RightChildPage_def load32_store32_other)
  have find: "Internal_FindCell ?m 1 = Inr 2" using f(1,2) by (rule FindCell_zero_second) simp
  have shift: "shift_cells Internal_CellPtr Internal_CellSize 1 2 m' = Inr m'" for m'
    by (subst shift_cells.simps) simp
  have key: "Internal_SetKey 2 cmax ?m = Inr (Status_default, store32 ?m 40 cmax)"
    using Internal_KeyPtr_nat [of 2] by (simp add: Internal_SetKey_def assign32_def PAGE_SIZE_eq)
  have "Internal_NumOfKeys (store32 ?m 40 cmax) = 2"
    using f(1) by (simp add: Internal_NumOfKeys_def load32_store32_other)
  then have child: "Internal_SetChild 2 c (store32 ?m 40 cmax)
      = Inr (Status_default, store32 (store32 ?m 40 cmax) 16 c)"
    by (simp add: Internal_SetChild_def Internal_ChildPtr_def assign32_def PAGE_SIZE_eq)
  show ?thesis
    using assms f(3) find shift key child
    by (simp add: Cursor_InsertInternal_def Let_def internal_sizes call_page_simp)
qed

lemma Find_zero_second:
  assumes root: "page_of t (root_page_num t) = Some m" "unat (root_page_num t) < MAX_PAGES" "Node_IsInternal m"
    and m: "Internal_NumOfKeys m = 2" "internal_key m 1 = 0" "Internal_RightChildPage m = np"
    and np: "page_of t np = Some nm" "unat np < MAX_PAGES" "Node_IsLeaf nm" "sorted (leaf_keys nm)"
      "unat (Leaf_NumOfCells nm) \<le> 13"
    and q: "q \<noteq> 0"
  shows "\<exists>c. Table_Find env q t = Inr (Some c, t) \<and> cur_page_num c = np"
proof -
  obtain i where i: "Leaf_FindCell nm q = Inr (word_of_nat i)" using Leaf_FindCell_ok [OF np(4,5)] by blast
  let ?c = "\<lambda>p. \<lparr>cur_page_num = p, cur_cell_num = 0, end_of_table = False\<rparr> :: Cursor"
  have "Internal_GetChildPageNum m 2 = Inr (Status_default, Some np)"
    using GetChildPageNum_ok [of m 2] m by (simp add: internal_children_def nth_append)
  then have "Table_InternalPageFind_step env (root_page_num t) q (?c (root_page_num t)) t =
      Inr (FindReturn Status_default ((?c np)\<lparr>cur_cell_num := word_of_nat i\<rparr>), t)"
    using root np i FindCell_zero_second [OF m(1,2) q]
    by (simp add: Table_InternalPageFind_step_def Table_LeafPageFind_def)
  then have "Table_InternalPageFind env (root_page_num t) q (?c (root_page_num t)) t =
      Some (Inr (Status_default, (?c np)\<lparr>cur_cell_num := word_of_nat i\<rparr>, t))"
    by (subst Table_InternalPageFind.simps) simp
  then show ?thesis using root by (simp add: Table_Find_def of_loop_def)
qed

section \<open>Splitting the left leaf\<close>

lemma last_drop_mem:
  "n < length xs \<Longrightarrow> last (drop n xs) \<in> set xs"
  by (metis drop_eq_Nil2 in_set_dropD last_in_set linorder_not_less)

lemma split_parent_left:
  assumes root: "page_of t rp = Some m" "unat rp < MAX_PAGES" "m = split_root_page l k r m0"
    and old: "old_max \<le> k"
    and r: "page_of t r = Some rm" "unat r < MAX_PAGES" "r \<noteq> rp" "Node_IsLeaf rm"
      "unat (Leaf_NumOfCells rm) \<le> 13" "leaf_cells rm \<noteq> []"
    and np: "page_of t np = Some nm" "Node_IsLeaf nm" "unat (Leaf_NumOfCells nm) \<le> 13" "leaf_cells nm \<noteq> []"
    and le: "fst (last (leaf_cells nm)) \<le> fst (last (leaf_cells rm))"
  shows "Cursor_split_parent env rp np old_max t =
    Inr (Status_default, set_page rp (linked_page k (fst (last (leaf_cells nm))) np m) t)"
proof -
  have num: "Internal_NumOfKeys m = 1" "internal_key m 0 = k" "Internal_RightChildPage m = r" "Node_IsInternal m"
    "internal_keys m = [k]"
    using root(3) split_root_page_fields [of l k r m0] split_root_page_unused(1) [of l k r m0]
    by (simp_all add: node_meta_def Internal_RightChildPage_def Node_IsInternal_def)
  have pmax: "PageHelper_GetMaxKey (Some m) = Inr (Status_default, Some k)"
    using num Internal_KeyPtr_nat [of 0]
    by (simp add: PageHelper_GetMaxKey_def Internal_GetMaxKey_def deref32_def PAGE_SIZE_eq internal_key_def)
  have find: "Internal_FindCell m old_max = Inr 0"
    using Internal_FindCell_ok [of m old_max] num old by (simp add: lower_bound_def)
  have key: "Internal_SetKey 0 k m = Inr (Status_default, store32 m 24 k)"
    using Internal_KeyPtr_nat [of 0] by (simp add: Internal_SetKey_def assign32_def PAGE_SIZE_eq)
  let ?m = "store32 m 24 k"
  have fm: "Internal_NumOfKeys ?m = 1" "internal_key ?m 1 = 0" "Internal_RightChildPage ?m = r"
    using num split_root_page_unused(3) [of l k r m0] root(3)
    by (simp_all add: Internal_NumOfKeys_def internal_key_def Internal_RightChildPage_def load32_store32_other)
  have leafmax: "PageHelper_GetMaxKey (Some x) = Inr (Status_default, Some (fst (last (leaf_cells x))))"
    if "Node_IsLeaf x" "unat (Leaf_NumOfCells x) \<le> 13" "leaf_cells x \<noteq> []" for x
    using that Leaf_GetMaxKey_ok [of x]
    by (simp add: PageHelper_GetMaxKey_def) (metis length_leaf_cells length_greater_0_conv)
  have "np \<noteq> rp" using root(1) np(1,2) num(4) Node_kinds_disjoint by auto
  then have ins: "Cursor_InsertInternal env rp np np (set_page rp ?m t) =
      Inr (Status_default, set_page rp (store32 (store32 (Internal_SetNumOfKeys 2 ?m) 40
        (fst (last (leaf_cells nm)))) 16 np) t)"
    using InsertInternal_ok [of "set_page rp ?m t" rp ?m r rm _ np nm] fm r np le leafmax by simp
  show ?thesis
    using root(1,2) pmax find key ins num(4)
    by (simp add: Cursor_split_parent_def call_page_simp linked_page_def)
qed

text \<open>The new leaf of a split: the upper seven cells.\<close>

lemma split_new_leaf:
  assumes nm: "leaf_cells nm = drop 7 (insert_at i (key, row) (leaf_cells lm))" "node_meta nm = (m, 2, 0, x)"
    and lm: "length (leaf_cells lm) = 13" "sorted (leaf_keys lm)" "\<And>x. x \<in> set (leaf_keys lm) \<Longrightarrow> x \<le> k"
    and i: "i \<le> 13" "insert_point (leaf_keys lm) key i" and "key \<le> k" and meta: "m = load32 lm 0" "Node_IsLeaf lm"
  shows "Node_IsLeaf nm" "unat (Leaf_NumOfCells nm) = 7" "leaf_cells nm \<noteq> []" "fst (last (leaf_cells nm)) \<le> k" "sorted (leaf_keys nm)"
proof -
  let ?L = "insert_at i (key, row) (leaf_cells lm)"
  have len: "length ?L = 14" using i(1) lm(1) by simp
  show "Node_IsLeaf nm" "unat (Leaf_NumOfCells nm) = 7" "leaf_cells nm \<noteq> []"
    using nm meta len length_leaf_cells [of nm] by (simp_all add: node_meta_def Node_IsLeaf_def)
  have keys: "fst ` set ?L = insert key (set (leaf_keys lm))" by (simp add: set_insert_at leaf_keys_def)
  have "last (leaf_cells nm) \<in> set ?L" using nm(1) last_drop_mem [of 7 ?L] len by simp
  then show "fst (last (leaf_cells nm)) \<le> k" using keys assms(8) lm(3) by fastforce
  have "leaf_keys nm = drop 7 (insert_at i key (leaf_keys lm))"
    using nm(1) by (simp add: leaf_keys_def map_insert_at flip: drop_map)
  then show "sorted (leaf_keys nm)" using insert_point_Cons_bounds [OF i(2) lm(2)] by (simp add: sorted_wrt_drop)
qed


text \<open>A root with separator 20 over a full left leaf (keys 0 to 12) and a right leaf (key 30).\<close>

definition full_left_root :: mem where
  "full_left_root = split_root_page 2 20 1 fresh_leaf"

definition full_left_table :: Table where
  "full_left_table = set_page 0 full_left_root (set_page 1 (one_key_leaf 30)
     (set_page 2 (Node_SetRoot False seq_leaf) (grow 3 fresh_table)))"

lemma full_left_table_ok:
  "two_level full_left_table full_left_root" "page_of full_left_table 1 = Some (one_key_leaf 30)"
  "page_of full_left_table 2 = Some (Node_SetRoot False seq_leaf)"
  "page_of full_left_table 3 = None" "num_pages (pager full_left_table) = 3"
  "root_page_num full_left_table = 0"
proof -
  show p: "page_of full_left_table 1 = Some (one_key_leaf 30)"
    "page_of full_left_table 2 = Some (Node_SetRoot False seq_leaf)"
    "page_of full_left_table 3 = None" "num_pages (pager full_left_table) = 3"
    "root_page_num full_left_table = 0"
    by (simp_all add: full_left_table_def) (simp_all add: fresh_table_def page_of_def)
  have "map (word_of_nat :: nat \<Rightarrow> u32) [0..<13] = [0, 1, 2, 3, 4, 5, 6, 7, 8, 9, 10, 11, 12]"
    by (simp add: upt_rec)
  note keys = seq_leaf_keys(1) [unfolded this]
  have "Node_IsLeaf seq_leaf"
    using node_meta_fields(2) [OF header_bytes(1) [OF seq_leaf_header]]
    by (simp add: Node_IsLeaf_def fresh_leaf_fields Leaf_SetNumOfCells_def load32_store32_other)
  then have "Node_IsLeaf (Node_SetRoot False seq_leaf)"
    by (simp add: Node_IsLeaf_def Node_SetRoot_def load32_upd_other)
  moreover have "leaf_keys (Node_SetRoot False seq_leaf) = leaf_keys seq_leaf" by (simp add: leaf_keys_def)
  ultimately have "leaf_ok [20] 0 (Some (Node_SetRoot False seq_leaf))"
    by (simp add: leaf_ok_def covers_def leaf_sizes keys seq_leaf_keys(2))
  moreover have "leaf_ok [20] (Suc 0) (Some (one_key_leaf 30))"
    by (simp add: leaf_ok_def one_key_leaf_fields leaf_keys_def covers_def leaf_sizes)
  moreover have "Node_IsInternal full_left_root"
    using split_root_page_fields(4) [of 2 20 1 fresh_leaf]
    by (simp add: full_left_root_def Node_IsInternal_def node_meta_def)
  ultimately show "two_level full_left_table full_left_root"
    using p by (simp add: two_level_def full_left_root_def split_root_page_fields internal_sizes MAX_PAGES_eq
        less_Suc_eq all_conj_distrib imp_conjL) (simp add: full_left_table_def full_left_root_def)
qed


end
