(* ===== verification/Db_Scan.thy ===== *)
theory Db_Scan
  imports Db_Parent
begin

text \<open>
  Reading a whole table through a cursor: \<open>StartCursor\<close>, \<open>Value\<close> and \<open>Advance\<close> of
  \<open>db_lab/table.h\<close>, as \<open>execute_select\<close> and \<open>DumpTree\<close> use them. The scan ends and visits
  the cells of the leaf chain in order.
\<close>

section \<open>The leaf chain\<close>

text \<open>The pages of the chain, each a leaf that is not empty and links to the next, the last
  to page 0.\<close>

fun leaf_chain :: "Table \<Rightarrow> u32 list \<Rightarrow> bool" where
  "leaf_chain t [] = True"
| "leaf_chain t (p # ps) =
     (unat p < MAX_PAGES \<and>
      (case page_of t p of None \<Rightarrow> False
       | Some m \<Rightarrow> Node_IsLeaf m \<and> Leaf_NumOfCells m \<noteq> 0 \<and> unat (Leaf_NumOfCells m) \<le> Leaf_CellsCapacity \<and>
           Leaf_GetNextLeaf m = (case ps of [] \<Rightarrow> 0 | q # _ \<Rightarrow> q) \<and>
           (ps \<noteq> [] \<longrightarrow> hd ps \<noteq> 0)) \<and>
      leaf_chain t ps)"

text \<open>The lines of a page from cell \<open>j\<close> on, and of a chain.\<close>

definition page_lines :: "(u32 \<Rightarrow> u32 \<Rightarrow> UserSchema \<Rightarrow> string) \<Rightarrow> u32 \<Rightarrow> mem \<Rightarrow> nat \<Rightarrow> string list" where
  "page_lines line p m j = map (\<lambda>i. line p (word_of_nat i) (snd (leaf_cell m i)))
     [j..<unat (Leaf_NumOfCells m)]"

definition chain_lines :: "(u32 \<Rightarrow> u32 \<Rightarrow> UserSchema \<Rightarrow> string) \<Rightarrow> Table \<Rightarrow> u32 list \<Rightarrow> string list" where
  "chain_lines line t ps = concat (map (\<lambda>p. case page_of t p of None \<Rightarrow> []
     | Some m \<Rightarrow> page_lines line p m 0) ps)"

lemma chain_lines_Cons:
  "page_of t p = Some m \<Longrightarrow> chain_lines line t (p # ps) = page_lines line p m 0 @ chain_lines line t ps"
  by (simp add: chain_lines_def)

lemma page_lines_unfold:
  "j < unat (Leaf_NumOfCells m) \<Longrightarrow>
   page_lines line p m j = line p (word_of_nat j) (snd (leaf_cell m j)) # page_lines line p m (Suc j)"
  by (simp add: page_lines_def upt_rec)

definition cursor_at :: "u32 \<Rightarrow> nat \<Rightarrow> Cursor" where
  "cursor_at p j = \<lparr>cur_page_num = p, cur_cell_num = word_of_nat j, end_of_table = False\<rparr>"

text \<open>Every row of the chain can be printed: \<open>ToString\<close> of a row without a terminating zero byte
  reads past the row.\<close>

definition printable ::
  "(u32 \<Rightarrow> u32 \<Rightarrow> UserSchema \<Rightarrow> string outcome) \<Rightarrow> (u32 \<Rightarrow> u32 \<Rightarrow> UserSchema \<Rightarrow> string) \<Rightarrow> Table \<Rightarrow> u32 list \<Rightarrow> bool" where
  "printable render line t ps \<longleftrightarrow> (\<forall>p \<in> set ps. case page_of t p of None \<Rightarrow> True | Some m \<Rightarrow>
     (\<forall>i < unat (Leaf_NumOfCells m). render p (word_of_nat i) (snd (leaf_cell m i))
        = Inr (line p (word_of_nat i) (snd (leaf_cell m i)))))"

section \<open>One round of the scan\<close>

lemma scan_step_ok:
  assumes page: "page_of t p = Some m" "unat p < MAX_PAGES" "Node_IsLeaf m"
    and j: "j < unat (Leaf_NumOfCells m)" "unat (Leaf_NumOfCells m) \<le> 13"
    and render: "render p (word_of_nat j) (snd (leaf_cell m j)) = Inr ln"
  shows "Table_scan_step env render (cursor_at p j) t =
    Inr (ln,
      (if Suc j < unat (Leaf_NumOfCells m) then cursor_at p (Suc j)
       else if Leaf_GetNextLeaf m = 0 then (cursor_at p (Suc j))\<lparr>end_of_table := True\<rparr>
       else cursor_at (Leaf_GetNextLeaf m) 0), t)"
proof -
  have u: "unat (word_of_nat j + 1 :: u32) = Suc j"
    using j by (subst unat_add_small) (simp_all add: unat_of_nat)
  have ptr: "Leaf_CellValPtr (word_of_nat j) = Some (20 + j * 296 + 4)"
    using j Leaf_CellPtr_nat [of j] by (simp add: Leaf_CellValPtr_def leaf_sizes)
  have "(Leaf_NumOfCells m \<le> word_of_nat j + 1) = (\<not> Suc j < unat (Leaf_NumOfCells m))"
    using u by (simp add: word_le_nat_alt not_less)
  moreover have "20 + j * 296 + 4 + sizeof_UserSchema \<le> PAGE_SIZE"
    using j by (simp add: schema_sizes PAGE_SIZE_eq)
  moreover have "UserSchema_DeserializeFrom m (20 + j * 296 + 4) = snd (leaf_cell m j)"
    by (simp add: leaf_cell_def)
  ultimately show ?thesis
    using page ptr render
    by (simp add: Table_scan_step_def Cursor_Value_def Cursor_Advance_def cursor_at_def Node_IsLeaf_Dirty
        Let_def add.commute [of 1])
qed

section \<open>The whole scan\<close>

lemma scan_page_ok:
  assumes page: "page_of t p = Some m" "unat p < MAX_PAGES" "Node_IsLeaf m" "unat (Leaf_NumOfCells m) \<le> 13"
    and render: "\<And>i. i < unat (Leaf_NumOfCells m) \<Longrightarrow>
      render p (word_of_nat i) (snd (leaf_cell m i)) = Inr (line p (word_of_nat i) (snd (leaf_cell m i)))"
    and rest: "\<And>lines. (if Leaf_GetNextLeaf m = 0 then Some (Inr (lines, t))
        else Table_scan env render (cursor_at (Leaf_GetNextLeaf m) 0) t lines)
      = Some (Inr (lines @ suffix, t))"
  shows "j < unat (Leaf_NumOfCells m) \<Longrightarrow>
    Table_scan env render (cursor_at p j) t lines = Some (Inr (lines @ page_lines line p m j @ suffix, t))"
proof (induction "unat (Leaf_NumOfCells m) - j" arbitrary: j lines)
  case 0
  then show ?case by simp
next
  case (Suc d)
  let ?l = "line p (word_of_nat j) (snd (leaf_cell m j))"
  note step = scan_step_ok [where render = render, OF page(1-3) Suc.prems page(4) render [OF Suc.prems], of env]
  have not_end: "\<not> end_of_table (cursor_at p j)" by (simp add: cursor_at_def)
  show ?case
  proof (cases "Suc j < unat (Leaf_NumOfCells m)")
    case True
    have "Table_scan env render (cursor_at p j) t lines
        = Table_scan env render (cursor_at p (Suc j)) t (lines @ [?l])"
      using not_end step True by (subst Table_scan.simps) simp
    also have "\<dots> = Some (Inr ((lines @ [?l]) @ page_lines line p m (Suc j) @ suffix, t))"
      using Suc.hyps(2) True by (intro Suc.hyps(1)) simp_all
    finally show ?thesis using page_lines_unfold [OF Suc.prems] by simp
  next
    case False
    then have "page_lines line p m (Suc j) = []" by (simp add: page_lines_def)
    then have lines: "page_lines line p m j = [?l]" using page_lines_unfold [OF Suc.prems] by simp
    have "Table_scan env render (cursor_at p j) t lines
        = (if Leaf_GetNextLeaf m = 0 then Some (Inr (lines @ [?l], t))
           else Table_scan env render (cursor_at (Leaf_GetNextLeaf m) 0) t (lines @ [?l]))"
    proof (cases "Leaf_GetNextLeaf m = 0")
      case True
      then show ?thesis
        using not_end step False
        by (subst Table_scan.simps) (simp, subst Table_scan.simps, simp)
    next
      case no: False
      then show ?thesis using not_end step False by (subst Table_scan.simps) simp
    qed
    then show ?thesis using rest [of "lines @ [?l]"] lines by simp
  qed
qed

lemma scan_chain_ok:
  "leaf_chain t (p # ps) \<Longrightarrow> printable render line t (p # ps) \<Longrightarrow>
    Table_scan env render (cursor_at p 0) t lines = Some (Inr (lines @ chain_lines line t (p # ps), t))"
proof (induction ps arbitrary: p lines)
  case Nil
  then obtain m where m: "page_of t p = Some m" "unat p < MAX_PAGES" "Node_IsLeaf m"
    "unat (Leaf_NumOfCells m) \<le> 13" "Leaf_NumOfCells m \<noteq> 0" "Leaf_GetNextLeaf m = 0"
    by (auto simp: leaf_sizes split: option.splits)
  have "chain_lines line t [p] = page_lines line p m 0 @ []" using m(1) by (simp add: chain_lines_def)
  then show ?case
    using m Nil.prems(2) scan_page_ok [of t p m render line env "[]" 0 lines]
    by (simp add: printable_def unat_gt_0)
next
  case (Cons q ps)
  then obtain m where m: "page_of t p = Some m" "unat p < MAX_PAGES" "Node_IsLeaf m"
    "unat (Leaf_NumOfCells m) \<le> 13" "Leaf_NumOfCells m \<noteq> 0" "Leaf_GetNextLeaf m = q" "q \<noteq> 0"
    by (auto simp: leaf_sizes split: option.splits)
  have "leaf_chain t (q # ps)" using Cons.prems(1) by simp
  moreover have "printable render line t (q # ps)" using Cons.prems(2) by (simp add: printable_def)
  ultimately have IH: "\<And>lines. Table_scan env render (cursor_at q 0) t lines
      = Some (Inr (lines @ chain_lines line t (q # ps), t))" by (rule Cons.IH)
  have "chain_lines line t (p # q # ps) = page_lines line p m 0 @ chain_lines line t (q # ps)"
    using m(1) by (rule chain_lines_Cons)
  then show ?case
    using m Cons.prems(2) IH scan_page_ok [of t p m render line env "chain_lines line t (q # ps)" 0 lines]
    by (simp add: printable_def unat_gt_0)
qed

section \<open>StartCursor\<close>

text \<open>The search for key 0 ends at the first cell when the keys are distinct.\<close>

lemma zero_first:
  assumes "sorted ks" and "distinct ks"
    and "if (0::u32) \<in> set ks then i < length ks \<and> ks ! i = 0 else i = lower_bound ks 0"
  shows "i = 0"
proof (cases "0 \<in> set ks")
  case True
  then have i: "i < length ks" "ks ! i = 0" using assms(3) by auto
  have "0 < length ks" using i(1) by linarith
  have "ks ! 0 \<le> ks ! i" using assms(1) i(1) by (intro sorted_nth_mono) auto
  then have "ks ! 0 = ks ! i" using i(2) by simp
  then show ?thesis using assms(2) i(1) \<open>0 < length ks\<close> by (simp add: nth_eq_iff_index_eq)
next
  case False
  have "takeWhile (\<lambda>x. x < (0::u32)) ks = []" by (cases ks) auto
  then show ?thesis using False assms(3) by (simp add: lower_bound_def)
qed

lemma StartCursor_leaf_root:
  assumes "leaf_root t m" and "distinct (leaf_keys m)"
  shows "Table_StartCursor env t =
    Inr (Some ((cursor_at (root_page_num t) 0)\<lparr>end_of_table := (Leaf_NumOfCells m = 0)\<rparr>), t)"
proof -
  obtain i where i: "Table_Find env 0 t = Inr (Some (root_cursor t i), t)"
    "if 0 \<in> set (leaf_keys m) then i < length (leaf_keys m) \<and> leaf_keys m ! i = 0
     else i = lower_bound (leaf_keys m) 0"
    using Table_Find_leaf_root [OF assms(1)] by blast
  have "i = 0" using assms i(2) by (intro zero_first) (simp_all add: leaf_root_def)
  then show ?thesis
    using i(1) assms(1)
    by (simp add: Table_StartCursor_def root_cursor_def cursor_at_def leaf_root_def Node_IsLeaf_Dirty)
qed

lemma StartCursor_two_level:
  assumes "two_level t root" and "page_of t (hd (internal_children root)) = Some m"
    and "distinct (leaf_keys m)" and "Leaf_NumOfCells m \<noteq> 0"
  shows "Table_StartCursor env t = Inr (Some (cursor_at (hd (internal_children root)) 0), t)"
proof -
  have hd: "hd (internal_children root) = internal_children root ! 0"
    by (metis hd_conv_nth length_0_conv length_internal_children nat.distinct(1))
  have "takeWhile (\<lambda>x. x < (0::u32)) (internal_keys root) = []" by (cases "internal_keys root") auto
  then have lb: "lower_bound (internal_keys root) 0 = 0" by (simp add: lower_bound_def)
  obtain i where i: "Table_Find env 0 t = Inr (Some (cursor_at (internal_children root ! 0) i), t)"
    "if 0 \<in> set (leaf_keys m) then i < length (leaf_keys m) \<and> leaf_keys m ! i = 0
     else i = lower_bound (leaf_keys m) 0"
    using Table_Find_two_level [OF assms(1), of env 0] assms(2) by (auto simp: lb hd cursor_at_def)
  obtain ok: "Node_IsLeaf m" "unat (internal_children root ! 0) < MAX_PAGES" "sorted (leaf_keys m)"
    using two_level_leaf [OF assms(1), of 0] assms(2) by (auto simp: hd)
  have "i = 0" using ok(3) assms(3) i(2) by (rule zero_first)
  then show ?thesis
    using i(1) ok assms(2,4)
    by (simp add: Table_StartCursor_def cursor_at_def Node_IsLeaf_Dirty hd)
qed

section \<open>DumpTree\<close>

definition dump_text :: "(UserSchema \<Rightarrow> string) \<Rightarrow> u32 \<Rightarrow> u32 \<Rightarrow> UserSchema \<Rightarrow> string" where
  "dump_text text p n row = ''[Page='' @ show_nat (unat p) @ '',CellNum='' @ show_nat (unat n) @ '']: '' @ text row"

text \<open>C36. Dumping a table of two levels whose leaves are chained from the leftmost to the
  rightmost ends and prints one line per stored row, leaf by leaf and cell by cell, and leaves
  the table unchanged.\<close>

theorem DumpTree_prints_all:
  assumes "two_level t root" and "leaf_chain t (internal_children root)"
    and "page_of t (hd (internal_children root)) = Some m" and "distinct (leaf_keys m)"
    and "printable dump_line (dump_text text) t (internal_children root)"
  shows "Table_DumpTree env t = Inr (chain_lines (dump_text text) t (internal_children root), t)"
proof -
  obtain p ps where ps: "internal_children root = p # ps"
    by (metis length_internal_children length_Suc_conv)
  have "Leaf_NumOfCells m \<noteq> 0" using assms(2,3) ps by simp
  then have "Table_StartCursor env t = Inr (Some (cursor_at p 0), t)"
    using StartCursor_two_level [OF assms(1,3,4)] ps by simp
  then show ?thesis
    using scan_chain_ok [of t p ps dump_line "dump_text text" env "[]"] assms(2,5) ps
    by (simp add: Table_DumpTree_def of_loop_def)
qed

lemma leaf_keys_one: "leaf_keys (one_key_leaf k) = [k]"
  by (simp add: leaf_keys_def one_key_leaf_fields)

text \<open>The two-leaf table with its chain.\<close>

definition chained_table :: Table where
  "chained_table = set_page 2 (Leaf_SetNextLeaf 1 (one_key_leaf 10)) two_leaf_table"

lemma chained_leaf:
  "leaf_cells (Leaf_SetNextLeaf v (one_key_leaf k)) = [(k, sample_user)]"
  "Leaf_NumOfCells (Leaf_SetNextLeaf v (one_key_leaf k)) = 1"
  "Node_IsLeaf (Leaf_SetNextLeaf v (one_key_leaf k))" "Leaf_GetNextLeaf (Leaf_SetNextLeaf v (one_key_leaf k)) = v"
  "Leaf_GetNextLeaf (one_key_leaf k) = 0"
proof -
  show n: "Leaf_NumOfCells (Leaf_SetNextLeaf v (one_key_leaf k)) = 1" by (simp add: one_key_leaf_fields)
  have "leaf_cell (one_key_leaf k) 0 = (k, sample_user)"
    by (simp add: one_key_leaf_def put_cell_same sample_user_wf)
  then show "leaf_cells (Leaf_SetNextLeaf v (one_key_leaf k)) = [(k, sample_user)]"
    using n by (intro leaf_cells_eqI [of _ 1]) simp_all
  show "Node_IsLeaf (Leaf_SetNextLeaf v (one_key_leaf k))"
    using one_key_leaf_fields(3) [of k] by (simp add: Node_IsLeaf_def Leaf_SetNextLeaf_def load32_store32_other)
  show "Leaf_GetNextLeaf (Leaf_SetNextLeaf v (one_key_leaf k)) = v"
    by (simp add: Leaf_GetNextLeaf_def Leaf_SetNextLeaf_def)
  have hdr: "\<And>b. b < 20 \<Longrightarrow> one_key_leaf k b = Leaf_SetNumOfCells 1 (Node_SetRoot False fresh_leaf) b"
    unfolding one_key_leaf_def using sample_user_wf by (rule put_cell_header)
  show "Leaf_GetNextLeaf (one_key_leaf k) = 0"
    using node_meta_fields(6) [OF header_bytes(1) [OF hdr]]
    by (simp add: Leaf_GetNextLeaf_def fresh_leaf_fields Node_SetRoot_def Leaf_SetNumOfCells_def
        load32_store32_other load32_upd_other)
qed

lemma chained_table_ok:
  "two_level chained_table two_leaf_root" "leaf_chain chained_table (internal_children two_leaf_root)"
  "page_of chained_table 2 = Some (Leaf_SetNextLeaf 1 (one_key_leaf 10))"
  "page_of chained_table 1 = Some (one_key_leaf 20)"
proof -
  show p: "page_of chained_table 2 = Some (Leaf_SetNextLeaf 1 (one_key_leaf 10))"
    "page_of chained_table 1 = Some (one_key_leaf 20)"
    by (simp_all add: chained_table_def two_leaf_table_def)
  have ch: "internal_children two_leaf_root = [2, 1]" "internal_keys two_leaf_root = [10]"
    by (simp_all add: two_leaf_root_def split_root_page_fields)
  have "leaf_ok [10] 0 (Some (Leaf_SetNextLeaf 1 (one_key_leaf 10)))"
    by (simp add: leaf_ok_def chained_leaf leaf_keys_def covers_def leaf_sizes one_key_leaf_fields)
  then show "two_level chained_table two_leaf_root"
    using two_level_update [OF two_leaf_table_ok(1), of 0] ch by (simp add: chained_table_def)
  show "leaf_chain chained_table (internal_children two_leaf_root)"
    using p by (simp add: ch chained_leaf one_key_leaf_fields MAX_PAGES_eq leaf_sizes)
qed

lemma sample_user_prints: "\<exists>s. UserSchema_ToString sample_user = Inr s"
proof -
  have "cstr (bs @ [0]) \<noteq> Inl e" for bs e
    by (simp add: cstr_def)
  then have c: "\<exists>s. cstr (bs @ [0]) = Inr s" for bs by (metis old.sum.exhaust)
  have "\<exists>a b. drop 4 (UserSchema_bytes sample_user) = a @ [0] \<and>
      drop (4 + NameSize) (UserSchema_bytes sample_user) = b @ [0]"
    using drop36_bytes [OF sample_user_wf] by (simp add: drop4_bytes sample_user_def schema_sizes)
  then show ?thesis using c by (metis UserSchema_ToString_def bnd_Inr)
qed

theorem DumpTree_prints_all_witness:
  "\<exists>lines. Table_DumpTree reliable_env chained_table = Inr (lines, chained_table) \<and> length lines = 2"
proof -
  obtain s where s: "UserSchema_ToString sample_user = Inr s" using sample_user_prints by blast
  have ch: "internal_children two_leaf_root = [2, 1]" by (simp add: two_leaf_root_def split_root_page_fields)
  have cell: "leaf_cell (one_key_leaf k) 0 = (k, sample_user)" for k
    by (simp add: one_key_leaf_def put_cell_same sample_user_wf)
  have "printable dump_line (dump_text (\<lambda>_. s)) chained_table [2, 1]"
    using s by (simp add: printable_def chained_table_ok one_key_leaf_fields cell dump_line_def dump_text_def)
  moreover have "distinct (leaf_keys (Leaf_SetNextLeaf 1 (one_key_leaf 10)))"
    by (simp add: leaf_keys_def chained_leaf)
  ultimately show ?thesis
    using DumpTree_prints_all [OF chained_table_ok(1,2), of "Leaf_SetNextLeaf 1 (one_key_leaf 10)" "\<lambda>_. s" reliable_env]
    by (simp add: ch chained_table_ok chain_lines_def page_lines_def one_key_leaf_fields)
qed

end
