(* ===== verification/Db_Tokener.thy ===== *)
theory Db_Tokener
  imports Prelude
begin

text \<open>
  The statement tokenizer (\<open>db_lab/tokener.h\<close>) and the standard-library number parser
  \<open>std::stoul\<close> the statement executor applies to its tokens.
\<close>

section \<open>Tokener::Parse\<close>

text \<open>\<open>line.find(" ", pre_pos)\<close>: the least position from \<open>pre_pos\<close> on that holds a space.\<close>

definition find_space :: "string \<Rightarrow> nat \<Rightarrow> nat option" where
  "find_space line pre_pos =
     (let k = length (takeWhile (\<lambda>c. c \<noteq> CHR '' '') (drop pre_pos line))
      in if pre_pos + k < length line then Some (pre_pos + k) else None)"

lemma find_space_bounds:
  "find_space line pre_pos = Some pos \<Longrightarrow> pre_pos \<le> pos \<and> pos < length line"
  by (auto simp: find_space_def Let_def split: if_splits)

function Tokener_loop :: "string \<Rightarrow> nat \<Rightarrow> string list \<Rightarrow> string list" where
  "Tokener_loop line pre_pos out =
     (case find_space line pre_pos of
        Some pos \<Rightarrow> Tokener_loop line (pos + 1) (out @ [take (pos - pre_pos) (drop pre_pos line)])
      | None \<Rightarrow> (let l = drop pre_pos line in if length l \<noteq> 0 then out @ [l] else out))"
  by pat_completeness auto
termination
  by (relation "measure (\<lambda>(line, pre_pos, out). Suc (length line) - pre_pos)")
    (auto dest: find_space_bounds)

declare Tokener_loop.simps [simp del]

definition Tokener_Parse :: "string \<Rightarrow> string list" where
  "Tokener_Parse line = (if length line = 0 then [] else Tokener_loop line 0 [])"

text \<open>The specification: the maximal space-free pieces between spaces, in order.\<close>

fun split_spaces :: "string \<Rightarrow> string list" where
  "split_spaces [] = [[]]"
| "split_spaces (c # cs) =
     (if c = CHR '' '' then [] # split_spaces cs
      else (case split_spaces cs of [] \<Rightarrow> [[c]] | t # ts \<Rightarrow> (c # t) # ts))"

definition drop_last_empty :: "string list \<Rightarrow> string list" where
  "drop_last_empty ts = (if ts \<noteq> [] \<and> last ts = [] then butlast ts else ts)"

fun join_spaces :: "string list \<Rightarrow> string" where
  "join_spaces [] = []"
| "join_spaces [t] = t"
| "join_spaces (t # ts) = t @ CHR '' '' # join_spaces ts"

section \<open>Splitting\<close>

lemma split_spaces_not_Nil [simp]: "split_spaces s \<noteq> []"
  by (induction s) (auto split: list.splits)

lemma split_spaces_no_space:
  "CHR '' '' \<notin> set t \<Longrightarrow> split_spaces t = [t]"
  by (induction t) auto

lemma split_spaces_append:
  "CHR '' '' \<notin> set t \<Longrightarrow> split_spaces (t @ CHR '' '' # s) = t # split_spaces s"
  by (induction t) auto

lemma takeWhile_split:
  fixes s :: string
  assumes "length (takeWhile (\<lambda>c. c \<noteq> CHR '' '') s) < length s"
  shows "s = takeWhile (\<lambda>c. c \<noteq> CHR '' '') s @ CHR '' '' #
    drop (Suc (length (takeWhile (\<lambda>c. c \<noteq> CHR '' '') s))) s"
proof -
  let ?t = "takeWhile (\<lambda>c. c \<noteq> CHR '' '') s"
  have "s ! length ?t = CHR '' ''"
    using nth_length_takeWhile [OF assms] by simp
  moreover have "take (length ?t) s = ?t"
    by (simp add: takeWhile_eq_take [symmetric])
  ultimately show ?thesis
    using id_take_nth_drop [OF assms] by simp
qed

lemma split_spaces_takeWhile:
  fixes s :: string
  defines "t \<equiv> takeWhile (\<lambda>c. c \<noteq> CHR '' '') s"
  assumes "length t < length s"
  shows "split_spaces s = t # split_spaces (drop (Suc (length t)) s)"
proof -
  have "CHR '' '' \<notin> set t" unfolding t_def by (auto dest: set_takeWhileD)
  moreover have "s = t @ CHR '' '' # drop (Suc (length t)) s"
    using takeWhile_split assms(2) unfolding t_def by blast
  ultimately show ?thesis
    using split_spaces_append [of t "drop (Suc (length t)) s"] by metis
qed

lemma Tokener_loop_split:
  "pre_pos \<le> length line \<Longrightarrow>
   Tokener_loop line pre_pos out = out @ drop_last_empty (split_spaces (drop pre_pos line))"
proof (induction line pre_pos out rule: Tokener_loop.induct)
  case (1 line pre_pos out)
  let ?s = "drop pre_pos line"
  let ?t = "takeWhile (\<lambda>c. c \<noteq> CHR '' '') ?s"
  show ?case
  proof (cases "pre_pos + length ?t < length line")
    case True
    have find: "find_space line pre_pos = Some (pre_pos + length ?t)"
      using True by (simp add: find_space_def)
    have tk: "take (length ?t) ?s = ?t" by (simp add: takeWhile_eq_take [symmetric])
    have "length ?t < length ?s" using True by simp
    from split_spaces_takeWhile [OF this]
    have "split_spaces ?s = ?t # split_spaces (drop (pre_pos + length ?t + 1) line)"
      by (simp add: add.commute add.left_commute)
    then have "drop_last_empty (split_spaces ?s)
        = ?t # drop_last_empty (split_spaces (drop (pre_pos + length ?t + 1) line))"
      by (simp add: drop_last_empty_def)
    with "1.IH" [OF find] True show ?thesis
      by (subst Tokener_loop.simps) (simp add: find tk)
  next
    case False
    with "1.prems" have "length ?t = length ?s"
      using length_takeWhile_le [of "\<lambda>c. c \<noteq> CHR '' ''" ?s] by simp
    then have "?t = ?s" by (metis takeWhile_eq_take take_all_iff order_refl)
    then have "CHR '' '' \<notin> set ?s" by (metis (mono_tags, lifting) set_takeWhileD)
    then have "split_spaces ?s = [?s]" by (rule split_spaces_no_space)
    moreover have "find_space line pre_pos = None"
      using False by (simp add: find_space_def)
    ultimately show ?thesis
      by (subst Tokener_loop.simps) (simp add: drop_last_empty_def)
  qed
qed

lemma split_join:
  "ts \<noteq> [] \<Longrightarrow> \<forall>t \<in> set ts. CHR '' '' \<notin> set t \<Longrightarrow> split_spaces (join_spaces ts) = ts"
  by (induction ts rule: join_spaces.induct) (auto simp: split_spaces_no_space split_spaces_append)

lemma Tokener_Parse_split: "Tokener_Parse line = drop_last_empty (split_spaces line)"
  by (simp add: Tokener_Parse_def Tokener_loop_split) (simp add: drop_last_empty_def)

section \<open>std::stoul\<close>

text \<open>\<open>std::stoul(s, &pos)\<close> in base 10: white space, an optional sign, then digits.
  \<open>None\<close> is the exception (\<open>invalid_argument\<close> without a digit, \<open>out_of_range\<close> above
  the 64-bit maximum); otherwise the value, negated modulo \<open>2^64\<close> after a minus sign, and
  the number of characters consumed.\<close>

definition is_space :: "char \<Rightarrow> bool" where
  "is_space c \<longleftrightarrow> c \<in> {CHR '' '', CHR 0x09, CHR 0x0A, CHR 0x0B, CHR 0x0C, CHR 0x0D}"

definition is_digit :: "char \<Rightarrow> bool" where
  "is_digit c \<longleftrightarrow> c \<in> set ''0123456789''"

definition digit_val :: "char \<Rightarrow> nat" where
  "digit_val c = of_char c - 48"

fun dec_val :: "nat \<Rightarrow> string \<Rightarrow> nat" where
  "dec_val acc [] = acc"
| "dec_val acc (c # cs) = dec_val (10 * acc + digit_val c) cs"

definition stoul :: "string \<Rightarrow> (u64 \<times> nat) option" where
  "stoul s =
     (let ws = takeWhile is_space s; r = drop (length ws) s;
          neg = (r \<noteq> [] \<and> hd r = CHR ''-'');
          signed = (r \<noteq> [] \<and> (hd r = CHR ''-'' \<or> hd r = CHR ''+''));
          r' = (if signed then tl r else r);
          ds = takeWhile is_digit r'; v = dec_val 0 ds
      in if ds = [] then None
         else if 2 ^ 64 \<le> v then None
         else Some (if neg then - word_of_nat v else word_of_nat v,
                    length ws + (if signed then 1 else 0) + length ds))"

lemma is_digit_not_space: "is_digit c \<Longrightarrow> \<not> is_space c"
  by (auto simp: is_digit_def is_space_def)

lemma is_digit_not_sign: "is_digit c \<Longrightarrow> c \<noteq> CHR ''-'' \<and> c \<noteq> CHR ''+''"
  by (auto simp: is_digit_def)

lemma stoul_digits:
  assumes "ds \<noteq> []" and "\<forall>c \<in> set ds. is_digit c"
  shows "stoul ds = (if 2 ^ 64 \<le> dec_val 0 ds then None
    else Some (word_of_nat (dec_val 0 ds), length ds))"
proof -
  have c: "is_digit (hd ds)" using assms by (cases ds) auto
  have ws: "takeWhile is_space ds = []" using assms(1) is_digit_not_space [OF c] by (cases ds) auto
  have tw: "takeWhile is_digit ds = ds" using assms(2) by (simp add: takeWhile_eq_all_conv)
  show ?thesis
    using assms(1) is_digit_not_sign [OF c] by (simp add: stoul_def ws tw)
qed

lemma dec_val_append: "dec_val acc (xs @ [c]) = 10 * dec_val acc xs + digit_val c"
  by (induction xs arbitrary: acc) auto

lemma digit_char_table:
  "list_all (\<lambda>d. is_digit (digit_char d) \<and> digit_val (digit_char d) = d) [0..<10]"
  by code_simp

lemma digit_char_props:
  "d < 10 \<Longrightarrow> is_digit (digit_char d) \<and> digit_val (digit_char d) = d"
  using digit_char_table by (simp only: list_all_iff set_upt) auto

lemma show_nat_digits: "\<forall>c \<in> set (show_nat n). is_digit c"
proof (induction n rule: show_nat.induct)
  case (1 n)
  show ?case
  proof (cases "n < 10")
    case True
    then show ?thesis by (subst show_nat.simps) (simp add: digit_char_props)
  next
    case False
    with 1 show ?thesis by (subst show_nat.simps) (auto simp: digit_char_props)
  qed
qed

lemma dec_val_show_nat: "dec_val 0 (show_nat n) = n"
proof (induction n rule: show_nat.induct)
  case (1 n)
  show ?case
  proof (cases "n < 10")
    case True
    then show ?thesis by (subst show_nat.simps) (simp add: digit_char_props)
  next
    case False
    with 1 have "dec_val 0 (show_nat (n div 10)) = n div 10" by simp
    with False show ?thesis
      by (subst show_nat.simps) (simp add: dec_val_append digit_char_props)
  qed
qed

lemma stoul_show_nat:
  "n < 2 ^ 64 \<Longrightarrow> stoul (show_nat n) = Some (word_of_nat n, length (show_nat n))"
  using stoul_digits [of "show_nat n"] by (simp add: show_nat_digits dec_val_show_nat)

section \<open>Properties\<close>

text \<open>C34. The tokenizer returns exactly the pieces between the spaces of the line, in order,
  except that an empty last piece is dropped; in particular it is a left inverse of joining
  non-empty, space-free words with single spaces.\<close>

theorem Tokener_Parse_correct:
  "Tokener_Parse line = drop_last_empty (split_spaces line) \<and>
   (ts \<noteq> [] \<longrightarrow> (\<forall>t \<in> set ts. CHR '' '' \<notin> set t) \<longrightarrow> last ts \<noteq> [] \<longrightarrow>
      Tokener_Parse (join_spaces ts) = ts)"
  by (auto simp: Tokener_Parse_split split_join drop_last_empty_def)

theorem Tokener_Parse_correct_witness:
  "Tokener_Parse ''insert 1 bob b@x'' = [''insert'', ''1'', ''bob'', ''b@x'']"
  using Tokener_Parse_correct [of "[]" "[''insert'', ''1'', ''bob'', ''b@x'']"] by simp

end
