(* ===== verification/Db_Main.thy ===== *)
theory Db_Main
  imports Db_Scan Db_Tokener
begin

text \<open>
  The shell of the database (\<open>db_lab/main.cpp\<close>): commands, statement preparation and
  execution, and the read-eval loop. Printed text is a string the operations return; the
  lines of input are a list, after whose end \<open>getline\<close> delivers the empty string for ever.
  The local \<open>UserSchema user\<close> of \<open>execute_statement\<close> starts with whatever the stack holds, the
  parameter \<open>junk\<close>.
\<close>

definition endl :: string where "endl = [CHR 0x0A]"

text \<open>\<open>s.rfind(p, 0) == 0\<close>.\<close>

definition starts_with :: "string \<Rightarrow> string \<Rightarrow> bool" where
  "starts_with p s \<longleftrightarrow> take (length p) s = p"

definition quoted :: "string \<Rightarrow> string \<Rightarrow> string" where
  "quoted msg s = msg @ [CHR 0x22] @ s @ [CHR 0x22]"

definition process_cmd :: "string \<Rightarrow> Status" where
  "process_cmd cmd =
     (if cmd = CMD_EXIT then mk_status EXIT ''Exit!''
      else mk_status INVALID_CMD (quoted ''INVALID_CMD: '' cmd))"

text \<open>The row store that nothing calls any more: the static array and its position.\<close>

record Store =
  STORE :: mem
  STORE_POS :: nat

definition store_row :: "UserSchema \<Rightarrow> Store \<Rightarrow> (Status \<times> Store) outcome" where
  "store_row user s =
     (if STORE_POS s + sizeof_UserSchema \<le> MAX_STORE_SIZE
      then Inr (Status_default, s\<lparr>STORE := UserSchema_SerializeTo user (STORE s) (STORE_POS s),
                                  STORE_POS := STORE_POS s + sizeof_UserSchema\<rparr>)
      else Inl OutOfBounds)"

definition prepare_select_st :: "string \<Rightarrow> Status \<times> Statement" where
  "prepare_select_st st = (Status_default, \<lparr>stmt_type = SELECT, stmt_st = st\<rparr>)"

definition prepare_delete_st :: "string \<Rightarrow> Status \<times> Statement" where
  "prepare_delete_st st = (Status_default, \<lparr>stmt_type = DELETE, stmt_st = st\<rparr>)"

definition prepare_insert_st :: "string \<Rightarrow> Status \<times> Statement" where
  "prepare_insert_st st = (Status_default, \<lparr>stmt_type = INSERT, stmt_st = st\<rparr>)"

definition prepare_statement :: "string \<Rightarrow> Statement \<Rightarrow> Status \<times> Statement" where
  "prepare_statement st out =
     (if starts_with ST_SELECT st then prepare_select_st st
      else if starts_with ST_DELETE st then prepare_delete_st st
      else if starts_with ST_INSERT st then prepare_insert_st st
      else (mk_status INVALID_ST (quoted ''INVALID_ST: '' st), out))"

definition select_line :: "u32 \<Rightarrow> u32 \<Rightarrow> UserSchema \<Rightarrow> string outcome" where
  "select_line page_num cell_num row = UserSchema_ToString row"

definition print_lines :: "string list \<Rightarrow> string" where
  "print_lines ls = concat (map (\<lambda>l. l @ endl) ls)"

definition execute_select :: "sys_env \<Rightarrow> Table \<Rightarrow> (Status \<times> string \<times> Table) outcome" where
  "execute_select env t =
     bnd (Table_StartCursor env t) (\<lambda>(c, t).
     bnd (of_opt NullDeref c) (\<lambda>c.
     bnd (of_loop (Table_scan env select_line c t [])) (\<lambda>(ls, t).
       Inr (Status_default, print_lines ls, t))))"

definition illegal :: "string \<Rightarrow> Status" where
  "illegal st = mk_status ILLIGLE_ST (quoted ''illigle statement '' st)"

definition execute_insert ::
  "sys_env \<Rightarrow> UserSchema \<Rightarrow> string \<Rightarrow> string list \<Rightarrow> Table \<Rightarrow> (Status \<times> Table) outcome" where
  "execute_insert env junk st statements t =
     (if length statements \<noteq> 4 then Inr (illegal st, t)
      else case stoul (statements ! 1) of
          None \<Rightarrow> Inr (illegal st, t)
        | Some (v, pos) \<Rightarrow>
            let user = junk\<lparr>us_id := ucast v\<rparr> in
            if length (statements ! 1) - pos \<noteq> 0 then Inr (illegal st, t)
            else
              let user = UserSchema_SetEmail (Some (statements ! 3))
                (UserSchema_SetUserName (Some (statements ! 2)) user)
              in Table_Insert env (us_id user) user t)"

definition execute_statement ::
  "sys_env \<Rightarrow> UserSchema \<Rightarrow> Statement \<Rightarrow> Table \<Rightarrow> (Status \<times> string \<times> Table) outcome" where
  "execute_statement env junk st t =
     (let statements = Tokener_Parse (stmt_st st) in
      if statements = [] then Inl OutOfBounds
      else if statements ! 0 = ST_SELECT then execute_select env t
      else if statements ! 0 = ST_DELETE then Inr (Status_default, '''', t)
      else if statements ! 0 = ST_INSERT
      then bnd (execute_insert env junk (stmt_st st) statements t) (\<lambda>(status, t). Inr (status, '''', t))
      else Inr (mk_status INVALID_ST (quoted ''unkown statement '' (stmt_st st)), '''', t))"

definition process_input :: "string \<Rightarrow> Statement \<Rightarrow> Status \<times> Statement" where
  "process_input input out =
     (if length input = 0 then (mk_status EMPTY ''Empty input!'', out)
      else if starts_with CMD_PREFIX input then (process_cmd input, out)
      else prepare_statement input out)"

text \<open>One round of the loop of \<open>main\<close>: whether it breaks, the text printed, the table.\<close>

definition main_round :: "sys_env \<Rightarrow> UserSchema \<Rightarrow> string \<Rightarrow> Table \<Rightarrow> (bool \<times> string \<times> Table) outcome" where
  "main_round env junk input t =
     (case process_input input Statement_default of (status, st) \<Rightarrow>
        if \<not> Status_ok status
        then Inr (st_type status = EXIT, PROMPT @ PROMPT @ err_msg status @ endl, t)
        else bnd (execute_statement env junk st t) (\<lambda>(status, out, t).
          Inr (False, PROMPT @ out @ (if \<not> Status_ok status then PROMPT @ err_msg status @ endl else ''''), t)))"

text \<open>The loop over the lines of input. When they are used up, \<open>getline\<close> yields an empty
  line in every further round and the loop goes on for ever.\<close>

fun main_loop :: "sys_env \<Rightarrow> UserSchema \<Rightarrow> string list \<Rightarrow> Table \<Rightarrow> string \<Rightarrow> (string \<times> Table) outcome" where
  "main_loop env junk [] t out = Inl Diverges"
| "main_loop env junk (input # inputs) t out =
     bnd (main_round env junk input t) (\<lambda>(brk, shown, t).
       if brk then Inr (out @ shown, t) else main_loop env junk inputs t (out @ shown))"

text \<open>\<open>main\<close>: open, dump, loop; on return the last reference to the table goes and the pager's
  destructor writes the pages back. The result is the printed text, the text on standard error
  and the pager.\<close>

definition main_program ::
  "sys_env \<Rightarrow> UserSchema \<Rightarrow> posix_file \<Rightarrow> string list \<Rightarrow> (string \<times> string list \<times> Pager) outcome" where
  "main_program env junk f inputs =
     bnd (Table_Open env f) (\<lambda>t.
     bnd (Table_DumpTree env t) (\<lambda>(ls, t).
     bnd (main_loop env junk inputs t (print_lines ls)) (\<lambda>(out, t).
     bnd (Pager_destroy env (pager t)) (\<lambda>(p, errs). Inr (out, errs, p)))))"

section \<open>Statements\<close>

lemma empty_round:
  "main_round env junk '''' t = Inr (False, PROMPT @ PROMPT @ ''Empty input!'' @ endl, t)"
  by (simp add: main_round_def process_input_def mk_status_def Status_ok_def)

lemma exit_round:
  assumes "main_round env junk input t = Inr (True, shown, t')"
  shows "input = CMD_EXIT"
proof (rule ccontr)
  assume "input \<noteq> CMD_EXIT"
  then have "st_type (fst (process_input input Statement_default)) \<noteq> EXIT"
    by (simp add: process_input_def process_cmd_def prepare_statement_def prepare_select_st_def
        prepare_delete_st_def prepare_insert_st_def mk_status_def Status_default_def)
  then show False
    using assms by (auto simp: main_round_def bnd_eq_Inr split: prod.splits if_splits)
qed

text \<open>The shell ends only through the exit command: if the loop returns, \<open>.exit\<close> is among
  the lines of input, and at the end of the input it prints the empty-input message for
  ever.\<close>

theorem main_loop_exit:
  "(main_loop env junk inputs t out = Inr r \<longrightarrow> CMD_EXIT \<in> set inputs) \<and>
   main_round env junk '''' t = Inr (False, PROMPT @ PROMPT @ ''Empty input!'' @ endl, t)"
proof
  show "main_loop env junk inputs t out = Inr r \<longrightarrow> CMD_EXIT \<in> set inputs"
  proof (induction inputs arbitrary: t out)
    case Nil
    then show ?case by simp
  next
    case (Cons input inputs)
    show ?case
    proof
      assume "main_loop env junk (input # inputs) t out = Inr r"
      then obtain brk shown t' where round: "main_round env junk input t = Inr (brk, shown, t')"
        and rest: "(if brk then Inr (out @ shown, t') else main_loop env junk inputs t' (out @ shown)) = Inr r"
        by (auto simp: bnd_eq_Inr)
      show "CMD_EXIT \<in> set (input # inputs)"
        using round rest exit_round [of env junk input t shown t'] Cons.IH [of t' "out @ shown"]
        by (cases brk) auto
    qed
  qed
qed (rule empty_round)

theorem main_loop_exit_witness:
  "main_loop reliable_env sample_user [''.exit''] fresh_table '''' =
     Inr (PROMPT @ PROMPT @ ''Exit!'' @ endl, fresh_table) \<and> CMD_EXIT \<in> set [''.exit'']"
proof -
  have run: "main_loop reliable_env sample_user [''.exit''] fresh_table '''' =
     Inr (PROMPT @ PROMPT @ ''Exit!'' @ endl, fresh_table)"
    by (simp add: main_round_def process_input_def starts_with_def CMD_PREFIX_def process_cmd_def
        CMD_EXIT_def mk_status_def Status_ok_def)
  then show ?thesis
    using main_loop_exit [of reliable_env sample_user "[''.exit'']" fresh_table "''''"] by blast
qed

section \<open>Selecting\<close>

definition row_prints :: "UserSchema \<Rightarrow> bool" where
  "row_prints row = (case UserSchema_ToString row of Inl _ \<Rightarrow> False | Inr _ \<Rightarrow> True)"

definition row_text :: "UserSchema \<Rightarrow> string" where
  "row_text row = (case UserSchema_ToString row of Inl _ \<Rightarrow> '''' | Inr s \<Rightarrow> s)"

lemma row_text_prints: "row_prints row \<Longrightarrow> UserSchema_ToString row = Inr (row_text row)"
  by (auto simp: row_prints_def row_text_def split: sum.splits)

lemma select_printable:
  assumes "\<And>p m. p \<in> set ps \<Longrightarrow> page_of t p = Some m \<Longrightarrow> \<forall>r \<in> set (leaf_cells m). row_prints (snd r)"
  shows "printable select_line (\<lambda>_ _. row_text) t ps"
proof -
  have "row_prints (snd (leaf_cell m i))"
    if "p \<in> set ps" "page_of t p = Some m" "i < unat (Leaf_NumOfCells m)" for p m i
    using assms [OF that(1,2)] that(3) nth_mem [of i "leaf_cells m"] by simp
  then show ?thesis
    by (auto simp: printable_def select_line_def intro!: row_text_prints split: option.splits)
qed

lemma page_lines_cells: "page_lines (\<lambda>_ _. f) p m 0 = map (f \<circ> snd) (leaf_cells m)"
  by (simp add: page_lines_def leaf_cells_def)

lemma chain_lines_tree_rows:
  "chain_lines (\<lambda>_ _. f) t (internal_children root) = map (f \<circ> snd) (tree_rows t root)"
proof -
  have "(case page_of t p of None \<Rightarrow> [] | Some m \<Rightarrow> page_lines (\<lambda>_ _. f) p m 0) =
      map (f \<circ> snd) (case page_of t p of None \<Rightarrow> [] | Some m \<Rightarrow> leaf_cells m)" for p
    by (simp add: page_lines_cells split: option.splits)
  then show ?thesis by (simp add: chain_lines_def tree_rows_def map_concat comp_def)
qed

text \<open>\<open>select\<close> on a table of two levels with chained leaves prints the text of every stored
  row, in the order of the tree, one per line, and succeeds.\<close>

theorem select_prints_rows:
  assumes "two_level t root" and "leaf_chain t (internal_children root)"
    and "page_of t (hd (internal_children root)) = Some m" and "distinct (leaf_keys m)"
    and "\<forall>r \<in> set (tree_rows t root). row_prints (snd r)"
  shows "execute_select env t =
    Inr (Status_default, print_lines (map (row_text \<circ> snd) (tree_rows t root)), t)"
proof -
  obtain p ps where ps: "internal_children root = p # ps"
    by (metis length_internal_children length_Suc_conv)
  have "Leaf_NumOfCells m \<noteq> 0" using assms(2,3) ps by simp
  then have start: "Table_StartCursor env t = Inr (Some (cursor_at p 0), t)"
    using StartCursor_two_level [OF assms(1,3,4)] ps by simp
  have "printable select_line (\<lambda>_ _. row_text) t (p # ps)"
  proof (rule select_printable)
    fix q l
    assume q: "q \<in> set (p # ps)" "page_of t q = Some l"
    let ?f = "\<lambda>p. case page_of t p of None \<Rightarrow> [] | Some m \<Rightarrow> leaf_cells m"
    have "?f q \<in> ?f ` set (p # ps)" using q(1) by (rule imageI)
    then have "set (leaf_cells l) \<subseteq> set (tree_rows t root)"
      using q(2) by (auto simp only: tree_rows_def ps set_concat set_map option.case)
    then show "\<forall>r \<in> set (leaf_cells l). row_prints (snd r)" using assms(5) by blast
  qed
  then show ?thesis
    using scan_chain_ok [of t p ps select_line "\<lambda>_ _. row_text" env "[]"] assms(2) ps start
      chain_lines_tree_rows [of row_text t root]
    by (simp add: execute_select_def of_loop_def)
qed

lemma select_leaf_root:
  assumes "leaf_root t m" and "distinct (leaf_keys m)" and "Leaf_GetNextLeaf m = 0"
    and "\<forall>r \<in> set (leaf_cells m). row_prints (snd r)"
  shows "execute_select env t =
    Inr (Status_default, print_lines (map (row_text \<circ> snd) (leaf_cells m)), t)"
proof (cases "Leaf_NumOfCells m = 0")
  case True
  then have "leaf_cells m = []" by (simp add: leaf_cells_def)
  then show ?thesis
    using StartCursor_leaf_root [OF assms(1,2), of env] True
    by (simp add: execute_select_def of_loop_def Table_scan.simps)
next
  case False
  let ?r = "root_page_num t"
  have page: "page_of t ?r = Some m" using assms(1) by (simp add: leaf_root_def)
  have "leaf_chain t [?r]" using assms(1,3) False by (simp add: leaf_root_def)
  moreover have "printable select_line (\<lambda>_ _. row_text) t [?r]"
    using assms(4) page by (intro select_printable) auto
  ultimately have scan: "Table_scan env select_line (cursor_at ?r 0) t [] =
      Some (Inr (chain_lines (\<lambda>_ _. row_text) t [?r], t))"
    using scan_chain_ok [of t ?r "[]" select_line "\<lambda>_ _. row_text" env "[]"] by (simp only: append_Nil)
  have "(cursor_at ?r 0)\<lparr>end_of_table := (Leaf_NumOfCells m = 0)\<rparr> = cursor_at ?r 0"
    using False by (simp add: cursor_at_def)
  then have start: "Table_StartCursor env t = Inr (Some (cursor_at ?r 0), t)"
    using StartCursor_leaf_root [OF assms(1,2), of env] by (simp only:)
  have "chain_lines (\<lambda>_ _. row_text) t [?r] = map (row_text \<circ> snd) (leaf_cells m)"
    using page by (simp add: chain_lines_def page_lines_cells)
  then show ?thesis
    by (simp only: execute_select_def start scan of_loop_def bnd_Inr prod.case of_opt_Some option.case)
qed

section \<open>Inserting\<close>

lemma show_nat_no_space: "CHR '' '' \<notin> set (show_nat n)"
proof
  assume "CHR '' '' \<in> set (show_nat n)"
  then have "is_digit (CHR '' '')" using show_nat_digits by blast
  then show False by (simp add: is_digit_def)
qed

definition new_user :: "UserSchema \<Rightarrow> nat \<Rightarrow> string \<Rightarrow> string \<Rightarrow> UserSchema" where
  "new_user junk n un em = UserSchema_SetEmail (Some em) (UserSchema_SetUserName (Some un)
     (junk\<lparr>us_id := word_of_nat n\<rparr>))"

lemma new_user_id: "us_id (new_user junk n un em) = word_of_nat n"
  by (simp add: new_user_def set_user_fields UserSchema_SetUserName_def)

lemma execute_insert_statement:
  assumes "n < 2 ^ 64" and "CHR '' '' \<notin> set un" and "CHR '' '' \<notin> set em" and "em \<noteq> []"
  shows "execute_statement env junk \<lparr>stmt_type = INSERT, stmt_st = join_spaces [ST_INSERT, show_nat n, un, em]\<rparr> t =
    bnd (Table_Insert env (word_of_nat n) (new_user junk n un em) t) (\<lambda>(status, t). Inr (status, '''', t))"
proof -
  let ?ts = "[ST_INSERT, show_nat n, un, em]"
  have "CHR '' '' \<notin> set ST_INSERT" by (simp add: ST_INSERT_def)
  then have parse: "Tokener_Parse (join_spaces ?ts) = ?ts"
    using assms(2-4) show_nat_no_space [of n]
    by (simp only: Tokener_Parse_split, subst split_join) (auto simp: drop_last_empty_def)
  have cast: "ucast (word_of_nat n :: u64) = (word_of_nat n :: u32)"
    by (rule bit_word_eqI) (simp add: bit_simps)
  have id: "us_id (UserSchema_SetEmail (Some em) (UserSchema_SetUserName (Some un) (junk\<lparr>us_id := word_of_nat n\<rparr>)))
      = word_of_nat n"
    using new_user_id by (simp add: new_user_def)
  have "ST_INSERT \<noteq> ST_SELECT" "ST_INSERT \<noteq> ST_DELETE"
    by (simp_all add: ST_INSERT_def ST_SELECT_def ST_DELETE_def)
  then show ?thesis
    using assms(1) cast id
    by (simp add: execute_statement_def parse execute_insert_def stoul_show_nat Let_def new_user_def
        del: join_spaces.simps)
qed

text \<open>The insert statement, typed with single spaces, a decimal number below \<open>2^64\<close> and words
  for name and address, inserts the row with these fields under the number truncated to 32
  bits; numbers that agree modulo \<open>2^32\<close> are the same key.\<close>

theorem insert_statement_inserts:
  assumes "n < 2 ^ 64" and "CHR '' '' \<notin> set un" and "CHR '' '' \<notin> set em" and "em \<noteq> []"
  shows "execute_statement env junk \<lparr>stmt_type = INSERT, stmt_st = join_spaces [ST_INSERT, show_nat n, un, em]\<rparr> t =
    bnd (Table_Insert env (word_of_nat n) (new_user junk n un em) t) (\<lambda>(status, t). Inr (status, '''', t)) \<and>
    us_id (new_user junk n un em) = word_of_nat (n mod 2 ^ 32)"
  using execute_insert_statement [OF assms] by (simp add: new_user_id word_unat_eq_iff unat_of_nat)

theorem insert_statement_inserts_witness:
  "us_id (new_user sample_user 4294967301 ''ann'' ''a@b'') = 5"
  using insert_statement_inserts [of 4294967301 "''ann''" "''a@b''" reliable_env sample_user fresh_table] by simp

lemma new_user_wf: "UserSchema_wf junk \<Longrightarrow> UserSchema_wf (new_user junk n un em)"
  by (simp add: new_user_def UserSchema_wf_def set_user_fields strncpy_bytes_def Let_def)


lemma sample_new_user_prints: "row_prints (new_user sample_user 5 ''ann'' ''a@b'')"
proof -
  have wf: "UserSchema_wf (new_user sample_user 5 ''ann'' ''a@b'')" using sample_user_wf by (rule new_user_wf)
  have f: "us_username (new_user sample_user 5 ''ann'' ''a@b'') = strncpy_bytes NameSize ''ann''"
    "us_email (new_user sample_user 5 ''ann'' ''a@b'') = strncpy_bytes EMailSize ''a@b''"
    by (simp_all add: new_user_def set_user_fields)
  have "cstr (strncpy_bytes NameSize ''ann'' @ bs) = Inr ''ann''" for bs
    by (rule cstr_padded) (simp_all add: plain_text_def schema_sizes)
  moreover have "cstr (strncpy_bytes EMailSize ''a@b'' @ bs) = Inr ''a@b''" for bs
    by (rule cstr_padded) (simp_all add: plain_text_def schema_sizes)
  ultimately show ?thesis
    by (simp add: row_prints_def UserSchema_ToString_def drop4_bytes drop36_bytes [OF wf] f)
qed


theorem select_prints_rows_witness:
  "\<exists>s. execute_select reliable_env chained_table = Inr (Status_default, print_lines [s, s], chained_table)"
proof -
  have ch: "internal_children two_leaf_root = [2, 1]" by (simp add: two_leaf_root_def split_root_page_fields)
  have rows: "tree_rows chained_table two_leaf_root = [(10, sample_user), (20, sample_user)]"
    by (simp add: tree_rows_def ch chained_table_ok chained_leaf one_key_leaf_fields)
  have "row_prints sample_user" using sample_user_prints by (auto simp: row_prints_def)
  then show ?thesis
    using select_prints_rows [OF chained_table_ok(1,2), of "Leaf_SetNextLeaf 1 (one_key_leaf 10)" reliable_env]
    by (intro exI [of _ "row_text sample_user"]) (simp add: ch chained_table_ok rows leaf_keys_def chained_leaf)
qed

section \<open>Statements that do nothing\<close>

lemma Parse_hd:
  assumes "CHR '' '' \<notin> set w" and "w \<noteq> []"
  shows "Tokener_Parse (w @ CHR '' '' # rest) \<noteq> [] \<and> Tokener_Parse (w @ CHR '' '' # rest) ! 0 = w"
proof -
  have "split_spaces (w @ CHR '' '' # rest) = w # split_spaces rest"
    using assms(1) by (induction w) auto
  then show ?thesis
    using assms(2) by (simp add: Tokener_Parse_split drop_last_empty_def)
qed

text \<open>A \<open>delete\<close> statement is accepted and reported as successful, whatever follows the word,
  and changes nothing.\<close>

theorem delete_changes_nothing:
  "process_input (ST_DELETE @ '' '' @ rest) Statement_default =
     (Status_default, \<lparr>stmt_type = DELETE, stmt_st = ST_DELETE @ '' '' @ rest\<rparr>) \<and>
   execute_statement env junk \<lparr>stmt_type = DELETE, stmt_st = ST_DELETE @ '' '' @ rest\<rparr> t =
     Inr (Status_default, '''', t)"
proof -
  have "Tokener_Parse (ST_DELETE @ '' '' @ rest) \<noteq> []" "Tokener_Parse (ST_DELETE @ '' '' @ rest) ! 0 = ST_DELETE"
    using Parse_hd [of ST_DELETE rest] by (simp_all add: ST_DELETE_def)
  moreover have "ST_DELETE \<noteq> ST_SELECT" by (simp add: ST_DELETE_def ST_SELECT_def)
  ultimately show ?thesis
    by (simp add: execute_statement_def Let_def)
      (simp add: process_input_def starts_with_def CMD_PREFIX_def prepare_statement_def prepare_delete_st_def
        ST_DELETE_def ST_SELECT_def)
qed

end
