(* ===== verification/Ck_Status.thy ===== *)
theory Ck_Status
  imports Db_Schema
begin

text \<open>
  Statuses of the pipeline library (\<open>ck_lab/Status.h\<close>, \<open>Status.cpp\<close>, \<open>Error.h\<close>). A status is a
  byte string: empty for success, otherwise four bytes of code, four bytes of message length
  and the message. The copying routines work on two objects that may be the same one, so they
  are modelled over a store of statuses.
\<close>

section \<open>Error codes\<close>

type_synonym ErrorCode = "32 word"

definition PIPE_OK :: ErrorCode where "PIPE_OK = 0"
definition PIPE_BASE :: ErrorCode where "PIPE_BASE = 10000"
definition ToPipeErrorCode :: "ErrorCode \<Rightarrow> ErrorCode" where "ToPipeErrorCode code = PIPE_BASE + code"
definition PIPELINE_OK :: ErrorCode where "PIPELINE_OK = 0"
definition PIPELINE_BASE :: ErrorCode where "PIPELINE_BASE = 20000"
definition ToPipelineErrorCode :: "ErrorCode \<Rightarrow> ErrorCode" where
  "ToPipelineErrorCode code = PIPELINE_BASE + code"
definition PIPE_EMPTY :: ErrorCode where "PIPE_EMPTY = ToPipeErrorCode 1"
definition PIPE_INVALID_SOURCE :: ErrorCode where "PIPE_INVALID_SOURCE = ToPipeErrorCode 2"
definition PIPE_INVALID_SINK :: ErrorCode where "PIPE_INVALID_SINK = ToPipeErrorCode 3"
definition PIPE_CONNECTED_SOURCE :: ErrorCode where "PIPE_CONNECTED_SOURCE = ToPipeErrorCode 4"
definition PIPE_NO_OUTPUT :: ErrorCode where "PIPE_NO_OUTPUT = ToPipeErrorCode 5"
definition PIPE_INPUTS_OUTPUTS_NOT_MATCH :: ErrorCode where
  "PIPE_INPUTS_OUTPUTS_NOT_MATCH = ToPipeErrorCode 6"
definition PIPE_TRANSFORMER_NO_OUTPUT :: ErrorCode where "PIPE_TRANSFORMER_NO_OUTPUT = ToPipeErrorCode 7"
definition PIPELINE_INITIALIZED :: ErrorCode where "PIPELINE_INITIALIZED = ToPipelineErrorCode 1"
definition PIPELINE_NOT_INITIALIZED :: ErrorCode where "PIPELINE_NOT_INITIALIZED = ToPipelineErrorCode 2"
definition PIPELINE_COMPLETED :: ErrorCode where "PIPELINE_COMPLETED = ToPipelineErrorCode 3"
definition PIPELINE_MERGE_ERROR :: ErrorCode where "PIPELINE_MERGE_ERROR = ToPipelineErrorCode 4"

lemmas error_codes = PIPE_OK_def PIPE_BASE_def ToPipeErrorCode_def PIPELINE_OK_def PIPELINE_BASE_def
  ToPipelineErrorCode_def PIPE_EMPTY_def PIPE_INVALID_SOURCE_def PIPE_INVALID_SINK_def
  PIPE_CONNECTED_SOURCE_def PIPE_NO_OUTPUT_def PIPE_INPUTS_OUTPUTS_NOT_MATCH_def
  PIPE_TRANSFORMER_NO_OUTPUT_def PIPELINE_INITIALIZED_def PIPELINE_NOT_INITIALIZED_def
  PIPELINE_COMPLETED_def PIPELINE_MERGE_ERROR_def

section \<open>Statuses\<close>

text \<open>The member \<open>state_\<close>.\<close>

type_synonym CkStatus = "byte list"

definition CODE_WIDTH :: nat where "CODE_WIDTH = 4"

definition mem_of :: "byte list \<Rightarrow> mem" where
  "mem_of bs = (\<lambda>i. if i < length bs then bs ! i else 0)"

definition CkStatus_OK :: CkStatus where "CkStatus_OK = []"

definition CkStatus_mk :: "ErrorCode \<Rightarrow> string \<Rightarrow> CkStatus" where
  "CkStatus_mk code msg =
     (let len = (word_of_nat (length msg) :: u32)
      in u32_bytes code @ u32_bytes len @ map byte_of_char (take (unat len) msg))"

definition CkStatus_code :: "CkStatus \<Rightarrow> ErrorCode" where
  "CkStatus_code s = (if s = [] then 0 else load32 (mem_of s) 0)"

definition CkStatus_ok :: "CkStatus \<Rightarrow> bool" where
  "CkStatus_ok s \<longleftrightarrow> s = [] \<or> CkStatus_code s = 0"

text \<open>The message length stored in a status.\<close>

definition CkStatus_length :: "CkStatus \<Rightarrow> nat" where
  "CkStatus_length s = unat (load32 (mem_of s) CODE_WIDTH)"

definition CkStatus_message :: "CkStatus \<Rightarrow> string outcome" where
  "CkStatus_message s =
     (if s = [] then Inr ''OK''
      else if length s < CODE_WIDTH + 4 + CkStatus_length s then Inl OutOfBounds
      else Inr (map char_of_byte (take (CkStatus_length s) (drop (CODE_WIDTH + 4) s))))"

definition CkStatus_ToString :: "CkStatus \<Rightarrow> string outcome" where
  "CkStatus_ToString s =
     (if s = [] then Inr ''OK''
      else bnd (CkStatus_message s) (\<lambda>m.
        Inr ((if CkStatus_code s = 0 then ''OK '' else ''Error code('' @ show_integer (sint (CkStatus_code s)) @ ''): '') @ m)))"

text \<open>\<open>CopyFrom\<close> and \<open>MoveFrom\<close> on the objects \<open>d\<close> (\<open>this\<close>) and \<open>s\<close> of a store. The
  buffer length is an \<open>int\<close>; a length that does not fit makes \<open>resize\<close> throw.\<close>

type_synonym status_store = "nat \<Rightarrow> CkStatus"

definition CkStatus_CopyFrom :: "nat \<Rightarrow> nat \<Rightarrow> status_store \<Rightarrow> status_store outcome" where
  "CkStatus_CopyFrom d s \<sigma> =
     (let \<sigma> = \<sigma>(d := []) in
      if \<sigma> s = [] then Inr \<sigma>
      else let buff_len = CkStatus_length (\<sigma> s) + 4 + CODE_WIDTH in
        if 2 ^ 31 \<le> buff_len \<or> length (\<sigma> s) < buff_len then Inl OutOfBounds
        else Inr (\<sigma>(d := take buff_len (\<sigma> s))))"

definition CkStatus_MoveFrom :: "nat \<Rightarrow> nat \<Rightarrow> status_store \<Rightarrow> status_store" where
  "CkStatus_MoveFrom d s \<sigma> = (let \<sigma> = \<sigma>(d := \<sigma> s) in \<sigma>(s := []))"

section \<open>The format\<close>

definition CkStatus_wf :: "CkStatus \<Rightarrow> bool" where
  "CkStatus_wf s \<longleftrightarrow> s = [] \<or> (8 \<le> length s \<and> length s = 8 + CkStatus_length s)"

lemma length_u32_bytes [simp]: "length (u32_bytes v) = 4"
  by (simp add: u32_bytes_def)

lemma load32_u32_bytes:
  "load32 (mem_of (pre @ u32_bytes v @ post)) (length pre) = v"
proof -
  let ?m = "mem_of (pre @ u32_bytes v @ post)"
  have "?m (length pre + i) = u32_bytes v ! i" if "i < 4" for i
    using that by (simp add: mem_of_def nth_append)
  from this [of 0] this [of 1] this [of 2] this [of 3] show ?thesis
    by (simp add: load32_def u32_bytes_def ucast_bytes_join)
qed

lemma mk_fields:
  "CkStatus_code (CkStatus_mk code msg) = code"
  "CkStatus_length (CkStatus_mk code msg) = length msg mod 2 ^ 32"
  "CkStatus_mk code msg \<noteq> []"
  "length (CkStatus_mk code msg) = 8 + length msg mod 2 ^ 32"
proof -
  let ?s = "CkStatus_mk code msg" and ?n = "length msg mod 2 ^ 32"
  let ?rest = "map byte_of_char (take ?n msg)"
  have eq: "?s = u32_bytes code @ u32_bytes (word_of_nat (length msg)) @ ?rest"
    by (simp add: CkStatus_mk_def unat_of_nat)
  show ne: "?s \<noteq> []" by (simp add: eq u32_bytes_def)
  show "CkStatus_code ?s = code"
    using load32_u32_bytes [of "[]" code] ne by (simp add: CkStatus_code_def) (simp add: eq)
  show "CkStatus_length ?s = ?n"
    using load32_u32_bytes [of "u32_bytes code" "word_of_nat (length msg)" ?rest]
    by (simp add: CkStatus_length_def CODE_WIDTH_def eq unat_of_nat)
  show "length ?s = 8 + ?n"
    by (simp add: eq)
qed

lemma mk_wf: "CkStatus_wf (CkStatus_mk code msg)"
  by (simp add: CkStatus_wf_def mk_fields)

lemma mk_message:
  assumes "length msg < 2 ^ 32"
  shows "CkStatus_message (CkStatus_mk code msg) = Inr msg"
proof -
  have n: "length msg mod 2 ^ 32 = length msg" using assms by simp
  have "drop 8 (CkStatus_mk code msg) = map byte_of_char msg"
    using n by (simp add: CkStatus_mk_def unat_of_nat)
  moreover have "map char_of_byte (map byte_of_char msg) = msg"
    by (simp add: map_idI)
  ultimately show ?thesis
    using n by (simp add: CkStatus_message_def mk_fields CODE_WIDTH_def)
qed

text \<open>A status built from a code and a message of less than 4 GiB gives both back, and is a
  success exactly when the code is 0; its text shows the code and the message.\<close>

theorem CkStatus_roundtrip:
  assumes "length msg < 2 ^ 32"
  shows "CkStatus_code (CkStatus_mk code msg) = code \<and> CkStatus_message (CkStatus_mk code msg) = Inr msg \<and>
    (CkStatus_ok (CkStatus_mk code msg) \<longleftrightarrow> code = 0) \<and>
    CkStatus_ToString (CkStatus_mk code msg) =
      Inr ((if code = 0 then ''OK '' else ''Error code('' @ show_integer (sint code) @ ''): '') @ msg)"
  using mk_message [OF assms] by (simp add: mk_fields CkStatus_ok_def CkStatus_ToString_def)

theorem CkStatus_roundtrip_witness:
  "CkStatus_ToString (CkStatus_mk PIPE_NO_OUTPUT ''No Output'') = Inr ''Error code(10005): No Output''"
proof -
  have "sint (10005 :: 32 word) = 10005" by simp
  then show ?thesis
    using CkStatus_roundtrip [of "''No Output''" PIPE_NO_OUTPUT]
    by (simp add: error_codes show_integer_def show_nat.simps digit_char_def)
qed

text \<open>Copying a well-formed status to another object makes the two equal and leaves the source
  as it was; moving also empties the source. But copying an object onto itself (\<open>s = s\<close>) or moving
  it onto itself turns every status into success, so the error is lost.\<close>

theorem CkStatus_copy:
  "(d \<noteq> s \<longrightarrow> CkStatus_wf (\<sigma> s) \<longrightarrow> length (\<sigma> s) < 2 ^ 31 \<longrightarrow> CkStatus_CopyFrom d s \<sigma> = Inr (\<sigma>(d := \<sigma> s))) \<and>
   (d \<noteq> s \<longrightarrow> CkStatus_MoveFrom d s \<sigma> = \<sigma>(d := \<sigma> s, s := [])) \<and>
   CkStatus_CopyFrom d d \<sigma> = Inr (\<sigma>(d := CkStatus_OK)) \<and> CkStatus_MoveFrom d d \<sigma> = \<sigma>(d := CkStatus_OK)"
  by (auto simp: CkStatus_CopyFrom_def CkStatus_MoveFrom_def CkStatus_wf_def CkStatus_OK_def CODE_WIDTH_def Let_def
      fun_upd_idem)

theorem CkStatus_copy_witness:
  "CkStatus_CopyFrom 0 1 (\<lambda>_. CkStatus_mk PIPE_EMPTY ''Empty'') =
     Inr ((\<lambda>_. CkStatus_mk PIPE_EMPTY ''Empty'')(0 := CkStatus_mk PIPE_EMPTY ''Empty''))"
  using CkStatus_copy [of 0 1 "\<lambda>_. CkStatus_mk PIPE_EMPTY ''Empty''"] mk_wf [of PIPE_EMPTY "''Empty''"]
    mk_fields(4) [of PIPE_EMPTY "''Empty''"] by simp

end
