(* ===== verification/Ck_Port.thy ===== *)
theory Ck_Port
  imports Ck_Status
begin

text \<open>
  Ports of the pipeline library (\<open>ck_lab/Port.h\<close>, \<open>Port.cpp\<close>, \<open>Chunk.h\<close>). The shared state of two
  connected ports is one atomic word: the address of a \<open>Data\<close> object with three flags in its low
  bits. The compare-and-swap loops run against other threads: an \<open>attempt\<close> says what another
  thread stored since the last attempt and whether the weak compare-and-swap fails spuriously;
  after the listed attempts nobody interferes. \<open>Data\<close> objects live in a heap of addresses, and
  \<open>new\<close> takes the address the allocator answers as an argument.
\<close>

section \<open>Chunks and data\<close>

type_synonym Chunk = "int list list"

definition Chunk_AddRow :: "int list \<Rightarrow> Chunk \<Rightarrow> CkStatus \<times> Chunk" where
  "Chunk_AddRow row rows = (CkStatus_OK, rows @ [row])"

record Data =
  chunk :: Chunk

definition empty_Data :: Data where "empty_Data = \<lparr>chunk = []\<rparr>"

type_synonym data_heap = "u64 \<rightharpoonup> Data"

section \<open>State\<close>

definition IS_FINISHED :: u64 where "IS_FINISHED = 1"
definition IS_NEEDED :: u64 where "IS_NEEDED = 2"
definition HAS_DATA :: u64 where "HAS_DATA = 4"
definition FLAGS_MASK :: u64 where "FLAGS_MASK = IS_FINISHED OR IS_NEEDED OR HAS_DATA"
definition PTR_MASK :: u64 where "PTR_MASK = NOT FLAGS_MASK"

type_synonym attempt = "u64 option \<times> bool"

text \<open>\<open>value.compare_exchange_weak(expected, desired)\<close>: success, the value, and \<open>expected\<close>.\<close>

fun compare_exchange_weak :: "attempt \<Rightarrow> u64 \<Rightarrow> u64 \<Rightarrow> u64 \<Rightarrow> bool \<times> u64 \<times> u64" where
  "compare_exchange_weak (other, spurious) val expected desired =
     (let val = (case other of None \<Rightarrow> val | Some v \<Rightarrow> v)
      in if val = expected \<and> \<not> spurious then (True, desired, expected) else (False, val, val))"

text \<open>The loop \<open>while (!value.compare_exchange_weak(expected, desired)) desired = next(expected)\<close>:
  the value it leaves and \<open>expected\<close>.\<close>

fun cas_loop :: "(u64 \<Rightarrow> u64) \<Rightarrow> attempt list \<Rightarrow> u64 \<Rightarrow> u64 \<Rightarrow> u64 \<Rightarrow> u64 \<times> u64" where
  "cas_loop nxt [] val expected desired =
     (case compare_exchange_weak (None, False) val expected desired of
        (True, val, expected) \<Rightarrow> (val, expected)
      | (False, val, expected) \<Rightarrow> (nxt expected, expected))"
| "cas_loop nxt (a # as) val expected desired =
     (case compare_exchange_weak a val expected desired of
        (True, val, expected) \<Rightarrow> (val, expected)
      | (False, val, expected) \<Rightarrow> cas_loop nxt as val expected (nxt expected))"

text \<open>\<open>DataPtr\<close>: construction, destruction, release and swap. \<open>Swap\<close> returns the new atomic value,
  the new pointer and the old flags.\<close>

definition DataPtr_new :: "u64 \<Rightarrow> data_heap \<Rightarrow> (u64 \<times> data_heap) outcome" where
  "DataPtr_new a h =
     bnd (guard AssertFailed (a AND FLAGS_MASK = 0)) (\<lambda>_. Inr (a, h(a \<mapsto> empty_Data)))"

definition delete_Data :: "u64 \<Rightarrow> data_heap \<Rightarrow> data_heap outcome" where
  "delete_Data a h = (if a = 0 then Inr h else if h a = None then Inl OutOfBounds else Inr (h(a := None)))"

definition DataPtr_delete :: "u64 \<Rightarrow> data_heap \<Rightarrow> data_heap outcome" where
  "DataPtr_delete ptr h = delete_Data (ptr AND PTR_MASK) h"

definition DataPtr_Release :: "u64 \<Rightarrow> u64 \<times> u64" where
  "DataPtr_Release ptr = (ptr, 0)"

definition DataPtr_Swap :: "attempt list \<Rightarrow> u64 \<Rightarrow> u64 \<Rightarrow> u64 \<Rightarrow> u64 \<Rightarrow> u64 \<times> u64 \<times> u64" where
  "DataPtr_Swap as val flags msk ptr =
     (case cas_loop (\<lambda>expected. (expected AND FLAGS_MASK AND NOT msk) OR flags OR ptr) as val 0
             (flags OR ptr) of
        (val, expected) \<Rightarrow> (val, expected AND PTR_MASK, expected AND FLAGS_MASK))"

definition State_new :: "u64 \<Rightarrow> data_heap \<Rightarrow> (u64 \<times> data_heap) outcome" where
  "State_new a h = bnd (guard AssertFailed (a AND FLAGS_MASK = 0)) (\<lambda>_. Inr (a, h(a \<mapsto> empty_Data)))"

definition State_delete :: "attempt list \<Rightarrow> u64 \<Rightarrow> data_heap \<Rightarrow> data_heap outcome" where
  "State_delete as val h = (case cas_loop (\<lambda>_. 0) as val 0 0 of (_, expected) \<Rightarrow>
     delete_Data (expected AND PTR_MASK) h)"

definition State_Push :: "attempt list \<Rightarrow> u64 \<Rightarrow> u64 \<Rightarrow> (u64 \<times> u64 \<times> u64) outcome" where
  "State_Push as val ptr =
     (case DataPtr_Swap as val HAS_DATA HAS_DATA ptr of (val, ptr, flags) \<Rightarrow>
        bnd (guard AssertFailed (flags AND HAS_DATA = 0)) (\<lambda>_. Inr (val, ptr, flags)))"

text \<open>In \<open>assert(flags & HAS_DATA != 0)\<close> the comparison binds tighter: it tests \<open>flags & 1\<close>.\<close>

definition State_Pull :: "attempt list \<Rightarrow> bool \<Rightarrow> u64 \<Rightarrow> u64 \<Rightarrow> (u64 \<times> u64 \<times> u64) outcome" where
  "State_Pull as set_not_needed val ptr =
     (let msk = (if set_not_needed then HAS_DATA OR IS_NEEDED else HAS_DATA) in
      case DataPtr_Swap as val 0 msk ptr of (val, ptr, flags) \<Rightarrow>
        bnd (guard AssertFailed (\<not> (flags AND IS_NEEDED = 0 \<and> \<not> set_not_needed))) (\<lambda>_.
        bnd (guard AssertFailed (flags AND (if HAS_DATA \<noteq> 0 then 1 else 0) \<noteq> 0)) (\<lambda>_.
          Inr (val, ptr, flags))))"

text \<open>\<open>SetFlags\<close> starts with an uninitialised \<open>expected\<close>, the argument \<open>junk\<close>, and masks with the
  logical negation \<open>!mask\<close>.\<close>

definition logical_not :: "u64 \<Rightarrow> u64" where
  "logical_not v = (if v = 0 then 1 else 0)"

definition State_SetFlags :: "attempt list \<Rightarrow> u64 \<Rightarrow> u64 \<Rightarrow> u64 \<Rightarrow> u64 \<Rightarrow> u64 \<times> u64" where
  "State_SetFlags as junk flags msk val =
     (case cas_loop (\<lambda>expected. (expected AND FLAGS_MASK AND logical_not msk) OR flags
             OR (expected AND PTR_MASK)) as val junk flags of
        (val, expected) \<Rightarrow> (val, expected AND FLAGS_MASK))"

definition State_GetFlags :: "u64 \<Rightarrow> u64" where
  "State_GetFlags val = val AND FLAGS_MASK"

section \<open>Flags and pointers\<close>

lemma flag_values:
  "IS_FINISHED = 1" "IS_NEEDED = 2" "HAS_DATA = 4" "FLAGS_MASK = 7" "PTR_MASK = NOT 7"
  by (simp_all add: IS_FINISHED_def IS_NEEDED_def HAS_DATA_def FLAGS_MASK_def PTR_MASK_def)

definition aligned :: "u64 \<Rightarrow> bool" where
  "aligned p \<longleftrightarrow> p AND 7 = 0"

lemma flags_or_ptr:
  fixes f p :: u64
  assumes "f AND 7 = f" and "aligned p"
  shows "(f OR p) AND 7 = f" and "(f OR p) AND NOT 7 = p"
proof -
  have p7: "p AND 7 = 0" using assms(2) by (simp add: aligned_def)
  show "(f OR p) AND 7 = f" using assms(1) p7 by (simp add: bit.conj_disj_distrib2)
  have "f AND NOT 7 = (f AND 7) AND NOT 7" using assms(1) by simp
  then have f0: "f AND NOT 7 = 0" by (simp add: and.assoc)
  have "(p AND 7) OR (p AND NOT 7) = p"
    by (simp flip: bit.conj_disj_distrib)
  then have "p AND NOT 7 = p" using p7 by simp
  then show "(f OR p) AND NOT 7 = p" using f0 by (simp add: bit.conj_disj_distrib2)
qed

lemma masked_flags: "(v AND 7) AND 7 = (v AND 7 :: u64)"
  by (simp add: and.assoc)

section \<open>Compare-and-swap loops\<close>

text \<open>The values the atomic can have during a loop.\<close>

definition seen :: "attempt list \<Rightarrow> u64 \<Rightarrow> u64 set" where
  "seen as val = insert val {v. \<exists>sp. (Some v, sp) \<in> set as}"

lemma cas_loop_atomic:
  "\<exists>v \<in> seen as val. cas_loop nxt as val expected (nxt expected) = (nxt v, v)"
proof (induction as arbitrary: val expected)
  case Nil
  then show ?case by (auto simp: seen_def)
next
  case (Cons a as)
  obtain other sp where a: "a = (other, sp)" by (cases a)
  let ?v = "case other of None \<Rightarrow> val | Some v \<Rightarrow> v"
  have sub: "seen as ?v \<subseteq> seen (a # as) val" by (auto simp: seen_def a split: option.splits)
  have mem: "?v \<in> seen (a # as) val" by (auto simp: seen_def a split: option.splits)
  show ?case
  proof (cases "?v = expected \<and> \<not> sp")
    case True
    then show ?thesis using mem by (auto simp: a Let_def)
  next
    case False
    then have "cas_loop nxt (a # as) val expected (nxt expected) = cas_loop nxt as ?v ?v (nxt ?v)"
      by (auto simp: a Let_def)
    then show ?thesis using Cons.IH [of ?v ?v] sub by auto
  qed
qed


text \<open>\<open>SetFlags\<close> with a non-empty mask does not keep the other flags. Undisturbed, it either sets
  exactly the given flags beside the pointer, or, when the uninitialised \<open>expected\<close> happens to equal
  the value, overwrites the pointer with the bare flags. So a consumer that signals its need, or a
  producer that finishes, drops the \<open>HAS_DATA\<close> flag of a chunk that was not yet pulled.\<close>

theorem SetFlags_clobbers:
  assumes "msk \<noteq> 0"
  shows "State_SetFlags [] junk flags msk val =
    (if val = junk then flags else flags OR (val AND PTR_MASK), val AND FLAGS_MASK)"
  using assms by (simp add: State_SetFlags_def logical_not_def)

theorem SetFlags_clobbers_witness:
  "fst (State_SetFlags [] 0 IS_NEEDED IS_NEEDED (64 OR HAS_DATA)) = 64 OR IS_NEEDED"
  using SetFlags_clobbers [of IS_NEEDED 0 IS_NEEDED "64 OR HAS_DATA"] by (simp add: flag_values)

section \<open>Ports\<close>

text \<open>A port refers to its state by a number and to ports and processors by their place: a
  processor number, and the position in the processor's list of ports.\<close>

record InputPort =
  in_state :: "nat option"
  in_data :: u64
  in_processor :: "nat option"
  output_port :: "(nat \<times> nat) option"
  is_finished :: bool

record OutputPort =
  out_state :: "nat option"
  out_data :: u64
  out_processor :: "nat option"
  input_port :: "(nat \<times> nat) option"

record port_world =
  pw_heap :: data_heap
  pw_states :: "nat \<rightharpoonup> u64"

definition InputPort_new :: "u64 \<Rightarrow> InputPort" where
  "InputPort_new a = \<lparr>in_state = None, in_data = a, in_processor = None, output_port = None, is_finished = False\<rparr>"

definition OutputPort_new :: "u64 \<Rightarrow> OutputPort" where
  "OutputPort_new a = \<lparr>out_state = None, out_data = a, out_processor = None, input_port = None\<rparr>"

text \<open>The value of the state a port points to; a null pointer is a fault.\<close>

definition state_val :: "nat option \<Rightarrow> port_world \<Rightarrow> (nat \<times> u64) outcome" where
  "state_val s w =
     bnd (of_opt NullDeref s) (\<lambda>i. bnd (of_opt NullDeref (pw_states w i)) (\<lambda>v. Inr (i, v)))"

definition set_state :: "nat \<Rightarrow> u64 \<Rightarrow> port_world \<Rightarrow> port_world" where
  "set_state i v w = w\<lparr>pw_states := (pw_states w)(i \<mapsto> v)\<rparr>"

definition InputPort_IsConnected :: "InputPort \<Rightarrow> bool" where "InputPort_IsConnected p \<longleftrightarrow> in_state p \<noteq> None"
definition OutputPort_IsConnected :: "OutputPort \<Rightarrow> bool" where "OutputPort_IsConnected p \<longleftrightarrow> out_state p \<noteq> None"

definition Port_HasData :: "nat option \<Rightarrow> port_world \<Rightarrow> bool outcome" where
  "Port_HasData s w = bnd (state_val s w) (\<lambda>(_, v). Inr (State_GetFlags v AND HAS_DATA \<noteq> 0))"

definition deref_Data :: "u64 \<Rightarrow> data_heap \<Rightarrow> Data outcome" where
  "deref_Data a h = (if a = 0 then Inl NullDeref else of_opt OutOfBounds (h a))"

definition InputPort_PullData ::
  "attempt list \<Rightarrow> bool \<Rightarrow> InputPort \<Rightarrow> port_world \<Rightarrow> (Data \<times> InputPort \<times> port_world) outcome" where
  "InputPort_PullData as set_not_needed p w =
     bnd (state_val (in_state p) w) (\<lambda>(i, v).
     bnd (State_Pull as set_not_needed v (in_data p)) (\<lambda>(v, ptr, flags).
     bnd (deref_Data ptr (pw_heap w)) (\<lambda>d.
       Inr (d, p\<lparr>in_data := ptr, is_finished := (flags AND IS_FINISHED \<noteq> 0)\<rparr>,
         set_state i v (w\<lparr>pw_heap := (pw_heap w)(ptr \<mapsto> empty_Data)\<rparr>)))))"

definition InputPort_Pull ::
  "attempt list \<Rightarrow> bool \<Rightarrow> InputPort \<Rightarrow> port_world \<Rightarrow> (Chunk \<times> InputPort \<times> port_world) outcome" where
  "InputPort_Pull as set_not_needed p w =
     bnd (InputPort_PullData as set_not_needed p w) (\<lambda>(d, p, w). Inr (chunk d, p, w))"

definition InputPort_IsFinished :: "InputPort \<Rightarrow> port_world \<Rightarrow> (bool \<times> InputPort) outcome" where
  "InputPort_IsFinished p w =
     (if is_finished p then Inr (True, p)
      else bnd (state_val (in_state p) w) (\<lambda>(_, v).
        let fin = (State_GetFlags v AND IS_FINISHED \<noteq> 0 \<and> State_GetFlags v AND HAS_DATA = 0)
        in Inr (fin, p\<lparr>is_finished := fin\<rparr>)))"

definition port_SetFlags ::
  "attempt list \<Rightarrow> u64 \<Rightarrow> u64 \<Rightarrow> u64 \<Rightarrow> nat option \<Rightarrow> port_world \<Rightarrow> port_world outcome" where
  "port_SetFlags as junk flags msk s w =
     bnd (state_val s w) (\<lambda>(i, v). Inr (set_state i (fst (State_SetFlags as junk flags msk v)) w))"

definition InputPort_SetNeeded :: "attempt list \<Rightarrow> u64 \<Rightarrow> InputPort \<Rightarrow> port_world \<Rightarrow> port_world outcome" where
  "InputPort_SetNeeded as junk p w = port_SetFlags as junk IS_NEEDED IS_NEEDED (in_state p) w"

definition InputPort_SetNotNeeded :: "attempt list \<Rightarrow> u64 \<Rightarrow> InputPort \<Rightarrow> port_world \<Rightarrow> port_world outcome" where
  "InputPort_SetNotNeeded as junk p w = port_SetFlags as junk 0 IS_NEEDED (in_state p) w"

definition InputPort_Close :: "InputPort \<Rightarrow> InputPort" where
  "InputPort_Close p = p\<lparr>is_finished := True\<rparr>"

definition InputPort_Reopen ::
  "attempt list \<Rightarrow> u64 \<Rightarrow> InputPort \<Rightarrow> port_world \<Rightarrow> (InputPort \<times> port_world) outcome" where
  "InputPort_Reopen as junk p w =
     bnd (InputPort_IsFinished p w) (\<lambda>(fin, p).
       if \<not> fin then Inr (p, w)
       else bnd (port_SetFlags as junk 0 IS_FINISHED (in_state p) w) (\<lambda>w. Inr (p\<lparr>is_finished := False\<rparr>, w)))"

definition OutputPort_Push ::
  "attempt list \<Rightarrow> Data \<Rightarrow> OutputPort \<Rightarrow> port_world \<Rightarrow> (OutputPort \<times> port_world) outcome" where
  "OutputPort_Push as d p w =
     bnd (deref_Data (out_data p) (pw_heap w)) (\<lambda>_.
     let w = w\<lparr>pw_heap := (pw_heap w)(out_data p \<mapsto> d)\<rparr> in
     bnd (state_val (out_state p) w) (\<lambda>(i, v).
     bnd (State_Push as v (out_data p)) (\<lambda>(v, ptr, flags).
       Inr (p\<lparr>out_data := ptr\<rparr>, set_state i v w))))"

definition OutputPort_Finish :: "attempt list \<Rightarrow> u64 \<Rightarrow> OutputPort \<Rightarrow> port_world \<Rightarrow> port_world outcome" where
  "OutputPort_Finish as junk p w = port_SetFlags as junk IS_FINISHED IS_FINISHED (out_state p) w"

definition OutputPort_IsNeeded :: "OutputPort \<Rightarrow> port_world \<Rightarrow> bool outcome" where
  "OutputPort_IsNeeded p w = bnd (state_val (out_state p) w) (\<lambda>(_, v). Inr (State_GetFlags v AND IS_NEEDED \<noteq> 0))"

definition OutputPort_IsFinished :: "OutputPort \<Rightarrow> port_world \<Rightarrow> bool outcome" where
  "OutputPort_IsFinished p w = bnd (state_val (out_state p) w) (\<lambda>(_, v). Inr (State_GetFlags v AND IS_FINISHED \<noteq> 0))"

definition OutputPort_CanPush :: "OutputPort \<Rightarrow> port_world \<Rightarrow> bool outcome" where
  "OutputPort_CanPush p w = bnd (state_val (out_state p) w) (\<lambda>(_, v).
     Inr (State_GetFlags v AND IS_NEEDED \<noteq> 0 \<and> State_GetFlags v AND HAS_DATA = 0))"

text \<open>\<open>Connect(output, input)\<close> for the ports at the places \<open>orf\<close> and \<open>irf\<close>; \<open>sid\<close> is the new state
  and \<open>a\<close> the address of its data.\<close>

definition Connect ::
  "nat \<Rightarrow> u64 \<Rightarrow> nat \<times> nat \<Rightarrow> nat \<times> nat \<Rightarrow> OutputPort \<Rightarrow> InputPort \<Rightarrow> port_world
     \<Rightarrow> (OutputPort \<times> InputPort \<times> port_world) outcome" where
  "Connect sid a orf irf out inp w =
     bnd (guard AssertFailed (in_state inp = None \<and> out_state out = None)) (\<lambda>_.
     bnd (State_new a (pw_heap w)) (\<lambda>(v, h).
       Inr (out\<lparr>input_port := Some irf, out_state := Some sid\<rparr>,
            inp\<lparr>output_port := Some orf, in_state := Some sid\<rparr>,
            set_state sid v (w\<lparr>pw_heap := h\<rparr>))))"

section \<open>Handing data over\<close>

lemma Swap_alone:
  "DataPtr_Swap [] val flags msk ptr =
     ((val AND FLAGS_MASK AND NOT msk) OR flags OR ptr, val AND PTR_MASK, val AND FLAGS_MASK)"
  by (simp add: DataPtr_Swap_def)

lemma Push_alone:
  assumes "val AND 7 = f" and "f AND 4 = 0" and "aligned ptr"
  shows "State_Push [] val ptr = Inr ((f OR 4) OR ptr, val AND NOT 7, f)"
proof -
  have "(f AND NOT 4) OR 4 = f OR (4 :: u64)" by (simp add: bit.disj_conj_distrib2)
  then have "val AND 3 OR 4 = f OR 4" unfolding assms(1) [symmetric] by (simp add: and.assoc)
  then show ?thesis
    using assms by (simp add: State_Push_def Swap_alone flag_values or.assoc [symmetric])
qed

lemma Pull_alone:
  assumes "val AND 7 = f"
  shows "State_Pull [] set_not_needed val ptr =
    (if (f AND 2 = 0 \<and> \<not> set_not_needed) \<or> f AND 1 = 0 then Inl AssertFailed
     else Inr ((f AND NOT (if set_not_needed then 6 else 4)) OR ptr, val AND NOT 7, f))"
  unfolding assms [symmetric]
  by (auto simp: State_Pull_def Swap_alone flag_values guard_def and.assoc)

text \<open>Two ports sharing a state: three data objects, one of each port and one of the state.\<close>

definition linked :: "OutputPort \<Rightarrow> InputPort \<Rightarrow> port_world \<Rightarrow> nat \<Rightarrow> u64 \<Rightarrow> bool" where
  "linked out inp w i v \<longleftrightarrow> out_state out = Some i \<and> in_state inp = Some i \<and> pw_states w i = Some v \<and>
     aligned (out_data out) \<and> aligned (in_data inp) \<and>
     distinct [0, out_data out, in_data inp, v AND PTR_MASK] \<and>
     {out_data out, in_data inp, v AND PTR_MASK} \<subseteq> dom (pw_heap w)"

text \<open>What happens to a chunk that is pushed into a needed, empty state and pulled from it: when
  the producer has finished before, \<open>Pull\<close> returns exactly the chunk, the flags are those from
  before the push, and the three data objects have changed hands without any being shared. When
  the producer has not finished, \<open>Pull\<close> runs into its assertion, because
  \<open>assert(flags & HAS_DATA != 0)\<close> tests the finished flag.\<close>

theorem Push_then_Pull:
  assumes "linked out inp w i v" and "v AND FLAGS_MASK = IS_NEEDED OR fin" and "fin \<in> {0, IS_FINISHED}"
  shows "\<exists>out' w1. OutputPort_Push [] \<lparr>chunk = c\<rparr> out w = Inr (out', w1) \<and>
    (if fin = 0 then InputPort_Pull [] False inp w1 = Inl AssertFailed
     else \<exists>inp' w2 v'. InputPort_Pull [] False inp w1 = Inr (c, inp', w2) \<and>
       linked out' inp' w2 i v' \<and> v' AND FLAGS_MASK = v AND FLAGS_MASK \<and>
       out_data out' = v AND PTR_MASK \<and> in_data inp' = out_data out \<and> v' AND PTR_MASK = in_data inp)"
proof -
  let ?f = "2 OR fin"
  let ?h = "(pw_heap w)(out_data out \<mapsto> \<lparr>chunk = c\<rparr>)"
  let ?w1 = "set_state i ((?f OR 4) OR out_data out) (w\<lparr>pw_heap := ?h\<rparr>)"
  let ?out = "out\<lparr>out_data := v AND NOT 7\<rparr>"
  have l: "out_state out = Some i" "in_state inp = Some i" "pw_states w i = Some v" "aligned (out_data out)"
    "aligned (in_data inp)" "distinct [0, out_data out, in_data inp, v AND NOT 7]"
    "{out_data out, in_data inp, v AND NOT 7} \<subseteq> dom (pw_heap w)"
    using assms(1) by (simp_all add: linked_def flag_values)
  have fin: "fin = 0 \<or> fin = 1" using assms(3) by (simp add: flag_values)
  have v: "v AND 7 = ?f" using assms(2) by (simp add: flag_values)
  have f4: "?f AND 4 = 0" "(?f OR 4) AND 7 = ?f OR 4" "?f AND 7 = ?f" "(?f OR 4) AND NOT 4 = ?f"
      "?f AND 2 \<noteq> 0" "(?f OR 4) AND 2 \<noteq> 0" "((?f OR 4) AND 1 = 0) = (fin = 0)"
    using fin by auto
  have push: "OutputPort_Push [] \<lparr>chunk = c\<rparr> out w = Inr (?out, ?w1)"
  proof -
    obtain d where "pw_heap w (out_data out) = Some d" using l(7) by auto
    then show ?thesis
      using l Push_alone [OF v f4(1) l(4)]
      by (simp add: OutputPort_Push_def deref_Data_def state_val_def Let_def)
  qed
  note vals = flags_or_ptr [OF f4(2) l(4)]
  have st: "state_val (in_state inp) ?w1 = Inr (i, (?f OR 4) OR out_data out)"
    using l(2) by (simp add: state_val_def set_state_def)
  show ?thesis
  proof (cases "fin = 0")
    case True
    then have "InputPort_Pull [] False inp ?w1 = Inl AssertFailed"
      using st Pull_alone [OF vals(1), of False "in_data inp"] f4
      by (simp add: InputPort_Pull_def InputPort_PullData_def)
    then show ?thesis using push True by auto
  next
    case False
    let ?inp = "inp\<lparr>in_data := out_data out, is_finished := True\<rparr>"
    let ?v2 = "?f OR in_data inp"
    let ?w2 = "set_state i ?v2 (?w1\<lparr>pw_heap := ?h(out_data out \<mapsto> empty_Data)\<rparr>)"
    have "State_Pull [] False ((?f OR 4) OR out_data out) (in_data inp) = Inr (?v2, out_data out, ?f OR 4)"
      using Pull_alone [OF vals(1), of False "in_data inp"] f4 False vals(2) by simp
    moreover have "(?f OR 4) AND IS_FINISHED \<noteq> 0" using f4(7) False by (simp add: flag_values)
    ultimately have pull: "InputPort_Pull [] False inp ?w1 = Inr (c, ?inp, ?w2)"
      using st l(6) by (simp add: InputPort_Pull_def InputPort_PullData_def deref_Data_def set_state_def)
    note v2 = flags_or_ptr [OF f4(3) l(5)]
    have "aligned (v AND NOT 7)" by (simp add: aligned_def and.assoc)
    then have "linked ?out ?inp ?w2 i ?v2"
      using l v2 by (auto simp: linked_def flag_values set_state_def)
    then show ?thesis
      using push pull v v2 False by (intro exI [of _ ?out] exI [of _ ?w1]) (auto simp: flag_values)
  qed
qed

definition sample_world :: port_world where
  "sample_world = \<lparr>pw_heap = [8 \<mapsto> empty_Data, 16 \<mapsto> empty_Data, 24 \<mapsto> empty_Data], pw_states = [0 \<mapsto> 27]\<rparr>"

definition sample_out :: OutputPort where
  "sample_out = (OutputPort_new 8)\<lparr>out_state := Some 0\<rparr>"

definition sample_in :: InputPort where
  "sample_in = (InputPort_new 16)\<lparr>in_state := Some 0\<rparr>"

theorem Push_then_Pull_witness:
  "\<exists>out' w1 inp' w2. OutputPort_Push [] \<lparr>chunk = [[1, 2]]\<rparr> sample_out sample_world = Inr (out', w1) \<and>
    InputPort_Pull [] False sample_in w1 = Inr ([[1, 2]], inp', w2)"
proof -
  have l: "linked sample_out sample_in sample_world 0 27"
    by (simp add: linked_def sample_out_def sample_in_def sample_world_def OutputPort_new_def InputPort_new_def
        aligned_def flag_values)
  have "(27 :: u64) AND FLAGS_MASK = IS_NEEDED OR IS_FINISHED" "IS_FINISHED \<noteq> 0"
    by (simp_all add: flag_values)
  then show ?thesis
    using Push_then_Pull [OF l, of IS_FINISHED "[[1, 2]]"] by auto
qed

end
