(* ===== verification/Ck_Processor.thy ===== *)
theory Ck_Processor
  imports Ck_Port
begin

text \<open>
  Processors and sinks of the pipeline library (\<open>ck_lab/IProcessor.h\<close>, \<open>IProcessor.cpp\<close>,
  \<open>ISink.h\<close>, \<open>ISink.cpp\<close>, \<open>NullSink.h\<close>). Processors are objects of a world; a pointer to a
  processor is its number and a pointer to a port the processor with the position in its list.
  \<open>make_shared<State>\<close> and \<open>new Data\<close> take the next unused number and the address made from it,
  a multiple of 16 that is not null.
\<close>

datatype ProcState = Initialized | NeedData | PortFull | Finished | Ready

record IProcessor =
  pr_name :: string
  inputs :: "InputPort list"
  outputs :: "OutputPort list"
  pr_state :: ProcState

record ck_world =
  pworld :: port_world
  procs :: "nat \<rightharpoonup> IProcessor"
  next_id :: nat

definition InvalidProcessorId :: u64 where "InvalidProcessorId = - 1"

text \<open>The constructor with ports: every port is told its processor.\<close>

definition IProcessor_new :: "nat \<Rightarrow> InputPort list \<Rightarrow> OutputPort list \<Rightarrow> IProcessor" where
  "IProcessor_new this ins outs =
     \<lparr>pr_name = ''IProcessor'', inputs = map (\<lambda>p. p\<lparr>in_processor := Some this\<rparr>) ins,
      outputs = map (\<lambda>p. p\<lparr>out_processor := Some this\<rparr>) outs, pr_state = Initialized\<rparr>"

definition InputPortSize :: "IProcessor \<Rightarrow> nat" where "InputPortSize p = length (inputs p)"
definition OutputPortSize :: "IProcessor \<Rightarrow> nat" where "OutputPortSize p = length (outputs p)"

text \<open>The position of a port in the list of processor \<open>this\<close>; ports are compared by address.\<close>

fun port_id :: "nat \<Rightarrow> nat \<times> nat \<Rightarrow> nat \<Rightarrow> 'p list \<Rightarrow> nat outcome" where
  "port_id this port i [] = Inl AssertFailed"
| "port_id this port i (p # ps) = (if (this, i) = port then Inr i else port_id this port (Suc i) ps)"

definition GetOutputPortId :: "nat \<Rightarrow> IProcessor \<Rightarrow> nat \<times> nat \<Rightarrow> nat outcome" where
  "GetOutputPortId this p port = port_id this port 0 (outputs p)"

definition GetInputPortId :: "nat \<Rightarrow> IProcessor \<Rightarrow> nat \<times> nat \<Rightarrow> nat outcome" where
  "GetInputPortId this p port = port_id this port 0 (inputs p)"

definition IProcessor_ToString :: "bool \<Rightarrow> IProcessor \<Rightarrow> string" where
  "IProcessor_ToString alias p =
     (let sizes = show_nat (length (inputs p)) @ '','' @ show_nat (length (outputs p))
      in if alias then ''['' @ sizes @ '']'' else ''<'' @ pr_name p @ '' ('' @ sizes @ '')>'')"

definition get_proc :: "nat \<Rightarrow> ck_world \<Rightarrow> IProcessor outcome" where
  "get_proc n w = of_opt NullDeref (procs w n)"

definition set_proc :: "nat \<Rightarrow> IProcessor \<Rightarrow> ck_world \<Rightarrow> ck_world" where
  "set_proc n p w = w\<lparr>procs := (procs w)(n \<mapsto> p)\<rparr>"

definition get_out :: "nat \<times> nat \<Rightarrow> ck_world \<Rightarrow> OutputPort outcome" where
  "get_out r w = bnd (get_proc (fst r) w) (\<lambda>p.
     if snd r < length (outputs p) then Inr (outputs p ! snd r) else Inl OutOfBounds)"

definition get_in :: "nat \<times> nat \<Rightarrow> ck_world \<Rightarrow> InputPort outcome" where
  "get_in r w = bnd (get_proc (fst r) w) (\<lambda>p.
     if snd r < length (inputs p) then Inr (inputs p ! snd r) else Inl OutOfBounds)"

definition set_out :: "nat \<times> nat \<Rightarrow> OutputPort \<Rightarrow> ck_world \<Rightarrow> ck_world" where
  "set_out r o' w = w\<lparr>procs := (procs w)(fst r := map_option (\<lambda>p. p\<lparr>outputs := (outputs p)[snd r := o']\<rparr>) (procs w (fst r)))\<rparr>"

definition set_in :: "nat \<times> nat \<Rightarrow> InputPort \<Rightarrow> ck_world \<Rightarrow> ck_world" where
  "set_in r i' w = w\<lparr>procs := (procs w)(fst r := map_option (\<lambda>p. p\<lparr>inputs := (inputs p)[snd r := i']\<rparr>) (procs w (fst r)))\<rparr>"

definition new_addr :: "nat \<Rightarrow> u64" where "new_addr k = word_of_nat (16 * Suc k)"

text \<open>\<open>Connect(*output, *input)\<close> through pointers to ports.\<close>

definition connect_refs :: "nat \<times> nat \<Rightarrow> nat \<times> nat \<Rightarrow> ck_world \<Rightarrow> ck_world outcome" where
  "connect_refs orf irf w =
     bnd (get_out orf w) (\<lambda>out. bnd (get_in irf w) (\<lambda>inp.
     bnd (Connect (next_id w) (new_addr (next_id w)) orf irf out inp (pworld w)) (\<lambda>(out, inp, pw).
       Inr (set_in irf inp (set_out orf out (w\<lparr>pworld := pw, next_id := Suc (next_id w)\<rparr>))))))"

text \<open>The loop that connects two lists of ports pairwise.\<close>

fun connect_all :: "(nat \<times> nat) list \<Rightarrow> (nat \<times> nat) list \<Rightarrow> ck_world \<Rightarrow> ck_world outcome" where
  "connect_all (o' # os) (i # is) w = bnd (connect_refs o' i w) (connect_all os is)"
| "connect_all [] is w = Inr w"
| "connect_all (o' # os) [] w = Inl OutOfBounds"

definition refs :: "nat \<Rightarrow> nat \<Rightarrow> (nat \<times> nat) list" where
  "refs p n = map (Pair p) [0..<n]"

definition AsFromConnect :: "nat \<Rightarrow> nat option \<Rightarrow> ck_world \<Rightarrow> (bool \<times> ck_world) outcome" where
  "AsFromConnect this to w =
     (case to of None \<Rightarrow> Inr (False, w)
      | Some to \<Rightarrow>
          bnd (get_proc this w) (\<lambda>p. bnd (get_proc to w) (\<lambda>q.
          if InputPortSize q \<noteq> OutputPortSize p then Inr (False, w)
          else bnd (connect_all (refs this (OutputPortSize p)) (refs to (InputPortSize q)) w)
                 (\<lambda>w. Inr (True, w)))))"

section \<open>The status check\<close>

text \<open>\<open>STATUS_CHECK(func)\<close> of \<open>ck_lab/Status.h\<close> does not use its argument: it only tests the local
  variable \<open>status\<close>. The first argument is the expression that is not evaluated.\<close>

definition CK_STATUS_CHECK :: "'e \<Rightarrow> CkStatus \<Rightarrow> 'r \<Rightarrow> (CkStatus \<Rightarrow> 'r) \<Rightarrow> 'r" where
  "CK_STATUS_CHECK func status k ret = (if \<not> CkStatus_ok status then ret status else k)"

lemma CK_STATUS_CHECK_OK [simp]: "CK_STATUS_CHECK func CkStatus_OK k ret = k"
  by (simp add: CK_STATUS_CHECK_def CkStatus_ok_def CkStatus_OK_def)

section \<open>Sinks\<close>

text \<open>A sink is a processor with a chunk and \<open>input_\<close>, which the constructor initialises with a copy
  of the processor's only port.\<close>

record ISink = IProcessor +
  sink_chunk :: Chunk
  sink_input :: InputPort

definition ISink_new :: "nat \<Rightarrow> string \<Rightarrow> u64 \<Rightarrow> u64 \<Rightarrow> ISink" where
  "ISink_new this name a b =
     (let p = IProcessor_new this [InputPort_new a] [] in
      \<lparr>pr_name = name, inputs = inputs p, outputs = [], pr_state = Initialized,
       sink_chunk = [], sink_input = (hd (inputs p))\<lparr>in_data := b\<rparr>\<rparr>)"

definition ISink_OnFinish :: CkStatus where "ISink_OnFinish = CkStatus_OK"

definition ISink_Prepare ::
  "attempt list \<Rightarrow> u64 \<Rightarrow> ISink \<Rightarrow> port_world \<Rightarrow> (CkStatus \<times> ISink \<times> port_world) outcome" where
  "ISink_Prepare as junk s w =
     (if pr_state s = Ready then Inr (CkStatus_OK, s, w)
      else bnd (InputPort_IsFinished (sink_input s) w) (\<lambda>(fin, inp).
        let s = s\<lparr>sink_input := inp\<rparr> in
        if fin \<and> pr_state s \<noteq> Finished then Inr (CkStatus_OK, s\<lparr>pr_state := Finished\<rparr>, w)
        else bnd (InputPort_SetNeeded as junk inp w) (\<lambda>w.
          bnd (Port_HasData (in_state inp) w) (\<lambda>has.
          if \<not> has then Inr (CkStatus_OK, s\<lparr>pr_state := NeedData\<rparr>, w)
          else bnd (InputPort_Pull as True inp w) (\<lambda>(c, inp, w).
            Inr (CkStatus_OK, s\<lparr>sink_chunk := c, sink_input := inp, pr_state := Ready\<rparr>, w))))))"

text \<open>\<open>consume\<close> stands for the virtual \<open>Consume\<close>; it is only mentioned in the status check.\<close>

definition ISink_Work :: "(Chunk \<Rightarrow> 's \<Rightarrow> CkStatus \<times> 's) \<Rightarrow> ISink \<Rightarrow> 's \<Rightarrow> CkStatus \<times> ISink \<times> 's" where
  "ISink_Work consume s st =
     CK_STATUS_CHECK (consume (sink_chunk s) st) CkStatus_OK
       (CkStatus_OK, s\<lparr>pr_state := Initialized\<rparr>, st) (\<lambda>status. (status, s, st))"

definition NullSink_Prepare :: "ISink \<Rightarrow> CkStatus \<times> ISink" where
  "NullSink_Prepare s = (CkStatus_OK, s\<lparr>sink_input := InputPort_Close (sink_input s), pr_state := Finished\<rparr>)"

text \<open>A sink never gets data. \<open>input_\<close> is a copy of the sink's port, so that connecting the port
  leaves it unconnected: \<open>Prepare\<close> of a new sink reads through a null state pointer, whatever is
  done to the ports of the sink. And \<open>Work\<close> does not consume the chunk it holds: it leaves the
  state of every consumer as it is and reports success.\<close>

theorem ISink_never_consumes:
  "ISink_Prepare as junk ((ISink_new this name a b)\<lparr>inputs := connected\<rparr>) w = Inl NullDeref \<and>
   ISink_Work consume s st = (CkStatus_OK, s\<lparr>pr_state := Initialized\<rparr>, st)"
  by (simp add: ISink_Prepare_def ISink_new_def InputPort_IsFinished_def state_val_def InputPort_new_def
      IProcessor_new_def ISink_Work_def)

end
