(* ===== verification/Ck_Pipe.thy ===== *)
theory Ck_Pipe
  imports Ck_Processor
begin

text \<open>
  Pipes (\<open>ck_lab/Pipe.h\<close>, \<open>Pipe.cpp\<close>) and pipelines (\<open>Pipeline.h\<close>, \<open>Pipeline.cpp\<close>): a pipe holds
  processors and the list of its unconnected output ports.
\<close>

record Pipe =
  processors :: "nat list"
  output_ports :: "(nat \<times> nat) list"
  max_parallel_streams :: nat

definition Pipe_default :: Pipe where
  "Pipe_default = \<lparr>processors = [], output_ports = [], max_parallel_streams = 0\<rparr>"

definition Pipe_Empty :: "Pipe \<Rightarrow> bool" where "Pipe_Empty p \<longleftrightarrow> processors p = []"
definition Pipe_OutputPortSize :: "Pipe \<Rightarrow> nat" where "Pipe_OutputPortSize p = length (output_ports p)"
definition Pipe_MaxParallelStreams :: "Pipe \<Rightarrow> nat" where "Pipe_MaxParallelStreams p = max_parallel_streams p"
definition Pipe_NumOfProcessors :: "Pipe \<Rightarrow> nat" where "Pipe_NumOfProcessors p = length (processors p)"
definition Pipe_IsCompleted :: "Pipe \<Rightarrow> bool" where
  "Pipe_IsCompleted p \<longleftrightarrow> \<not> Pipe_Empty p \<and> Pipe_OutputPortSize p = 0"

definition CheckSource :: "IProcessor \<Rightarrow> CkStatus" where
  "CheckSource p =
     (if InputPortSize p \<noteq> 0 then CkStatus_mk PIPE_INVALID_SOURCE ''InputPortSize not 0''
      else if OutputPortSize p \<noteq> 1 then CkStatus_mk PIPE_INVALID_SOURCE ''OutputPortSize not 1''
      else CkStatus_OK)"

section \<open>Construction\<close>

text \<open>The processor at the other end of a connected port.\<close>

definition peer_of_input :: "InputPort \<Rightarrow> ck_world \<Rightarrow> nat outcome" where
  "peer_of_input p w = bnd (of_opt NullDeref (output_port p)) (\<lambda>r.
     bnd (get_out r w) (\<lambda>q. of_opt NullDeref (out_processor q)))"

definition peer_of_output :: "OutputPort \<Rightarrow> ck_world \<Rightarrow> nat outcome" where
  "peer_of_output p w = bnd (of_opt NullDeref (input_port p)) (\<lambda>r.
     bnd (get_in r w) (\<lambda>q. of_opt NullDeref (in_processor q)))"

fun check_inputs :: "nat list \<Rightarrow> ck_world \<Rightarrow> InputPort list \<Rightarrow> unit outcome" where
  "check_inputs known w [] = Inr ()"
| "check_inputs known w (p # ps) =
     bnd (guard AssertFailed (InputPort_IsConnected p)) (\<lambda>_.
     bnd (peer_of_input p w) (\<lambda>q.
     bnd (guard AssertFailed (q \<in> set known)) (\<lambda>_. check_inputs known w ps)))"

fun check_outputs :: "nat list \<Rightarrow> ck_world \<Rightarrow> nat \<Rightarrow> nat \<Rightarrow> OutputPort list \<Rightarrow> (nat \<times> nat) list outcome" where
  "check_outputs known w this i [] = Inr []"
| "check_outputs known w this i (p # ps) =
     (if \<not> OutputPort_IsConnected p
      then bnd (check_outputs known w this (Suc i) ps) (\<lambda>rs. Inr ((this, i) # rs))
      else bnd (peer_of_output p w) (\<lambda>q.
           bnd (guard AssertFailed (q \<in> set known)) (\<lambda>_. check_outputs known w this (Suc i) ps)))"

fun collect_outputs :: "nat list \<Rightarrow> ck_world \<Rightarrow> nat list \<Rightarrow> (nat \<times> nat) list outcome" where
  "collect_outputs known w [] = Inr []"
| "collect_outputs known w (n # ns) =
     bnd (get_proc n w) (\<lambda>p.
     bnd (check_inputs known w (inputs p)) (\<lambda>_.
     bnd (check_outputs known w n 0 (outputs p)) (\<lambda>rs.
     bnd (collect_outputs known w ns) (\<lambda>rest. Inr (rs @ rest)))))"

definition Pipe_new :: "nat list \<Rightarrow> ck_world \<Rightarrow> Pipe outcome" where
  "Pipe_new ns w =
     bnd (collect_outputs ns w ns) (\<lambda>rs.
     bnd (guard AssertFailed (rs \<noteq> [])) (\<lambda>_.
       Inr \<lparr>processors = ns, output_ports = rs, max_parallel_streams = length rs\<rparr>))"

section \<open>Adding processors\<close>

definition Pipe_AddSource :: "nat \<Rightarrow> Pipe \<Rightarrow> ck_world \<Rightarrow> (CkStatus \<times> Pipe) outcome" where
  "Pipe_AddSource n pipe w =
     bnd (get_proc n w) (\<lambda>p.
     CK_STATUS_CHECK (CheckSource p) CkStatus_OK
       (if outputs p = [] then Inl OutOfBounds
        else if OutputPort_IsConnected (hd (outputs p))
        then Inr (CkStatus_mk PIPE_CONNECTED_SOURCE ''Source connected'', pipe)
        else
          let pipe = pipe\<lparr>output_ports := output_ports pipe @ [(n, 0)], processors := processors pipe @ [n]\<rparr>
          in Inr (CkStatus_OK, pipe\<lparr>max_parallel_streams :=
                 max (max_parallel_streams pipe) (length (output_ports pipe))\<rparr>))
       (\<lambda>status. Inr (status, pipe)))"

text \<open>The lambda \<open>do_add\<close> of \<open>AddSink\<close> and the loop over the output ports. \<open>sink\<close> is the processor
  the getter returns, already replaced by a null sink if it returned none.\<close>

definition Pipe_do_add ::
  "nat \<Rightarrow> nat \<times> nat \<Rightarrow> Pipe \<Rightarrow> ck_world \<Rightarrow> (CkStatus \<times> Pipe \<times> ck_world) outcome" where
  "Pipe_do_add sink port pipe w =
     bnd (get_proc sink w) (\<lambda>p.
       if InputPortSize p \<noteq> 1
       then Inr (CkStatus_mk PIPE_INVALID_SINK ''Sink inputport size should be 1'', pipe, w)
       else if OutputPortSize p \<noteq> 0
       then Inr (CkStatus_mk PIPE_INVALID_SINK ''Sink outport size should be 0'', pipe, w)
       else bnd (connect_refs port (sink, 0) w) (\<lambda>w.
         Inr (CkStatus_OK, pipe\<lparr>processors := processors pipe @ [sink]\<rparr>, w)))"

fun add_sinks ::
  "(nat \<Rightarrow> nat) \<Rightarrow> CkStatus \<Rightarrow> (nat \<times> nat) list \<Rightarrow> Pipe \<Rightarrow> ck_world \<Rightarrow> (CkStatus \<times> Pipe \<times> ck_world) outcome" where
  "add_sinks getter status [] pipe w = Inr (status, pipe, w)"
| "add_sinks getter status (port # ports) pipe w =
     CK_STATUS_CHECK (Pipe_do_add (getter (length ports)) port pipe w) status
       (add_sinks getter status ports pipe w) (\<lambda>status. Inr (status, pipe, w))"

definition Pipe_AddSink :: "(nat \<Rightarrow> nat) \<Rightarrow> Pipe \<Rightarrow> ck_world \<Rightarrow> (CkStatus \<times> Pipe \<times> ck_world) outcome" where
  "Pipe_AddSink getter pipe w =
     (if Pipe_OutputPortSize pipe = 0
      then Inr (CkStatus_mk PIPE_INPUTS_OUTPUTS_NOT_MATCH ''OutputPortSize should not be 0 before AddSink'', pipe, w)
      else bnd (add_sinks getter CkStatus_OK (output_ports pipe) pipe w) (\<lambda>(status, pipe, w).
        Inr (status, if CkStatus_ok status then pipe\<lparr>output_ports := []\<rparr> else pipe, w)))"

definition free_outputs :: "nat \<Rightarrow> IProcessor \<Rightarrow> (nat \<times> nat) list" where
  "free_outputs n p = map (Pair n) (filter (\<lambda>i. \<not> OutputPort_IsConnected (outputs p ! i)) [0..<length (outputs p)])"

definition Pipe_AddTransform :: "nat \<Rightarrow> Pipe \<Rightarrow> ck_world \<Rightarrow> (CkStatus \<times> Pipe \<times> ck_world) outcome" where
  "Pipe_AddTransform n pipe w =
     (if length (output_ports pipe) = 0 then Inr (CkStatus_mk PIPE_NO_OUTPUT ''No Output'', pipe, w)
      else bnd (get_proc n w) (\<lambda>p.
        if InputPortSize p \<noteq> Pipe_OutputPortSize pipe
        then Inr (CkStatus_mk PIPE_INPUTS_OUTPUTS_NOT_MATCH ''NotMatch'', pipe, w)
        else if OutputPortSize p = 0
        then Inr (CkStatus_mk PIPE_TRANSFORMER_NO_OUTPUT ''No Output'', pipe, w)
        else bnd (connect_all (output_ports pipe) (refs n (InputPortSize p)) w) (\<lambda>w.
          bnd (get_proc n w) (\<lambda>p.
          let pipe = pipe\<lparr>output_ports := free_outputs n p, processors := processors pipe @ [n]\<rparr>
          in Inr (CkStatus_OK, pipe\<lparr>max_parallel_streams :=
                 max (max_parallel_streams pipe) (length (output_ports pipe))\<rparr>, w)))))"

section \<open>Printing\<close>

text \<open>One source of \<open>ToString\<close>: follow the first output port until the end; a cycle of first
  outputs makes the loop run for ever.\<close>

partial_function (option) walk ::
  "ck_world \<Rightarrow> nat option \<Rightarrow> nat list \<Rightarrow> string list \<Rightarrow> (nat list \<times> string list) outcome option" where
  "walk w current printed line =
     (case current of
        None \<Rightarrow> Some (Inr (printed, line))
      | Some c \<Rightarrow>
          (case procs w c of None \<Rightarrow> Some (Inl NullDeref)
           | Some p \<Rightarrow>
               let line = (if c \<in> set printed then line else line @ [IProcessor_ToString True p]);
                   printed = (if c \<in> set printed then printed else c # printed)
               in if outputs p = [] \<or> \<not> OutputPort_IsConnected (hd (outputs p))
                  then walk w None printed line
                  else
                    (case bnd (of_opt NullDeref (input_port (hd (outputs p)))) (\<lambda>r. get_in r w) of
                       Inl e \<Rightarrow> Some (Inl e)
                     | Inr q \<Rightarrow>
                         if \<not> InputPort_IsConnected q then walk w None printed line
                         else (case in_processor q of None \<Rightarrow> Some (Inl NullDeref)
                               | Some c \<Rightarrow> walk w (Some c) printed line))))"

fun walk_sources ::
  "ck_world \<Rightarrow> nat list \<Rightarrow> nat list \<Rightarrow> string list list \<Rightarrow> string list list outcome" where
  "walk_sources w [] printed lines = Inr lines"
| "walk_sources w (s # ss) printed lines =
     (case walk w (Some s) printed [] of None \<Rightarrow> Inl Diverges
      | Some r \<Rightarrow> bnd r (\<lambda>(printed, line). walk_sources w ss printed (lines @ [line])))"

fun join_with :: "string \<Rightarrow> string list \<Rightarrow> string" where
  "join_with sep [] = []"
| "join_with sep [x] = x"
| "join_with sep (x # y # ys) = x @ sep @ join_with sep (y # ys)"

definition Pipe_ToString :: "Pipe \<Rightarrow> ck_world \<Rightarrow> string outcome" where
  "Pipe_ToString pipe w =
     (let sources = filter (\<lambda>n. case procs w n of None \<Rightarrow> False | Some p \<Rightarrow> InputPortSize p = 0) (processors pipe)
      in bnd (guard NullDeref (list_all (\<lambda>n. procs w n \<noteq> None) (processors pipe))) (\<lambda>_.
         bnd (walk_sources w sources [] []) (\<lambda>lines.
           Inr (join_with [CHR 0x0A] (map (\<lambda>(i, line). show_nat i @ '') '' @ join_with ''-->'' line)
             (zip [1..<Suc (length lines)] lines))))))"

section \<open>Merging\<close>

text \<open>The loop of \<open>RemoveEmptyPipes\<close> from position \<open>i\<close> on. \<open>erase\<close> returns the position of the
  next element, which \<open>++it\<close> then skips; stepping behind the end is undefined.\<close>

function remove_empty_from :: "nat \<Rightarrow> Pipe option list \<Rightarrow> Pipe option list outcome" where
  "remove_empty_from i pipes =
     (if i = length pipes then Inr pipes
      else if length pipes < i then Inl OutOfBounds
      else case pipes ! i of None \<Rightarrow> Inl NullDeref
        | Some p \<Rightarrow> if Pipe_Empty p then remove_empty_from (Suc i) (take i pipes @ drop (Suc i) pipes)
                    else remove_empty_from (Suc i) pipes)"
  by pat_completeness auto
termination
  by (relation "measure (\<lambda>(i, pipes). Suc (length pipes) - i)") auto

declare remove_empty_from.simps [simp del]

definition RemoveEmptyPipes :: "Pipe option list \<Rightarrow> Pipe option list outcome" where
  "RemoveEmptyPipes pipes = remove_empty_from 0 pipes"

definition Pipe_absorb :: "Pipe \<Rightarrow> Pipe \<Rightarrow> Pipe" where
  "Pipe_absorb pipe p =
     pipe\<lparr>max_parallel_streams := max_parallel_streams pipe + max_parallel_streams p,
          output_ports := output_ports pipe @ output_ports p, processors := processors pipe @ processors p\<rparr>"

text \<open>Returns the merged pipe, or none for no pipes, with the list after the removal.\<close>

definition MergePipes :: "Pipe option list \<Rightarrow> (Pipe option \<times> Pipe option list) outcome" where
  "MergePipes pipes =
     bnd (RemoveEmptyPipes pipes) (\<lambda>pipes.
       if length pipes = 0 then Inr (None, pipes)
       else if length pipes = 1
       then bnd (of_opt NullDeref (hd pipes)) (\<lambda>p.
         Inr (Some p, [Some (p\<lparr>processors := [], output_ports := []\<rparr>)]))
       else bnd (guard NullDeref (None \<notin> set pipes)) (\<lambda>_.
         Inr (Some (foldl Pipe_absorb Pipe_default (map the pipes)), pipes)))"

section \<open>Pipelines\<close>

record Pipeline =
  pl_pipe :: "Pipe option"
  max_threads :: nat

definition Pipeline_default :: Pipeline where "Pipeline_default = \<lparr>pl_pipe = None, max_threads = 0\<rparr>"
definition Pipeline_Reset :: "Pipeline \<Rightarrow> Pipeline" where "Pipeline_Reset l = l\<lparr>pl_pipe := None\<rparr>"
definition Pipeline_IsInitialized :: "Pipeline \<Rightarrow> bool" where
  "Pipeline_IsInitialized l = (case pl_pipe l of None \<Rightarrow> False | Some p \<Rightarrow> \<not> Pipe_Empty p)"
definition Pipeline_IsCompleted :: "Pipeline \<Rightarrow> bool" where
  "Pipeline_IsCompleted l = (case pl_pipe l of None \<Rightarrow> False | Some p \<Rightarrow> Pipe_IsCompleted p)"
definition Pipeline_NumStreams :: "Pipeline \<Rightarrow> nat" where
  "Pipeline_NumStreams l = (case pl_pipe l of None \<Rightarrow> 0 | Some p \<Rightarrow> Pipe_OutputPortSize p)"
definition Pipeline_MaxThreads :: "Pipeline \<Rightarrow> nat" where "Pipeline_MaxThreads l = max_threads l"
definition Pipeline_SetMaxThreads :: "nat \<Rightarrow> Pipeline \<Rightarrow> Pipeline" where
  "Pipeline_SetMaxThreads n l = l\<lparr>max_threads := n\<rparr>"

text \<open>The caller's \<open>unique_ptr\<close> is passed by reference: it is returned, null after the move.\<close>

definition Pipeline_Initialize :: "Pipe option \<Rightarrow> Pipeline \<Rightarrow> CkStatus \<times> Pipe option \<times> Pipeline" where
  "Pipeline_Initialize pipe l =
     (if Pipeline_IsInitialized l then (CkStatus_mk PIPELINE_INITIALIZED ''Initialized'', pipe, l)
      else case pipe of
          None \<Rightarrow> (CkStatus_mk PIPE_EMPTY ''Empty'', pipe, l)
        | Some p \<Rightarrow> if Pipe_Empty p then (CkStatus_mk PIPE_EMPTY ''Empty'', pipe, l)
                    else (CkStatus_OK, None, l\<lparr>pl_pipe := Some p\<rparr>))"

definition Pipeline_MakeSure :: "Pipeline \<Rightarrow> CkStatus" where
  "Pipeline_MakeSure l =
     (if \<not> Pipeline_IsInitialized l then CkStatus_mk PIPELINE_NOT_INITIALIZED ''NotInitialized''
      else if Pipeline_IsCompleted l then CkStatus_mk PIPELINE_COMPLETED ''AlreadyCompleted''
      else CkStatus_OK)"

text \<open>The status of \<open>pipe_->AddTransform\<close> is dropped.\<close>

definition Pipeline_AddTransform :: "nat \<Rightarrow> Pipeline \<Rightarrow> ck_world \<Rightarrow> (CkStatus \<times> Pipeline \<times> ck_world) outcome" where
  "Pipeline_AddTransform n l w =
     CK_STATUS_CHECK (Pipeline_MakeSure l) CkStatus_OK
       (bnd (of_opt NullDeref (pl_pipe l)) (\<lambda>pipe.
        bnd (Pipe_AddTransform n pipe w) (\<lambda>(_, pipe, w).
          Inr (CkStatus_OK, l\<lparr>pl_pipe := Some pipe\<rparr>, w))))
       (\<lambda>status. Inr (status, l, w))"

definition Pipeline_NumThreads :: "Pipeline \<Rightarrow> nat outcome" where
  "Pipeline_NumThreads l =
     bnd (of_opt NullDeref (pl_pipe l)) (\<lambda>pipe.
       let num_threads = Pipe_MaxParallelStreams pipe;
           num_threads = (if max_threads l \<noteq> 0 then min (max_threads l) num_threads else num_threads)
       in Inr (max 1 num_threads))"

definition Pipeline_DetachPipe :: "Pipeline \<Rightarrow> Pipe option \<times> Pipeline" where
  "Pipeline_DetachPipe l = (pl_pipe l, l\<lparr>pl_pipe := None\<rparr>)"

definition Pipeline_MergePipelineBefore ::
  "Pipeline option \<Rightarrow> Pipeline \<Rightarrow> (CkStatus \<times> Pipeline option \<times> Pipeline) outcome" where
  "Pipeline_MergePipelineBefore other l =
     CK_STATUS_CHECK (Pipeline_MakeSure l) CkStatus_OK
       (bnd (of_opt NullDeref other) (\<lambda>o'.
        case Pipeline_DetachPipe o' of (p, o') \<Rightarrow>
        bnd (MergePipes [pl_pipe l, p]) (\<lambda>(new_pipe, _).
          case new_pipe of
            None \<Rightarrow> Inr (CkStatus_mk PIPELINE_MERGE_ERROR ''MergeError'', Some o', l\<lparr>pl_pipe := None\<rparr>)
          | Some p \<Rightarrow> Inr (CkStatus_OK, Some o', l\<lparr>pl_pipe := Some p\<rparr>))))
       (\<lambda>status. Inr (status, other, l))"

section \<open>Connecting\<close>

definition joined :: "ck_world \<Rightarrow> nat \<times> nat \<Rightarrow> nat \<times> nat \<Rightarrow> bool" where
  "joined w o' i \<longleftrightarrow> (\<exists>out inp s. get_out o' w = Inr out \<and> get_in i w = Inr inp \<and>
     out_state out = Some s \<and> in_state inp = Some s \<and> input_port out = Some i \<and> output_port inp = Some o')"

definition free_out :: "ck_world \<Rightarrow> nat \<times> nat \<Rightarrow> bool" where
  "free_out w r = (case get_out r w of Inl _ \<Rightarrow> False | Inr p \<Rightarrow> \<not> OutputPort_IsConnected p)"

definition free_in :: "ck_world \<Rightarrow> nat \<times> nat \<Rightarrow> bool" where
  "free_in w r = (case get_in r w of Inl _ \<Rightarrow> False | Inr p \<Rightarrow> \<not> InputPort_IsConnected p)"

lemma new_addr_aligned: "new_addr k AND 7 = 0"
proof -
  have "new_addr k AND 7 = take_bit 3 (new_addr k)"
    by (simp add: take_bit_eq_mask mask_eq_exp_minus_1)
  also have "\<dots> = word_of_nat (take_bit 3 (16 * Suc k))"
    by (simp only: new_addr_def take_bit_of_nat)
  also have "take_bit 3 (16 * Suc k) = (0 :: nat)"
    using mod_mult_left_eq [of 16 8 "Suc k"] by (simp add: take_bit_eq_mod)
  finally show ?thesis by simp
qed

lemma get_out_set_in [simp]: "get_out r (set_in r' i w) = get_out r w"
  by (cases "procs w (fst r)") (auto simp: get_out_def get_proc_def set_in_def)

lemma get_in_set_out [simp]: "get_in r (set_out r' p w) = get_in r w"
  by (cases "procs w (fst r)") (auto simp: get_in_def get_proc_def set_out_def)

lemma get_out_set_out:
  "get_out r w = Inr x \<Longrightarrow> get_out r' (set_out r p w) = (if r' = r then Inr p else get_out r' w)"
  by (cases "procs w (fst r)"; cases r; cases r')
    (auto simp: get_out_def get_proc_def set_out_def split: if_splits)

lemma get_in_set_in:
  "get_in r w = Inr x \<Longrightarrow> get_in r' (set_in r p w) = (if r' = r then Inr p else get_in r' w)"
  by (cases "procs w (fst r)"; cases r; cases r')
    (auto simp: get_in_def get_proc_def set_in_def split: if_splits)

lemma get_world_update [simp]:
  "get_out r (w\<lparr>pworld := pw, next_id := k\<rparr>) = get_out r w"
  "get_in r (w\<lparr>pworld := pw, next_id := k\<rparr>) = get_in r w"
  by (simp_all add: get_out_def get_in_def get_proc_def)

lemma connect_refs_ok:
  assumes "free_out w o'" and "free_in w i"
  shows "\<exists>w'. connect_refs o' i w = Inr w' \<and> joined w' o' i \<and>
    (\<forall>r. r \<noteq> o' \<longrightarrow> get_out r w' = get_out r w) \<and> (\<forall>r. r \<noteq> i \<longrightarrow> get_in r w' = get_in r w)"
proof -
  obtain out where out: "get_out o' w = Inr out" "out_state out = None"
    using assms(1) by (auto simp: free_out_def OutputPort_IsConnected_def split: sum.splits)
  obtain inp where inp: "get_in i w = Inr inp" "in_state inp = None"
    using assms(2) by (auto simp: free_in_def InputPort_IsConnected_def split: sum.splits)
  let ?out = "out\<lparr>input_port := Some i, out_state := Some (next_id w)\<rparr>"
  let ?inp = "inp\<lparr>output_port := Some o', in_state := Some (next_id w)\<rparr>"
  obtain pw where con: "Connect (next_id w) (new_addr (next_id w)) o' i out inp (pworld w) = Inr (?out, ?inp, pw)"
    using out(2) inp(2) new_addr_aligned [of "next_id w"]
    by (simp add: Connect_def State_new_def flag_values)
  let ?v = "w\<lparr>pworld := pw, next_id := Suc (next_id w)\<rparr>"
  let ?w = "set_in i ?inp (set_out o' ?out ?v)"
  have run: "connect_refs o' i w = Inr ?w" using out(1) inp(1) con by (simp add: connect_refs_def)
  have o1: "get_out r ?w = (if r = o' then Inr ?out else get_out r w)" for r
    using get_out_set_out [of o' ?v out r ?out] out(1) by simp
  have i1: "get_in r ?w = (if r = i then Inr ?inp else get_in r w)" for r
    using get_in_set_in [of i "set_out o' ?out ?v" inp r ?inp] inp(1) by simp
  have "joined ?w o' i" using o1 [of o'] i1 [of i] by (simp add: joined_def)
  then show ?thesis using run o1 i1 by (intro exI [of _ ?w]) simp
qed

lemma joined_keep:
  "joined w o' i \<Longrightarrow> get_out o' w' = get_out o' w \<Longrightarrow> get_in i w' = get_in i w \<Longrightarrow> joined w' o' i"
  by (simp add: joined_def)

lemma connect_all_ok:
  "length os = length is \<Longrightarrow> distinct os \<Longrightarrow> distinct is \<Longrightarrow>
   \<forall>r \<in> set os. free_out w r \<Longrightarrow> \<forall>r \<in> set is. free_in w r \<Longrightarrow>
   \<exists>w'. connect_all os is w = Inr w' \<and> (\<forall>k < length os. joined w' (os ! k) (is ! k)) \<and>
     (\<forall>r. r \<notin> set os \<longrightarrow> get_out r w' = get_out r w) \<and> (\<forall>r. r \<notin> set is \<longrightarrow> get_in r w' = get_in r w)"
proof (induction os "is" w rule: connect_all.induct)
  case (1 o' os i "is" w)
  obtain v where v: "connect_refs o' i w = Inr v" "joined v o' i"
    "\<forall>r. r \<noteq> o' \<longrightarrow> get_out r v = get_out r w" "\<forall>r. r \<noteq> i \<longrightarrow> get_in r v = get_in r w"
    using connect_refs_ok [of w o' i] 1(5,6) by auto
  have len: "length os = length is" "distinct os" "distinct is" using 1(2-4) by auto
  have fr: "\<forall>r \<in> set os. free_out v r" "\<forall>r \<in> set is. free_in v r"
    using 1(3-6) v(3,4) unfolding free_out_def free_in_def by (metis distinct.simps(2) list.set_intros(2))+
  obtain w' where w': "connect_all os is v = Inr w'" "\<forall>k < length os. joined w' (os ! k) (is ! k)"
    "\<forall>r. r \<notin> set os \<longrightarrow> get_out r w' = get_out r v" "\<forall>r. r \<notin> set is \<longrightarrow> get_in r w' = get_in r v"
    using 1(1) [OF len fr] by blast
  have "o' \<notin> set os" "i \<notin> set is" using 1(3,4) by auto
  then have "get_out o' w' = get_out o' v" "get_in i w' = get_in i v" using w'(3,4) by blast+
  with v(2) have "joined w' o' i" by (rule joined_keep)
  then have "\<forall>k < length (o' # os). joined w' ((o' # os) ! k) ((i # is) ! k)"
    using w'(2) by (auto simp: nth_Cons split: nat.splits)
  moreover have "connect_all (o' # os) (i # is) w = Inr w'" using v(1) w'(1) by simp
  moreover have "\<forall>r. r \<notin> set (o' # os) \<longrightarrow> get_out r w' = get_out r w"
    using w'(3) v(3) by (metis list.set_intros)
  moreover have "\<forall>r. r \<notin> set (i # is) \<longrightarrow> get_in r w' = get_in r w"
    using w'(4) v(4) by (metis list.set_intros)
  ultimately show ?case by blast
qed auto

section \<open>Properties\<close>

lemma free_outputs_nth:
  assumes "get_proc n w = Inr p"
  shows "free_outputs n p = filter (free_out w) (refs n (length (outputs p)))"
proof -
  have "filter (\<lambda>i. \<not> OutputPort_IsConnected (outputs p ! i)) [0..<length (outputs p)] =
      filter (\<lambda>i. free_out w (n, i)) [0..<length (outputs p)]"
    using assms by (intro filter_cong) (auto simp: free_out_def get_out_def)
  then show ?thesis by (simp add: free_outputs_def refs_def filter_map comp_def)
qed

text \<open>Adding a transform whose inputs are free and as many as the free output ports of the pipe
  succeeds: the \<open>i\<close>-th output port and the \<open>i\<close>-th input port of the transform then share a state and
  point to each other, the transform becomes the last processor, and the output ports of the pipe
  are the free output ports of the transform. The recorded parallelism never shrinks and is at
  least the number of output ports.\<close>

theorem Pipe_AddTransform_connects:
  assumes "distinct (output_ports pipe)" and "output_ports pipe \<noteq> []" and "\<forall>r \<in> set (output_ports pipe). free_out w r"
    and "procs w n = Some p" and "length (inputs p) = length (output_ports pipe)" and "outputs p \<noteq> []"
    and "\<forall>i < length (inputs p). free_in w (n, i)" and "n \<notin> fst ` set (output_ports pipe)"
  shows "\<exists>pipe' w'. Pipe_AddTransform n pipe w = Inr (CkStatus_OK, pipe', w') \<and>
    (\<forall>i < length (inputs p). joined w' (output_ports pipe ! i) (n, i)) \<and>
    processors pipe' = processors pipe @ [n] \<and>
    output_ports pipe' = filter (free_out w') (refs n (length (outputs p))) \<and>
    max_parallel_streams pipe \<le> max_parallel_streams pipe' \<and> length (output_ports pipe') \<le> max_parallel_streams pipe'"
proof -
  let ?is = "refs n (length (inputs p))"
  have "distinct ?is" by (simp add: refs_def distinct_map inj_on_def)
  moreover have "\<forall>r \<in> set ?is. free_in w r" using assms(7) by (auto simp: refs_def)
  ultimately obtain w' where w': "connect_all (output_ports pipe) ?is w = Inr w'"
    "\<forall>k < length (output_ports pipe). joined w' (output_ports pipe ! k) (?is ! k)"
    "\<forall>r. r \<notin> set (output_ports pipe) \<longrightarrow> get_out r w' = get_out r w"
    using connect_all_ok [of "output_ports pipe" ?is w] assms(1,3,5) by (auto simp: refs_def)
  have "(n, 0) \<notin> set (output_ports pipe)" using assms(8) by force
  then have "get_out (n, 0) w' = get_out (n, 0) w" using w'(3) by blast
  then have "get_out (n, 0) w' = Inr (outputs p ! 0)"
    using assms(4,6) by (simp add: get_out_def get_proc_def)
  then obtain p' where p': "procs w' n = Some p'" by (auto simp: get_out_def get_proc_def bnd_eq_Inr of_opt_def split: option.splits)
  have len: "length (outputs p') = length (outputs p)"
  proof -
    have "get_out (n, i) w' = get_out (n, i) w" for i using w'(3) assms(8) by force
    moreover have "(i < length (outputs p')) = (\<exists>x. get_out (n, i) w' = Inr x)" for i
      using p' by (simp add: get_out_def get_proc_def)
    moreover have "(i < length (outputs p)) = (\<exists>x. get_out (n, i) w = Inr x)" for i
      using assms(4) by (simp add: get_out_def get_proc_def)
    ultimately have eq: "(i < length (outputs p')) = (i < length (outputs p))" for i by simp
    show ?thesis using eq [of "length (outputs p)"] eq [of "length (outputs p')"] by simp
  qed
  have "get_proc n w' = Inr p'" using p' by (simp add: get_proc_def)
  note free = free_outputs_nth [OF this, unfolded len]
  show ?thesis
    using assms(2,4,5,6) w' p' free
    by (auto simp: Pipe_AddTransform_def get_proc_def InputPortSize_def OutputPortSize_def
        Pipe_OutputPortSize_def Let_def refs_def)
qed

text \<open>\<open>AddSink\<close> adds no sink. On a pipe with output ports it forgets them and reports success
  without calling the getter, connecting a port or adding a processor, so that the pipe counts as
  completed although its outputs lead nowhere; \<open>AddSource\<close> accepts processors that
  \<open>CheckSource\<close> rejects. Both are due to \<open>STATUS_CHECK\<close>, which never evaluates its argument.\<close>

theorem AddSink_adds_nothing:
  "(output_ports pipe \<noteq> [] \<longrightarrow> processors pipe \<noteq> [] \<longrightarrow>
     (\<exists>pipe'. Pipe_AddSink getter pipe w = Inr (CkStatus_OK, pipe', w) \<and>
        processors pipe' = processors pipe \<and> Pipe_IsCompleted pipe')) \<and>
   (procs w n = Some p \<longrightarrow> outputs p \<noteq> [] \<longrightarrow> free_out w (n, 0) \<longrightarrow>
     (\<exists>pipe'. Pipe_AddSource n pipe w = Inr (CkStatus_OK, pipe') \<and> output_ports pipe' = output_ports pipe @ [(n, 0)]))"
proof -
  have sinks: "add_sinks getter CkStatus_OK ports pipe w = Inr (CkStatus_OK, pipe, w)" for ports
    by (induction ports) simp_all
  have "CkStatus_ok CkStatus_OK" by (simp add: CkStatus_ok_def CkStatus_OK_def)
  then have "output_ports pipe \<noteq> [] \<longrightarrow> processors pipe \<noteq> [] \<longrightarrow>
     (\<exists>pipe'. Pipe_AddSink getter pipe w = Inr (CkStatus_OK, pipe', w) \<and>
        processors pipe' = processors pipe \<and> Pipe_IsCompleted pipe')"
    by (simp add: Pipe_AddSink_def Pipe_OutputPortSize_def sinks Pipe_IsCompleted_def Pipe_Empty_def)
  then show ?thesis
    by (auto simp: Pipe_AddSource_def get_proc_def free_out_def get_out_def Let_def hd_conv_nth)
qed

text \<open>A world with a source (processor 0) and a transform (processor 1).\<close>

definition small_world :: ck_world where
  "small_world = \<lparr>pworld = \<lparr>pw_heap = Map.empty, pw_states = Map.empty\<rparr>,
     procs = [0 \<mapsto> IProcessor_new 0 [] [OutputPort_new 0], 1 \<mapsto> IProcessor_new 1 [InputPort_new 0] [OutputPort_new 0]],
     next_id = 5\<rparr>"

definition small_pipe :: Pipe where
  "small_pipe = \<lparr>processors = [0], output_ports = [(0, 0)], max_parallel_streams = 1\<rparr>"

lemma small_world_simps:
  "procs small_world 0 = Some (IProcessor_new 0 [] [OutputPort_new 0])"
  "procs small_world (Suc 0) = Some (IProcessor_new 1 [InputPort_new 0] [OutputPort_new 0])"
  "free_out small_world (0, 0)" "free_in small_world (Suc 0, 0)"
  by (simp_all add: small_world_def free_out_def free_in_def get_out_def get_in_def get_proc_def IProcessor_new_def
      OutputPort_new_def InputPort_new_def OutputPort_IsConnected_def InputPort_IsConnected_def)

theorem Pipe_AddTransform_connects_witness:
  "\<exists>pipe' w'. Pipe_AddTransform 1 small_pipe small_world = Inr (CkStatus_OK, pipe', w') \<and>
    joined w' (0, 0) (1, 0) \<and> processors pipe' = [0, 1]"
  using Pipe_AddTransform_connects [of small_pipe small_world 1 "IProcessor_new 1 [InputPort_new 0] [OutputPort_new 0]"]
  by (auto simp: small_world_simps small_pipe_def IProcessor_new_def)

theorem AddSink_adds_nothing_witness:
  "\<exists>pipe'. Pipe_AddSink (\<lambda>_. 1) small_pipe small_world = Inr (CkStatus_OK, pipe', small_world) \<and>
    processors pipe' = [0] \<and> Pipe_IsCompleted pipe'"
  using AddSink_adds_nothing [of small_pipe "\<lambda>_. 1" small_world] by (simp add: small_pipe_def)

section \<open>Removing and merging\<close>

text \<open>What the removal loop really does: the element behind an erased one is kept unexamined.\<close>

fun skip_empty :: "Pipe list \<Rightarrow> Pipe list option" where
  "skip_empty [] = Some []"
| "skip_empty [p] = (if Pipe_Empty p then None else Some [p])"
| "skip_empty (p # q # ps) =
     (if Pipe_Empty p then map_option (Cons q) (skip_empty ps) else map_option (Cons p) (skip_empty (q # ps)))"

lemma remove_empty_from_skip:
  "remove_empty_from (length pre) (pre @ map Some ps) =
     (case skip_empty ps of None \<Rightarrow> Inl OutOfBounds | Some qs \<Rightarrow> Inr (pre @ map Some qs))"
proof (induction ps arbitrary: pre rule: skip_empty.induct)
  case 1
  then show ?case by (simp add: remove_empty_from.simps)
next
  case (2 p)
  show ?case
    by (cases "Pipe_Empty p") (simp_all add: remove_empty_from.simps [of "length pre"]
        remove_empty_from.simps [of "Suc (length pre)"])
next
  case (3 p q ps)
  show ?case
  proof (cases "Pipe_Empty p")
    case True
    have "remove_empty_from (length pre) (pre @ map Some (p # q # ps)) =
        remove_empty_from (length (pre @ [Some q])) ((pre @ [Some q]) @ map Some ps)"
      using True by (subst remove_empty_from.simps) simp
    then show ?thesis using 3(1) [OF True, of "pre @ [Some q]"] True by (simp split: option.splits)
  next
    case False
    have "remove_empty_from (length pre) (pre @ map Some (p # q # ps)) =
        remove_empty_from (length (pre @ [Some p])) ((pre @ [Some p]) @ map Some (q # ps))"
      using False by (subst remove_empty_from.simps) simp
    then show ?thesis using 3(2) [OF False, of "pre @ [Some p]"] False by (simp split: option.splits)
  qed
qed

lemma skip_empty_clean: "\<forall>p \<in> set ps. \<not> Pipe_Empty p \<Longrightarrow> skip_empty ps = Some ps"
  by (induction ps rule: skip_empty.induct) auto

lemma foldl_absorb:
  "foldl Pipe_absorb p ps = \<lparr>processors = processors p @ concat (map processors ps),
     output_ports = output_ports p @ concat (map output_ports ps),
     max_parallel_streams = max_parallel_streams p + sum_list (map max_parallel_streams ps)\<rparr>"
  by (induction ps arbitrary: p) (simp_all add: Pipe_absorb_def)

text \<open>Merging pipes. When there are at least two and none is empty, the result has the processors
  and the output ports of all of them in order and the sum of their parallelism. Empty pipes are
  removed by a loop that skips the element behind each removed one: of two adjacent empty pipes one
  stays, and an empty pipe at the end makes the loop step behind the end of the vector.\<close>

theorem MergePipes_correct:
  "(2 \<le> length ps \<longrightarrow> (\<forall>p \<in> set ps. \<not> Pipe_Empty p) \<longrightarrow>
      MergePipes (map Some ps) = Inr (Some \<lparr>processors = concat (map processors ps),
        output_ports = concat (map output_ports ps),
        max_parallel_streams = sum_list (map max_parallel_streams ps)\<rparr>, map Some ps)) \<and>
   RemoveEmptyPipes (map Some qs) =
     (case skip_empty qs of None \<Rightarrow> Inl OutOfBounds | Some qs \<Rightarrow> Inr (map Some qs)) \<and>
   (\<forall>e. Pipe_Empty e \<longrightarrow> RemoveEmptyPipes [Some e] = Inl OutOfBounds)"
proof -
  have rm: "RemoveEmptyPipes (map Some qs) =
     (case skip_empty qs of None \<Rightarrow> Inl OutOfBounds | Some qs \<Rightarrow> Inr (map Some qs))" for qs
    using remove_empty_from_skip [of "[]" qs] by (simp add: RemoveEmptyPipes_def split: option.splits)
  have "MergePipes (map Some ps) = Inr (Some \<lparr>processors = concat (map processors ps),
      output_ports = concat (map output_ports ps),
      max_parallel_streams = sum_list (map max_parallel_streams ps)\<rparr>, map Some ps)"
    if "2 \<le> length ps" "\<forall>p \<in> set ps. \<not> Pipe_Empty p"
  proof -
    have ne: "map Some ps \<noteq> []" "length ps \<noteq> 1" using that(1) by auto
    have "foldl Pipe_absorb Pipe_default (map the (map Some ps)) =
       \<lparr>processors = concat (map processors ps), output_ports = concat (map output_ports ps),
        max_parallel_streams = sum_list (map max_parallel_streams ps)\<rparr>"
      by (simp add: foldl_absorb Pipe_default_def comp_def)
    then show ?thesis
      using rm [of ps] skip_empty_clean [OF that(2)] ne
      by (simp add: MergePipes_def image_iff)
  qed
  moreover have "RemoveEmptyPipes [Some e] = Inl OutOfBounds" if "Pipe_Empty e" for e
    using rm [of "[e]"] that by simp
  ultimately show ?thesis using rm by blast
qed

theorem MergePipes_correct_witness:
  "\<exists>p. MergePipes [Some small_pipe, Some small_pipe] = Inr (Some p, [Some small_pipe, Some small_pipe]) \<and>
    max_parallel_streams p = 2 \<and> RemoveEmptyPipes [Some Pipe_default] = Inl OutOfBounds"
  using MergePipes_correct [of "[small_pipe, small_pipe]" "[]"]
  by (simp add: small_pipe_def Pipe_Empty_def Pipe_default_def)

section \<open>Pipelines\<close>

text \<open>The guards of the pipeline do not guard. \<open>AddTransform\<close> on a pipeline without a pipe reads
  through the null pointer instead of reporting \<open>PIPELINE_NOT_INITIALIZED\<close>, and on a completed
  pipeline it reports success although the pipe rejects the transform and nothing changes. The
  number of threads is at least one and never above a limit that was set.\<close>

theorem Pipeline_guards:
  "(pl_pipe l = None \<longrightarrow> \<not> CkStatus_ok (Pipeline_MakeSure l) \<and> Pipeline_AddTransform n l w = Inl NullDeref) \<and>
   (Pipeline_IsCompleted l \<longrightarrow> \<not> CkStatus_ok (Pipeline_MakeSure l) \<and>
      Pipeline_AddTransform n l w = Inr (CkStatus_OK, l, w)) \<and>
   (Pipeline_NumThreads l = Inr k \<longrightarrow> 1 \<le> k \<and> (max_threads l \<noteq> 0 \<longrightarrow> k \<le> max_threads l))"
proof (intro conjI impI)
  assume "pl_pipe l = None"
  then show "\<not> CkStatus_ok (Pipeline_MakeSure l)" "Pipeline_AddTransform n l w = Inl NullDeref"
    by (simp_all add: Pipeline_MakeSure_def Pipeline_IsInitialized_def CkStatus_ok_def mk_fields error_codes
        Pipeline_AddTransform_def)
next
  assume c: "Pipeline_IsCompleted l"
  then obtain p where p: "pl_pipe l = Some p" "processors p \<noteq> []" "output_ports p = []"
    by (auto simp: Pipeline_IsCompleted_def Pipe_IsCompleted_def Pipe_Empty_def Pipe_OutputPortSize_def
        split: option.splits)
  then show "Pipeline_AddTransform n l w = Inr (CkStatus_OK, l, w)"
    by (simp add: Pipeline_AddTransform_def Pipe_AddTransform_def)
  show "\<not> CkStatus_ok (Pipeline_MakeSure l)"
    using c p by (simp add: Pipeline_MakeSure_def Pipeline_IsInitialized_def Pipe_Empty_def CkStatus_ok_def
        mk_fields error_codes)
next
  assume "Pipeline_NumThreads l = Inr k"
  then show "1 \<le> k" "max_threads l \<noteq> 0 \<Longrightarrow> k \<le> max_threads l"
    by (auto simp: Pipeline_NumThreads_def bnd_eq_Inr Let_def split: if_splits)
qed

theorem Pipeline_guards_witness:
  "Pipeline_AddTransform 0 Pipeline_default small_world = Inl NullDeref"
  using Pipeline_guards [of Pipeline_default 0 small_world 0] by (simp add: Pipeline_default_def)

end
