(* ===== verification/Ck_Graph.thy ===== *)
theory Ck_Graph
  imports Ck_Pipe
begin

text \<open>
  The execution graph (\<open>ck_lab/Graph.h\<close>, \<open>Graph.cpp\<close>): one node per processor, a back edge per
  input port and a direct edge per output port. The members \<open>job_\<close> and \<open>exception_\<close> are never
  assigned and left out.
\<close>

record Edge =
  edge_to :: nat
  is_reversed :: bool
  input_port_number :: nat
  output_port_number :: nat

datatype ExecStatus = Idle | Preparing | Executing | Exec_Finished

record Node =
  nd_processor :: "nat option"
  processor_id :: nat
  last_processor_status :: ProcState
  direct_edges :: "Edge list"
  back_edges :: "Edge list"

record Graph =
  nodes :: "Node list"
  processor_map :: "nat \<rightharpoonup> nat"

definition Node_new :: "nat \<Rightarrow> nat \<Rightarrow> Node" where
  "Node_new p i = \<lparr>nd_processor = Some p, processor_id = i, last_processor_status = NeedData,
     direct_edges = [], back_edges = []\<rparr>"

definition Node_IsSource :: "ck_world \<Rightarrow> Node \<Rightarrow> bool" where
  "Node_IsSource w nd = (case Option.bind (nd_processor nd) (procs w) of None \<Rightarrow> False
     | Some p \<Rightarrow> InputPortSize p = 0)"

definition Node_IsSink :: "ck_world \<Rightarrow> Node \<Rightarrow> bool" where
  "Node_IsSink w nd = (case Option.bind (nd_processor nd) (procs w) of None \<Rightarrow> False
     | Some p \<Rightarrow> OutputPortSize p = 0)"

definition Node_ToString :: "ck_world \<Rightarrow> Node \<Rightarrow> string outcome" where
  "Node_ToString w nd =
     bnd (of_opt NullDeref (Option.bind (nd_processor nd) (procs w))) (\<lambda>p.
       let ty = (if Node_IsSource w nd \<and> Node_IsSink w nd then ''Only_Node''
                 else if Node_IsSource w nd then ''Src_Node''
                 else if Node_IsSink w nd then ''Snk_Node'' else ''Node'')
       in Inr (''['' @ ty @ ''('' @ show_nat (InputPortSize p) @ '','' @ show_nat (OutputPortSize p) @ '')]''))"

definition AddEdge :: "Edge list \<Rightarrow> Edge \<Rightarrow> nat \<Rightarrow> (nat \<rightharpoonup> nat) \<Rightarrow> Edge list outcome" where
  "AddEdge edges edge to pm =
     bnd (of_opt AssertFailed (pm to)) (\<lambda>i. Inr (edges @ [edge\<lparr>edge_to := i\<rparr>]))"

text \<open>The bodies of the two loops of \<open>AddEdges\<close>: the edge for the port, before \<open>AddEdge\<close>, with the
  processor it leads to.\<close>

definition back_edge :: "ck_world \<Rightarrow> nat \<Rightarrow> InputPort \<Rightarrow> (Edge \<times> nat) outcome" where
  "back_edge w pre_input_size p =
     bnd (of_opt NullDeref (output_port p)) (\<lambda>r.
     bnd (get_out r w) (\<lambda>port.
     bnd (of_opt NullDeref (out_processor port)) (\<lambda>to_processor.
     bnd (get_proc to_processor w) (\<lambda>tp.
     bnd (GetOutputPortId to_processor tp r) (\<lambda>output_port_id.
       Inr (\<lparr>edge_to = 0, is_reversed = True, input_port_number = pre_input_size,
             output_port_number = output_port_id\<rparr>, to_processor))))))"

definition direct_edge :: "ck_world \<Rightarrow> nat \<Rightarrow> OutputPort \<Rightarrow> (Edge \<times> nat) outcome" where
  "direct_edge w pre_output_size p =
     bnd (of_opt NullDeref (input_port p)) (\<lambda>r.
     bnd (get_in r w) (\<lambda>port.
     bnd (of_opt NullDeref (in_processor port)) (\<lambda>to_processor.
     bnd (get_proc to_processor w) (\<lambda>tp.
     bnd (GetInputPortId to_processor tp r) (\<lambda>input_port_id.
       Inr (\<lparr>edge_to = 0, is_reversed = False, input_port_number = input_port_id,
             output_port_number = pre_output_size\<rparr>, to_processor))))))"

text \<open>The loop over the ports from the number of edges already there on.\<close>

fun edge_loop ::
  "(nat \<Rightarrow> 'p \<Rightarrow> (Edge \<times> nat) outcome) \<Rightarrow> (nat \<rightharpoonup> nat) \<Rightarrow> 'p list \<Rightarrow> nat \<Rightarrow> Edge list \<Rightarrow> Edge list outcome" where
  "edge_loop body pm [] i edges = Inr edges"
| "edge_loop body pm (p # ps) i edges =
     bnd (body i p) (\<lambda>(e, to). bnd (AddEdge edges e to pm) (\<lambda>edges. edge_loop body pm ps (Suc i) edges))"

definition Graph_AddEdges :: "nat \<Rightarrow> Graph \<Rightarrow> ck_world \<Rightarrow> (bool \<times> Graph) outcome" where
  "Graph_AddEdges i g w =
     (if length (nodes g) \<le> i then Inl OutOfBounds
      else
        let nd = nodes g ! i in
        bnd (of_opt NullDeref (nd_processor nd)) (\<lambda>n. bnd (get_proc n w) (\<lambda>from.
        bnd (edge_loop (back_edge w) (processor_map g) (drop (length (back_edges nd)) (inputs from))
               (length (back_edges nd)) (back_edges nd)) (\<lambda>back.
        bnd (edge_loop (direct_edge w) (processor_map g) (drop (length (direct_edges nd)) (outputs from))
               (length (direct_edges nd)) (direct_edges nd)) (\<lambda>direct.
          Inr (length (back_edges nd) < length (inputs from) \<or> length (direct_edges nd) < length (outputs from),
            g\<lparr>nodes := (nodes g)[i := nd\<lparr>back_edges := back, direct_edges := direct\<rparr>]\<rparr>))))))"

fun add_all_edges :: "nat list \<Rightarrow> Graph \<Rightarrow> ck_world \<Rightarrow> Graph outcome" where
  "add_all_edges [] g w = Inr g"
| "add_all_edges (i # is) g w = bnd (Graph_AddEdges i g w) (\<lambda>(_, g). add_all_edges is g w)"

definition number_processors :: "nat list \<Rightarrow> nat \<rightharpoonup> nat" where
  "number_processors ns = foldl (\<lambda>m i. m(ns ! i \<mapsto> i)) Map.empty [0..<length ns]"

definition Graph_new :: "nat list \<Rightarrow> ck_world \<Rightarrow> Graph outcome" where
  "Graph_new ns w =
     add_all_edges [0..<length ns]
       \<lparr>nodes = map (\<lambda>i. Node_new (ns ! i) i) [0..<length ns], processor_map = number_processors ns\<rparr> w"

fun collect_strings :: "string outcome list \<Rightarrow> string list outcome" where
  "collect_strings [] = Inr []"
| "collect_strings (x # xs) = bnd x (\<lambda>s. bnd (collect_strings xs) (\<lambda>ss. Inr (s # ss)))"

definition Graph_ToString :: "Graph \<Rightarrow> ck_world \<Rightarrow> string outcome" where
  "Graph_ToString g w = bnd (collect_strings (map (Node_ToString w) (nodes g))) (\<lambda>ss. Inr (join_with ''-->'' ss))"

section \<open>Building the graph\<close>

text \<open>A closed network: every port of the listed processors is connected, both ends name each other,
  and the processors at both ends are listed.\<close>

definition wired_in :: "nat list \<Rightarrow> ck_world \<Rightarrow> nat \<Rightarrow> nat \<Rightarrow> bool" where
  "wired_in ns w n i \<longleftrightarrow> (\<exists>inp q j out. get_in (n, i) w = Inr inp \<and> in_processor inp = Some n \<and>
     output_port inp = Some (q, j) \<and> q \<in> set ns \<and> get_out (q, j) w = Inr out \<and>
     out_processor out = Some q \<and> input_port out = Some (n, i))"

definition wired_out :: "nat list \<Rightarrow> ck_world \<Rightarrow> nat \<Rightarrow> nat \<Rightarrow> bool" where
  "wired_out ns w q j \<longleftrightarrow> (\<exists>out n i inp. get_out (q, j) w = Inr out \<and> out_processor out = Some q \<and>
     input_port out = Some (n, i) \<and> n \<in> set ns \<and> get_in (n, i) w = Inr inp \<and>
     in_processor inp = Some n \<and> output_port inp = Some (q, j))"

definition wired :: "nat list \<Rightarrow> ck_world \<Rightarrow> bool" where
  "wired ns w \<longleftrightarrow> distinct ns \<and> (\<forall>n \<in> set ns. \<exists>p. procs w n = Some p \<and>
     (\<forall>i < length (inputs p). wired_in ns w n i) \<and> (\<forall>j < length (outputs p). wired_out ns w n j))"

lemma port_id_ok: "i \<le> j \<Longrightarrow> j < i + length ps \<Longrightarrow> port_id n (n, j) i ps = Inr j"
  by (induction ps arbitrary: i) auto

lemma number_processors_ok:
  assumes "distinct ns" and "k < length ns"
  shows "number_processors ns (ns ! k) = Some k"
proof -
  have "foldl (\<lambda>m i. m(ns ! i \<mapsto> i)) m [0..<n] (ns ! k) = (if k < n then Some k else m (ns ! k))"
    if "n \<le> length ns" for n and m :: "nat \<rightharpoonup> nat"
    using that
  proof (induction n)
    case (Suc n)
    then show ?case using assms by (auto simp: nth_eq_iff_index_eq less_Suc_eq)
  qed simp
  then show ?thesis using assms(2) by (simp add: number_processors_def)
qed

lemma edge_loop_ok:
  assumes "\<And>k. k < length ps \<Longrightarrow> \<exists>e to. body (i + k) (ps ! k) = Inr (e, to) \<and>
      (\<exists>t. pm to = Some t \<and> f (i + k) = e\<lparr>edge_to := t\<rparr>)"
  shows "edge_loop body pm ps i edges = Inr (edges @ map f [i..<i + length ps])"
  using assms
proof (induction ps arbitrary: i edges)
  case Nil
  then show ?case by simp
next
  case (Cons p ps)
  obtain e to t where e: "body i p = Inr (e, to)" "pm to = Some t" "f i = e\<lparr>edge_to := t\<rparr>"
    using Cons.prems [of 0] by auto
  have "edge_loop body pm ps (Suc i) (edges @ [f i]) = Inr ((edges @ [f i]) @ map f [Suc i..<Suc i + length ps])"
  proof (rule Cons.IH)
    fix k
    assume "k < length ps"
    then show "\<exists>e to. body (Suc i + k) (ps ! k) = Inr (e, to) \<and> (\<exists>t. pm to = Some t \<and> f (Suc i + k) = e\<lparr>edge_to := t\<rparr>)"
      using Cons.prems [of "Suc k"] by simp
  qed
  moreover have "[i..<i + length (p # ps)] = i # [Suc i..<Suc i + length ps]"
    by (simp add: upt_conv_Cons del: upt_Suc)
  ultimately show ?case
    using e by (simp add: AddEdge_def del: upt_Suc)
qed

text \<open>The edges the ports of a processor should give.\<close>

definition index_of :: "nat list \<Rightarrow> nat \<Rightarrow> nat" where
  "index_of ns q = length (takeWhile (\<lambda>n. n \<noteq> q) ns)"

definition back_spec :: "nat list \<Rightarrow> IProcessor \<Rightarrow> nat \<Rightarrow> Edge" where
  "back_spec ns p i = (case output_port (inputs p ! i) of None \<Rightarrow> \<lparr>edge_to = 0, is_reversed = True, input_port_number = i, output_port_number = 0\<rparr>
     | Some (q, j) \<Rightarrow> \<lparr>edge_to = index_of ns q, is_reversed = True, input_port_number = i, output_port_number = j\<rparr>)"

definition direct_spec :: "nat list \<Rightarrow> IProcessor \<Rightarrow> nat \<Rightarrow> Edge" where
  "direct_spec ns p j = (case input_port (outputs p ! j) of None \<Rightarrow> \<lparr>edge_to = 0, is_reversed = False, input_port_number = 0, output_port_number = j\<rparr>
     | Some (n, i) \<Rightarrow> \<lparr>edge_to = index_of ns n, is_reversed = False, input_port_number = i, output_port_number = j\<rparr>)"

lemma index_of_ok: "q \<in> set ns \<Longrightarrow> index_of ns q < length ns \<and> ns ! index_of ns q = q"
  by (induction ns) (auto simp: index_of_def)

lemma index_of_nth: "distinct ns \<Longrightarrow> k < length ns \<Longrightarrow> index_of ns (ns ! k) = k"
  by (metis index_of_ok nth_eq_iff_index_eq nth_mem)

lemma number_index: "distinct ns \<Longrightarrow> q \<in> set ns \<Longrightarrow> number_processors ns q = Some (index_of ns q)"
  using number_processors_ok [of ns "index_of ns q"] index_of_ok [of q ns] by simp

lemma back_loop_ok:
  assumes "wired ns w" and "n \<in> set ns" and "procs w n = Some p"
  shows "edge_loop (back_edge w) (number_processors ns) (inputs p) 0 [] =
    Inr (map (back_spec ns p) [0..<length (inputs p)])"
proof -
  have "\<exists>e to. back_edge w (0 + k) (inputs p ! k) = Inr (e, to) \<and>
      (\<exists>t. number_processors ns to = Some t \<and> back_spec ns p (0 + k) = e\<lparr>edge_to := t\<rparr>)"
    if k: "k < length (inputs p)" for k
  proof -
    have "wired_in ns w n k" using assms k unfolding wired_def by (metis option.inject)
    then obtain q j out where q: "output_port (inputs p ! k) = Some (q, j)" "q \<in> set ns"
      "get_out (q, j) w = Inr out" "out_processor out = Some q"
      using assms(3) k by (auto simp: wired_in_def get_in_def get_proc_def)
    obtain tp where tp: "procs w q = Some tp" "j < length (outputs tp)"
      using q(3) by (auto simp: get_out_def get_proc_def bnd_eq_Inr of_opt_def split: option.splits if_splits)
    have "GetOutputPortId q tp (q, j) = Inr j"
      using port_id_ok [of 0 j "outputs tp" q] tp(2) by (simp add: GetOutputPortId_def)
    then show ?thesis
      using q tp(1) number_index [OF _ q(2)] assms(1)
      by (simp add: back_edge_def get_proc_def back_spec_def wired_def)
  qed
  then show ?thesis using edge_loop_ok [of "inputs p" "back_edge w" 0 "number_processors ns" "back_spec ns p" "[]"] by simp
qed

lemma direct_loop_ok:
  assumes "wired ns w" and "n \<in> set ns" and "procs w n = Some p"
  shows "edge_loop (direct_edge w) (number_processors ns) (outputs p) 0 [] =
    Inr (map (direct_spec ns p) [0..<length (outputs p)])"
proof -
  have "\<exists>e to. direct_edge w (0 + k) (outputs p ! k) = Inr (e, to) \<and>
      (\<exists>t. number_processors ns to = Some t \<and> direct_spec ns p (0 + k) = e\<lparr>edge_to := t\<rparr>)"
    if k: "k < length (outputs p)" for k
  proof -
    have "wired_out ns w n k" using assms k unfolding wired_def by (metis option.inject)
    then obtain q j inp where q: "input_port (outputs p ! k) = Some (q, j)" "q \<in> set ns"
      "get_in (q, j) w = Inr inp" "in_processor inp = Some q"
      using assms(3) k by (auto simp: wired_out_def get_out_def get_proc_def)
    obtain tp where tp: "procs w q = Some tp" "j < length (inputs tp)"
      using q(3) by (auto simp: get_in_def get_proc_def bnd_eq_Inr of_opt_def split: option.splits if_splits)
    have "GetInputPortId q tp (q, j) = Inr j"
      using port_id_ok [of 0 j "inputs tp" q] tp(2) by (simp add: GetInputPortId_def)
    then show ?thesis
      using q tp(1) number_index [OF _ q(2)] assms(1)
      by (simp add: direct_edge_def get_proc_def direct_spec_def wired_def)
  qed
  then show ?thesis using edge_loop_ok [of "outputs p" "direct_edge w" 0 "number_processors ns" "direct_spec ns p" "[]"] by simp
qed

text \<open>The node of a processor once its edges are there.\<close>

definition node_spec :: "nat list \<Rightarrow> ck_world \<Rightarrow> nat \<Rightarrow> Node" where
  "node_spec ns w i = (let p = the (procs w (ns ! i)) in (Node_new (ns ! i) i)
     \<lparr>back_edges := map (back_spec ns p) [0..<length (inputs p)],
      direct_edges := map (direct_spec ns p) [0..<length (outputs p)]\<rparr>)"

lemma AddEdges_ok:
  assumes "wired ns w" and "i < length ns" and "length nds = length ns" and "nds ! i = Node_new (ns ! i) i"
  shows "\<exists>b. Graph_AddEdges i \<lparr>nodes = nds, processor_map = number_processors ns\<rparr> w =
    Inr (b, \<lparr>nodes = nds[i := node_spec ns w i], processor_map = number_processors ns\<rparr>)"
proof -
  have n: "ns ! i \<in> set ns" using assms(2) by simp
  then obtain p where p: "procs w (ns ! i) = Some p" using assms(1) by (auto simp: wired_def)
  show ?thesis
    using assms(2-4) p back_loop_ok [OF assms(1) n p] direct_loop_ok [OF assms(1) n p]
    by (simp add: Graph_AddEdges_def Let_def Node_new_def get_proc_def node_spec_def)
qed

lemma add_all_edges_ok:
  assumes "wired ns w"
  shows "k \<le> length ns \<Longrightarrow> length nds = length ns \<Longrightarrow>
    (\<forall>i. k \<le> i \<longrightarrow> i < length ns \<longrightarrow> nds ! i = Node_new (ns ! i) i) \<Longrightarrow>
    \<exists>nds'. add_all_edges [k..<length ns] \<lparr>nodes = nds, processor_map = number_processors ns\<rparr> w =
      Inr \<lparr>nodes = nds', processor_map = number_processors ns\<rparr> \<and> length nds' = length ns \<and>
      (\<forall>i < length ns. nds' ! i = (if k \<le> i then node_spec ns w i else nds ! i))"
proof (induction "length ns - k" arbitrary: k nds)
  case 0
  then show ?case by (intro exI [of _ nds]) simp
next
  case (Suc d)
  then have k: "k < length ns" by simp
  let ?nds = "nds[k := node_spec ns w k]"
  have d: "d = length ns - Suc k" using Suc.hyps(2) by simp
  have fresh: "\<forall>i. Suc k \<le> i \<longrightarrow> i < length ns \<longrightarrow> ?nds ! i = Node_new (ns ! i) i"
    using Suc.prems(3) by auto
  obtain b where b: "Graph_AddEdges k \<lparr>nodes = nds, processor_map = number_processors ns\<rparr> w =
      Inr (b, \<lparr>nodes = ?nds, processor_map = number_processors ns\<rparr>)"
    using AddEdges_ok [OF assms k, of nds] Suc.prems k by auto
  obtain nds' where nds': "add_all_edges [Suc k..<length ns] \<lparr>nodes = ?nds, processor_map = number_processors ns\<rparr> w =
      Inr \<lparr>nodes = nds', processor_map = number_processors ns\<rparr>" "length nds' = length ns"
    "\<forall>i < length ns. nds' ! i = (if Suc k \<le> i then node_spec ns w i else ?nds ! i)"
    using Suc.hyps(1) [OF d _ _ fresh] Suc.prems(2) k by (metis Suc_leI length_list_update)
  have "nds' ! i = (if k \<le> i then node_spec ns w i else nds ! i)" if "i < length ns" for i
    using nds'(3) that Suc.prems(2) k by (cases "i = k") auto
  moreover have "[k..<length ns] = k # [Suc k..<length ns]" using k by (rule upt_conv_Cons)
  ultimately show ?case using b nds' by (intro exI [of _ nds']) simp
qed

lemma Graph_new_nodes:
  assumes "wired ns w"
  shows "\<exists>g. Graph_new ns w = Inr g \<and> length (nodes g) = length ns \<and>
    (\<forall>i < length ns. nodes g ! i = node_spec ns w i)"
  using add_all_edges_ok [OF assms, of 0 "map (\<lambda>i. Node_new (ns ! i) i) [0..<length ns]"]
  by (auto simp: Graph_new_def)

text \<open>The back edge of an input port of a closed network leads to the node whose direct edge leads back to it.\<close>

lemma back_edge_mutual:
  assumes w: "wired ns w" and nodes: "\<And>i. i < length ns \<Longrightarrow> nodes g ! i = node_spec ns w i"
    and a: "a < length ns" and p: "procs w (ns ! a) = Some p" and i: "i < length (inputs p)"
  shows "let e = back_edges (nodes g ! a) ! i; b = edge_to e; j = output_port_number e in
    is_reversed e \<and> input_port_number e = i \<and> b < length ns \<and> j < length (direct_edges (nodes g ! b)) \<and>
    direct_edges (nodes g ! b) ! j = \<lparr>edge_to = a, is_reversed = False, input_port_number = i, output_port_number = j\<rparr>"
proof -
  have "ns ! a \<in> set ns" using a by simp
  then have "wired_in ns w (ns ! a) i" using w p i by (auto simp: wired_def)
  then obtain q j out where q: "output_port (inputs p ! i) = Some (q, j)" "q \<in> set ns"
    "get_out (q, j) w = Inr out" "input_port out = Some (ns ! a, i)"
    using p i by (auto simp: wired_in_def get_in_def get_proc_def)
  obtain tp where tp: "procs w q = Some tp" "j < length (outputs tp)" "outputs tp ! j = out"
    using q(3) by (auto simp: get_out_def get_proc_def bnd_eq_Inr of_opt_def split: option.splits if_splits)
  let ?b = "index_of ns q"
  have b: "?b < length ns" "ns ! ?b = q" using index_of_ok [OF q(2)] by auto
  have e: "back_edges (nodes g ! a) ! i = \<lparr>edge_to = ?b, is_reversed = True, input_port_number = i, output_port_number = j\<rparr>"
    using nodes [OF a] p i q(1) by (simp add: node_spec_def back_spec_def)
  have "index_of ns (ns ! a) = a" using index_of_nth [of ns a] a w by (simp add: wired_def)
  then have "direct_edges (nodes g ! ?b) ! j = \<lparr>edge_to = a, is_reversed = False, input_port_number = i, output_port_number = j\<rparr>"
    "j < length (direct_edges (nodes g ! ?b))"
    using nodes [OF b(1)] b(2) tp q(4) by (simp_all add: node_spec_def direct_spec_def)
  then show ?thesis using e b(1) by (simp add: Let_def)
qed

text \<open>C23. On a closed network the graph is built without a fault and is right. There is one node per
  processor, with one back edge per input port and one direct edge per output port; the back edge
  of input port \<open>i\<close> of node \<open>a\<close> leads to a node that has, at the position the edge names, the direct
  edge back to \<open>a\<close> and \<open>i\<close>.\<close>

theorem Graph_edges_mutual:
  assumes "wired ns w"
  shows "\<exists>g. Graph_new ns w = Inr g \<and> length (nodes g) = length ns \<and>
    (\<forall>a < length ns. \<exists>p. procs w (ns ! a) = Some p \<and> nd_processor (nodes g ! a) = Some (ns ! a) \<and>
       length (back_edges (nodes g ! a)) = length (inputs p) \<and>
       length (direct_edges (nodes g ! a)) = length (outputs p) \<and>
       (\<forall>i < length (inputs p). let e = back_edges (nodes g ! a) ! i; b = edge_to e; j = output_port_number e in
          is_reversed e \<and> input_port_number e = i \<and> b < length ns \<and> j < length (direct_edges (nodes g ! b)) \<and>
          direct_edges (nodes g ! b) ! j =
            \<lparr>edge_to = a, is_reversed = False, input_port_number = i, output_port_number = j\<rparr>))"
proof -
  obtain g where g: "Graph_new ns w = Inr g" "length (nodes g) = length ns"
    "\<And>i. i < length ns \<Longrightarrow> nodes g ! i = node_spec ns w i"
    using Graph_new_nodes [OF assms] by blast
  have p: "\<exists>p. procs w (ns ! a) = Some p" if "a < length ns" for a using assms that by (auto simp: wired_def)
  have "nd_processor (nodes g ! a) = Some (ns ! a) \<and> length (back_edges (nodes g ! a)) = length (inputs p) \<and>
      length (direct_edges (nodes g ! a)) = length (outputs p)" if "a < length ns" "procs w (ns ! a) = Some p" for a p
    using g(3) [OF that(1)] that(2) by (simp add: node_spec_def Node_new_def Let_def)
  then show ?thesis using g(1,2) p back_edge_mutual [OF assms g(3)] by meson
qed

text \<open>Two connected processors.\<close>

definition pair_world :: ck_world where
  "pair_world = \<lparr>pworld = \<lparr>pw_heap = Map.empty, pw_states = Map.empty\<rparr>,
     procs = [0 \<mapsto> IProcessor_new 0 [] [(OutputPort_new 0)\<lparr>input_port := Some (1, 0)\<rparr>],
              1 \<mapsto> IProcessor_new 1 [(InputPort_new 0)\<lparr>output_port := Some (0, 0)\<rparr>] []], next_id = 0\<rparr>"

theorem Graph_edges_mutual_witness:
  "\<exists>g. Graph_new [0, 1] pair_world = Inr g \<and> length (nodes g) = 2"
proof -
  have i: "get_in (Suc 0, 0) pair_world = Inr ((InputPort_new 0)\<lparr>output_port := Some (0, 0), in_processor := Some 1\<rparr>)"
    by (simp add: pair_world_def get_in_def get_proc_def IProcessor_new_def)
  have o': "get_out (0, 0) pair_world = Inr ((OutputPort_new 0)\<lparr>input_port := Some (Suc 0, 0), out_processor := Some 0\<rparr>)"
    by (simp add: pair_world_def get_out_def get_proc_def IProcessor_new_def)
  have "wired_in [0, Suc 0] pair_world (Suc 0) 0" unfolding wired_in_def i using o' by simp
  moreover have "wired_out [0, Suc 0] pair_world 0 0" unfolding wired_out_def o' using i by simp
  ultimately have "wired [0, 1] pair_world"
    by (simp add: wired_def) (simp add: pair_world_def IProcessor_new_def)
  then show ?thesis using Graph_edges_mutual [of "[0, 1]" pair_world] by auto
qed

end
