(* ===== verification/Ck_Guard.thy ===== *)
theory Ck_Guard
  imports Prelude
begin

text \<open>
  The two-level guard (\<open>ck_lab/HierarchyGuard.h\<close>): a map of entries, each with a counter and a
  mutex, under one guard mutex. A guard object registers at its entry under the guard mutex, then
  waits for the entry's mutex; its destructor takes the guard mutex again, and the last one at an
  entry erases it. Threads are interleaved by the step relation \<open>guard_step\<close>; the steps happen
  between operations on the two kinds of mutex. The counter is kept as a natural number: it
  counts threads, of which there are fewer than \<open>2^32\<close>.
\<close>

record Entry =
  counter :: nat
  owner :: "nat option"

type_synonym 'k relation = "'k \<rightharpoonup> Entry"

text \<open>\<open>emplace\<close> of an entry with counter 0 unless there is one, then the increment.\<close>

definition BaseGuard_register :: "'k \<Rightarrow> 'k relation \<Rightarrow> 'k relation" where
  "BaseGuard_register low_id rel =
     (let e = (case rel low_id of None \<Rightarrow> \<lparr>counter = 0, owner = None\<rparr> | Some e \<Rightarrow> e)
      in rel(low_id \<mapsto> e\<lparr>counter := counter e + 1\<rparr>))"

definition BaseGuard_lock_entry :: "nat \<Rightarrow> 'k \<Rightarrow> 'k relation \<Rightarrow> 'k relation option" where
  "BaseGuard_lock_entry t low_id rel =
     (case rel low_id of None \<Rightarrow> None
      | Some e \<Rightarrow> if owner e = None then Some (rel(low_id \<mapsto> e\<lparr>owner := Some t\<rparr>)) else None)"

definition BaseGuard_OnNoWaiters :: "'k \<Rightarrow> 'k relation \<Rightarrow> 'k relation" where
  "BaseGuard_OnNoWaiters low_id rel = rel(low_id := None)"

text \<open>\<open>CleanEntries\<close> with the guard mutex held, and the release of the entry's mutex by the destructor
  of \<open>entry_lock_\<close> when the entry stays.\<close>

definition BaseGuard_CleanEntries :: "'k \<Rightarrow> 'k relation \<Rightarrow> 'k relation option" where
  "BaseGuard_CleanEntries low_id rel =
     (case rel low_id of None \<Rightarrow> None
      | Some e \<Rightarrow>
          let e = e\<lparr>counter := counter e - 1\<rparr> in
          if counter e = 0 then Some (BaseGuard_OnNoWaiters low_id rel)
          else Some (rel(low_id \<mapsto> e\<lparr>owner := None\<rparr>)))"

definition GetEntryCount :: "'k \<Rightarrow> 'k relation \<Rightarrow> nat" where
  "GetEntryCount low_id rel = (case rel low_id of None \<Rightarrow> 0 | Some e \<Rightarrow> counter e)"

section \<open>Interleaving\<close>

datatype 'k pc = Outside | Registering 'k | Waiting 'k | Holding 'k | Cleaning 'k

record 'k guard_state =
  rel :: "'k relation"
  guard_owner :: "nat option"
  pcs :: "nat \<Rightarrow> 'k pc"

definition guard_init :: "'k guard_state" where
  "guard_init = \<lparr>rel = Map.empty, guard_owner = None, pcs = (\<lambda>_. Outside)\<rparr>"

inductive guard_step :: "'k guard_state \<Rightarrow> 'k guard_state \<Rightarrow> bool" where
  enter: "pcs s t = Outside \<Longrightarrow> guard_owner s = None \<Longrightarrow>
    guard_step s (s\<lparr>guard_owner := Some t, pcs := (pcs s)(t := Registering k)\<rparr>)"
| register: "pcs s t = Registering k \<Longrightarrow>
    guard_step s (s\<lparr>rel := BaseGuard_register k (rel s), guard_owner := None, pcs := (pcs s)(t := Waiting k)\<rparr>)"
| lock_entry: "pcs s t = Waiting k \<Longrightarrow> BaseGuard_lock_entry t k (rel s) = Some r \<Longrightarrow>
    guard_step s (s\<lparr>rel := r, pcs := (pcs s)(t := Holding k)\<rparr>)"
| lock_guard: "pcs s t = Holding k \<Longrightarrow> guard_owner s = None \<Longrightarrow>
    guard_step s (s\<lparr>guard_owner := Some t, pcs := (pcs s)(t := Cleaning k)\<rparr>)"
| clean: "pcs s t = Cleaning k \<Longrightarrow> BaseGuard_CleanEntries k (rel s) = Some r \<Longrightarrow>
    guard_step s (s\<lparr>rel := r, guard_owner := None, pcs := (pcs s)(t := Outside)\<rparr>)"

inductive guard_reachable :: "'k guard_state \<Rightarrow> bool" where
  init: "guard_reachable guard_init"
| step: "guard_reachable s \<Longrightarrow> guard_step s s' \<Longrightarrow> guard_reachable s'"

section \<open>The invariant\<close>

text \<open>The threads registered at an entry, and those that own its mutex.\<close>

fun at_entry :: "'k \<Rightarrow> 'k pc \<Rightarrow> bool" where
  "at_entry k (Waiting j) = (j = k)"
| "at_entry k (Holding j) = (j = k)"
| "at_entry k (Cleaning j) = (j = k)"
| "at_entry k p = False"

fun owns_entry :: "'k \<Rightarrow> 'k pc \<Rightarrow> bool" where
  "owns_entry k (Holding j) = (j = k)"
| "owns_entry k (Cleaning j) = (j = k)"
| "owns_entry k p = False"

fun owns_guard :: "'k pc \<Rightarrow> bool" where
  "owns_guard (Registering j) = True"
| "owns_guard (Cleaning j) = True"
| "owns_guard p = False"

definition users :: "'k guard_state \<Rightarrow> 'k \<Rightarrow> nat set" where
  "users s k = {t. at_entry k (pcs s t)}"

definition holders :: "'k guard_state \<Rightarrow> 'k \<Rightarrow> nat set" where
  "holders s k = {t. owns_entry k (pcs s t)}"

definition entry_ok :: "'k guard_state \<Rightarrow> 'k \<Rightarrow> bool" where
  "entry_ok s k \<longleftrightarrow> finite (users s k) \<and>
     (case rel s k of None \<Rightarrow> users s k = {}
      | Some e \<Rightarrow> counter e = card (users s k) \<and> users s k \<noteq> {} \<and>
          holders s k = (case owner e of None \<Rightarrow> {} | Some t \<Rightarrow> {t}))"

definition guard_ok :: "'k guard_state \<Rightarrow> bool" where
  "guard_ok s \<longleftrightarrow> (\<forall>t. owns_guard (pcs s t) \<longrightarrow> guard_owner s = Some t)"

lemma Collect_upd:
  "{t. P ((f(x := p)) t)} = (if P p then insert x {t. P (f t)} else {t. P (f t)} - {x})"
  by auto

lemma users_upd:
  "users (s\<lparr>pcs := (pcs s)(t := p)\<rparr>) k = (if at_entry k p then insert t (users s k) else users s k - {t})"
  "holders (s\<lparr>pcs := (pcs s)(t := p)\<rparr>) k = (if owns_entry k p then insert t (holders s k) else holders s k - {t})"
  "users (s\<lparr>rel := r\<rparr>) k = users s k" "holders (s\<lparr>rel := r\<rparr>) k = holders s k"
  "users (s\<lparr>guard_owner := g\<rparr>) k = users s k" "holders (s\<lparr>guard_owner := g\<rparr>) k = holders s k"
  unfolding users_def holders_def by (auto simp: Collect_upd)

lemma users_mem:
  "t \<in> users s k \<longleftrightarrow> at_entry k (pcs s t)" "t \<in> holders s k \<longleftrightarrow> owns_entry k (pcs s t)"
  by (simp_all add: users_def holders_def)

lemma owns_at: "owns_entry k p \<Longrightarrow> at_entry k p"
  by (cases p) auto

lemma holders_users: "holders s k \<subseteq> users s k"
  using owns_at by (auto simp: holders_def users_def)

lemma entry_ok_other:
  assumes "entry_ok s k" and "rel s' k = rel s k" and "users s' k = users s k" and "holders s' k = holders s k"
  shows "entry_ok s' k"
  using assms(1) unfolding entry_ok_def assms(2,3,4) .

lemma entry_ok_register:
  assumes "pcs s t = Registering k" and ok: "entry_ok s j"
  shows "entry_ok (s\<lparr>rel := BaseGuard_register k (rel s), guard_owner := None, pcs := (pcs s)(t := Waiting k)\<rparr>) j"
    (is "entry_ok ?s j")
proof (cases "j = k")
  case True
  have t: "t \<notin> users s k" "t \<notin> holders s k" using assms(1) by (simp_all add: users_mem)
  have u: "users ?s k = insert t (users s k)" "holders ?s k = holders s k"
    using t(2) users_upd(1,2) [of "s\<lparr>rel := BaseGuard_register k (rel s), guard_owner := None\<rparr>" t "Waiting k" k]
    by (simp_all add: users_upd)
  have fin: "finite (users s k)" using ok True by (simp add: entry_ok_def)
  show ?thesis
  proof (cases "rel s k")
    case None
    then have "users s k = {}" "holders s k = {}" using ok True holders_users [of s k] by (auto simp: entry_ok_def)
    then show ?thesis using None True u by (simp add: entry_ok_def BaseGuard_register_def)
  next
    case (Some e)
    then show ?thesis
      using ok True u fin t by (simp add: entry_ok_def BaseGuard_register_def)
  qed
next
  case False
  have "t \<notin> users s j" "t \<notin> holders s j" using assms(1) by (simp_all add: users_mem)
  then show ?thesis
    using False users_upd(1,2) [of "s\<lparr>rel := BaseGuard_register k (rel s), guard_owner := None\<rparr>" t "Waiting k" j]
    by - (rule entry_ok_other [OF ok], simp_all add: users_upd BaseGuard_register_def Let_def)
qed

lemma entry_ok_lock:
  assumes "pcs s t = Waiting k" and "BaseGuard_lock_entry t k (rel s) = Some r" and ok: "entry_ok s j"
  shows "entry_ok (s\<lparr>rel := r, pcs := (pcs s)(t := Holding k)\<rparr>) j" (is "entry_ok ?s j")
proof -
  obtain e where e: "rel s k = Some e" "owner e = None" "r = (rel s)(k \<mapsto> e\<lparr>owner := Some t\<rparr>)"
    using assms(2) by (auto simp: BaseGuard_lock_entry_def split: option.splits if_splits)
  have u: "users ?s j = users s j" "holders ?s j = (if j = k then insert t (holders s j) else holders s j)"
    using assms(1) users_upd(1,2) [of "s\<lparr>rel := r\<rparr>" t "Holding k" j]
    by (auto simp: users_upd users_mem insert_absorb)
  show ?thesis
  proof (cases "j = k")
    case True
    then show ?thesis using ok e u by (simp add: entry_ok_def)
  next
    case False
    then show ?thesis using u e by - (rule entry_ok_other [OF ok], simp_all)
  qed
qed

lemma entry_ok_clean:
  assumes "pcs s t = Cleaning k" and "BaseGuard_CleanEntries k (rel s) = Some r" and ok: "entry_ok s j"
  shows "entry_ok (s\<lparr>rel := r, guard_owner := None, pcs := (pcs s)(t := Outside)\<rparr>) j" (is "entry_ok ?s j")
proof -
  obtain e where e: "rel s k = Some e"
      "r = (if counter e - 1 = 0 then (rel s)(k := None)
            else (rel s)(k \<mapsto> e\<lparr>counter := counter e - 1, owner := None\<rparr>))"
    using assms(2) by (auto simp: BaseGuard_CleanEntries_def BaseGuard_OnNoWaiters_def Let_def split: option.splits if_splits)
  have u: "users ?s j = users s j - {t}" "holders ?s j = holders s j - {t}"
    using users_upd(1,2) [of "s\<lparr>rel := r, guard_owner := None\<rparr>" t Outside j] by (simp_all add: users_upd)
  show ?thesis
  proof (cases "j = k")
    case True
    have t: "t \<in> users s k" "t \<in> holders s k" using assms(1) by (simp_all add: users_mem)
    have own: "holders s k = {t}" using ok True e(1) t(2) by (auto simp: entry_ok_def split: option.splits)
    have c: "counter e = card (users s k)" "finite (users s k)" using ok True e(1) by (auto simp: entry_ok_def)
    have cnt: "counter e - 1 = card (users s k - {t})" using c t(1) by (simp add: card_Diff_singleton)
    have empty: "card (users s k - {t}) = 0 \<longleftrightarrow> users s k - {t} = {}"
      using c(2) by (intro card_0_eq) simp
    have rk: "rel ?s k = (if users s k - {t} = {} then None
        else Some (e\<lparr>counter := card (users s k - {t}), owner := None\<rparr>))"
      unfolding e(2) cnt empty by simp
    have uk: "users ?s k = users s k - {t}" "holders ?s k = {}" using u own True by auto
    show ?thesis
      unfolding True entry_ok_def rk uk using c(2) by simp
  next
    case False
    have "t \<notin> users s j" "t \<notin> holders s j" using assms(1) False by (simp_all add: users_mem)
    then show ?thesis using u e False by - (rule entry_ok_other [OF ok], simp_all)
  qed
qed

lemma entry_ok_step:
  assumes "guard_step s s'" and "entry_ok s j"
  shows "entry_ok s' j"
  using assms
proof (induction rule: guard_step.induct)
  case (enter s t k)
  then show ?case
    using users_upd(1,2) [of "s\<lparr>guard_owner := Some t\<rparr>" t "Registering k" j]
    by - (rule entry_ok_other [of s j], simp_all add: users_upd users_mem)
next
  case (register s t k)
  then show ?case by (rule entry_ok_register)
next
  case (lock_entry s t k r)
  then show ?case by (rule entry_ok_lock)
next
  case (lock_guard s t k)
  then show ?case
    using users_upd(1,2) [of "s\<lparr>guard_owner := Some t\<rparr>" t "Cleaning k" j]
    by - (rule entry_ok_other [of s j]; auto simp: users_upd users_mem insert_absorb)
next
  case (clean s t k r)
  then show ?case by (rule entry_ok_clean)
qed

lemma guard_ok_step:
  assumes "guard_step s s'" and "guard_ok s"
  shows "guard_ok s'"
  using assms
proof (induction rule: guard_step.induct)
  case (register s t k)
  then have "guard_owner s = Some t" by (auto simp: guard_ok_def)
  then show ?case using register(2) by (auto simp: guard_ok_def)
next
  case (clean s t k r)
  then have "guard_owner s = Some t" by (auto simp: guard_ok_def)
  then show ?case using clean(3) by (auto simp: guard_ok_def)
qed (auto simp: guard_ok_def)

lemma guard_reachable_inv:
  assumes "guard_reachable s"
  shows "guard_ok s \<and> (\<forall>k. entry_ok s k)"
  using assms
proof (induction rule: guard_reachable.induct)
  case init
  then show ?case by (simp add: guard_ok_def entry_ok_def guard_init_def users_def)
next
  case (step s s')
  have "guard_ok s'" using step.hyps(2) step.IH guard_ok_step by blast
  moreover have "entry_ok s' k" for k using step.hyps(2) entry_ok_step [of s s' k] step.IH by blast
  ultimately show ?case by blast
qed

text \<open>C29. In every interleaving of threads that create and destroy guards: at most one thread holds the
  mutex of an entry, at most one is registering or cleaning, the counter of an entry is the number
  of threads that wait for it or hold it, and a thread that is registered at an entry finds it
  there, so that no thread waits on the mutex of an erased entry.\<close>

theorem guard_exclusion:
  assumes "guard_reachable s"
  shows "(owns_entry k (pcs s t) \<longrightarrow> owns_entry k (pcs s u) \<longrightarrow> t = u) \<and>
    (owns_guard (pcs s t) \<longrightarrow> owns_guard (pcs s u) \<longrightarrow> t = u) \<and>
    GetEntryCount k (rel s) = card {t. at_entry k (pcs s t)} \<and> (at_entry k (pcs s t) \<longrightarrow> rel s k \<noteq> None)"
proof -
  have g: "guard_ok s" and e: "entry_ok s k" using guard_reachable_inv [OF assms] by auto
  have "t = u" if "t \<in> holders s k" "u \<in> holders s k"
  proof (cases "rel s k")
    case None
    then show ?thesis using e that holders_users [of s k] by (auto simp: entry_ok_def)
  next
    case (Some x)
    then show ?thesis using e that by (cases "owner x") (auto simp: entry_ok_def)
  qed
  moreover have "t = u" if "owns_guard (pcs s t)" "owns_guard (pcs s u)"
    using g that unfolding guard_ok_def by (metis option.inject)
  moreover have "GetEntryCount k (rel s) = card (users s k)"
    using e by (auto simp: entry_ok_def GetEntryCount_def split: option.splits)
  moreover have "t \<in> users s k \<longrightarrow> rel s k \<noteq> None"
    using e by (auto simp: entry_ok_def split: option.splits)
  ultimately show ?thesis by (simp add: users_def holders_def)
qed

theorem guard_exclusion_witness:
  "\<exists>s :: nat guard_state. guard_reachable s \<and> GetEntryCount 7 (rel s) = 1 \<and> pcs s 0 = Waiting 7"
proof -
  let ?a = "guard_init\<lparr>guard_owner := Some 0, pcs := (pcs guard_init)(0 := Registering 7)\<rparr> :: nat guard_state"
  let ?b = "?a\<lparr>rel := BaseGuard_register 7 (rel ?a), guard_owner := None, pcs := (pcs ?a)(0 := Waiting 7)\<rparr>"
  have "guard_step guard_init ?a" by (rule guard_step.enter) (simp_all add: guard_init_def)
  moreover have "guard_step ?a ?b" by (rule guard_step.register) simp
  ultimately have r: "guard_reachable ?b" by (blast intro: guard_reachable.intros)
  have u: "{t. at_entry 7 (pcs ?b t)} = {0}" by (auto simp: guard_init_def)
  then show ?thesis using r guard_exclusion [OF r, of 7 0 0] by (intro exI [of _ ?b]) simp
qed

end
