(* ===== verification/Rk_Fields.thy ===== *)
theory Rk_Fields
  imports Db_Schema "HOL-Library.Char_ord" "HOL-Library.List_Lexorder"
begin

text \<open>
  Typed fields of the document store (\<open>rocksdb_lab/fields.h\<close>) and the byte serialisation of
  numbers (\<open>rocksdb_lab/utils.h\<close>). A \<open>long\<close> is its 64-bit word, a \<open>float\<close> its 32-bit pattern. The
  value of a field that was never set is undefined, hence an option.
\<close>

section \<open>Serializer\<close>

text \<open>The object representation of an arithmetic value of \<open>n\<close> bytes, least significant byte first.\<close>

fun le_bytes :: "nat \<Rightarrow> nat \<Rightarrow> byte list" where
  "le_bytes 0 v = []"
| "le_bytes (Suc n) v = word_of_nat v # le_bytes n (v div 256)"

fun bytes_val :: "byte list \<Rightarrow> nat" where
  "bytes_val [] = 0"
| "bytes_val (b # bs) = unat b + 256 * bytes_val bs"

definition SwapEndian :: "nat \<Rightarrow> nat \<Rightarrow> nat" where
  "SwapEndian n v = bytes_val (rev (le_bytes n v))"

definition Serialize_num :: "nat \<Rightarrow> nat \<Rightarrow> byte list \<Rightarrow> byte list" where
  "Serialize_num n v data = data @ le_bytes n (SwapEndian n v)"

definition Deserialize_num :: "nat \<Rightarrow> byte list \<Rightarrow> nat outcome" where
  "Deserialize_num n data =
     (if length data < n then Inl OutOfBounds else Inr (SwapEndian n (bytes_val (take n data))))"

definition Serialize_string :: "string \<Rightarrow> byte list \<Rightarrow> byte list" where
  "Serialize_string v data = data @ map byte_of_char v"

definition Deserialize_string :: "byte list \<Rightarrow> string \<Rightarrow> string" where
  "Deserialize_string data v = v @ map char_of_byte data"

text \<open>\<open>SerializeFieldMeta\<close> and its inverse: type, length and name, the length in one byte.\<close>

definition SerializeFieldMeta :: "u8 \<Rightarrow> string \<Rightarrow> byte list \<Rightarrow> byte list" where
  "SerializeFieldMeta type_value n data =
     (let sz = (word_of_nat (length n) :: u8);
          data = Serialize_num 1 (unat type_value) data;
          data = Serialize_num 1 (unat sz) data
      in data @ map byte_of_char (take (unat sz) n))"

definition DeserializeFieldMeta :: "byte list \<Rightarrow> (u8 \<times> string) outcome" where
  "DeserializeFieldMeta data =
     (if length data < 2 \<or> length data < 2 + unat (data ! 1) then Inl OutOfBounds
      else Inr (data ! 0, map char_of_byte (take (unat (data ! 1)) (drop 2 data))))"

section \<open>TypedField\<close>

record 'v TypedField =
  name :: string
  fixed :: bool
  initialized :: bool
  readonly :: bool
  required :: bool
  uniq :: bool
  val :: "'v option"

definition TypedField_new :: "string \<Rightarrow> 'v TypedField" where
  "TypedField_new n = \<lparr>name = n, fixed = False, initialized = False, readonly = False, required = False,
     uniq = False, val = None\<rparr>"

text \<open>The three setters are declared to return a reference and have no return statement; what is modelled
  is the assignment they make.\<close>

definition SetReadonly :: "bool \<Rightarrow> 'v TypedField \<Rightarrow> 'v TypedField" where "SetReadonly ro f = f\<lparr>readonly := ro\<rparr>"
definition SetRequired :: "bool \<Rightarrow> 'v TypedField \<Rightarrow> 'v TypedField" where "SetRequired req f = f\<lparr>required := req\<rparr>"
definition SetUnique :: "bool \<Rightarrow> 'v TypedField \<Rightarrow> 'v TypedField" where "SetUnique uni f = f\<lparr>uniq := uni\<rparr>"
definition HasValue :: "'v TypedField \<Rightarrow> bool" where "HasValue f = initialized f"
definition HasBuilt :: "'v TypedField \<Rightarrow> bool" where "HasBuilt f = fixed f"

definition TypedField_Build :: "'v TypedField \<Rightarrow> 'v TypedField outcome" where
  "TypedField_Build f = bnd (guard AssertFailed (HasValue f)) (\<lambda>_. Inr (f\<lparr>fixed := True\<rparr>))"

definition SetValue :: "'v \<Rightarrow> 'v TypedField \<Rightarrow> bool \<times> 'v TypedField" where
  "SetValue v f =
     (if HasBuilt f \<and> readonly f then (False, f) else (True, f\<lparr>initialized := True, val := Some v\<rparr>))"

definition GetValue :: "'v TypedField \<Rightarrow> 'v outcome" where
  "GetValue f = of_opt Uninitialised (val f)"

text \<open>\<open>ToMap\<close> in the order of the keys of the map, and \<open>Dump\<close>.\<close>

definition TypedField_ToMap :: "string \<Rightarrow> 'v TypedField \<Rightarrow> (string \<times> string) list" where
  "TypedField_ToMap dump_value f =
     [(''REQURIED'', if required f then ''REQURIED'' else ''''), (''RO'', if readonly f then ''RO'' else ''''),
      (''UNIQUE'', if uniq f then ''UNIQUE'' else ''''), (''VALUE'', dump_value)]"

definition TypedField_Dump :: "string \<Rightarrow> string \<Rightarrow> 'v TypedField \<Rightarrow> string" where
  "TypedField_Dump type_name dump_value f =
     ''<'' @ type_name @ ''field '' @ [CHR 0x27] @ name f @ [CHR 0x27] @ ''>'' @ [CHR 0x0A] @
     concat (map (\<lambda>(k, v). if v = '''' then '''' else ''  '' @ k @ '': '' @ v @ [CHR 0x0A])
       (TypedField_ToMap dump_value f))"

section \<open>Mixins\<close>

record LengthMixin =
  lm_fixed :: bool
  max_length :: int
  min_length :: int

definition MAX_LENGTH :: int where "MAX_LENGTH = 1024"

definition LengthMixin_default :: LengthMixin where
  "LengthMixin_default = \<lparr>lm_fixed = False, max_length = MAX_LENGTH, min_length = 0\<rparr>"

definition SetMaxLength :: "int \<Rightarrow> LengthMixin \<Rightarrow> bool \<times> LengthMixin" where
  "SetMaxLength len m =
     (if lm_fixed m then (False, m)
      else if len < 0 \<or> len < min_length m \<or> MAX_LENGTH < len then (False, m)
      else (True, m\<lparr>max_length := len\<rparr>))"

definition SetMinLength :: "int \<Rightarrow> LengthMixin \<Rightarrow> bool \<times> LengthMixin" where
  "SetMinLength len m =
     (if lm_fixed m then (False, m)
      else if len < 0 \<or> max_length m < len then (False, m)
      else (True, m\<lparr>min_length := len\<rparr>))"

definition LengthMixin_Validate :: "nat \<Rightarrow> LengthMixin \<Rightarrow> bool" where
  "LengthMixin_Validate sz m \<longleftrightarrow> min_length m \<le> int sz \<and> int sz \<le> max_length m"

definition LengthMixin_Build :: "LengthMixin \<Rightarrow> LengthMixin" where
  "LengthMixin_Build m = m\<lparr>lm_fixed := True\<rparr>"

text \<open>\<open>MinMaxMixin\<close> over the comparison of the value type: \<open>lt\<close> is \<open><\<close> and \<open>le\<close> is \<open><=\<close>.\<close>

record 'v MinMaxMixin =
  mm_fixed :: bool
  max_v :: 'v
  min_v :: 'v

definition SetMinLimit :: "('v \<Rightarrow> 'v \<Rightarrow> bool) \<Rightarrow> 'v \<Rightarrow> 'v MinMaxMixin \<Rightarrow> bool \<times> 'v MinMaxMixin" where
  "SetMinLimit lt v m =
     (if mm_fixed m then (False, m) else if lt (max_v m) v then (False, m) else (True, m\<lparr>min_v := v\<rparr>))"

definition SetMaxLimit :: "('v \<Rightarrow> 'v \<Rightarrow> bool) \<Rightarrow> 'v \<Rightarrow> 'v MinMaxMixin \<Rightarrow> bool \<times> 'v MinMaxMixin" where
  "SetMaxLimit lt v m =
     (if mm_fixed m then (False, m) else if lt v (min_v m) then (False, m) else (True, m\<lparr>max_v := v\<rparr>))"

definition MinMaxMixin_Validate :: "('v \<Rightarrow> 'v \<Rightarrow> bool) \<Rightarrow> 'v \<Rightarrow> 'v MinMaxMixin \<Rightarrow> bool" where
  "MinMaxMixin_Validate le v m \<longleftrightarrow> le (min_v m) v \<and> le v (max_v m)"

definition MinMaxMixin_Build :: "'v MinMaxMixin \<Rightarrow> 'v MinMaxMixin" where
  "MinMaxMixin_Build m = m\<lparr>mm_fixed := True\<rparr>"

section \<open>Field classes\<close>

text \<open>Comparison of the value types; a float pattern with its sign bit cleared is ordered like an
  integer, and nothing compares with a NaN.\<close>

type_synonym long = "64 word"
type_synonym float32 = "32 word"

definition long_lt :: "long \<Rightarrow> long \<Rightarrow> bool" where "long_lt a b \<longleftrightarrow> sint a < sint b"
definition long_le :: "long \<Rightarrow> long \<Rightarrow> bool" where "long_le a b \<longleftrightarrow> sint a \<le> sint b"

definition float_key :: "float32 \<Rightarrow> int" where
  "float_key f = (if 2 ^ 31 \<le> uint f then - (uint f - 2 ^ 31) else uint f)"
definition float_nan :: "float32 \<Rightarrow> bool" where "float_nan f \<longleftrightarrow> 0x7F800000 < \<bar>float_key f\<bar>"
definition float_lt :: "float32 \<Rightarrow> float32 \<Rightarrow> bool" where
  "float_lt a b \<longleftrightarrow> \<not> float_nan a \<and> \<not> float_nan b \<and> float_key a < float_key b"
definition float_le :: "float32 \<Rightarrow> float32 \<Rightarrow> bool" where
  "float_le a b \<longleftrightarrow> \<not> float_nan a \<and> \<not> float_nan b \<and> float_key a \<le> float_key b"

text \<open>A field with its mixin.\<close>

record 'v NumericField =
  nf :: "'v TypedField"
  nf_mix :: "'v MinMaxMixin"

record 'v LengthField =
  lf :: "'v TypedField"
  lf_mix :: LengthMixin

definition LongField_new :: "string \<Rightarrow> long NumericField" where
  "LongField_new n = \<lparr>nf = TypedField_new n, nf_mix = \<lparr>mm_fixed = False, max_v = 0x7FFFFFFFFFFFFFFF, min_v = 0x8000000000000000\<rparr>\<rparr>"

text \<open>\<open>std::numeric_limits<float>::min()\<close> is the smallest positive normal number.\<close>

definition FloatField_new :: "string \<Rightarrow> float32 NumericField" where
  "FloatField_new n = \<lparr>nf = TypedField_new n, nf_mix = \<lparr>mm_fixed = False, max_v = 0x7F7FFFFF, min_v = 0x00800000\<rparr>\<rparr>"

definition StringField_new :: "string \<Rightarrow> string LengthField" where
  "StringField_new n = \<lparr>lf = TypedField_new n, lf_mix = LengthMixin_default\<rparr>"

definition FloatVectorField_new :: "string \<Rightarrow> float32 list LengthField" where
  "FloatVectorField_new n = \<lparr>lf = TypedField_new n, lf_mix = LengthMixin_default\<rparr>"

definition NumericField_Validate :: "('v \<Rightarrow> 'v \<Rightarrow> bool) \<Rightarrow> 'v NumericField \<Rightarrow> bool outcome" where
  "NumericField_Validate le f = bnd (GetValue (nf f)) (\<lambda>v. Inr (MinMaxMixin_Validate le v (nf_mix f)))"

definition LengthField_Validate :: "('v \<Rightarrow> nat) \<Rightarrow> 'v LengthField \<Rightarrow> bool outcome" where
  "LengthField_Validate len f = bnd (GetValue (lf f)) (\<lambda>v. Inr (LengthMixin_Validate (len v) (lf_mix f)))"

definition NumericField_Build :: "'v NumericField \<Rightarrow> 'v NumericField outcome" where
  "NumericField_Build f = bnd (TypedField_Build (nf f)) (\<lambda>b. Inr \<lparr>nf = b, nf_mix = MinMaxMixin_Build (nf_mix f)\<rparr>)"

definition LengthField_Build :: "'v LengthField \<Rightarrow> 'v LengthField outcome" where
  "LengthField_Build f = bnd (TypedField_Build (lf f)) (\<lambda>b. Inr \<lparr>lf = b, lf_mix = LengthMixin_Build (lf_mix f)\<rparr>)"

definition LongField_Serialize :: "long NumericField \<Rightarrow> byte list outcome" where
  "LongField_Serialize f = bnd (GetValue (nf f)) (\<lambda>v. Inr (Serialize_num 8 (unat v) []))"

definition FloatField_Serialize :: "float32 NumericField \<Rightarrow> byte list outcome" where
  "FloatField_Serialize f = bnd (GetValue (nf f)) (\<lambda>v. Inr (Serialize_num 4 (unat v) []))"

definition StringField_Serialize :: "string LengthField \<Rightarrow> byte list outcome" where
  "StringField_Serialize f = bnd (GetValue (lf f)) (\<lambda>v. Inr (map byte_of_char v))"

text \<open>A vector is appended as it lies in memory, least significant byte first.\<close>

definition FloatVectorField_Serialize :: "float32 list LengthField \<Rightarrow> byte list outcome" where
  "FloatVectorField_Serialize f = bnd (GetValue (lf f)) (\<lambda>v. Inr (concat (map (\<lambda>x. le_bytes 4 (unat x)) v)))"

definition LongFieldType :: u8 where "LongFieldType = 1"
definition FloatFieldType :: u8 where "FloatFieldType = 2"
definition StringFieldType :: u8 where "StringFieldType = 3"
definition FloatVectorFieldType :: u8 where "FloatVectorFieldType = 4"
definition BooleanFieldType :: u8 where "BooleanFieldType = 5"

section \<open>Bytes of numbers\<close>

lemma length_le_bytes [simp]: "length (le_bytes n v) = n"
  by (induction n arbitrary: v) auto

lemma byte_less: "unat (b :: byte) < 256"
proof -
  have "unat b < 2 ^ LENGTH(8)" by (rule unsigned_less)
  then show ?thesis by simp
qed

lemma unat_byte: "unat (word_of_nat v :: byte) = v mod 256"
  by (simp add: unat_of_nat)

lemma bytes_val_le_bytes: "bytes_val (le_bytes n v) = v mod 256 ^ n"
proof (induction n arbitrary: v)
  case 0
  then show ?case by simp
next
  case (Suc n)
  have "v mod 256 ^ Suc n = v mod 256 + 256 * (v div 256 mod 256 ^ n)"
    by (simp add: mod_mult2_eq)
  then show ?case using Suc by (simp add: unat_byte)
qed

lemma le_bytes_bytes_val: "le_bytes (length bs) (bytes_val bs) = bs"
proof (induction bs)
  case (Cons b bs)
  have "(word_of_nat (unat b + 256 * bytes_val bs) :: byte) = b"
    unfolding word_unat_eq_iff unat_byte using byte_less [of b] by simp
  moreover have "(unat b + 256 * bytes_val bs) div 256 = bytes_val bs"
    using byte_less [of b] by simp
  ultimately show ?case using Cons by simp
qed simp

lemma bytes_val_bound: "bytes_val bs < 256 ^ length bs"
proof (induction bs)
  case (Cons b bs)
  have "unat b < 256" using byte_less [of b] by simp
  then show ?case using Cons by simp
qed simp

lemma Serialize_num_bytes: "Serialize_num n v data = data @ rev (le_bytes n v)"
  using le_bytes_bytes_val [of "rev (le_bytes n v)"] by (simp add: Serialize_num_def SwapEndian_def)

lemma Deserialize_Serialize_num:
  assumes "v < 256 ^ n"
  shows "Deserialize_num n (Serialize_num n v [] @ rest) = Inr v"
proof -
  let ?b = "rev (le_bytes n v)"
  have "le_bytes n (bytes_val ?b) = ?b" using le_bytes_bytes_val [of ?b] by simp
  then have "SwapEndian n (bytes_val ?b) = v"
    using assms by (simp add: SwapEndian_def bytes_val_le_bytes)
  then show ?thesis by (simp add: Deserialize_num_def Serialize_num_bytes)
qed

text \<open>Comparing the most significant byte first.\<close>

lemma be_less:
  assumes "length as = length bs"
  shows "(bytes_val (rev as) < bytes_val (rev bs)) = (as < bs)"
  using assms
proof (induction as bs rule: list_induct2)
  case Nil
  then show ?case by simp
next
  case (Cons a as b bs)
  have app: "bytes_val (xs @ [y]) = bytes_val xs + 256 ^ length xs * unat y" for xs and y :: byte
    by (induction xs) (simp_all add: algebra_simps)
  have ub: "bytes_val (rev as) < 256 ^ length bs" "bytes_val (rev bs) < 256 ^ length bs"
    using bytes_val_bound [of "rev as"] bytes_val_bound [of "rev bs"] Cons.hyps by simp_all
  consider "unat a < unat b" | "unat b < unat a" | "a = b" by (metis linorder_neqE_nat word_unat_eq_iff)
  then show ?case
  proof cases
    case 1
    then have "256 ^ length bs * unat a + 256 ^ length bs \<le> 256 ^ length bs * unat b"
      by (metis Suc_leI mult.commute mult_Suc_right mult_le_mono2 add.commute)
    then show ?thesis using 1 ub Cons.hyps by (simp add: app word_less_nat_alt)
  next
    case 2
    then have "256 ^ length bs * unat b + 256 ^ length bs \<le> 256 ^ length bs * unat a"
      by (metis Suc_leI mult.commute mult_Suc_right mult_le_mono2 add.commute)
    moreover have "\<not> a # as < b # bs" using 2 by (simp add: word_less_nat_alt word_unat_eq_iff)
    ultimately show ?thesis using ub Cons.hyps by (simp add: app)
  next
    case 3
    then show ?thesis using Cons by (simp add: app)
  qed
qed

text \<open>Numbers are stored most significant byte first. Deserialising gives the number back, whatever
  follows it, and the byte strings of two numbers of the same width compare, byte by byte from the
  left, as the unsigned numbers do; so a negative \<open>long\<close> sorts behind every positive one.\<close>

theorem Serializer_order:
  assumes "v < 256 ^ n" and "w < 256 ^ n"
  shows "Deserialize_num n (Serialize_num n v [] @ rest) = Inr v \<and>
    (Serialize_num n v [] < Serialize_num n w [] \<longleftrightarrow> v < w) \<and>
    Serialize_num 8 1 [] < Serialize_num 8 (unat (-1 :: long)) []"
proof -
  have less: "Serialize_num k a [] < Serialize_num k b [] \<longleftrightarrow> a < b" if "a < 256 ^ k" "b < 256 ^ k" for k a b
    using be_less [of "rev (le_bytes k a)" "rev (le_bytes k b)"] that
    by (simp add: Serialize_num_bytes bytes_val_le_bytes)
  have m: "unat (-1 :: long) = 2 ^ 64 - 1" by (simp add: unsigned_minus_1_eq_mask mask_eq_exp_minus_1)
  have "Serialize_num 8 1 [] < Serialize_num 8 (unat (-1 :: long)) []"
    unfolding m by (subst less) simp_all
  then show ?thesis using Deserialize_Serialize_num [OF assms(1)] less [OF assms] by blast
qed

theorem Serializer_order_witness:
  "Deserialize_num 8 (Serialize_num 8 1000 [] @ []) = Inr 1000 \<and> Serialize_num 8 1000 [] < Serialize_num 8 2000 []"
  using Serializer_order [of 1000 8 2000 "[]"] by simp

end
