(* ===== verification/Ordered_Map.thy ===== *)
theory Ordered_Map
  imports Main
begin

text \<open>
  A \<open>std::map\<close> as the list of its pairs in increasing order of the keys, which is also the order of
  iteration: assignment through \<open>operator[]\<close>, \<open>erase\<close>, and the facts the components use. Lookup is \<open>map_of\<close>.
\<close>

text \<open>\<open>m[k] = v\<close>.\<close>

fun map_put :: "'k::linorder \<Rightarrow> 'v \<Rightarrow> ('k \<times> 'v) list \<Rightarrow> ('k \<times> 'v) list" where
  "map_put k v [] = [(k, v)]"
| "map_put k v ((k', v') # xs) =
     (if k < k' then (k, v) # (k', v') # xs else if k = k' then (k, v) # xs else (k', v') # map_put k v xs)"

text \<open>\<open>m.erase(k)\<close>.\<close>

definition map_erase :: "'k \<Rightarrow> ('k \<times> 'v) list \<Rightarrow> ('k \<times> 'v) list" where
  "map_erase k m = filter (\<lambda>kv. fst kv \<noteq> k) m"

section \<open>Facts\<close>

abbreviation ordered :: "('k::linorder \<times> 'v) list \<Rightarrow> bool" where
  "ordered m \<equiv> sorted_wrt (<) (map fst m)"

lemma keys_map_put: "fst ` set (map_put k v m) = insert k (fst ` set m)"
  by (induction k v m rule: map_put.induct) (simp_all add: insert_commute)

lemma ordered_map_put: "ordered m \<Longrightarrow> ordered (map_put k v m)"
proof (induction m)
  case (Cons kv m)
  have below: "\<forall>x \<in> fst ` set m. fst kv < x" using Cons.prems by auto
  then have "\<forall>x \<in> fst ` set (map_put k v m). fst kv < k \<longrightarrow> fst kv < x" by (simp add: keys_map_put)
  then show ?case using Cons below by (cases kv) (fastforce dest: order.strict_trans)
qed simp

lemma ordered_map_of_head:
  assumes "ordered ((k', v') # m)" and "k < k'"
  shows "map_of m k = None"
  using assms by (force simp: map_of_eq_None_iff)

lemma map_of_map_put: "ordered m \<Longrightarrow> map_of (map_put k v m) = (map_of m)(k \<mapsto> v)"
proof (induction m)
  case (Cons kv m)
  then show ?case by (cases kv) (auto simp: fun_eq_iff)
qed simp

lemma map_put_last: "\<forall>k' \<in> fst ` set m. k' < k \<Longrightarrow> map_put k v m = m @ [(k, v)]"
  by (induction m) (auto simp: order.asym)

lemma ordered_distinct: "ordered m \<Longrightarrow> distinct (map fst m)"
  by (simp add: strict_sorted_iff)

lemma length_map_put: "map_of m k = None \<Longrightarrow> length (map_put k v m) = Suc (length m)"
  by (induction m) (auto split: if_splits)

lemma map_of_map_erase [simp]: "map_of (map_erase k m) = (map_of m)(k := None)"
  by (induction m) (auto simp: map_erase_def fun_eq_iff)

lemma ordered_map_erase: "ordered m \<Longrightarrow> ordered (map_erase k m)"
  unfolding map_erase_def by (metis sorted_wrt_filter sorted_wrt_map)

end
