(* ===== verification/Rk_Doc.thy ===== *)
theory Rk_Doc
  imports Rk_Fields Ordered_Map
begin

text \<open>
  Document schemas and documents (\<open>rocksdb_lab/doc.h\<close>, \<open>doc.cpp\<close>). A \<open>std::map\<close> with string keys is
  a list of pairs in increasing order of the keys, which is also the order of iteration.
\<close>

section \<open>DocSchema\<close>

record DocSchema =
  fields_schema :: "(string \<times> nat \<times> nat) list"
  fields_name_id :: "(string \<times> u8) list"
  fields_id_name :: "string list"
  fields_id_type :: "u8 list"
  long_fields :: "long NumericField list"
  float_fields :: "float32 NumericField list"
  string_fields :: "string LengthField list"
  float_vector_fields :: "float32 list LengthField list"
  ds_fixed :: bool

definition DocSchema_default :: DocSchema where
  "DocSchema_default = \<lparr>fields_schema = [], fields_name_id = [], fields_id_name = [], fields_id_type = [],
     long_fields = [], float_fields = [], string_fields = [], float_vector_fields = [], ds_fixed = False\<rparr>"

definition PrimaryKeyName :: string where "PrimaryKeyName = ''_id''"
definition LongFieldIdx :: nat where "LongFieldIdx = 0"
definition StringFieldIdx :: nat where "StringFieldIdx = 1"
definition FloatFieldIdx :: nat where "FloatFieldIdx = 2"
definition PrimaryKeyIdx :: nat where "PrimaryKeyIdx = 0"
definition FloatVectorFieldIdx :: nat where "FloatVectorFieldIdx = 3"

lemmas field_idx = LongFieldIdx_def StringFieldIdx_def FloatFieldIdx_def FloatVectorFieldIdx_def PrimaryKeyIdx_def

text \<open>The copy constructor has no initialiser for the vector fields; the move constructor neither.\<close>

definition DocSchema_copy :: "DocSchema \<Rightarrow> DocSchema" where
  "DocSchema_copy other = \<lparr>fields_schema = fields_schema other, fields_name_id = fields_name_id other,
     fields_id_name = fields_id_name other, fields_id_type = fields_id_type other,
     long_fields = long_fields other, float_fields = float_fields other, string_fields = string_fields other,
     float_vector_fields = [], ds_fixed = ds_fixed other\<rparr>"

definition DocSchema_move :: "DocSchema \<Rightarrow> DocSchema \<times> DocSchema" where
  "DocSchema_move other = (DocSchema_copy other, other\<lparr>fields_schema := [], fields_name_id := [],
     fields_id_name := [], fields_id_type := [], long_fields := [], float_fields := [], string_fields := []\<rparr>)"

definition DocSchema_HasBuilt :: "DocSchema \<Rightarrow> bool" where "DocSchema_HasBuilt s = ds_fixed s"

definition PreAddCheck :: "string \<Rightarrow> DocSchema \<Rightarrow> bool" where
  "PreAddCheck n s \<longleftrightarrow> \<not> DocSchema_HasBuilt s \<and> map_of (fields_schema s) n = None"

text \<open>The overloads taking a reference to a constant.\<close>

definition AddLongField :: "long NumericField \<Rightarrow> DocSchema \<Rightarrow> DocSchema" where
  "AddLongField f s =
     (if \<not> PreAddCheck (name (nf f)) s then s
      else let offset = length (long_fields s); s = s\<lparr>long_fields := long_fields s @ [f]\<rparr>
           in s\<lparr>fields_schema := map_put (name (nf f)) (LongFieldIdx, offset) (fields_schema s)\<rparr>)"

definition AddFloatField :: "float32 NumericField \<Rightarrow> DocSchema \<Rightarrow> DocSchema" where
  "AddFloatField f s =
     (if \<not> PreAddCheck (name (nf f)) s then s
      else let offset = length (float_fields s); s = s\<lparr>float_fields := float_fields s @ [f]\<rparr>
           in s\<lparr>fields_schema := map_put (name (nf f)) (FloatFieldIdx, offset) (fields_schema s)\<rparr>)"

definition AddStringField :: "string LengthField \<Rightarrow> DocSchema \<Rightarrow> DocSchema" where
  "AddStringField f s =
     (if \<not> PreAddCheck (name (lf f)) s then s
      else let offset = length (string_fields s); s = s\<lparr>string_fields := string_fields s @ [f]\<rparr>
           in s\<lparr>fields_schema := map_put (name (lf f)) (StringFieldIdx, offset) (fields_schema s)\<rparr>)"

definition AddFloatVectorField :: "float32 list LengthField \<Rightarrow> DocSchema \<Rightarrow> DocSchema" where
  "AddFloatVectorField f s =
     (if \<not> PreAddCheck (name (lf f)) s then s
      else let offset = length (float_vector_fields s); s = s\<lparr>float_vector_fields := float_vector_fields s @ [f]\<rparr>
           in s\<lparr>fields_schema := map_put (name (lf f)) (FloatVectorFieldIdx, offset) (fields_schema s)\<rparr>)"

text \<open>The overloads taking an rvalue: the map entry is written before the field is moved.\<close>

definition AddLongField_rvalue :: "long NumericField \<Rightarrow> DocSchema \<Rightarrow> DocSchema" where
  "AddLongField_rvalue f s =
     (if \<not> PreAddCheck (name (nf f)) s then s
      else let s = s\<lparr>fields_schema := map_put (name (nf f)) (LongFieldIdx, length (long_fields s)) (fields_schema s)\<rparr>
           in s\<lparr>long_fields := long_fields s @ [f]\<rparr>)"

definition AddFloatField_rvalue :: "float32 NumericField \<Rightarrow> DocSchema \<Rightarrow> DocSchema" where
  "AddFloatField_rvalue f s =
     (if \<not> PreAddCheck (name (nf f)) s then s
      else let s = s\<lparr>fields_schema := map_put (name (nf f)) (FloatFieldIdx, length (float_fields s)) (fields_schema s)\<rparr>
           in s\<lparr>float_fields := float_fields s @ [f]\<rparr>)"

definition AddStringField_rvalue :: "string LengthField \<Rightarrow> DocSchema \<Rightarrow> DocSchema" where
  "AddStringField_rvalue f s =
     (if \<not> PreAddCheck (name (lf f)) s then s
      else let s = s\<lparr>fields_schema := map_put (name (lf f)) (StringFieldIdx, length (string_fields s)) (fields_schema s)\<rparr>
           in s\<lparr>string_fields := string_fields s @ [f]\<rparr>)"

definition AddFloatVectorField_rvalue :: "float32 list LengthField \<Rightarrow> DocSchema \<Rightarrow> DocSchema" where
  "AddFloatVectorField_rvalue f s =
     (if \<not> PreAddCheck (name (lf f)) s then s
      else let s = s\<lparr>fields_schema := map_put (name (lf f)) (FloatVectorFieldIdx, length (float_vector_fields s)) (fields_schema s)\<rparr>
           in s\<lparr>float_vector_fields := float_vector_fields s @ [f]\<rparr>)"

definition DocSchema_new :: "long NumericField \<Rightarrow> DocSchema outcome" where
  "DocSchema_new pk = bnd (guard AssertFailed (name (nf pk) = PrimaryKeyName)) (\<lambda>_.
     Inr (AddLongField pk DocSchema_default))"

definition AddLongFieldValue :: "string \<Rightarrow> long \<Rightarrow> DocSchema \<Rightarrow> DocSchema outcome" where
  "AddLongFieldValue n v s =
     (let f = LongField_new n; f = f\<lparr>nf := snd (SetValue v (nf f))\<rparr>
      in bnd (NumericField_Build f) (\<lambda>f. Inr (AddLongField_rvalue f s)))"

definition AddFloatFieldValue :: "string \<Rightarrow> float32 \<Rightarrow> DocSchema \<Rightarrow> DocSchema outcome" where
  "AddFloatFieldValue n v s =
     (let f = FloatField_new n; f = f\<lparr>nf := snd (SetValue v (nf f))\<rparr>
      in bnd (NumericField_Build f) (\<lambda>f. Inr (AddFloatField_rvalue f s)))"

definition AddStringFieldValue :: "string \<Rightarrow> string \<Rightarrow> DocSchema \<Rightarrow> DocSchema outcome" where
  "AddStringFieldValue n v s =
     (let f = StringField_new n; f = f\<lparr>lf := snd (SetValue v (lf f))\<rparr>
      in bnd (LengthField_Build f) (\<lambda>f. Inr (AddStringField_rvalue f s)))"

definition AddFloatVectorFieldValue :: "string \<Rightarrow> float32 list \<Rightarrow> DocSchema \<Rightarrow> DocSchema outcome" where
  "AddFloatVectorFieldValue n v s =
     (let f = FloatVectorField_new n; f = f\<lparr>lf := snd (SetValue v (lf f))\<rparr>
      in bnd (LengthField_Build f) (\<lambda>f. Inr (AddFloatVectorField_rvalue f s)))"

section \<open>Building\<close>

definition field_type_of :: "nat \<Rightarrow> u8 option" where
  "field_type_of idx =
     (if idx = LongFieldIdx then Some LongFieldType else if idx = FloatFieldIdx then Some FloatFieldType
      else if idx = StringFieldIdx then Some StringFieldType
      else if idx = FloatVectorFieldIdx then Some FloatVectorFieldType else None)"

fun Build_loop :: "(string \<times> nat \<times> nat) list \<Rightarrow> u8 \<Rightarrow> DocSchema \<Rightarrow> DocSchema outcome" where
  "Build_loop [] i s = Inr s"
| "Build_loop ((n, idx, off) # kvs) i s =
     bnd (of_opt AssertFailed (field_type_of idx)) (\<lambda>ty.
       Build_loop kvs (i + 1) (s\<lparr>fields_name_id := map_put n i (fields_name_id s),
         fields_id_type := fields_id_type s @ [ty], fields_id_name := fields_id_name s @ [n]\<rparr>))"

definition DocSchema_Build :: "DocSchema \<Rightarrow> (bool \<times> DocSchema) outcome" where
  "DocSchema_Build s =
     (if ds_fixed s then Inr (True, s)
      else bnd (Build_loop (fields_schema s) 0 (s\<lparr>fields_name_id := [], fields_id_name := []\<rparr>)) (\<lambda>s.
        Inr (True, s\<lparr>ds_fixed := True\<rparr>)))"

definition DocSchema_UID :: "DocSchema \<Rightarrow> long outcome" where
  "DocSchema_UID s = (if long_fields s = [] then Inl OutOfBounds else GetValue (nf (hd (long_fields s))))"

definition DocSchema_Size :: "DocSchema \<Rightarrow> u8" where
  "DocSchema_Size s = word_of_nat (length (fields_schema s))"

definition GetFieldName :: "u8 \<Rightarrow> DocSchema \<Rightarrow> string outcome" where
  "GetFieldName i s = bnd (guard AssertFailed (unat i < length (fields_id_name s))) (\<lambda>_. Inr (fields_id_name s ! unat i))"

definition GetPK :: "DocSchema \<Rightarrow> long NumericField outcome" where
  "GetPK s = (if PrimaryKeyIdx < length (long_fields s) then Inr (long_fields s ! PrimaryKeyIdx) else Inl OutOfBounds)"

definition GetFieldId :: "string \<Rightarrow> DocSchema \<Rightarrow> u8 option" where
  "GetFieldId n s = map_of (fields_name_id s) n"

definition GetFieldType_id :: "u8 \<Rightarrow> DocSchema \<Rightarrow> u8 option" where
  "GetFieldType_id i s = (if length (fields_id_type s) \<le> unat i then None else Some (fields_id_type s ! unat i))"

definition GetFieldType :: "string \<Rightarrow> DocSchema \<Rightarrow> u8 option" where
  "GetFieldType n s = Option.bind (GetFieldId n s) (\<lambda>i. GetFieldType_id i s)"

section \<open>Iteration\<close>

text \<open>\<open>Iterate\<close> over a handler given by its three methods on a state \<open>'h\<close>.\<close>

fun Iterate_loop ::
  "(string \<Rightarrow> u8 \<Rightarrow> nat \<Rightarrow> nat \<Rightarrow> 'h \<Rightarrow> 'h outcome) \<Rightarrow> DocSchema \<Rightarrow> (string \<times> nat \<times> nat) list \<Rightarrow> 'h \<Rightarrow> 'h outcome" where
  "Iterate_loop handle s [] h = Inr h"
| "Iterate_loop handle s ((n, idx, off) # kvs) h =
     bnd (of_opt OutOfBounds (GetFieldId n s)) (\<lambda>i. bnd (handle n i idx off h) (Iterate_loop handle s kvs))"

definition Iterate ::
  "('h \<Rightarrow> 'h) \<Rightarrow> (string \<Rightarrow> u8 \<Rightarrow> nat \<Rightarrow> nat \<Rightarrow> 'h \<Rightarrow> 'h outcome) \<Rightarrow> ('h \<Rightarrow> 'h) \<Rightarrow> DocSchema \<Rightarrow> 'h \<Rightarrow> 'h outcome" where
  "Iterate pre handle post s h =
     (if \<not> DocSchema_HasBuilt s then Inr h
      else bnd (Iterate_loop handle s (fields_schema s) (pre h)) (\<lambda>h. Inr (post h)))"

definition Dump_PreHandle :: "DocSchema \<Rightarrow> string" where
  "Dump_PreHandle s = ''DocSchema: '' @ (if DocSchema_HasBuilt s then ''[Built]'' else ''[BUILDING]'') @ [CHR 0x0A]"

definition Dump_Handle :: "string \<Rightarrow> u8 \<Rightarrow> nat \<Rightarrow> nat \<Rightarrow> string \<Rightarrow> string outcome" where
  "Dump_Handle n i idx off ss =
     Inr (ss @ n @ '' '' @
       (if idx = LongFieldIdx then ''LongField '' else if idx = FloatFieldIdx then ''FloatField ''
        else if idx = StringFieldIdx then ''StringField ''
        else if idx = FloatVectorFieldIdx then ''FloatVectorField '' else '''') @
       (if idx = LongFieldIdx \<and> off = 0 then ''PK '' else '''') @ [CHR 0x0A])"

definition DocSchema_Dump :: "DocSchema \<Rightarrow> string outcome" where
  "DocSchema_Dump s = Iterate (\<lambda>_. Dump_PreHandle s) Dump_Handle id s ''''"

definition Ser_PreHandle :: "DocSchema \<Rightarrow> byte list" where
  "Ser_PreHandle s = Serialize_num 1 (unat (DocSchema_Size s)) []"

definition Ser_Handle :: "string \<Rightarrow> u8 \<Rightarrow> nat \<Rightarrow> nat \<Rightarrow> byte list \<Rightarrow> byte list outcome" where
  "Ser_Handle n i idx off data =
     (let data = Serialize_num 1 (unat i) data in
      bnd (of_opt Uninitialised (field_type_of idx)) (\<lambda>tval.
        let data = Serialize_num 1 (unat tval) data;
            data = Serialize_num 1 (unat (word_of_nat (length n) :: u8)) data
        in Inr (data @ map byte_of_char n)))"

definition DocSchema_Serialize :: "DocSchema \<Rightarrow> byte list outcome" where
  "DocSchema_Serialize s = Iterate (\<lambda>_. Ser_PreHandle s) Ser_Handle id s []"

section \<open>Deserialisation\<close>

definition add_by_type :: "u8 \<Rightarrow> string \<Rightarrow> DocSchema \<Rightarrow> DocSchema" where
  "add_by_type ty n s =
     (if ty = LongFieldType then AddLongField_rvalue (LongField_new n) s
      else if ty = StringFieldType then AddStringField_rvalue (StringField_new n) s
      else if ty = FloatFieldType then AddFloatField_rvalue (FloatField_new n) s
      else if ty = FloatVectorFieldType then AddFloatVectorField_rvalue (FloatVectorField_new n) s
      else s)"

fun Deserialize_loop :: "nat \<Rightarrow> byte list \<Rightarrow> DocSchema \<Rightarrow> DocSchema outcome" where
  "Deserialize_loop 0 data s = Inr s"
| "Deserialize_loop (Suc k) (field_id # field_type # name_size # rest) s =
     (if length rest < unat name_size then Inl OutOfBounds
      else Deserialize_loop k (drop (unat name_size) rest)
             (add_by_type field_type (map char_of_byte (take (unat name_size) rest)) s))"
| "Deserialize_loop (Suc k) data s = Inl OutOfBounds"

definition DocSchema_Deserialize :: "byte list \<Rightarrow> DocSchema \<Rightarrow> DocSchema outcome" where
  "DocSchema_Deserialize data s =
     (case data of [] \<Rightarrow> Inl OutOfBounds
      | fields_num # rest \<Rightarrow> bnd (Deserialize_loop (unat fields_num) rest s) (\<lambda>s.
          bnd (DocSchema_Build s) (\<lambda>(_, s). Inr s)))"

section \<open>Documents\<close>

record Doc =
  doc_base :: DocSchema
  doc_schema :: DocSchema

definition Doc_new :: "long NumericField \<Rightarrow> DocSchema \<Rightarrow> Doc outcome" where
  "Doc_new pk schema =
     bnd (DocSchema_new pk) (\<lambda>b.
     bnd (guard AssertFailed (HasBuilt (nf pk))) (\<lambda>_.
     bnd (guard AssertFailed (DocSchema_HasBuilt schema)) (\<lambda>_. Inr \<lparr>doc_base = b, doc_schema = schema\<rparr>)))"

text \<open>The checks the overriding \<open>Add...Field(const &)\<close> share.\<close>

definition Doc_check :: "'v TypedField \<Rightarrow> Doc \<Rightarrow> unit outcome" where
  "Doc_check f d = bnd (guard AssertFailed (HasBuilt f)) (\<lambda>_.
     guard AssertFailed (map_of (fields_schema (doc_schema d)) (name f) \<noteq> None))"

definition Doc_AddLongField :: "long NumericField \<Rightarrow> Doc \<Rightarrow> Doc outcome" where
  "Doc_AddLongField f d = bnd (Doc_check (nf f) d) (\<lambda>_. Inr (d\<lparr>doc_base := AddLongField f (doc_base d)\<rparr>))"

definition Doc_AddFloatField :: "float32 NumericField \<Rightarrow> Doc \<Rightarrow> Doc outcome" where
  "Doc_AddFloatField f d = bnd (Doc_check (nf f) d) (\<lambda>_. Inr (d\<lparr>doc_base := AddFloatField f (doc_base d)\<rparr>))"

definition Doc_AddStringField :: "string LengthField \<Rightarrow> Doc \<Rightarrow> Doc outcome" where
  "Doc_AddStringField f d = bnd (Doc_check (lf f) d) (\<lambda>_. Inr (d\<lparr>doc_base := AddStringField f (doc_base d)\<rparr>))"

definition Doc_AddFloatVectorField :: "float32 list LengthField \<Rightarrow> Doc \<Rightarrow> Doc outcome" where
  "Doc_AddFloatVectorField f d = bnd (Doc_check (lf f) d) (\<lambda>_. Inr (d\<lparr>doc_base := AddFloatVectorField f (doc_base d)\<rparr>))"

text \<open>\<open>Doc\<close> overrides only the overloads for constants, so the inherited \<open>AddStringFieldValue\<close>, which
  passes an rvalue, reaches the unchecked one of \<open>DocSchema\<close>.\<close>

definition Doc_AddStringFieldValue :: "string \<Rightarrow> string \<Rightarrow> Doc \<Rightarrow> Doc outcome" where
  "Doc_AddStringFieldValue n v d = bnd (AddStringFieldValue n v (doc_base d)) (\<lambda>b. Inr (d\<lparr>doc_base := b\<rparr>))"

fun Doc_Serialize_loop ::
  "('f \<Rightarrow> string) \<Rightarrow> ('f \<Rightarrow> byte list outcome) \<Rightarrow> DocSchema \<Rightarrow> 'f list \<Rightarrow> (u8 \<times> byte list) list \<Rightarrow> (u8 \<times> byte list) list outcome" where
  "Doc_Serialize_loop nm ser schema [] m = Inr m"
| "Doc_Serialize_loop nm ser schema (f # fs) m =
     bnd (of_opt Uninitialised (GetFieldId (nm f) schema)) (\<lambda>fid.
     bnd (ser f) (\<lambda>v. Doc_Serialize_loop nm ser schema fs (map_put fid v m)))"

definition Doc_Serialize :: "Doc \<Rightarrow> (u8 \<times> byte list) list outcome" where
  "Doc_Serialize d =
     bnd (Doc_Serialize_loop (name \<circ> nf) LongField_Serialize (doc_schema d) (long_fields (doc_base d)) []) (\<lambda>m.
     bnd (Doc_Serialize_loop (name \<circ> nf) FloatField_Serialize (doc_schema d) (float_fields (doc_base d)) m) (\<lambda>m.
     bnd (Doc_Serialize_loop (name \<circ> lf) StringField_Serialize (doc_schema d) (string_fields (doc_base d)) m) (\<lambda>m.
       Doc_Serialize_loop (name \<circ> lf) FloatVectorField_Serialize (doc_schema d) (float_vector_fields (doc_base d)) m)))"

definition Doc_Build :: "Doc \<Rightarrow> (bool \<times> Doc) outcome" where
  "Doc_Build d =
     (if length (fields_schema (doc_base d)) \<noteq> length (fields_schema (doc_schema d)) then Inr (False, d)
      else bnd (DocSchema_Build (doc_base d)) (\<lambda>(b, s). Inr (b, d\<lparr>doc_base := s\<rparr>)))"

definition NewPK :: "long \<Rightarrow> long NumericField outcome" where
  "NewPK v =
     (let f = LongField_new PrimaryKeyName; f = f\<lparr>nf := snd (SetValue v (nf f))\<rparr> in NumericField_Build f)"


section \<open>The invariant of a schema\<close>

text \<open>The names of the fields of one kind, in the order of their list.\<close>

definition kind_names :: "nat \<Rightarrow> DocSchema \<Rightarrow> string list" where
  "kind_names idx s =
     (if idx = LongFieldIdx then map (name \<circ> nf) (long_fields s)
      else if idx = FloatFieldIdx then map (name \<circ> nf) (float_fields s)
      else if idx = StringFieldIdx then map (name \<circ> lf) (string_fields s)
      else if idx = FloatVectorFieldIdx then map (name \<circ> lf) (float_vector_fields s) else [])"

text \<open>The map leads every name to its field and to nothing else.\<close>

definition schema_wf :: "DocSchema \<Rightarrow> bool" where
  "schema_wf s \<longleftrightarrow> ordered (fields_schema s) \<and>
     (\<forall>n idx off. map_of (fields_schema s) n = Some (idx, off) \<longleftrightarrow>
        off < length (kind_names idx s) \<and> kind_names idx s ! off = n)"

text \<open>What adding a field named \<open>n\<close> of kind \<open>k\<close> does.\<close>

definition field_added :: "nat \<Rightarrow> string \<Rightarrow> DocSchema \<Rightarrow> DocSchema \<Rightarrow> bool" where
  "field_added k n s s' \<longleftrightarrow>
     fields_schema s' = map_put n (k, length (kind_names k s)) (fields_schema s) \<and>
     kind_names k s' = kind_names k s @ [n] \<and> (\<forall>j. j \<noteq> k \<longrightarrow> kind_names j s' = kind_names j s) \<and>
     ds_fixed s' = ds_fixed s \<and> fields_name_id s' = fields_name_id s \<and> fields_id_name s' = fields_id_name s \<and>
     fields_id_type s' = fields_id_type s"

lemma add_overloads:
  "AddLongField_rvalue = AddLongField" "AddFloatField_rvalue = AddFloatField"
  "AddStringField_rvalue = AddStringField" "AddFloatVectorField_rvalue = AddFloatVectorField"
  by (simp_all add: fun_eq_iff Let_def AddLongField_rvalue_def AddLongField_def AddFloatField_rvalue_def
      AddFloatField_def AddStringField_rvalue_def AddStringField_def AddFloatVectorField_rvalue_def AddFloatVectorField_def)

lemma add_rejected:
  "\<not> PreAddCheck (name (nf lo)) s \<Longrightarrow> AddLongField lo s = s"
  "\<not> PreAddCheck (name (nf fl)) s \<Longrightarrow> AddFloatField fl s = s"
  "\<not> PreAddCheck (name (lf st)) s \<Longrightarrow> AddStringField st s = s"
  "\<not> PreAddCheck (name (lf fv)) s \<Longrightarrow> AddFloatVectorField fv s = s"
  by (simp_all add: AddLongField_def AddFloatField_def AddStringField_def AddFloatVectorField_def)

lemma add_accepted:
  "PreAddCheck (name (nf lo)) s \<Longrightarrow> field_added LongFieldIdx (name (nf lo)) s (AddLongField lo s)"
  "PreAddCheck (name (nf fl)) s \<Longrightarrow> field_added FloatFieldIdx (name (nf fl)) s (AddFloatField fl s)"
  "PreAddCheck (name (lf st)) s \<Longrightarrow> field_added StringFieldIdx (name (lf st)) s (AddStringField st s)"
  "PreAddCheck (name (lf fv)) s \<Longrightarrow> field_added FloatVectorFieldIdx (name (lf fv)) s (AddFloatVectorField fv s)"
  by (simp_all add: AddLongField_def AddFloatField_def AddStringField_def AddFloatVectorField_def Let_def
      field_added_def kind_names_def field_idx)

lemma schema_wf_default: "schema_wf DocSchema_default"
  by (simp add: schema_wf_def DocSchema_default_def kind_names_def)

lemma field_added_wf:
  assumes wf: "schema_wf s" and new: "PreAddCheck n s" and add: "field_added k n s s'"
  shows "schema_wf s'"
proof -
  have ord: "ordered (fields_schema s)" using wf by (simp add: schema_wf_def)
  have free: "\<not> (off < length (kind_names j s) \<and> kind_names j s ! off = n)" for j off
  proof
    assume "off < length (kind_names j s) \<and> kind_names j s ! off = n"
    then have "map_of (fields_schema s) n = Some (j, off)" using wf by (simp add: schema_wf_def)
    then show False using new by (simp add: PreAddCheck_def)
  qed
  have look: "map_of (fields_schema s) m = Some (j, off) \<longleftrightarrow> off < length (kind_names j s) \<and> kind_names j s ! off = m"
    for m j off using wf by (simp add: schema_wf_def)
  have fs: "map_of (fields_schema s') = (map_of (fields_schema s))(n \<mapsto> (k, length (kind_names k s)))"
    using add ord by (simp add: field_added_def map_of_map_put)
  have "map_of (fields_schema s') m = Some (j, off) \<longleftrightarrow>
      off < length (kind_names j s') \<and> kind_names j s' ! off = m" for m j off
  proof (cases "j = k")
    case True
    then show ?thesis using add free [of off j] unfolding fs
      by (auto simp: field_added_def look nth_append less_Suc_eq)
  next
    case False
    then show ?thesis using add free [of off j] unfolding fs by (auto simp: field_added_def look)
  qed
  then show ?thesis using add ord by (simp add: schema_wf_def field_added_def ordered_map_put)
qed




section \<open>Building and the round trip\<close>

text \<open>Names with their kinds, in the order of the map, and the tables \<open>Build\<close> derives from them.\<close>

definition kinds :: "DocSchema \<Rightarrow> (string \<times> nat) list" where
  "kinds s = map (\<lambda>(n, idx, off). (n, idx)) (fields_schema s)"

definition type_of_kind :: "nat \<Rightarrow> u8" where
  "type_of_kind idx = the (field_type_of idx)"

definition id_table :: "nat \<Rightarrow> string list \<Rightarrow> (string \<times> u8) list" where
  "id_table i ns = zip ns (map word_of_nat [i..<i + length ns])"

definition built_from :: "(string \<times> nat) list \<Rightarrow> DocSchema \<Rightarrow> bool" where
  "built_from ks s \<longleftrightarrow> ds_fixed s \<and> kinds s = ks \<and> fields_id_name s = map fst ks \<and>
     fields_id_type s = map (type_of_kind \<circ> snd) ks \<and> fields_name_id s = id_table 0 (map fst ks)"

lemma schema_wf_kinds: "schema_wf s \<Longrightarrow> (n, idx) \<in> set (kinds s) \<Longrightarrow> idx < 4"
proof -
  assume wf: "schema_wf s" and mem: "(n, idx) \<in> set (kinds s)"
  then obtain off where "(n, idx, off) \<in> set (fields_schema s)" by (auto simp: kinds_def)
  then have "map_of (fields_schema s) n = Some (idx, off)"
    using wf by (simp add: schema_wf_def ordered_distinct)
  then have "kind_names idx s \<noteq> []" using wf by (auto simp: schema_wf_def)
  then show "idx < 4" by (simp add: kind_names_def field_idx split: if_splits)
qed

lemma field_type_of_kind: "idx < 4 \<Longrightarrow> field_type_of idx = Some (type_of_kind idx)"
  by (auto simp: type_of_kind_def field_type_of_def field_idx numeral_eq_Suc less_Suc_eq)

lemma Build_loop_ok:
  assumes "\<forall>(n, idx, off) \<in> set kvs. idx < 4" and "ordered kvs"
    and "\<forall>k \<in> fst ` set (fields_name_id s). \<forall>k' \<in> fst ` set kvs. k < k'"
  shows "Build_loop kvs (word_of_nat i) s = Inr (s\<lparr>fields_name_id := fields_name_id s @ id_table i (map fst kvs),
    fields_id_type := fields_id_type s @ map (\<lambda>(n, idx, off). type_of_kind idx) kvs,
    fields_id_name := fields_id_name s @ map fst kvs\<rparr>)"
  using assms
proof (induction kvs arbitrary: i s)
  case Nil
  then show ?case by (simp add: id_table_def)
next
  case (Cons kv kvs)
  obtain n idx off where kv: "kv = (n, idx, off)" by (metis prod_cases3)
  let ?s = "s\<lparr>fields_name_id := fields_name_id s @ [(n, word_of_nat i)],
    fields_id_type := fields_id_type s @ [type_of_kind idx], fields_id_name := fields_id_name s @ [n]\<rparr>"
  have put: "map_put n (word_of_nat i) (fields_name_id s) = fields_name_id s @ [(n, word_of_nat i)]"
    using Cons.prems kv by (intro map_put_last) force
  have inc: "word_of_nat i + 1 = (word_of_nat (Suc i) :: u8)" by (simp add: add.commute)
  have "Build_loop kvs (word_of_nat (Suc i)) ?s = Inr (?s\<lparr>
      fields_name_id := fields_name_id ?s @ id_table (Suc i) (map fst kvs),
      fields_id_type := fields_id_type ?s @ map (\<lambda>(n, idx, off). type_of_kind idx) kvs,
      fields_id_name := fields_id_name ?s @ map fst kvs\<rparr>)"
    using Cons.prems kv by (intro Cons.IH) auto
  then show ?case using Cons.prems kv
    by (simp add: put inc field_type_of_kind id_table_def upt_conv_Cons del: upt_Suc)
qed


lemma Build_ok:
  assumes "schema_wf s" and "\<not> ds_fixed s" and "fields_id_type s = []"
  obtains s' where "DocSchema_Build s = Inr (True, s')" and "built_from (kinds s) s'" and "schema_wf s'"
    and "\<And>k. kind_names k s' = kind_names k s" and "long_fields s' = long_fields s"
proof
  let ?s = "s\<lparr>fields_name_id := id_table 0 (map fst (fields_schema s)),
    fields_id_type := map (\<lambda>(n, idx, off). type_of_kind idx) (fields_schema s),
    fields_id_name := map fst (fields_schema s), ds_fixed := True\<rparr>"
  have "\<forall>(n, idx, off) \<in> set (fields_schema s). idx < 4"
    using schema_wf_kinds [OF assms(1)] by (force simp: kinds_def)
  then show "DocSchema_Build s = Inr (True, ?s)"
    using Build_loop_ok [of "fields_schema s" "s\<lparr>fields_name_id := [], fields_id_name := []\<rparr>" 0] assms
    by (simp add: DocSchema_Build_def schema_wf_def)
  have "map fst (kinds s) = map fst (fields_schema s)" by (auto simp: kinds_def)
  then show "built_from (kinds s) ?s" by (auto simp: built_from_def) (auto simp: kinds_def)
  show "kind_names k ?s = kind_names k s" for k by (simp add: kind_names_def)
  then show "schema_wf ?s" using assms(1) by (simp add: schema_wf_def)
qed simp

fun enc :: "nat \<Rightarrow> (string \<times> nat) list \<Rightarrow> byte list" where
  "enc i [] = []"
| "enc i ((n, k) # ks) =
     word_of_nat i # type_of_kind k # word_of_nat (length n) # map byte_of_char n @ enc (Suc i) ks"

lemma Serialize_byte: "Serialize_num 1 (unat (b :: byte)) data = data @ [b]"
  by (simp add: Serialize_num_bytes flip: One_nat_def) (simp add: Serialize_num_bytes)

lemma Ser_Handle_ok:
  "idx < 4 \<Longrightarrow> Ser_Handle n i idx off h =
     Inr (h @ i # type_of_kind idx # word_of_nat (length n) # map byte_of_char n)"
  by (simp add: Ser_Handle_def Let_def Serialize_byte field_type_of_kind flip: One_nat_def)

lemma Iterate_Ser:
  assumes "map (\<lambda>kv. GetFieldId (fst kv) s) kvs = map (Some \<circ> word_of_nat) [i..<i + length kvs]"
    and "\<forall>(n, idx, off) \<in> set kvs. idx < 4"
  shows "Iterate_loop Ser_Handle s kvs h = Inr (h @ enc i (map (\<lambda>(n, idx, off). (n, idx)) kvs))"
  using assms
proof (induction kvs arbitrary: i h)
  case (Cons kv kvs)
  obtain n idx off where kv: "kv = (n, idx, off)" by (metis prod_cases3)
  have ids: "GetFieldId n s = Some (word_of_nat i)"
    "map (\<lambda>kv. GetFieldId (fst kv) s) kvs = map (Some \<circ> word_of_nat) [Suc i..<Suc i + length kvs]"
    using Cons.prems(1) kv by (simp_all add: upt_conv_Cons del: upt_Suc)
  have "Iterate_loop Ser_Handle s kvs h' = Inr (h' @ enc (Suc i) (map (\<lambda>(n, idx, off). (n, idx)) kvs))" for h'
    using Cons.IH [OF ids(2)] Cons.prems(2) by simp
  then show ?case using Cons.prems(2) kv ids(1)
    by (simp add: Ser_Handle_ok)
qed simp

lemma id_table_lookup:
  assumes "distinct ns"
  shows "map (map_of (id_table i ns)) ns = map (Some \<circ> word_of_nat) [i..<i + length ns]"
  using assms by (intro nth_equalityI) (simp_all add: id_table_def map_of_zip_nth)

lemma Serialize_ok:
  assumes "schema_wf s" and "built_from ks s"
  shows "DocSchema_Serialize s = Inr (DocSchema_Size s # enc 0 ks)"
proof -
  have four: "\<forall>(n, idx, off) \<in> set (fields_schema s). idx < 4"
    using schema_wf_kinds [OF assms(1)] by (force simp: kinds_def)
  have names: "map fst ks = map fst (fields_schema s)" using assms(2) by (auto simp: built_from_def kinds_def)
  have "map (\<lambda>kv. GetFieldId (fst kv) s) (fields_schema s) = map (map_of (id_table 0 (map fst ks))) (map fst ks)"
    using assms(2) unfolding names by (simp add: built_from_def GetFieldId_def names)
  also have "\<dots> = map (Some \<circ> word_of_nat) [0..<0 + length (fields_schema s)]"
    using id_table_lookup [of "map fst ks" 0] assms(1) names
    by (metis length_map ordered_distinct schema_wf_def)
  finally have "Iterate_loop Ser_Handle s (fields_schema s) h = Inr (h @ enc 0 (kinds s))" for h
    using Iterate_Ser [OF _ four] by (simp add: kinds_def)
  then show ?thesis using assms(2)
    by (simp add: DocSchema_Serialize_def Iterate_def DocSchema_HasBuilt_def built_from_def Ser_PreHandle_def
        Serialize_byte flip: One_nat_def)
qed


text \<open>Reading back: \<open>Deserialize\<close> adds a field of each kind in turn.\<close>

definition add_kinds :: "(string \<times> nat) list \<Rightarrow> DocSchema \<Rightarrow> DocSchema" where
  "add_kinds ks s = fold (\<lambda>(n, k). add_by_type (type_of_kind k) n) ks s"

lemma Deserialize_loop_enc:
  assumes "\<forall>(n, k) \<in> set ks. length n < 256"
  shows "Deserialize_loop (length ks) (enc i ks @ rest) s = Inr (add_kinds ks s)"
  using assms
proof (induction ks arbitrary: i s)
  case (Cons nk ks)
  obtain n k where nk: "nk = (n, k)" by (cases nk)
  have len: "unat (word_of_nat (length n) :: u8) = length n"
    using Cons.prems nk by (simp add: unat_byte)
  have chars: "map char_of_byte (map byte_of_char n) = n" by (simp add: map_idI)
  show ?case using Cons nk by (simp add: len chars add_kinds_def del: map_map)
qed (simp add: add_kinds_def)

lemma add_by_type_added:
  assumes "k < 4" and "PreAddCheck n s"
  shows "field_added k n s (add_by_type (type_of_kind k) n s)"
proof -
  have "k = 0 \<or> k = 1 \<or> k = 2 \<or> k = 3" using assms(1) by auto
  then show ?thesis using assms(2) 
      add_accepted(1) [of "LongField_new n" s] add_accepted(2) [of "FloatField_new n" s]
      add_accepted(3) [of "StringField_new n" s] add_accepted(4) [of "FloatVectorField_new n" s]
    by (auto simp: add_by_type_def type_of_kind_def field_type_of_def field_idx add_overloads
        LongFieldType_def FloatFieldType_def StringFieldType_def FloatVectorFieldType_def
        LongField_new_def FloatField_new_def StringField_new_def FloatVectorField_new_def TypedField_new_def)
qed

lemma add_kinds_ok:
  assumes "\<forall>(n, k) \<in> set ks. k < 4" and "ordered ks" and "\<not> ds_fixed s" and "schema_wf s"
    and "\<forall>m \<in> fst ` set (fields_schema s). \<forall>n \<in> fst ` set ks. m < n"
  shows "schema_wf (add_kinds ks s) \<and> kinds (add_kinds ks s) = kinds s @ ks \<and> \<not> ds_fixed (add_kinds ks s) \<and>
    fields_id_type (add_kinds ks s) = fields_id_type s \<and>
    (\<forall>j. kind_names j (add_kinds ks s) = kind_names j s @ map fst (filter (\<lambda>(n, k). k = j) ks))"
  using assms
proof (induction ks arbitrary: s)
  case (Cons nk ks)
  obtain n k where nk: "nk = (n, k)" by (cases nk)
  let ?s = "add_by_type (type_of_kind k) n s"
  have pre: "PreAddCheck n s"
    using Cons.prems nk by (fastforce simp: PreAddCheck_def DocSchema_HasBuilt_def map_of_eq_None_iff)
  have add: "field_added k n s ?s" using Cons.prems(1) nk pre by (simp add: add_by_type_added)
  have fs: "fields_schema ?s = fields_schema s @ [(n, k, length (kind_names k s))]"
    using add map_put_last [of "fields_schema s" n] Cons.prems(5) nk by (simp add: field_added_def)
  have wf: "schema_wf ?s" by (rule field_added_wf [OF Cons.prems(4) pre add])
  have unf: "\<not> ds_fixed ?s" using add Cons.prems(3) by (simp add: field_added_def)
  have "\<forall>m \<in> fst ` set (fields_schema ?s). \<forall>n \<in> fst ` set ks. m < n"
    using Cons.prems(2,5) nk unfolding fs by auto
  then have "schema_wf (add_kinds ks ?s) \<and> kinds (add_kinds ks ?s) = kinds ?s @ ks \<and> \<not> ds_fixed (add_kinds ks ?s) \<and>
      fields_id_type (add_kinds ks ?s) = fields_id_type ?s \<and>
      (\<forall>j. kind_names j (add_kinds ks ?s) = kind_names j ?s @ map fst (filter (\<lambda>(n, k). k = j) ks))"
    using Cons.prems(1,2) nk by (intro Cons.IH [OF _ _ unf wf]) auto
  moreover have "kinds ?s = kinds s @ [(n, k)]" by (simp add: kinds_def fs)
  moreover have "add_kinds (nk # ks) s = add_kinds ks ?s" by (simp add: nk add_kinds_def)
  ultimately show ?case using add nk by (simp add: field_added_def)
qed (simp add: add_kinds_def)


lemma default_empty:
  "kinds DocSchema_default = []" "kind_names j DocSchema_default = []" "fields_id_type DocSchema_default = []"
  "\<not> ds_fixed DocSchema_default" "fields_schema DocSchema_default = []"
  by (simp_all add: kinds_def DocSchema_default_def kind_names_def)

lemma kind_names_distinct: "schema_wf s \<Longrightarrow> distinct (kind_names j s)"
  unfolding schema_wf_def distinct_conv_nth by (metis option.inject prod.inject)

lemma sorted_kinds:
  assumes "schema_wf s"
  shows "map fst (filter (\<lambda>(n, k). k = j) (kinds s)) = sort (kind_names j s)"
proof -
  let ?l = "map fst (filter (\<lambda>(n, k). k = j) (kinds s))"
  have look: "map_of (fields_schema s) m = Some (i, off) \<longleftrightarrow> off < length (kind_names i s) \<and> kind_names i s ! off = m"
    for m i off using assms by (simp add: schema_wf_def)
  have ord: "ordered (fields_schema s)" using assms by (simp add: schema_wf_def)
  have "map fst (kinds s) = map fst (fields_schema s)" by (auto simp: kinds_def)
  then have strict: "sorted_wrt (<) ?l"
    using ord by (metis sorted_wrt_filter sorted_wrt_map)
  have "m \<in> set ?l \<longleftrightarrow> (\<exists>off. map_of (fields_schema s) m = Some (j, off))" for m
    using ord by (force simp: kinds_def ordered_distinct)
  moreover have "m \<in> set (kind_names j s) \<longleftrightarrow> (\<exists>off. map_of (fields_schema s) m = Some (j, off))" for m
    by (simp add: look in_set_conv_nth)
  ultimately have sets: "set ?l = set (kind_names j s)" by blast
  show ?thesis
    using strict sets kind_names_distinct [OF assms] by (intro sorted_distinct_set_unique) (simp_all add: strict_sorted_iff)
qed

lemma schema_read_back:
  assumes "schema_wf s" and "\<not> ds_fixed s" and "fields_id_type s = []"
    and "length (fields_schema s) < 256" and "\<forall>n \<in> set (map fst (fields_schema s)). length n < 256"
  obtains b r where "DocSchema_Build s = Inr (True, b)" and "built_from (kinds s) b" and "schema_wf b"
    and "\<And>j. kind_names j b = kind_names j s" and "DocSchema_Serialize b = Inr (DocSchema_Size b # enc 0 (kinds s))"
    and "DocSchema_Deserialize (DocSchema_Size b # enc 0 (kinds s)) DocSchema_default = Inr r"
    and "built_from (kinds s) r" and "schema_wf r" and "\<And>j. kind_names j r = sort (kind_names j s)"
proof -
  obtain b where b: "DocSchema_Build s = Inr (True, b)" "built_from (kinds s) b" "schema_wf b"
    "\<And>j. kind_names j b = kind_names j s" using Build_ok [OF assms(1-3)] by metis
  let ?a = "add_kinds (kinds s) DocSchema_default"
  have names: "map fst (kinds s) = map fst (fields_schema s)" by (auto simp: kinds_def)
  have ser: "DocSchema_Serialize b = Inr (DocSchema_Size b # enc 0 (kinds s))" by (rule Serialize_ok [OF b(3,2)])
  have "length (fields_schema b) = length (kinds s)" using b(2) by (metis built_from_def kinds_def length_map)
  then have size: "unat (DocSchema_Size b) = length (kinds s)"
    using assms(4) by (simp add: DocSchema_Size_def unat_byte kinds_def)
  have "\<forall>(n, k) \<in> set (kinds s). length n < 256" using assms(5) by (auto simp: kinds_def)
  then have des: "Deserialize_loop (unat (DocSchema_Size b)) (enc 0 (kinds s)) DocSchema_default = Inr ?a"
    using Deserialize_loop_enc [of "kinds s" 0 "[]"] size by simp
  have "schema_wf ?a \<and> kinds ?a = kinds DocSchema_default @ kinds s \<and> \<not> ds_fixed ?a \<and>
      fields_id_type ?a = fields_id_type DocSchema_default \<and>
      (\<forall>j. kind_names j ?a = kind_names j DocSchema_default @ map fst (filter (\<lambda>(n, k). k = j) (kinds s)))"
  proof (rule add_kinds_ok)
    show "ordered (kinds s)" using assms(1) names by (simp add: schema_wf_def)
    show "\<forall>(n, k) \<in> set (kinds s). k < 4" using schema_wf_kinds [OF assms(1)] by auto
  qed (simp_all add: schema_wf_default, simp_all add: DocSchema_default_def)
  then have a: "schema_wf ?a" "kinds ?a = kinds s" "\<not> ds_fixed ?a" "fields_id_type ?a = []"
    "\<forall>j. kind_names j ?a = sort (kind_names j s)"
    by (simp_all add: default_empty sorted_kinds [OF assms(1)])
  obtain r where r: "DocSchema_Build ?a = Inr (True, r)" "built_from (kinds s) r" "schema_wf r"
    "\<And>j. kind_names j r = kind_names j ?a" using Build_ok [OF a(1,3,4)] a(2) by metis
  have "DocSchema_Deserialize (DocSchema_Size b # enc 0 (kinds s)) DocSchema_default = Inr r"
    by (simp add: DocSchema_Deserialize_def des r(1))
  then show thesis using that [OF b ser _ r(2,3)] r(4) a(5) by simp
qed

text \<open>C11. The round trip of a schema. Building a schema numbers its fields in the order of their names;
  if it has at most 255 fields and no name is longer than 255 characters, its bytes read into an empty
  schema give a built schema with the same names, kinds, numbers and types. The lists of fields come
  back sorted by name, not in the order in which the fields were added.\<close>

theorem schema_roundtrip:
  assumes "schema_wf s" and "\<not> ds_fixed s" and "fields_id_type s = []"
    and "length (fields_schema s) < 256" and "\<forall>n \<in> set (map fst (fields_schema s)). length n < 256"
  shows "\<exists>b data r. DocSchema_Build s = Inr (True, b) \<and> DocSchema_Serialize b = Inr data \<and>
    DocSchema_Deserialize data DocSchema_default = Inr r \<and> schema_wf b \<and> schema_wf r \<and> ds_fixed r \<and>
    kinds b = kinds s \<and> kinds r = kinds s \<and> fields_id_name r = map fst (fields_schema s) \<and>
    fields_id_name b = fields_id_name r \<and> fields_name_id b = fields_name_id r \<and> fields_id_type b = fields_id_type r \<and>
    (\<forall>j. kind_names j b = kind_names j s \<and> kind_names j r = sort (kind_names j s))"
proof -
  have names: "map fst (kinds s) = map fst (fields_schema s)" by (auto simp: kinds_def)
  show ?thesis by (rule schema_read_back [OF assms]) (use names in \<open>auto simp: built_from_def\<close>)
qed

text \<open>Writing the schema read gives the same bytes.\<close>

lemma Serialize_same:
  assumes "schema_wf b" and "built_from ks b" and "schema_wf r" and "built_from ks r"
  shows "DocSchema_Serialize r = DocSchema_Serialize b"
proof -
  have "length (fields_schema b) = length (fields_schema r)" using assms(2,4) by (metis built_from_def kinds_def length_map)
  then show ?thesis using Serialize_ok [OF assms(1,2)] Serialize_ok [OF assms(3,4)] by (simp add: DocSchema_Size_def)
qed

text \<open>The schema of the repository's own test: a key, a long, a float and two strings.\<close>

definition sample_schema :: DocSchema where
  "sample_schema = AddStringField (StringField_new ''likes'') (AddStringField (StringField_new ''uid'')
     (AddFloatField (FloatField_new ''score'') (AddLongField (LongField_new ''Age'')
     (AddLongField (LongField_new PrimaryKeyName) DocSchema_default))))"

lemma sample_schema_fields:
  "fields_schema sample_schema = [(''Age'', 0, 1), (''_id'', 0, 0), (''likes'', 1, 1), (''score'', 2, 0), (''uid'', 1, 0)]"
  "fields_id_type sample_schema = []" "\<not> ds_fixed sample_schema" "kind_names LongFieldIdx sample_schema = [''_id'', ''Age'']"
  by code_simp+

lemma sample_schema_wf: "schema_wf sample_schema"
  unfolding sample_schema_def
  by (intro field_added_wf [OF _ _ add_accepted(1)] field_added_wf [OF _ _ add_accepted(2)]
      field_added_wf [OF _ _ add_accepted(3)] schema_wf_default; code_simp)

theorem schema_roundtrip_witness:
  "\<exists>b data r. DocSchema_Build sample_schema = Inr (True, b) \<and> DocSchema_Serialize b = Inr data \<and>
    DocSchema_Deserialize data DocSchema_default = Inr r \<and> kinds r = kinds sample_schema \<and>
    kind_names LongFieldIdx r = [''Age'', ''_id'']"
proof -
  have "sort (kind_names LongFieldIdx sample_schema) = [''Age'', ''_id'']"
    unfolding sample_schema_fields by code_simp
  then show ?thesis
    using schema_roundtrip [OF sample_schema_wf sample_schema_fields(3,2)] by (auto simp: sample_schema_fields)
qed

text \<open>The primary key does not survive the round trip: in the schema of the test, \<open>GetPK\<close> is the
  field \<open>_id\<close> before serialising and the field \<open>Age\<close> after reading the bytes back, because the
  key is known by its place in a list that comes back sorted.\<close>

theorem roundtrip_moves_key:
  "bnd (GetPK sample_schema) (\<lambda>f. Inr (name (nf f))) = Inr ''_id'' \<and>
   bnd (DocSchema_Build sample_schema) (\<lambda>(_, b). bnd (DocSchema_Serialize b) (\<lambda>data.
     bnd (DocSchema_Deserialize data DocSchema_default) (\<lambda>r. bnd (GetPK r) (\<lambda>f. Inr (name (nf f)))))) = Inr ''Age''"
  by code_simp

section \<open>Documents\<close>

text \<open>A list of fields of a document is ready to be written, and is written.\<close>

definition ready :: "('f \<Rightarrow> string) \<Rightarrow> ('f \<Rightarrow> byte list outcome) \<Rightarrow> DocSchema \<Rightarrow> 'f list \<Rightarrow> bool" where
  "ready nm ser sc fs \<longleftrightarrow> distinct (map nm fs) \<and> (\<forall>f \<in> set fs. GetFieldId (nm f) sc \<noteq> None \<and> (\<exists>v. ser f = Inr v))"

definition stored :: "('f \<Rightarrow> string) \<Rightarrow> ('f \<Rightarrow> byte list outcome) \<Rightarrow> DocSchema \<Rightarrow> 'f list \<Rightarrow> (u8 \<times> byte list) list \<Rightarrow> bool" where
  "stored nm ser sc fs m \<longleftrightarrow> (\<forall>f \<in> set fs. \<exists>i v. GetFieldId (nm f) sc = Some i \<and> ser f = Inr v \<and> map_of m i = Some v)"

definition ids_inj :: "DocSchema \<Rightarrow> bool" where
  "ids_inj sc \<longleftrightarrow> inj_on (map_of (fields_name_id sc)) (dom (map_of (fields_name_id sc)))"

lemma ids_injD: "ids_inj sc \<Longrightarrow> GetFieldId a sc = Some i \<Longrightarrow> GetFieldId b sc = Some i \<Longrightarrow> a = b"
  unfolding ids_inj_def GetFieldId_def by (metis domI inj_onD)

lemma Doc_Serialize_loop_ok:
  assumes "ids_inj sc" and "ordered m" and "ready nm ser sc fs"
  shows "\<exists>m'. Doc_Serialize_loop nm ser sc fs m = Inr m' \<and> ordered m' \<and> stored nm ser sc fs m' \<and>
    (\<forall>n i. n \<notin> nm ` set fs \<longrightarrow> GetFieldId n sc = Some i \<longrightarrow> map_of m' i = map_of m i)"
  using assms(2,3)
proof (induction fs arbitrary: m)
  case Nil
  then show ?case by (simp add: stored_def)
next
  case (Cons f fs)
  obtain i v where f: "GetFieldId (nm f) sc = Some i" "ser f = Inr v" using Cons.prems by (auto simp: ready_def)
  have "ordered (map_put i v m)" using Cons.prems(1) by (rule ordered_map_put)
  moreover have "ready nm ser sc fs" using Cons.prems(2) by (auto simp: ready_def)
  ultimately obtain m' where m': "Doc_Serialize_loop nm ser sc fs (map_put i v m) = Inr m'" "ordered m'"
    "stored nm ser sc fs m'"
    "\<forall>n j. n \<notin> nm ` set fs \<longrightarrow> GetFieldId n sc = Some j \<longrightarrow> map_of m' j = map_of (map_put i v m) j"
    using Cons.IH [of "map_put i v m"] by blast
  have new: "nm f \<notin> nm ` set fs" using Cons.prems(2) by (auto simp: ready_def)
  have put: "map_of (map_put i v m) = (map_of m)(i \<mapsto> v)" using Cons.prems(1) by (rule map_of_map_put)
  have "map_of m' i = Some v" using m'(4) new f(1) put by (metis fun_upd_same)
  then have "stored nm ser sc (f # fs) m'" using m'(3) f by (simp add: stored_def)
  moreover have "map_of m' j = map_of m j" if "n \<notin> nm ` set (f # fs)" "GetFieldId n sc = Some j" for n j
  proof -
    have "j \<noteq> i" using ids_injD [OF assms(1) f(1)] that by auto
    then show ?thesis using m'(4) that put by auto
  qed
  ultimately show ?case using m'(1,2) f by auto
qed

lemma stored_frame:
  assumes "stored nm ser sc fs m" and "nm ` set fs \<inter> N = {}"
    and "\<forall>n i. n \<notin> N \<longrightarrow> GetFieldId n sc = Some i \<longrightarrow> map_of m' i = map_of m i"
  shows "stored nm ser sc fs m'"
proof -
  have "nm f \<notin> N" if "f \<in> set fs" for f using assms(2) that by blast
  then show ?thesis using assms(1,3) by (simp add: stored_def) metis
qed

lemma kind_names_disjoint:
  assumes "schema_wf s" and "i \<noteq> j"
  shows "set (kind_names i s) \<inter> set (kind_names j s) = {}"
proof -
  have look: "map_of (fields_schema s) m = Some (k, off) \<longleftrightarrow> off < length (kind_names k s) \<and> kind_names k s ! off = m"
    for m k off using assms(1) by (simp add: schema_wf_def)
  have at: "\<exists>off. map_of (fields_schema s) m = Some (k, off)" if "m \<in> set (kind_names k s)" for m k
    using that by (auto simp: look in_set_conv_nth)
  show ?thesis using assms(2) at [of _ i] at [of _ j] by fastforce
qed

lemma built_ids:
  assumes "built_from ks sc" and "schema_wf sc" and "length ks \<le> 256"
  shows "ids_inj sc" and "GetFieldId n sc \<noteq> None \<longleftrightarrow> n \<in> set (map fst ks)"
proof -
  have names: "map fst ks = map fst (fields_schema sc)" using assms(1) by (auto simp: built_from_def kinds_def)
  then have dist: "distinct (map fst ks)" using assms(2) by (metis schema_wf_def ordered_distinct)
  have inj: "inj_on (word_of_nat :: nat \<Rightarrow> u8) {0..<256}"
    by (rule inj_on_inverseI [of _ unat]) (simp add: unat_byte)
  have ids: "distinct (map (word_of_nat :: nat \<Rightarrow> u8) [0..<length ks])"
    using inj assms(3) by (simp add: distinct_map inj_on_subset)
  have tab: "map_of (fields_name_id sc) = map_of (zip (map fst ks) (map word_of_nat [0..<length ks]))"
    using assms(1) by (simp add: built_from_def id_table_def)
  have "a = b" if "map_of (fields_name_id sc) a = Some i" "map_of (fields_name_id sc) b = Some i" for a b i
    using map_of_SomeD [OF that(1) [unfolded tab]] map_of_SomeD [OF that(2) [unfolded tab]] ids
    unfolding in_set_zip by (metis fst_conv snd_conv nth_eq_iff_index_eq)
  then show "ids_inj sc" unfolding ids_inj_def by (auto simp: inj_on_def dom_def)
  show "GetFieldId n sc \<noteq> None \<longleftrightarrow> n \<in> set (map fst ks)"
    unfolding GetFieldId_def tab by simp
qed

lemma kind_names_known:
  assumes "schema_wf s" and "set (map fst (fields_schema s)) \<subseteq> N"
  shows "set (kind_names j s) \<subseteq> N"
proof
  fix n
  assume "n \<in> set (kind_names j s)"
  then obtain off where "map_of (fields_schema s) n = Some (j, off)"
    using assms(1) by (auto simp: schema_wf_def in_set_conv_nth)
  then show "n \<in> N" using assms(2) by (force dest: map_of_SomeD)
qed

text \<open>A document over a built schema whose fields are all named in the schema and have a value.\<close>

definition doc_ok :: "(string \<times> nat) list \<Rightarrow> Doc \<Rightarrow> bool" where
  "doc_ok ks d \<longleftrightarrow> built_from ks (doc_schema d) \<and> schema_wf (doc_schema d) \<and> length ks \<le> 256 \<and>
     schema_wf (doc_base d) \<and> set (map fst (fields_schema (doc_base d))) \<subseteq> set (map fst ks) \<and>
     (\<forall>f \<in> set (long_fields (doc_base d)). val (nf f) \<noteq> None) \<and>
     (\<forall>f \<in> set (float_fields (doc_base d)). val (nf f) \<noteq> None) \<and>
     (\<forall>f \<in> set (string_fields (doc_base d)). val (lf f) \<noteq> None) \<and>
     (\<forall>f \<in> set (float_vector_fields (doc_base d)). val (lf f) \<noteq> None)"

lemma doc_ready:
  assumes "doc_ok ks d"
  shows "ready (name \<circ> nf) LongField_Serialize (doc_schema d) (long_fields (doc_base d))"
    and "ready (name \<circ> nf) FloatField_Serialize (doc_schema d) (float_fields (doc_base d))"
    and "ready (name \<circ> lf) StringField_Serialize (doc_schema d) (string_fields (doc_base d))"
    and "ready (name \<circ> lf) FloatVectorField_Serialize (doc_schema d) (float_vector_fields (doc_base d))"
proof -
  let ?b = "doc_base d" and ?s = "doc_schema d"
  have known: "GetFieldId n ?s \<noteq> None" if "n \<in> set (kind_names j ?b)" for n j
    using assms built_ids(2) [of ks ?s n] kind_names_known [of ?b "set (map fst ks)" j] that by (auto simp: doc_ok_def)
  have dist: "distinct (kind_names j ?b)" for j using assms kind_names_distinct by (simp add: doc_ok_def)
  show "ready (name \<circ> nf) LongField_Serialize ?s (long_fields ?b)"
    using known [of _ 0] dist [of 0] assms by (auto simp: doc_ok_def ready_def kind_names_def field_idx LongField_Serialize_def GetValue_def)
  show "ready (name \<circ> nf) FloatField_Serialize ?s (float_fields ?b)"
    using known [of _ 2] dist [of 2] assms by (auto simp: doc_ok_def ready_def kind_names_def field_idx FloatField_Serialize_def GetValue_def)
  show "ready (name \<circ> lf) StringField_Serialize ?s (string_fields ?b)"
    using known [of _ 1] dist [of 1] assms by (auto simp: doc_ok_def ready_def kind_names_def field_idx StringField_Serialize_def GetValue_def)
  show "ready (name \<circ> lf) FloatVectorField_Serialize ?s (float_vector_fields ?b)"
    using known [of _ 3] dist [of 3] assms by (auto simp: doc_ok_def ready_def kind_names_def field_idx FloatVectorField_Serialize_def GetValue_def)
qed

lemma Doc_Serialize_stores:
  assumes "doc_ok ks d"
  shows "\<exists>m. Doc_Serialize d = Inr m \<and> ordered m \<and>
    stored (name \<circ> nf) LongField_Serialize (doc_schema d) (long_fields (doc_base d)) m \<and>
    stored (name \<circ> nf) FloatField_Serialize (doc_schema d) (float_fields (doc_base d)) m \<and>
    stored (name \<circ> lf) StringField_Serialize (doc_schema d) (string_fields (doc_base d)) m \<and>
    stored (name \<circ> lf) FloatVectorField_Serialize (doc_schema d) (float_vector_fields (doc_base d)) m"
proof -
  let ?b = "doc_base d" and ?s = "doc_schema d"
  have ids: "ids_inj ?s" using assms built_ids(1) [of ks ?s] by (simp add: doc_ok_def)
  have wf: "schema_wf ?b" using assms by (simp add: doc_ok_def)
  note r = doc_ready [OF assms]
  have dis: "set (kind_names i ?b) \<inter> set (kind_names j ?b) = {}" if "i \<noteq> j" for i j
    by (rule kind_names_disjoint [OF wf that])
  have d: "(name \<circ> nf) ` set (long_fields ?b) \<inter> (name \<circ> nf) ` set (float_fields ?b) = {}"
    "(name \<circ> nf) ` set (long_fields ?b) \<inter> (name \<circ> lf) ` set (string_fields ?b) = {}"
    "(name \<circ> nf) ` set (long_fields ?b) \<inter> (name \<circ> lf) ` set (float_vector_fields ?b) = {}"
    "(name \<circ> nf) ` set (float_fields ?b) \<inter> (name \<circ> lf) ` set (string_fields ?b) = {}"
    "(name \<circ> nf) ` set (float_fields ?b) \<inter> (name \<circ> lf) ` set (float_vector_fields ?b) = {}"
    "(name \<circ> lf) ` set (string_fields ?b) \<inter> (name \<circ> lf) ` set (float_vector_fields ?b) = {}"
    using dis [of 0 2] dis [of 0 1] dis [of 0 3] dis [of 2 1] dis [of 2 3] dis [of 1 3]
    by (simp_all add: kind_names_def field_idx)
  obtain m1 where m1: "Doc_Serialize_loop (name \<circ> nf) LongField_Serialize ?s (long_fields ?b) [] = Inr m1" "ordered m1"
    "stored (name \<circ> nf) LongField_Serialize ?s (long_fields ?b) m1"
    using Doc_Serialize_loop_ok [OF ids _ r(1), of "[]"] by auto
  obtain m2 where m2: "Doc_Serialize_loop (name \<circ> nf) FloatField_Serialize ?s (float_fields ?b) m1 = Inr m2" "ordered m2"
    "stored (name \<circ> nf) FloatField_Serialize ?s (float_fields ?b) m2"
    "\<forall>n i. n \<notin> (name \<circ> nf) ` set (float_fields ?b) \<longrightarrow> GetFieldId n ?s = Some i \<longrightarrow> map_of m2 i = map_of m1 i"
    using Doc_Serialize_loop_ok [OF ids m1(2) r(2)] by blast
  obtain m3 where m3: "Doc_Serialize_loop (name \<circ> lf) StringField_Serialize ?s (string_fields ?b) m2 = Inr m3" "ordered m3"
    "stored (name \<circ> lf) StringField_Serialize ?s (string_fields ?b) m3"
    "\<forall>n i. n \<notin> (name \<circ> lf) ` set (string_fields ?b) \<longrightarrow> GetFieldId n ?s = Some i \<longrightarrow> map_of m3 i = map_of m2 i"
    using Doc_Serialize_loop_ok [OF ids m2(2) r(3)] by blast
  obtain m4 where m4: "Doc_Serialize_loop (name \<circ> lf) FloatVectorField_Serialize ?s (float_vector_fields ?b) m3 = Inr m4" "ordered m4"
    "stored (name \<circ> lf) FloatVectorField_Serialize ?s (float_vector_fields ?b) m4"
    "\<forall>n i. n \<notin> (name \<circ> lf) ` set (float_vector_fields ?b) \<longrightarrow> GetFieldId n ?s = Some i \<longrightarrow> map_of m4 i = map_of m3 i"
    using Doc_Serialize_loop_ok [OF ids m3(2) r(4)] by blast
  have "Doc_Serialize d = Inr m4" by (simp add: Doc_Serialize_def m1(1) m2(1) m3(1) m4(1))
  moreover note m4(2,3)
  moreover have "stored (name \<circ> lf) StringField_Serialize ?s (string_fields ?b) m4"
    by (rule stored_frame [OF m3(3) d(6) m4(4)])
  moreover have "stored (name \<circ> nf) FloatField_Serialize ?s (float_fields ?b) m4"
    by (rule stored_frame [OF stored_frame [OF m2(3) d(4) m3(4)] d(5) m4(4)])
  moreover have "stored (name \<circ> nf) LongField_Serialize ?s (long_fields ?b) m4"
    by (rule stored_frame [OF stored_frame [OF stored_frame [OF m1(3) d(1) m2(4)] d(2) m3(4)] d(3) m4(4)])
  ultimately show ?thesis by blast
qed

text \<open>Serialising a document. When every field of the document is named in its built schema, which
  is what \<open>Add...Field\<close> asserts, and has a value, the result maps the number of each field in the
  schema to the bytes of the field's value; no two fields share an entry.\<close>

theorem Doc_Serialize_ok:
  assumes "doc_ok ks d"
  shows "\<exists>m. Doc_Serialize d = Inr m \<and> ordered m \<and>
    stored (name \<circ> nf) LongField_Serialize (doc_schema d) (long_fields (doc_base d)) m \<and>
    stored (name \<circ> nf) FloatField_Serialize (doc_schema d) (float_fields (doc_base d)) m \<and>
    stored (name \<circ> lf) StringField_Serialize (doc_schema d) (string_fields (doc_base d)) m \<and>
    stored (name \<circ> lf) FloatVectorField_Serialize (doc_schema d) (float_vector_fields (doc_base d)) m"
  using Doc_Serialize_stores [OF assms] .

text \<open>A document checks its fields against its schema only on the overloads for constants. Adding
  a built string field with a name the schema lacks through \<open>AddStringField\<close> fails the assertion; adding the
  same name through the inherited \<open>AddStringFieldValue\<close> succeeds, whatever the document, and serialising
  the document then uses a field number that was never set.\<close>

theorem Doc_check_bypassed:
  assumes "map_of (fields_schema (doc_schema d)) n = None" and "GetFieldId n (doc_schema d) = None"
    and "PreAddCheck n (doc_base d)" and "Doc_Serialize d = Inr m"
  shows "(\<forall>f. name (lf f) = n \<longrightarrow> Doc_AddStringField f d = Inl AssertFailed) \<and>
    (\<forall>v. \<exists>d'. Doc_AddStringFieldValue n v d = Inr d' \<and> Doc_Serialize d' = Inl Uninitialised)"
proof (intro conjI allI impI)
  show "Doc_AddStringField f d = Inl AssertFailed" if "name (lf f) = n" for f
    using assms(1) that by (cases "HasBuilt (lf f)") (simp_all add: Doc_AddStringField_def Doc_check_def)
  fix v
  let ?f = "\<lparr>lf = (TypedField_new n :: string TypedField)\<lparr>initialized := True, val := Some v, fixed := True\<rparr>,
    lf_mix = LengthMixin_Build LengthMixin_default\<rparr>"
  let ?d = "d\<lparr>doc_base := AddStringField ?f (doc_base d)\<rparr>"
  have added: "Doc_AddStringFieldValue n v d = Inr ?d"
    by (simp add: Doc_AddStringFieldValue_def AddStringFieldValue_def StringField_new_def SetValue_def HasBuilt_def
        TypedField_new_def LengthField_Build_def TypedField_Build_def HasValue_def add_overloads)
  have app: "Doc_Serialize_loop nm ser sc (fs @ [f]) m = bnd (Doc_Serialize_loop nm ser sc fs m) (\<lambda>m.
      bnd (of_opt Uninitialised (GetFieldId (nm f) sc)) (\<lambda>fid. bnd (ser f) (\<lambda>v. Inr (map_put fid v m))))"
    for nm and ser :: "'f \<Rightarrow> byte list outcome" and sc fs f m
    by (induction fs arbitrary: m) (auto simp: bnd_assoc)
  have base: "string_fields (AddStringField ?f b) = string_fields b @ [?f]"
    "long_fields (AddStringField ?f b) = long_fields b" "float_fields (AddStringField ?f b) = float_fields b"
    if "PreAddCheck n b" for b
    using that by (simp_all add: AddStringField_def Let_def TypedField_new_def)
  have nm: "(name \<circ> lf) ?f = n" by (simp add: TypedField_new_def)
  have "Doc_Serialize ?d = Inl Uninitialised"
    using assms(2,4) unfolding Doc_Serialize_def
    by (simp add: base [OF assms(3)] app nm bnd_eq_Inr del: o_apply) auto
  then show "\<exists>d'. Doc_AddStringFieldValue n v d = Inr d' \<and> Doc_Serialize d' = Inl Uninitialised"
    using added by blast
qed


definition sample_doc :: "Doc outcome" where
  "sample_doc = bnd (DocSchema_Build sample_schema) (\<lambda>(_, b). bnd (NewPK 7) (\<lambda>pk. Doc_new pk b))"

lemma key_doc_ok:
  assumes b: "built_from ks b" "schema_wf b" "length ks \<le> 256" and key: "''_id'' \<in> set (map fst ks)"
  obtains d where "bnd (NewPK v) (\<lambda>pk. Doc_new pk b) = Inr d" and "doc_ok ks d" and "doc_schema d = b"
    and "fields_schema (doc_base d) = [(''_id'', 0, 0)]" and "\<not> ds_fixed (doc_base d)" and "fields_id_type (doc_base d) = []"
    and "map (val \<circ> nf) (long_fields (doc_base d)) = [Some v]"
proof -
  obtain pk where pk: "NewPK v = Inr pk" and nm: "name (nf pk) = ''_id''" "val (nf pk) = Some v" "fixed (nf pk)"
    by (simp add: NewPK_def PrimaryKeyName_def LongField_new_def SetValue_def HasBuilt_def NumericField_Build_def
        TypedField_Build_def HasValue_def TypedField_new_def Let_def)
  let ?d = "\<lparr>doc_base = AddLongField pk DocSchema_default, doc_schema = b\<rparr>"
  have doc: "bnd (NewPK v) (\<lambda>pk. Doc_new pk b) = Inr ?d" using b
    by (simp add: pk Doc_new_def DocSchema_new_def nm PrimaryKeyName_def HasBuilt_def DocSchema_HasBuilt_def built_from_def)
  have check: "PreAddCheck (name (nf pk)) DocSchema_default"
    by (simp add: PreAddCheck_def DocSchema_HasBuilt_def default_empty)
  have base: "fields_schema (doc_base ?d) = [(''_id'', 0, 0)]" "long_fields (doc_base ?d) = [pk]"
    "float_fields (doc_base ?d) = []" "string_fields (doc_base ?d) = []" "float_vector_fields (doc_base ?d) = []"
    "\<not> ds_fixed (doc_base ?d)" "fields_id_type (doc_base ?d) = []"
    using check nm(1) by (simp_all add: AddLongField_def Let_def DocSchema_default_def field_idx)
  have wf: "schema_wf (doc_base ?d)" using field_added_wf [OF schema_wf_default check add_accepted(1) [OF check]] by simp
  have "doc_ok ks ?d" using b wf key unfolding doc_ok_def base by (simp add: nm)
  moreover have "map (val \<circ> nf) (long_fields (doc_base ?d)) = [Some v]" unfolding base(2) using nm(2) by simp
  ultimately show thesis using that doc base(1,6,7) by auto
qed

lemma sample_kinds: "kinds sample_schema = [(''Age'', 0), (''_id'', 0), (''likes'', 1), (''score'', 2), (''uid'', 1)]"
  by (simp add: kinds_def sample_schema_fields)

lemma sample_doc_ok:
  obtains d where "sample_doc = Inr d" and "doc_ok (kinds sample_schema) d"
    and "fields_schema (doc_base d) = [(''_id'', 0, 0)]" and "\<not> ds_fixed (doc_base d)"
proof -
  obtain b where b: "DocSchema_Build sample_schema = Inr (True, b)" "built_from (kinds sample_schema) b" "schema_wf b"
    using Build_ok [OF sample_schema_wf sample_schema_fields(3,2)] by metis
  obtain d where d: "bnd (NewPK 7) (\<lambda>pk. Doc_new pk b) = Inr d" "doc_ok (kinds sample_schema) d"
    "fields_schema (doc_base d) = [(''_id'', 0, 0)]" "\<not> ds_fixed (doc_base d)"
    using key_doc_ok [OF b(2,3), of 7] by (auto simp: sample_kinds)
  show thesis using that d b(1) by (simp add: sample_doc_def)
qed

theorem Doc_Serialize_ok_witness:
  "\<exists>d m. sample_doc = Inr d \<and> Doc_Serialize d = Inr m"
proof -
  obtain d where "sample_doc = Inr d" "doc_ok (kinds sample_schema) d" using sample_doc_ok by metis
  then show ?thesis using Doc_Serialize_ok by blast
qed

theorem Doc_check_bypassed_witness:
  "\<exists>d d'. sample_doc = Inr d \<and> Doc_AddStringFieldValue ''nick'' ''xp'' d = Inr d' \<and> Doc_Serialize d' = Inl Uninitialised"
proof -
  obtain d where d: "sample_doc = Inr d" "doc_ok (kinds sample_schema) d" "fields_schema (doc_base d) = [(''_id'', 0, 0)]"
    "\<not> ds_fixed (doc_base d)" using sample_doc_ok by metis
  have "GetFieldId ''nick'' (doc_schema d) = None"
    using d(2) built_ids(2) [of "kinds sample_schema" "doc_schema d" "''nick''"]
    by (simp add: doc_ok_def kinds_def sample_schema_fields)
  moreover have "map fst (kinds (doc_schema d)) = map fst (kinds sample_schema)"
    using d(2) by (simp add: doc_ok_def built_from_def)
  then have "map fst (fields_schema (doc_schema d)) = map fst (fields_schema sample_schema)"
    by (simp add: kinds_def o_def case_prod_unfold)
  then have "map_of (fields_schema (doc_schema d)) ''nick'' = None"
    by (simp add: map_of_eq_None_iff kinds_def sample_schema_fields flip: set_map)
  moreover have "PreAddCheck ''nick'' (doc_base d)" using d by (simp add: PreAddCheck_def DocSchema_HasBuilt_def)
  moreover obtain m where "Doc_Serialize d = Inr m"
    using Doc_Serialize_stores [OF d(2)] by blast
  ultimately show ?thesis using Doc_check_bypassed [of d "''nick''" m] d(1) by blast
qed

end
