(* ===== verification/Rk_Store.thy ===== *)
theory Rk_Store
  imports Rk_Doc
begin

text \<open>
  What the document store keeps: the key layout of \<open>rocksdb_lab/rocksdb_util.h\<close>, the cache \<open>DBCache\<close> of
  \<open>rocksdb_impl.h\<close>, and the key-value store below it. RocksDB itself is not part of the repository: it is the
  argument \<open>ops\<close> of every operation that calls it, a record of the calls the code makes, on an abstract
  type of stores. What the code relies on is stated as \<open>kv_laws\<close>: a store has a view as a map from keys to
  values, reads return what the view holds, a write batch is applied in order, and an iterator
  delivers the entries between its bounds in increasing order of the keys.
\<close>

section \<open>The key-value store\<close>

datatype RStatus = R_OK | R_NotFound | R_InvalidArgument | R_Error

type_synonym key = "byte list"

datatype WriteOp = WPut key "byte list" | WDelete key

record 'db rocks =
  db_Get :: "'db \<Rightarrow> key \<Rightarrow> RStatus \<times> byte list"
  db_Write :: "WriteOp list \<Rightarrow> 'db \<Rightarrow> RStatus \<times> 'db"
  db_Scan :: "key option \<Rightarrow> key option \<Rightarrow> 'db \<Rightarrow> (key \<times> byte list) list"

definition apply_op :: "WriteOp \<Rightarrow> (key \<rightharpoonup> byte list) \<Rightarrow> (key \<rightharpoonup> byte list)" where
  "apply_op w m = (case w of WPut k v \<Rightarrow> m(k \<mapsto> v) | WDelete k \<Rightarrow> m(k := None))"

definition apply_batch :: "WriteOp list \<Rightarrow> (key \<rightharpoonup> byte list) \<Rightarrow> (key \<rightharpoonup> byte list)" where
  "apply_batch ws m = fold apply_op ws m"

definition in_bounds :: "key option \<Rightarrow> key option \<Rightarrow> key \<Rightarrow> bool" where
  "in_bounds lo hi k \<longleftrightarrow> (case lo of None \<Rightarrow> True | Some l \<Rightarrow> l \<le> k) \<and> (case hi of None \<Rightarrow> True | Some u \<Rightarrow> k < u)"

definition kv_laws :: "'db rocks \<Rightarrow> ('db \<Rightarrow> (key \<rightharpoonup> byte list)) \<Rightarrow> bool" where
  "kv_laws ops view \<longleftrightarrow>
     (\<forall>db k. case view db k of Some v \<Rightarrow> db_Get ops db k = (R_OK, v) | None \<Rightarrow> fst (db_Get ops db k) = R_NotFound) \<and>
     (\<forall>ws db. fst (db_Write ops ws db) = R_OK \<and> view (snd (db_Write ops ws db)) = apply_batch ws (view db)) \<and>
     (\<forall>lo hi db. ordered (db_Scan ops lo hi db) \<and>
        (\<forall>k. map_of (db_Scan ops lo hi db) k = (if in_bounds lo hi k then view db k else None)))"

text \<open>A list of pairs, the first of them for a key counting, is such a store.\<close>

fun list_op :: "WriteOp \<Rightarrow> (key \<times> byte list) list \<Rightarrow> (key \<times> byte list) list" where
  "list_op (WPut k v) m = (k, v) # m"
| "list_op (WDelete k) m = map_erase k m"

definition list_store :: "(key \<times> byte list) list rocks" where
  "list_store = \<lparr>
     db_Get = (\<lambda>m k. case map_of m k of Some v \<Rightarrow> (R_OK, v) | None \<Rightarrow> (R_NotFound, [])),
     db_Write = (\<lambda>ws m. (R_OK, fold list_op ws m)),
     db_Scan = (\<lambda>lo hi m. map (\<lambda>k. (k, the (map_of m k))) (filter (in_bounds lo hi) (sort (remdups (map fst m)))))\<rparr>"

lemma list_op_apply: "map_of (list_op w m) = apply_op w (map_of m)"
  by (cases w) (simp_all add: apply_op_def)

lemma list_store_laws: "kv_laws list_store map_of"
proof -
  have wr: "map_of (fold list_op ws m) = apply_batch ws (map_of m)" for ws m
    by (induction ws arbitrary: m) (simp_all add: apply_batch_def list_op_apply)
  have keys: "map_of (map (\<lambda>k. (k, f k)) ks) k = (if k \<in> set ks then Some (f k) else None)" for f :: "key \<Rightarrow> byte list" and ks k
    by (induction ks) auto
  have scan: "map_of (db_Scan list_store lo hi m) k = (if in_bounds lo hi k then map_of m k else None)" for lo hi m k
  proof (cases "map_of m k")
    case None
    then have "k \<notin> fst ` set m" by (simp add: map_of_eq_None_iff)
    then show ?thesis using None by (simp add: list_store_def keys)
  next
    case (Some v)
    then have "k \<in> fst ` set m" by (metis domI dom_map_of_conv_image_fst)
    then show ?thesis using Some by (simp add: list_store_def keys)
  qed
  have "ordered (db_Scan list_store lo hi m)" for lo hi m
  proof -
    have "sorted_wrt (<) (sort (remdups (map fst m)))" by (simp add: strict_sorted_iff)
    then show ?thesis by (simp add: list_store_def o_def sorted_wrt_filter)
  qed
  then show ?thesis using wr scan
    by (auto simp: kv_laws_def) (auto simp: list_store_def split: option.splits)
qed

section \<open>Keys\<close>

definition DBTableSegmentSize :: u64 where "DBTableSegmentSize = 50000"
definition PrefixSize :: nat where "PrefixSize = 3"

abbreviation str :: "string \<Rightarrow> byte list" where "str s \<equiv> map byte_of_char s"

definition DBTableSequenceKey :: key where "DBTableSequenceKey = str ''TSK''"
definition DBTablePrefix :: key where "DBTablePrefix = str ''TTP''"
definition DBTableCurrentSegmentPrefix :: key where "DBTableCurrentSegmentPrefix = str ''TSP''"
definition DBTableSegmentNextIDPrefix :: key where "DBTableSegmentNextIDPrefix = str ''TSS''"
definition DBTableUidIdMappingPrefix :: key where "DBTableUidIdMappingPrefix = str ''TID''"
definition DBTableMappingPrefix :: key where "DBTableMappingPrefix = str ''TMP''"
definition DBTableFieldIndexPrefix :: key where "DBTableFieldIndexPrefix = str ''TFI''"
definition DBTableFieldValuePrefix :: key where "DBTableFieldValuePrefix = str ''TFV''"

lemmas prefix_defs = DBTableSequenceKey_def DBTablePrefix_def DBTableCurrentSegmentPrefix_def DBTableSegmentNextIDPrefix_def
  DBTableUidIdMappingPrefix_def DBTableMappingPrefix_def DBTableFieldIndexPrefix_def DBTableFieldValuePrefix_def

abbreviation ser64 :: "u64 \<Rightarrow> byte list \<Rightarrow> byte list" where "ser64 v data \<equiv> Serialize_num 8 (unat v) data"
abbreviation ser8 :: "u8 \<Rightarrow> byte list \<Rightarrow> byte list" where "ser8 v data \<equiv> Serialize_num 1 (unat v) data"

definition TableKey :: "string \<Rightarrow> key" where "TableKey table_name = DBTablePrefix @ str table_name"

text \<open>Reading a number at an offset of a slice.\<close>

definition de64 :: "byte list \<Rightarrow> nat \<Rightarrow> u64 outcome" where
  "de64 data off = bnd (Deserialize_num 8 (drop off data)) (\<lambda>n. Inr (word_of_nat n))"

definition de8 :: "byte list \<Rightarrow> nat \<Rightarrow> u8 outcome" where
  "de8 data off = bnd (Deserialize_num 1 (drop off data)) (\<lambda>n. Inr (word_of_nat n))"

text \<open>\<open>MyComparator\<close>: the prefix first, table names as strings, everything else word by word in the
  byte order of the machine.\<close>

definition le_word :: "byte list \<Rightarrow> nat \<Rightarrow> nat outcome" where
  "le_word d off = (if length d < off + 8 then Inl OutOfBounds else Inr (bytes_val (take 8 (drop off d))))"

definition slice_compare :: "byte list \<Rightarrow> byte list \<Rightarrow> int" where
  "slice_compare a b = (if a < b then -1 else if b < a then 1 else 0)"

fun Compare_words :: "nat \<Rightarrow> nat \<Rightarrow> key \<Rightarrow> key \<Rightarrow> int outcome" where
  "Compare_words 0 i a b = Inr 0"
| "Compare_words (Suc n) i a b =
     bnd (le_word a (i * 8 + PrefixSize)) (\<lambda>x. bnd (le_word b (i * 8 + PrefixSize)) (\<lambda>y.
       if x = y then Compare_words n (i + 1) a b else if y < x then Inr 1 else Inr (-1)))"

definition MyComparator_Compare :: "key \<Rightarrow> key \<Rightarrow> int outcome" where
  "MyComparator_Compare a b =
     (if length a < PrefixSize \<or> length b < PrefixSize then Inl OutOfBounds
      else let ret = slice_compare (take PrefixSize a) (take PrefixSize b)
           in if ret \<noteq> 0 then Inr ret
              else if take PrefixSize a = DBTablePrefix then Inr (slice_compare a b)
              else Compare_words ((length a - PrefixSize) div 8) 0 a b)"

section \<open>DBCache\<close>

record DBCache =
  cache_tid :: "u64 option"
  segmap :: "(u64 \<times> u64) list"
  tnamenamp :: "(string \<times> u64) list"
  tidnamemap :: "(u64 \<times> string) list"
  tschemaamp :: "(string \<times> DocSchema) list"
  offset_map :: "(u64 \<times> u64) list"

definition DBCache_new :: DBCache where
  "DBCache_new = \<lparr>cache_tid = None, segmap = [], tnamenamp = [], tidnamemap = [], tschemaamp = [], offset_map = []\<rparr>"

definition GetTid :: "DBCache \<Rightarrow> u64 outcome" where
  "GetTid c = of_opt Uninitialised (cache_tid c)"

definition GetAndIncTid :: "DBCache \<Rightarrow> (u64 \<times> DBCache) outcome" where
  "GetAndIncTid c = bnd (GetTid c) (\<lambda>t. Inr (t, c\<lparr>cache_tid := Some (t + 1)\<rparr>))"

text \<open>With a name and a schema, the mappings are made for the identifier held before.\<close>

definition SetTid :: "u64 \<Rightarrow> (string \<times> DocSchema) option \<Rightarrow> DBCache \<Rightarrow> DBCache outcome" where
  "SetTid tid table c =
     (case table of None \<Rightarrow> Inr (c\<lparr>cache_tid := Some tid\<rparr>)
      | Some (tname, schema) \<Rightarrow> bnd (GetTid c) (\<lambda>t. Inr (c\<lparr>tnamenamp := map_put tname t (tnamenamp c),
          tidnamemap := map_put t tname (tidnamemap c), tschemaamp := map_put tname (DocSchema_copy schema) (tschemaamp c),
          cache_tid := Some tid\<rparr>)))"

definition UpdateTableMapping_name :: "u64 \<Rightarrow> string \<Rightarrow> DBCache \<Rightarrow> DBCache" where
  "UpdateTableMapping_name tid tname c = c\<lparr>tnamenamp := map_put tname tid (tnamenamp c), tidnamemap := map_put tid tname (tidnamemap c)\<rparr>"

text \<open>\<open>tidnamemap_[tid]\<close> makes an entry with the empty name if there is none.\<close>

definition name_at :: "u64 \<Rightarrow> DBCache \<Rightarrow> string \<times> DBCache" where
  "name_at tid c =
     (case map_of (tidnamemap c) tid of Some n \<Rightarrow> (n, c)
      | None \<Rightarrow> ('''', c\<lparr>tidnamemap := map_put tid '''' (tidnamemap c)\<rparr>))"

definition UpdateTableMapping_schema :: "u64 \<Rightarrow> DocSchema \<Rightarrow> DBCache \<Rightarrow> DBCache" where
  "UpdateTableMapping_schema tid schema c =
     (let (n, c) = name_at tid c in c\<lparr>tschemaamp := map_put n (DocSchema_copy schema) (tschemaamp c)\<rparr>)"

definition UpdateSegMap :: "u64 \<Rightarrow> u64 \<Rightarrow> DBCache \<Rightarrow> DBCache" where
  "UpdateSegMap tid sid c = c\<lparr>segmap := map_put tid sid (segmap c)\<rparr>"

definition UpdateTidOffset :: "u64 \<Rightarrow> u64 \<Rightarrow> DBCache \<Rightarrow> DBCache" where
  "UpdateTidOffset tid offset c = c\<lparr>offset_map := map_put tid offset (offset_map c)\<rparr>"

definition GetTidOffset :: "u64 \<Rightarrow> DBCache \<Rightarrow> u64 \<times> DBCache" where
  "GetTidOffset tid c =
     (case map_of (offset_map c) tid of Some off \<Rightarrow> (off, c)
      | None \<Rightarrow> (0, c\<lparr>offset_map := map_put tid 0 (offset_map c)\<rparr>))"

definition GetSegId :: "u64 \<Rightarrow> DBCache \<Rightarrow> u64 option" where "GetSegId tid c = map_of (segmap c) tid"

definition GetSchema_name :: "string \<Rightarrow> DBCache \<Rightarrow> DocSchema option" where "GetSchema_name tname c = map_of (tschemaamp c) tname"

definition GetSchema_tid :: "u64 \<Rightarrow> DBCache \<Rightarrow> DocSchema option \<times> DBCache" where
  "GetSchema_tid tid c = (let (n, c) = name_at tid c in (GetSchema_name n c, c))"

definition GetTidByTname :: "string \<Rightarrow> DBCache \<Rightarrow> u64 option" where "GetTidByTname tname c = map_of (tnamenamp c) tname"

section \<open>Facts\<close>

lemma kv_lawsD:
  assumes "kv_laws ops view"
  shows "view db k = Some v \<Longrightarrow> db_Get ops db k = (R_OK, v)"
    and "view db k = None \<Longrightarrow> \<exists>x. db_Get ops db k = (R_NotFound, x)"
    and "\<exists>db'. db_Write ops ws db = (R_OK, db') \<and> view db' = apply_batch ws (view db)"
    and "ordered (db_Scan ops lo hi db)"
    and "map_of (db_Scan ops lo hi db) k = (if in_bounds lo hi k then view db k else None)"
proof -
  have g: "case view db k of Some v \<Rightarrow> db_Get ops db k = (R_OK, v) | None \<Rightarrow> fst (db_Get ops db k) = R_NotFound"
    using assms unfolding kv_laws_def by blast
  show "view db k = Some v \<Longrightarrow> db_Get ops db k = (R_OK, v)" using g by simp
  show "view db k = None \<Longrightarrow> \<exists>x. db_Get ops db k = (R_NotFound, x)" using g by (cases "db_Get ops db k") simp
  show "\<exists>db'. db_Write ops ws db = (R_OK, db') \<and> view db' = apply_batch ws (view db)"
    using assms unfolding kv_laws_def by (metis prod.collapse)
  show "ordered (db_Scan ops lo hi db)" "map_of (db_Scan ops lo hi db) k = (if in_bounds lo hi k then view db k else None)"
    using assms unfolding kv_laws_def by blast+
qed

lemma ser_append: "Serialize_num n v data = data @ Serialize_num n v []"
  by (simp add: Serialize_num_bytes)

lemma length_ser64 [simp]: "length (ser64 v []) = 8"
  by (simp add: Serialize_num_bytes)

lemma de64_ser64: "de64 (pre @ ser64 v [] @ rest) (length pre) = Inr v"
proof -
  have "unat v < 2 ^ LENGTH(64)" by (rule unsigned_less)
  then show ?thesis using Deserialize_Serialize_num [of "unat v" 8 rest] by (simp add: de64_def)
qed

lemma ser64_inj: "ser64 v [] = ser64 w [] \<longleftrightarrow> v = w"
proof
  assume "ser64 v [] = ser64 w []"
  then have "Inr v = (Inr w :: u64 outcome)" using de64_ser64 [of "[]" v "[]"] de64_ser64 [of "[]" w "[]"] by (simp only: append_Nil)
  then show "v = w" by simp
qed simp

lemma ser8_byte: "ser8 v data = data @ [v]"
  by (rule Serialize_byte)

end
