(* ===== verification/Rk_Impl.thy ===== *)
theory Rk_Impl
  imports Rk_Store
begin

text \<open>
  \<open>RocksDBImpl\<close> (\<open>rocksdb_lab/rocksdb_impl.cpp\<close>) over the calls \<open>ops\<close> of the key-value store: opening, creating
  tables, adding documents and reading them back. The result of an operation is its status and the
  state after it; a failed assertion is a fault. The lines written to the console are left out.
\<close>

record 'db RocksDBImpl =
  kvdb :: 'db
  db_cache :: DBCache

section \<open>Opening\<close>

fun Init_names :: "(key \<times> byte list) list \<Rightarrow> DBCache \<Rightarrow> DBCache outcome" where
  "Init_names [] c = Inr c"
| "Init_names ((k, v) # kvs) c =
     (if take (length DBTablePrefix) k \<noteq> DBTablePrefix then Inr c
      else let tk = map char_of_byte (drop (length DBTablePrefix) k)
           in bnd (de64 v 0) (\<lambda>tid. Init_names kvs (UpdateTableMapping_name tid tk c)))"

fun Init_segments :: "(key \<times> byte list) list \<Rightarrow> DBCache \<Rightarrow> DBCache outcome" where
  "Init_segments [] c = Inr c"
| "Init_segments ((k, v) # kvs) c =
     bnd (de64 k (length DBTableMappingPrefix)) (\<lambda>tid. bnd (de64 v 0) (\<lambda>sid. bnd (de64 v 8) (\<lambda>i.
       Init_segments kvs (UpdateTidOffset tid i (UpdateSegMap tid sid c)))))"

fun Init_schemas :: "(key \<times> byte list) list \<Rightarrow> DBCache \<Rightarrow> DBCache outcome" where
  "Init_schemas [] c = Inr c"
| "Init_schemas ((k, v) # kvs) c =
     bnd (DocSchema_Deserialize v DocSchema_default) (\<lambda>schema.
     bnd (de64 k (length DBTableMappingPrefix)) (\<lambda>tid. Init_schemas kvs (UpdateTableMapping_schema tid schema c)))"

definition RocksDBImpl_Init :: "'db rocks \<Rightarrow> 'db RocksDBImpl \<Rightarrow> 'db RocksDBImpl outcome" where
  "RocksDBImpl_Init ops st =
     (let (s, db_seq_id) = db_Get ops (kvdb st) DBTableSequenceKey in
      if s = R_NotFound
      then let (s, db) = db_Write ops [WPut DBTableSequenceKey (le_bytes 8 0)] (kvdb st)
           in bnd (guard AssertFailed (s = R_OK)) (\<lambda>_.
              bnd (SetTid 0 None (db_cache st)) (\<lambda>c. Inr \<lparr>kvdb = db, db_cache = c\<rparr>))
      else bnd (guard AssertFailed (s = R_OK)) (\<lambda>_.
           bnd (de64 db_seq_id 0) (\<lambda>tid.
           bnd (SetTid tid None (db_cache st)) (\<lambda>c.
           bnd (Init_names (db_Scan ops (Some DBTablePrefix) None (kvdb st)) c) (\<lambda>c.
           bnd (Init_segments (db_Scan ops (Some (ser64 0 DBTableSegmentNextIDPrefix))
                  (Some (DBTableSegmentNextIDPrefix @ db_seq_id)) (kvdb st)) c) (\<lambda>c.
           bnd (Init_schemas (db_Scan ops (Some (ser64 0 DBTableMappingPrefix))
                  (Some (DBTableMappingPrefix @ db_seq_id)) (kvdb st)) c) (\<lambda>c.
             Inr (st\<lparr>db_cache := c\<rparr>))))))))"

definition RocksDBImpl_new :: "'db rocks \<Rightarrow> 'db \<Rightarrow> 'db RocksDBImpl outcome" where
  "RocksDBImpl_new ops db = RocksDBImpl_Init ops \<lparr>kvdb = db, db_cache = DBCache_new\<rparr>"

section \<open>Tables\<close>

definition CreateTable :: "'db rocks \<Rightarrow> string \<Rightarrow> DocSchema \<Rightarrow> 'db RocksDBImpl \<Rightarrow> (RStatus \<times> 'db RocksDBImpl) outcome" where
  "CreateTable ops table_name schema st =
     (let table_key = TableKey table_name; (s, _) = db_Get ops (kvdb st) table_key in
      if s = R_NotFound
      then if \<not> DocSchema_HasBuilt schema then Inr (R_InvalidArgument, st)
           else bnd (GetTid (db_cache st)) (\<lambda>tid.
                bnd (DocSchema_Serialize schema) (\<lambda>schema_serialized.
                let next_tid = tid + 1;
                    wb = [WPut DBTableSequenceKey (ser64 next_tid []), WPut table_key (ser64 tid []),
                          WPut (ser64 tid DBTableCurrentSegmentPrefix) (ser64 0 []),
                          WPut (ser64 tid DBTableSegmentNextIDPrefix) (ser64 0 (ser64 0 [])),
                          WPut (ser64 tid DBTableMappingPrefix) schema_serialized];
                    (s, db) = db_Write ops wb (kvdb st)
                in bnd (guard AssertFailed (s = R_OK)) (\<lambda>_.
                   let c = UpdateTidOffset tid 0 (UpdateSegMap tid 0 (db_cache st))
                   in bnd (guard AssertFailed (GetSegId tid c \<noteq> None)) (\<lambda>_.
                      bnd (SetTid next_tid (Some (table_name, schema)) c) (\<lambda>c.
                        Inr (R_OK, \<lparr>kvdb = db, db_cache = UpdateTableMapping_schema tid schema c\<rparr>))))))
      else bnd (guard AssertFailed (s = R_OK)) (\<lambda>_. Inr (R_OK, st)))"

record Table =
  table_name :: string
  table_id :: u64
  current_segment_id :: "u64 option"

fun GetTables_scan :: "(key \<times> byte list) list \<Rightarrow> Table list outcome" where
  "GetTables_scan [] = Inr []"
| "GetTables_scan ((k, v) # kvs) =
     bnd (de64 v 0) (\<lambda>tid. bnd (GetTables_scan kvs) (\<lambda>ts.
       Inr (\<lparr>table_name = map char_of_byte (drop PrefixSize k), table_id = tid, current_segment_id = None\<rparr> # ts)))"

fun GetTables_segments :: "'db rocks \<Rightarrow> 'db \<Rightarrow> Table list \<Rightarrow> Table list outcome" where
  "GetTables_segments ops db [] = Inr []"
| "GetTables_segments ops db (t # ts) =
     (let (s, sid_str) = db_Get ops db (ser64 (table_id t) DBTableCurrentSegmentPrefix)
      in bnd (guard AssertFailed (s = R_OK)) (\<lambda>_. bnd (de64 sid_str 0) (\<lambda>sid.
         bnd (GetTables_segments ops db ts) (\<lambda>ts. Inr (t\<lparr>current_segment_id := Some sid\<rparr> # ts)))))"

definition GetTables :: "'db rocks \<Rightarrow> 'db RocksDBImpl \<Rightarrow> Table list outcome" where
  "GetTables ops st =
     bnd (GetTables_scan (db_Scan ops (Some DBTablePrefix) (Some (ser8 255 DBTablePrefix)) (kvdb st)))
       (GetTables_segments ops (kvdb st))"

section \<open>Adding documents\<close>

text \<open>What the loop over the fields of a document carries: the batch, the address whose entries are to be
  deleted, the offset used and whether the document is new.\<close>

record AddState =
  wb :: "WriteOp list"
  addr_to_delete :: "byte list"
  offset_used :: u64
  has_new :: bool

text \<open>The part for field 0, the key of the document.\<close>

definition AddDoc_uid :: "'db rocks \<Rightarrow> 'db \<Rightarrow> u64 \<Rightarrow> u64 \<Rightarrow> byte list \<Rightarrow> AddState \<Rightarrow> AddState outcome" where
  "AddDoc_uid ops db tid sid v a =
     (let key = ser64 tid DBTableUidIdMappingPrefix @ v; (s, addr) = db_Get ops db key in
      bnd (if s = R_OK
           then bnd (de64 addr 0) (\<lambda>sid_used.
                if sid_used \<noteq> sid then Inr (a\<lparr>wb := wb a @ [WDelete key], addr_to_delete := addr\<rparr>)
                else bnd (de64 addr 8) (\<lambda>off. Inr (a\<lparr>has_new := False, offset_used := off, addr_to_delete := []\<rparr>)))
           else Inr a) (\<lambda>a.
        Inr (a\<lparr>wb := wb a @ [WPut key (ser64 (offset_used a) (ser64 sid []))]\<rparr>)))"

text \<open>The entries of the field at the old address.\<close>

definition AddDoc_delete :: "'db rocks \<Rightarrow> 'db \<Rightarrow> u64 \<Rightarrow> u8 \<Rightarrow> AddState \<Rightarrow> AddState outcome" where
  "AddDoc_delete ops db tid fid a =
     (if addr_to_delete a = [] then Inr a
      else let field_key = ser8 fid (ser64 tid DBTableFieldValuePrefix @ addr_to_delete a);
               (s, fval) = db_Get ops db field_key
           in bnd (guard AssertFailed (s = R_OK)) (\<lambda>_.
              Inr (a\<lparr>wb := wb a @ [WDelete field_key,
                WDelete (ser8 fid (ser64 tid DBTableFieldIndexPrefix) @ fval @ addr_to_delete a)]\<rparr>)))"

definition field_val_key :: "u64 \<Rightarrow> u64 \<Rightarrow> u64 \<Rightarrow> u8 \<Rightarrow> key" where
  "field_val_key tid sid off fid = ser8 fid (ser64 off (ser64 sid (ser64 tid DBTableFieldValuePrefix)))"

definition field_index_key :: "u64 \<Rightarrow> u8 \<Rightarrow> byte list \<Rightarrow> u64 \<Rightarrow> u64 \<Rightarrow> key" where
  "field_index_key tid fid v sid off = ser64 off (ser64 sid (ser8 fid (ser64 tid DBTableFieldIndexPrefix) @ v))"

fun AddDoc_fields :: "'db rocks \<Rightarrow> 'db \<Rightarrow> u64 \<Rightarrow> u64 \<Rightarrow> (u8 \<times> byte list) list \<Rightarrow> AddState \<Rightarrow> AddState outcome" where
  "AddDoc_fields ops db tid sid [] a = Inr a"
| "AddDoc_fields ops db tid sid ((fid, v) # fvs) a =
     bnd (if fid = 0 then AddDoc_uid ops db tid sid v a else Inr a) (\<lambda>a.
     bnd (AddDoc_delete ops db tid fid a) (\<lambda>a.
       AddDoc_fields ops db tid sid fvs (a\<lparr>wb := wb a @
         [WPut (field_val_key tid sid (offset_used a) fid) v, WPut (field_index_key tid fid v sid (offset_used a)) []]\<rparr>)))"

text \<open>The position in the current segment: batch, segment, offset, and whether the segment changed.\<close>

record SegState =
  seg_wb :: "WriteOp list"
  seg_id :: u64
  seg_offset :: u64
  has_update :: bool

definition AddDoc_batch :: "'db rocks \<Rightarrow> 'db \<Rightarrow> u64 \<Rightarrow> Doc \<Rightarrow> SegState \<Rightarrow> SegState outcome" where
  "AddDoc_batch ops db tid doc g =
     bnd (Doc_Serialize doc) (\<lambda>doc_serialized.
     bnd (AddDoc_fields ops db tid (seg_id g) doc_serialized
            \<lparr>wb = seg_wb g, addr_to_delete = [], offset_used = seg_offset g, has_new = True\<rparr>) (\<lambda>a.
       let g = g\<lparr>seg_wb := wb a\<rparr>;
           g = (if has_new a
                then let g = g\<lparr>seg_offset := seg_offset g + 1\<rparr>
                     in if DBTableSegmentSize \<le> seg_offset g
                        then let g = g\<lparr>seg_id := seg_id g + 1, seg_offset := 0, has_update := True\<rparr>
                             in g\<lparr>seg_wb := seg_wb g @ [WPut (ser64 tid DBTableCurrentSegmentPrefix) (ser64 (seg_id g) [])]\<rparr>
                        else g
                else g)
       in Inr (g\<lparr>seg_wb := seg_wb g @ [WPut (ser64 tid DBTableSegmentNextIDPrefix) (ser64 (seg_offset g) (ser64 (seg_id g) []))]\<rparr>)))"

fun AddDocs_batch :: "'db rocks \<Rightarrow> 'db \<Rightarrow> u64 \<Rightarrow> Doc list \<Rightarrow> SegState \<Rightarrow> SegState outcome" where
  "AddDocs_batch ops db tid [] g = Inr g"
| "AddDocs_batch ops db tid (d # ds) g = bnd (AddDoc_batch ops db tid d g) (AddDocs_batch ops db tid ds)"

text \<open>What \<open>AddDoc\<close> and \<open>AddDocs\<close> do once the schema is known: find the place, write the batch, update
  the cache.\<close>

definition AddDocs_known :: "'db rocks \<Rightarrow> string \<Rightarrow> Doc list \<Rightarrow> 'db RocksDBImpl \<Rightarrow> (RStatus \<times> 'db RocksDBImpl) outcome" where
  "AddDocs_known ops tname docs st =
     (case GetTidByTname tname (db_cache st) of None \<Rightarrow> Inr (R_NotFound, st)
      | Some tid \<Rightarrow>
          (case GetSegId tid (db_cache st) of None \<Rightarrow> Inr (R_NotFound, st)
           | Some sid \<Rightarrow>
               let (off, c) = GetTidOffset tid (db_cache st) in
               bnd (AddDocs_batch ops (kvdb st) tid docs \<lparr>seg_wb = [], seg_id = sid, seg_offset = off, has_update = False\<rparr>) (\<lambda>g.
               let (s, db) = db_Write ops (seg_wb g) (kvdb st) in
               if s \<noteq> R_OK then Inr (s, st\<lparr>kvdb := db, db_cache := c\<rparr>)
               else let c = (if has_update g then UpdateSegMap tid (seg_id g) c else c)
                    in Inr (R_OK, \<lparr>kvdb = db, db_cache = UpdateTidOffset tid (seg_offset g) c\<rparr>))))"

definition AddDocs :: "'db rocks \<Rightarrow> string \<Rightarrow> Doc list \<Rightarrow> 'db RocksDBImpl \<Rightarrow> (RStatus \<times> 'db RocksDBImpl) outcome" where
  "AddDocs ops tname docs st =
     (if GetSchema_name tname (db_cache st) = None then Inr (R_NotFound, st) else AddDocs_known ops tname docs st)"

definition AddDoc :: "'db rocks \<Rightarrow> string \<Rightarrow> Doc \<Rightarrow> 'db RocksDBImpl \<Rightarrow> (RStatus \<times> 'db RocksDBImpl) outcome" where
  "AddDoc ops tname doc st =
     (if GetSchema_name tname (db_cache st) = None then Inr (R_NotFound, st)
      else if \<not> DocSchema_HasBuilt (doc_base doc) then Inr (R_InvalidArgument, st)
      else AddDocs_known ops tname [doc] st)"

section \<open>Reading\<close>

text \<open>\<open>LoadField\<close> of one segment: it pushes the first byte of a value once for each of its bytes, and
  compares the field number with a signed character.\<close>

fun LoadField_scan :: "u8 \<Rightarrow> (key \<times> byte list) list \<Rightarrow> byte list \<Rightarrow> byte list outcome" where
  "LoadField_scan fid [] data = Inr data"
| "LoadField_scan fid ((k, v) # kvs) data =
     (if length k \<le> PrefixSize + 24 then Inl OutOfBounds
      else if sint (k ! (PrefixSize + 24)) \<noteq> uint fid then LoadField_scan fid kvs data
      else LoadField_scan fid kvs (data @ replicate (length v) (if v = [] then 0 else hd v)))"

definition LoadField_segment :: "'db rocks \<Rightarrow> 'db \<Rightarrow> u64 \<Rightarrow> u64 \<Rightarrow> u8 \<Rightarrow> byte list \<Rightarrow> byte list outcome" where
  "LoadField_segment ops db tid sid fid data =
     LoadField_scan fid (db_Scan ops (Some (ser8 0 (ser64 sid (ser64 tid DBTableFieldValuePrefix))))
       (Some (ser8 255 (ser64 sid (ser64 tid DBTableFieldValuePrefix)))) db) data"

text \<open>The loop \<open>for (sid = 0; sid <= current_sid; sid++)\<close>: it never ends when the last segment is the largest number.\<close>

partial_function (option) LoadField_loop ::
  "'db rocks \<Rightarrow> 'db \<Rightarrow> u64 \<Rightarrow> u8 \<Rightarrow> u64 \<Rightarrow> u64 \<Rightarrow> byte list \<Rightarrow> byte list outcome option" where
  "LoadField_loop ops db tid fid current_sid sid data =
     (if sid \<le> current_sid
      then (case LoadField_segment ops db tid sid fid data of Inl e \<Rightarrow> Some (Inl e)
            | Inr data \<Rightarrow> LoadField_loop ops db tid fid current_sid (sid + 1) data)
      else Some (Inr data))"

definition LoadField_table :: "'db rocks \<Rightarrow> 'db \<Rightarrow> u64 \<Rightarrow> u8 \<Rightarrow> byte list outcome" where
  "LoadField_table ops db tid fid =
     (let (s, sid_str) = db_Get ops db (ser64 tid DBTableCurrentSegmentPrefix)
      in bnd (guard AssertFailed (s = R_OK)) (\<lambda>_. bnd (de64 sid_str 0) (\<lambda>current_sid.
           case LoadField_loop ops db tid fid current_sid 0 [] of None \<Rightarrow> Inl Diverges | Some r \<Rightarrow> r)))"

definition LoadField :: "'db rocks \<Rightarrow> string \<Rightarrow> string \<Rightarrow> 'db RocksDBImpl \<Rightarrow> (RStatus \<times> byte list \<times> 'db RocksDBImpl) outcome" where
  "LoadField ops tname field_name st =
     (case GetTidByTname tname (db_cache st) of None \<Rightarrow> Inr (R_NotFound, [], st)
      | Some tid \<Rightarrow>
          let (schema, c) = GetSchema_tid tid (db_cache st); st = st\<lparr>db_cache := c\<rparr> in
          bnd (of_opt NullDeref schema) (\<lambda>schema.
          case GetFieldId field_name schema of None \<Rightarrow> Inr (R_NotFound, [], st)
          | Some field_id \<Rightarrow>
              (case GetFieldType_id field_id schema of None \<Rightarrow> Inr (R_NotFound, [], st)
               | Some field_type \<Rightarrow>
                   if field_type = StringFieldType then Inr (R_NotFound, [], st)
                   else bnd (LoadField_table ops (kvdb st) tid field_id) (\<lambda>data. Inr (R_OK, data, st)))))"

text \<open>\<open>LoadIndex\<close> loads the field and so far does nothing with it.\<close>

definition LoadIndex :: "'db rocks \<Rightarrow> string \<Rightarrow> string \<Rightarrow> 'db RocksDBImpl \<Rightarrow> (RStatus \<times> 'db RocksDBImpl) outcome" where
  "LoadIndex ops tname field_name st =
     bnd (LoadField ops tname field_name st) (\<lambda>(s, field_data, st).
       if s \<noteq> R_OK then Inr (s, st)
       else bnd (of_opt NullDeref (GetSchema_name tname (db_cache st))) (\<lambda>schema. Inr (s, st)))"

text \<open>\<open>GetDocs\<close>: the locations the filters select, then the documents found there. The value read at a
  location is that of the filtered field.\<close>

record FieldFilter =
  upper_bound :: "byte list"
  lower_bound :: "byte list"
  filter_name :: string
  filter_number :: nat

fun scan_locations :: "u8 \<Rightarrow> (key \<times> byte list) list \<Rightarrow> byte list list outcome" where
  "scan_locations fid [] = Inr []"
| "scan_locations fid ((k, v) # kvs) =
     (if length k < 16 then Inl OutOfBounds
      else bnd (scan_locations fid kvs) (\<lambda>ls. Inr (ser8 fid (drop (length k - 16) k) # ls)))"

fun GetDocs_filter :: "'db rocks \<Rightarrow> 'db \<Rightarrow> u64 \<Rightarrow> DocSchema \<Rightarrow> FieldFilter list \<Rightarrow> byte list list \<Rightarrow> byte list list option outcome" where
  "GetDocs_filter ops db tid schema [] filtered = Inr (Some filtered)"
| "GetDocs_filter ops db tid schema (f # fs) filtered =
     (case GetFieldId (filter_name f) schema of None \<Rightarrow> Inr None
      | Some fid \<Rightarrow>
          let bound = \<lambda>b. ser64 0 (ser64 0 (ser8 fid (ser64 tid DBTableFieldIndexPrefix) @ b)) in
          bnd (scan_locations fid (take (filter_number f)
                 (db_Scan ops (Some (bound (lower_bound f))) (Some (bound (upper_bound f))) db))) (\<lambda>ls.
            GetDocs_filter ops db tid schema fs (filtered @ ls)))"

fun GetDocs_read :: "'db rocks \<Rightarrow> 'db \<Rightarrow> u64 \<Rightarrow> DocSchema \<Rightarrow> byte list list \<Rightarrow> Doc list outcome" where
  "GetDocs_read ops db tid schema [] = Inr []"
| "GetDocs_read ops db tid schema (l # ls) =
     (let (s, uid) = db_Get ops db (ser64 tid DBTableFieldValuePrefix @ l) in
      bnd (guard AssertFailed (s = R_OK)) (\<lambda>_. bnd (de64 uid 0) (\<lambda>luid. bnd (NewPK luid) (\<lambda>pk.
      bnd (Doc_new pk schema) (\<lambda>d. bnd (GetDocs_read ops db tid schema ls) (\<lambda>ds. Inr (d # ds)))))))"

definition GetDocs :: "'db rocks \<Rightarrow> string \<Rightarrow> FieldFilter list \<Rightarrow> 'db RocksDBImpl \<Rightarrow> (RStatus \<times> Doc list \<times> 'db RocksDBImpl) outcome" where
  "GetDocs ops tname filters st =
     (case GetTidByTname tname (db_cache st) of None \<Rightarrow> Inr (R_NotFound, [], st)
      | Some tid \<Rightarrow>
          let (schema, c) = GetSchema_tid tid (db_cache st); st = st\<lparr>db_cache := c\<rparr> in
          bnd (if filters = [] then Inr (Some []) else
               bnd (of_opt NullDeref schema) (\<lambda>schema. GetDocs_filter ops (kvdb st) tid schema filters [])) (\<lambda>filtered.
          case filtered of None \<Rightarrow> Inr (R_InvalidArgument, [], st)
          | Some ls \<Rightarrow>
              if ls = [] then Inr (R_OK, [], st)
              else bnd (of_opt NullDeref schema) (\<lambda>schema.
                   bnd (GetDocs_read ops (kvdb st) tid schema (sort (remdups ls))) (\<lambda>ds. Inr (R_OK, ds, st)))))"

text \<open>\<open>GetDoc\<close>: the fields at the address of the key are added to a new document, which is built and printed. A
  float is passed on uninitialised. The function ends without a return statement, so that no status
  is the result; the document is lost with the copy of the pointer that was reset, and is given
  here for what is printed.\<close>

fun GetDoc_fields :: "DocSchema \<Rightarrow> (key \<times> byte list) list \<Rightarrow> Doc \<Rightarrow> Doc outcome" where
  "GetDoc_fields schema [] d = Inr d"
| "GetDoc_fields schema ((k, v) # kvs) d =
     bnd (de8 k (24 + PrefixSize)) (\<lambda>fid.
     bnd (of_opt Uninitialised (GetFieldType_id fid schema)) (\<lambda>ftype.
     bnd (GetFieldName fid schema) (\<lambda>fname.
       if ftype = LongFieldType
       then if fid = 0 then GetDoc_fields schema kvs d
            else bnd (de64 v 0) (\<lambda>value. bnd (AddLongFieldValue fname value (doc_base d)) (\<lambda>b.
                   GetDoc_fields schema kvs (d\<lparr>doc_base := b\<rparr>)))
       else if ftype = FloatFieldType then Inl Uninitialised
       else if ftype = StringFieldType
       then bnd (AddStringFieldValue fname (map char_of_byte v) (doc_base d)) (\<lambda>b.
              GetDoc_fields schema kvs (d\<lparr>doc_base := b\<rparr>))
       else Inl AssertFailed)))"

definition GetDoc :: "'db rocks \<Rightarrow> string \<Rightarrow> long \<Rightarrow> 'db RocksDBImpl \<Rightarrow> (RStatus option \<times> Doc option \<times> 'db RocksDBImpl) outcome" where
  "GetDoc ops tname uid st =
     (case GetTidByTname tname (db_cache st) of None \<Rightarrow> Inr (Some R_NotFound, None, st)
      | Some tid \<Rightarrow>
          let key = ser64 uid (ser64 tid DBTableUidIdMappingPrefix); (s, sid_id) = db_Get ops (kvdb st) key in
          if s \<noteq> R_OK then Inr (Some s, None, st)
          else let (schema, c) = GetSchema_tid tid (db_cache st); st = st\<lparr>db_cache := c\<rparr> in
               bnd (NewPK uid) (\<lambda>pk. bnd (of_opt NullDeref schema) (\<lambda>schema. bnd (Doc_new pk schema) (\<lambda>d.
               bnd (GetDoc_fields schema (db_Scan ops (Some (ser8 0 (ser64 tid DBTableFieldValuePrefix @ sid_id)))
                      (Some (ser8 255 (ser64 tid DBTableFieldValuePrefix @ sid_id))) (kvdb st)) d) (\<lambda>d.
               bnd (Doc_Build d) (\<lambda>(_, d). Inr (None, Some d, st)))))))"

end
