(* ===== verification/Rk_Coherent.thy ===== *)
theory Rk_Coherent
  imports Rk_Impl
begin

text \<open>
  The cache of the document store and what is on disk agree (\<open>coherent\<close>): after creating a table and after
  adding documents. What adding a document writes, and what it leaves behind.
\<close>

section \<open>Batches\<close>

fun op_key :: "WriteOp \<Rightarrow> key" where
  "op_key (WPut k v) = k"
| "op_key (WDelete k) = k"

lemma apply_op_other: "op_key w \<noteq> k \<Longrightarrow> apply_op w m k = m k"
  by (cases w) (simp_all add: apply_op_def)

lemma apply_batch_append: "apply_batch (a @ b) m = apply_batch b (apply_batch a m)"
  by (simp add: apply_batch_def)

lemma apply_batch_other: "\<forall>w \<in> set ws. op_key w \<noteq> k \<Longrightarrow> apply_batch ws m k = m k"
  by (induction ws arbitrary: m) (simp_all add: apply_batch_def apply_op_other)

lemma apply_batch_put:
  assumes "WPut k x \<in> set ws" and "\<forall>w \<in> set ws. op_key w = k \<longrightarrow> w = WPut k x"
  shows "apply_batch ws m k = Some x"
  using assms
proof (induction ws rule: rev_induct)
  case (snoc w ws)
  have step: "apply_batch (ws @ [w]) m k = apply_op w (apply_batch ws m) k" by (simp add: apply_batch_def)
  show ?case
  proof (cases "op_key w = k")
    case True
    then have "w = WPut k x" using snoc.prems(2) by simp
    then show ?thesis unfolding step by (simp add: apply_op_def)
  next
    case False
    then have "WPut k x \<in> set ws" using snoc.prems(1) by auto
    moreover have "\<forall>w \<in> set ws. op_key w = k \<longrightarrow> w = WPut k x" using snoc.prems(2) by auto
    ultimately have "apply_batch ws m k = Some x" by (rule snoc.IH)
    then show ?thesis unfolding step by (simp only: apply_op_other [OF False])
  qed
qed simp

lemma apply_batch_puts_keep:
  assumes "\<forall>w \<in> set ws. op_key w = k \<longrightarrow> (\<exists>x. w = WPut k x)" and "m k \<noteq> None"
  shows "apply_batch ws m k \<noteq> None"
  using assms
proof (induction ws arbitrary: m)
  case (Cons w ws)
  have "apply_op w m k \<noteq> None"
  proof (cases "op_key w = k")
    case True
    then obtain x where "w = WPut k x" using Cons.prems(1) by auto
    then show ?thesis by (simp add: apply_op_def)
  next
    case False
    then show ?thesis using Cons.prems(2) apply_op_other by simp
  qed
  then show ?case using Cons by (simp add: apply_batch_def)
qed (simp add: apply_batch_def)

section \<open>Families of keys\<close>

definition family :: "key \<Rightarrow> key" where "family k = take 3 k"

definition data_families :: "key set" where
  "data_families = {DBTableUidIdMappingPrefix, DBTableFieldValuePrefix, DBTableFieldIndexPrefix}"

lemma length_prefixes [simp]:
  "length DBTableSequenceKey = 3" "length DBTablePrefix = 3" "length DBTableCurrentSegmentPrefix = 3"
  "length DBTableSegmentNextIDPrefix = 3" "length DBTableUidIdMappingPrefix = 3" "length DBTableMappingPrefix = 3"
  "length DBTableFieldIndexPrefix = 3" "length DBTableFieldValuePrefix = 3"
  by (simp_all add: prefix_defs)

lemma distinct_prefixes:
  "distinct [DBTableSequenceKey, DBTablePrefix, DBTableCurrentSegmentPrefix, DBTableSegmentNextIDPrefix,
     DBTableUidIdMappingPrefix, DBTableMappingPrefix, DBTableFieldIndexPrefix, DBTableFieldValuePrefix]"
  by code_simp

lemma family_append [simp]: "length p = 3 \<Longrightarrow> family (p @ x) = p"
  by (simp add: family_def)

lemma family_keys [simp]:
  "family DBTableSequenceKey = DBTableSequenceKey" "family (TableKey n) = DBTablePrefix"
  "length p = 3 \<Longrightarrow> family (ser64 t p) = p"
  "length p = 3 \<Longrightarrow> family (ser64 t p @ x) = p"
  "family (field_val_key tid sid off fid) = DBTableFieldValuePrefix"
  "family (field_index_key tid fid v sid off) = DBTableFieldIndexPrefix"
  by (simp_all add: family_def TableKey_def Serialize_num_bytes field_val_key_def field_index_key_def)

lemma ser64_key_inj: "ser64 t p = ser64 u p \<longleftrightarrow> t = u"
  using ser64_inj [of t u] by (simp add: Serialize_num_bytes)

lemma TableKey_inj: "TableKey a = TableKey b \<longleftrightarrow> a = b"
proof -
  have "inj byte_of_char" by (rule inj_on_inverseI [of _ char_of_byte]) simp
  then show ?thesis by (simp add: TableKey_def inj_map_eq_map)
qed

lemma field_val_key_inj: "field_val_key t s o1 f = field_val_key t s o1 g \<longleftrightarrow> f = g"
  unfolding field_val_key_def ser8_byte by simp

section \<open>Coherence\<close>

text \<open>The offset the cache holds for a table; none counts as zero.\<close>

definition off_of :: "DBCache \<Rightarrow> u64 \<Rightarrow> u64" where
  "off_of c t = (case map_of (offset_map c) t of None \<Rightarrow> 0 | Some x \<Rightarrow> x)"

definition cache_ordered :: "DBCache \<Rightarrow> bool" where
  "cache_ordered c \<longleftrightarrow> ordered (segmap c) \<and> ordered (tnamenamp c) \<and> ordered (tidnamemap c) \<and> ordered (tschemaamp c) \<and>
     ordered (offset_map c)"

definition table_ok :: "(key \<rightharpoonup> byte list) \<Rightarrow> DBCache \<Rightarrow> u64 \<Rightarrow> string \<Rightarrow> u64 \<Rightarrow> bool" where
  "table_ok v c next n t \<longleftrightarrow> t < next \<and> map_of (tidnamemap c) t = Some n \<and> map_of (segmap c) t \<noteq> None \<and>
     (\<exists>sch b. map_of (tschemaamp c) n = Some sch \<and> DocSchema_Serialize sch = Inr b \<and>
       v (ser64 t DBTableMappingPrefix) = Some b)"

definition coherent :: "(key \<rightharpoonup> byte list) \<Rightarrow> DBCache \<Rightarrow> bool" where
  "coherent v c \<longleftrightarrow> cache_ordered c \<and>
     (\<exists>next. cache_tid c = Some next \<and> v DBTableSequenceKey = Some (ser64 next []) \<and>
       (\<forall>n t. map_of (tnamenamp c) n = Some t \<longrightarrow> table_ok v c next n t)) \<and>
     (\<forall>n. v (TableKey n) = map_option (\<lambda>t. ser64 t []) (map_of (tnamenamp c) n)) \<and>
     (\<forall>t. v (ser64 t DBTableCurrentSegmentPrefix) = map_option (\<lambda>s. ser64 s []) (map_of (segmap c) t)) \<and>
     (\<forall>t. v (ser64 t DBTableSegmentNextIDPrefix) = map_option (\<lambda>s. ser64 (off_of c t) (ser64 s [])) (map_of (segmap c) t))"

lemma coherentD:
  assumes "coherent v c"
  shows "cache_ordered c"
    and "\<exists>next. cache_tid c = Some next \<and> v DBTableSequenceKey = Some (ser64 next []) \<and>
       (\<forall>n t. map_of (tnamenamp c) n = Some t \<longrightarrow> table_ok v c next n t)"
    and "v (TableKey n) = map_option (\<lambda>t. ser64 t []) (map_of (tnamenamp c) n)"
    and "v (ser64 t DBTableCurrentSegmentPrefix) = map_option (\<lambda>s. ser64 s []) (map_of (segmap c) t)"
    and "v (ser64 t DBTableSegmentNextIDPrefix) = map_option (\<lambda>s. ser64 (off_of c t) (ser64 s [])) (map_of (segmap c) t)"
  using assms unfolding coherent_def by blast+

text \<open>A copy of a schema has the same bytes.\<close>

lemma Iterate_loop_cong: "fields_name_id s = fields_name_id s' \<Longrightarrow> Iterate_loop h s kvs = Iterate_loop h s' kvs"
  by (induction kvs) (auto simp: fun_eq_iff GetFieldId_def intro!: arg_cong2 [of _ _ _ _ bnd])

lemma Serialize_copy: "DocSchema_Serialize (DocSchema_copy s) = DocSchema_Serialize s"
proof -
  have sel: "fields_name_id (DocSchema_copy s) = fields_name_id s" "fields_schema (DocSchema_copy s) = fields_schema s"
    "ds_fixed (DocSchema_copy s) = ds_fixed s" by (simp_all add: DocSchema_copy_def)
  then show ?thesis using Iterate_loop_cong [OF sel(1), of Ser_Handle "fields_schema s"]
    by (simp add: DocSchema_Serialize_def Iterate_def DocSchema_HasBuilt_def Ser_PreHandle_def DocSchema_Size_def)
qed


section \<open>Creating a table\<close>

lemma ser64_key_eq:
  assumes "length p = 3" and "length q = 3"
  shows "ser64 t p = ser64 u q \<longleftrightarrow> p = q \<and> t = u"
  using assms ser64_key_inj [of t q u] by (auto simp: Serialize_num_bytes)

lemma key_neqs:
  "TableKey n \<noteq> DBTableSequenceKey" "DBTableSequenceKey \<noteq> TableKey n"
  "length p = 3 \<Longrightarrow> ser64 t p \<noteq> DBTableSequenceKey" "length p = 3 \<Longrightarrow> DBTableSequenceKey \<noteq> ser64 t p"
  "length p = 3 \<Longrightarrow> p \<noteq> DBTablePrefix \<Longrightarrow> ser64 t p \<noteq> TableKey n"
  "length p = 3 \<Longrightarrow> p \<noteq> DBTablePrefix \<Longrightarrow> TableKey n \<noteq> ser64 t p"
proof -
  have a: "x \<noteq> y" if "family x \<noteq> family y" for x y using that by auto
  have ne: "DBTablePrefix \<noteq> DBTableSequenceKey" using distinct_prefixes by auto
  show "TableKey n \<noteq> DBTableSequenceKey" by (rule a) (simp add: ne)
  then show "DBTableSequenceKey \<noteq> TableKey n" by simp
  show 1: "length p = 3 \<Longrightarrow> ser64 t p \<noteq> DBTableSequenceKey"
    by (metis length_append length_prefixes(1) length_ser64 ser_append add_cancel_right_right zero_neq_numeral)
  then show "length p = 3 \<Longrightarrow> DBTableSequenceKey \<noteq> ser64 t p" by metis
  show 2: "length p = 3 \<Longrightarrow> p \<noteq> DBTablePrefix \<Longrightarrow> ser64 t p \<noteq> TableKey n" by (rule a) simp
  then show "length p = 3 \<Longrightarrow> p \<noteq> DBTablePrefix \<Longrightarrow> TableKey n \<noteq> ser64 t p" by metis
qed

text \<open>The cache after a table was created.\<close>

definition created :: "u64 \<Rightarrow> string \<Rightarrow> DocSchema \<Rightarrow> DBCache \<Rightarrow> DBCache" where
  "created t n schema c = c\<lparr>segmap := map_put t 0 (segmap c), offset_map := map_put t 0 (offset_map c),
     tnamenamp := map_put n t (tnamenamp c), tidnamemap := map_put t n (tidnamemap c),
     tschemaamp := map_put n (DocSchema_copy schema) (map_put n (DocSchema_copy schema) (tschemaamp c)), cache_tid := Some (t + 1)\<rparr>"

lemma CreateTable_new:
  assumes laws: "kv_laws ops view" and none: "view (kvdb st) (TableKey n) = None" and built: "DocSchema_HasBuilt schema"
    and tid: "cache_tid (db_cache st) = Some t" and ser: "DocSchema_Serialize schema = Inr b" and ord: "cache_ordered (db_cache st)"
  shows "\<exists>db. CreateTable ops n schema st = Inr (R_OK, \<lparr>kvdb = db, db_cache = created t n schema (db_cache st)\<rparr>) \<and>
    view db = (view (kvdb st))(DBTableSequenceKey \<mapsto> ser64 (t + 1) [], TableKey n \<mapsto> ser64 t [],
      ser64 t DBTableCurrentSegmentPrefix \<mapsto> ser64 0 [], ser64 t DBTableSegmentNextIDPrefix \<mapsto> ser64 0 (ser64 0 []),
      ser64 t DBTableMappingPrefix \<mapsto> b)"
proof -
  let ?ws = "[WPut DBTableSequenceKey (ser64 (t + 1) []), WPut (TableKey n) (ser64 t []),
      WPut (ser64 t DBTableCurrentSegmentPrefix) (ser64 0 []), WPut (ser64 t DBTableSegmentNextIDPrefix) (ser64 0 (ser64 0 [])),
      WPut (ser64 t DBTableMappingPrefix) b]"
  obtain db where db: "db_Write ops ?ws (kvdb st) = (R_OK, db)" "view db = apply_batch ?ws (view (kvdb st))"
    using kv_lawsD(3) [OF laws] by blast
  obtain x where get: "db_Get ops (kvdb st) (TableKey n) = (R_NotFound, x)" using kv_lawsD(2) [OF laws none] by blast
  have maps: "map_of (map_put t 0 (segmap (db_cache st))) t = Some 0" "map_of (map_put t n (tidnamemap (db_cache st))) t = Some n"
    using ord by (simp_all add: cache_ordered_def map_of_map_put)
  have "CreateTable ops n schema st = Inr (R_OK, \<lparr>kvdb = db, db_cache = created t n schema (db_cache st)\<rparr>)"
    using built tid ser get maps db(1)
    by (simp add: CreateTable_def GetTid_def Let_def UpdateSegMap_def UpdateTidOffset_def GetSegId_def SetTid_def
        UpdateTableMapping_schema_def name_at_def created_def)
  moreover have "view db = (view (kvdb st))(DBTableSequenceKey \<mapsto> ser64 (t + 1) [], TableKey n \<mapsto> ser64 t [],
      ser64 t DBTableCurrentSegmentPrefix \<mapsto> ser64 0 [], ser64 t DBTableSegmentNextIDPrefix \<mapsto> ser64 0 (ser64 0 []),
      ser64 t DBTableMappingPrefix \<mapsto> b)" unfolding db(2) by (simp add: apply_batch_def apply_op_def)
  ultimately show ?thesis by blast
qed

lemma created_coherent:
  assumes coh: "coherent v c" and none: "map_of (tnamenamp c) n = None" and tid: "cache_tid c = Some t" and less: "t < t + 1"
    and ser: "DocSchema_Serialize schema = Inr b"
  shows "coherent (v(DBTableSequenceKey \<mapsto> ser64 (t + 1) [], TableKey n \<mapsto> ser64 t [],
      ser64 t DBTableCurrentSegmentPrefix \<mapsto> ser64 0 [], ser64 t DBTableSegmentNextIDPrefix \<mapsto> ser64 0 (ser64 0 []),
      ser64 t DBTableMappingPrefix \<mapsto> b)) (created t n schema c)" (is "coherent ?v ?c")
proof -
  note cd = coherentD [OF coh]
  note pre = distinct_prefixes
  have ord: "ordered (segmap c)" "ordered (tnamenamp c)" "ordered (tidnamemap c)" "ordered (tschemaamp c)" "ordered (offset_map c)"
    using cd(1) by (simp_all add: cache_ordered_def)
  have maps: "map_of (segmap ?c) = (map_of (segmap c))(t \<mapsto> 0)" "map_of (offset_map ?c) = (map_of (offset_map c))(t \<mapsto> 0)"
    "map_of (tnamenamp ?c) = (map_of (tnamenamp c))(n \<mapsto> t)" "map_of (tidnamemap ?c) = (map_of (tidnamemap c))(t \<mapsto> n)"
    "map_of (tschemaamp ?c) = (map_of (tschemaamp c))(n \<mapsto> DocSchema_copy schema)" "cache_tid ?c = Some (t + 1)"
    using ord by (simp_all add: created_def map_of_map_put ordered_map_put)
  have old: "table_ok v c t m u" if "map_of (tnamenamp c) m = Some u" for m u
    using cd(2) tid that by auto
  have tab: "table_ok ?v ?c (t + 1) m u" if "map_of (tnamenamp ?c) m = Some u" for m u
  proof (cases "m = n")
    case True
    then show ?thesis using that maps less Serialize_copy [of schema] ser by (simp add: table_ok_def)
  next
    case False
    then have "map_of (tnamenamp c) m = Some u" using that maps by simp
    then have ok: "table_ok v c t m u" and "u \<noteq> t" using old by (auto simp: table_ok_def)
    then show ?thesis using False maps less pre
      by (auto simp: table_ok_def key_neqs ser64_key_eq)
  qed
  have "cache_ordered ?c" using ord by (simp add: cache_ordered_def created_def ordered_map_put)
  moreover have "?v DBTableSequenceKey = Some (ser64 (t + 1) [])" using pre by (simp add: key_neqs)
  moreover have "?v (TableKey m) = map_option (\<lambda>t. ser64 t []) (map_of (tnamenamp ?c) m)" for m
    using cd(3) [of m] pre maps(3) by (auto simp: key_neqs TableKey_inj)
  moreover have "?v (ser64 u DBTableCurrentSegmentPrefix) = map_option (\<lambda>s. ser64 s []) (map_of (segmap ?c) u)" for u
    using cd(4) [of u] pre maps(1) by (auto simp: key_neqs ser64_key_eq)
  moreover have "?v (ser64 u DBTableSegmentNextIDPrefix) = map_option (\<lambda>s. ser64 (off_of ?c u) (ser64 s [])) (map_of (segmap ?c) u)" for u
    using cd(5) [of u] pre maps(1,2) by (auto simp: key_neqs ser64_key_eq off_of_def)
  ultimately show ?thesis using tab maps(6) unfolding coherent_def by blast
qed


text \<open>Creating a table. On a coherent store whose table numbers are not used up, creating a table with a
  built schema succeeds and leaves a coherent store: a new name gets the next number, and the
  cache holds a copy of the schema; a name that exists already changes nothing.\<close>

theorem CreateTable_coherent:
  assumes "kv_laws ops view" and "coherent (view (kvdb st)) (db_cache st)" and "schema_wf schema"
    and "built_from ks schema" and "cache_tid (db_cache st) = Some t" and "t < t + 1"
  shows "\<exists>st'. CreateTable ops n schema st = Inr (R_OK, st') \<and> coherent (view (kvdb st')) (db_cache st') \<and>
    (if GetTidByTname n (db_cache st) = None
     then GetTidByTname n (db_cache st') = Some t \<and> GetSegId t (db_cache st') = Some 0 \<and>
       GetSchema_name n (db_cache st') = Some (DocSchema_copy schema) \<and> cache_tid (db_cache st') = Some (t + 1)
     else st' = st)"
proof (cases "map_of (tnamenamp (db_cache st)) n")
  case None
  have ser: "DocSchema_Serialize schema = Inr (DocSchema_Size schema # enc 0 ks)" by (rule Serialize_ok [OF assms(3,4)])
  have built: "DocSchema_HasBuilt schema" using assms(4) by (simp add: built_from_def DocSchema_HasBuilt_def)
  have v: "view (kvdb st) (TableKey n) = None" using coherentD(3) [OF assms(2), of n] None by simp
  have ord: "cache_ordered (db_cache st)" by (rule coherentD(1) [OF assms(2)])
  obtain db where db: "CreateTable ops n schema st = Inr (R_OK, \<lparr>kvdb = db, db_cache = created t n schema (db_cache st)\<rparr>)"
    "view db = (view (kvdb st))(DBTableSequenceKey \<mapsto> ser64 (t + 1) [], TableKey n \<mapsto> ser64 t [],
      ser64 t DBTableCurrentSegmentPrefix \<mapsto> ser64 0 [], ser64 t DBTableSegmentNextIDPrefix \<mapsto> ser64 0 (ser64 0 []),
      ser64 t DBTableMappingPrefix \<mapsto> DocSchema_Size schema # enc 0 ks)"
    using CreateTable_new [OF assms(1) v built assms(5) ser ord] by blast
  then show ?thesis using None created_coherent [OF assms(2) None assms(5,6) ser] ord
    by (simp add: GetTidByTname_def GetSegId_def GetSchema_name_def created_def cache_ordered_def map_of_map_put ordered_map_put)
next
  case (Some u)
  then have "view (kvdb st) (TableKey n) = Some (ser64 u [])" using coherentD(3) [OF assms(2), of n] by simp
  then have "db_Get ops (kvdb st) (TableKey n) = (R_OK, ser64 u [])" by (rule kv_lawsD(1) [OF assms(1)])
  then show ?thesis using Some assms(2) by (simp add: CreateTable_def GetTidByTname_def)
qed

section \<open>Adding documents\<close>

text \<open>What the batch of a document touches: entries of the data families, and at the end the two entries
  with the position of the table.\<close>

definition data_op :: "WriteOp \<Rightarrow> bool" where
  "data_op w \<longleftrightarrow> family (op_key w) \<in> data_families"

lemma AddDoc_uid_data:
  "AddDoc_uid ops db tid sid v a = Inr a' \<Longrightarrow> \<exists>ws. wb a' = wb a @ ws \<and> (\<forall>w \<in> set ws. data_op w)"
  by (auto simp: AddDoc_uid_def Let_def bnd_eq_Inr data_op_def data_families_def split: if_splits prod.splits)

lemma AddDoc_delete_data:
  "AddDoc_delete ops db tid fid a = Inr a' \<Longrightarrow> \<exists>ws. wb a' = wb a @ ws \<and> (\<forall>w \<in> set ws. data_op w)"
proof -
  have fam: "length p = 3 \<Longrightarrow> family (ser8 fid (ser64 tid p @ x)) = p" for p x
    unfolding ser8_byte by (simp add: Serialize_num_bytes)
  have fam': "length p = 3 \<Longrightarrow> family (ser8 fid (ser64 tid p) @ x) = p" for p x
    unfolding ser8_byte by (simp add: Serialize_num_bytes)
  show "AddDoc_delete ops db tid fid a = Inr a' \<Longrightarrow> \<exists>ws. wb a' = wb a @ ws \<and> (\<forall>w \<in> set ws. data_op w)"
    unfolding AddDoc_delete_def Let_def
    by (auto simp: bnd_eq_Inr data_op_def data_families_def fam [unfolded One_nat_def] fam' [unfolded One_nat_def]
        split: if_splits prod.splits)
qed

lemma AddDoc_fields_data:
  "AddDoc_fields ops db tid sid fvs a = Inr a' \<Longrightarrow> \<exists>ws. wb a' = wb a @ ws \<and> (\<forall>w \<in> set ws. data_op w)"
proof (induction fvs arbitrary: a)
  case (Cons fv fvs)
  obtain fid v where fv: "fv = (fid, v)" by (cases fv)
  obtain a1 a2 where a1: "(if fid = 0 then AddDoc_uid ops db tid sid v a else Inr a) = Inr a1"
    and a2: "AddDoc_delete ops db tid fid a1 = Inr a2"
    and rest: "AddDoc_fields ops db tid sid fvs (a2\<lparr>wb := wb a2 @
         [WPut (field_val_key tid sid (offset_used a2) fid) v, WPut (field_index_key tid fid v sid (offset_used a2)) []]\<rparr>) = Inr a'"
    using Cons.prems unfolding fv by (auto simp: bnd_eq_Inr)
  obtain w1 where "wb a1 = wb a @ w1" "\<forall>w \<in> set w1. data_op w"
    using a1 AddDoc_uid_data by (cases "fid = 0") fastforce+
  moreover obtain w2 where "wb a2 = wb a1 @ w2" "\<forall>w \<in> set w2. data_op w" using AddDoc_delete_data [OF a2] by blast
  moreover obtain w3 where "wb a' = wb a2 @ [WPut (field_val_key tid sid (offset_used a2) fid) v,
      WPut (field_index_key tid fid v sid (offset_used a2)) []] @ w3" "\<forall>w \<in> set w3. data_op w"
    using Cons.IH [OF rest] by auto
  ultimately show ?case by (auto simp: data_op_def data_families_def)
qed simp


text \<open>The batch built so far, applied to the store, holds the position reached.\<close>

definition seg_inv :: "(key \<rightharpoonup> byte list) \<Rightarrow> u64 \<Rightarrow> u64 \<Rightarrow> SegState \<Rightarrow> bool" where
  "seg_inv v tid sid g \<longleftrightarrow>
     (\<forall>k. family k \<notin> data_families \<and> k \<noteq> ser64 tid DBTableCurrentSegmentPrefix \<and> k \<noteq> ser64 tid DBTableSegmentNextIDPrefix \<longrightarrow>
        apply_batch (seg_wb g) v k = v k) \<and>
     apply_batch (seg_wb g) v (ser64 tid DBTableCurrentSegmentPrefix) = Some (ser64 (seg_id g) []) \<and>
     apply_batch (seg_wb g) v (ser64 tid DBTableSegmentNextIDPrefix) = Some (ser64 (seg_offset g) (ser64 (seg_id g) [])) \<and>
     (\<not> has_update g \<longrightarrow> seg_id g = sid)"

lemma data_ops_frame:
  assumes "\<forall>w \<in> set ws. data_op w" and "family k \<notin> data_families"
  shows "apply_batch (us @ ws) v k = apply_batch us v k"
proof -
  have "\<forall>w \<in> set ws. op_key w \<noteq> k" using assms by (auto simp: data_op_def)
  then show ?thesis unfolding apply_batch_append by (rule apply_batch_other)
qed

lemma position_families:
  "DBTableCurrentSegmentPrefix \<notin> data_families" "DBTableSegmentNextIDPrefix \<notin> data_families"
  "DBTableSegmentNextIDPrefix \<noteq> DBTableCurrentSegmentPrefix"
  using distinct_prefixes by (auto simp: data_families_def)

lemma apply_batch_snoc: "apply_batch (us @ [WPut k x]) v = (apply_batch us v)(k \<mapsto> x)"
  by (simp add: apply_batch_def apply_op_def)

lemma AddDoc_batch_inv:
  assumes "AddDoc_batch ops db tid d g = Inr g'" and inv: "seg_inv v tid sid g"
  shows "seg_inv v tid sid g'"
proof -
  obtain m a where fields: "AddDoc_fields ops db tid (seg_id g) m
      \<lparr>wb = seg_wb g, addr_to_delete = [], offset_used = seg_offset g, has_new = True\<rparr> = Inr a"
    and g': "g' = (let g = g\<lparr>seg_wb := wb a\<rparr>;
           g = (if has_new a
                then let g = g\<lparr>seg_offset := seg_offset g + 1\<rparr>
                     in if DBTableSegmentSize \<le> seg_offset g
                        then let g = g\<lparr>seg_id := seg_id g + 1, seg_offset := 0, has_update := True\<rparr>
                             in g\<lparr>seg_wb := seg_wb g @ [WPut (ser64 tid DBTableCurrentSegmentPrefix) (ser64 (seg_id g) [])]\<rparr>
                        else g
                else g)
       in g\<lparr>seg_wb := seg_wb g @ [WPut (ser64 tid DBTableSegmentNextIDPrefix) (ser64 (seg_offset g) (ser64 (seg_id g) []))]\<rparr>)"
    using assms(1) by (auto simp: AddDoc_batch_def bnd_eq_Inr Let_def split: if_splits)
  obtain ws where ws: "wb a = seg_wb g @ ws" "\<forall>w \<in> set ws. data_op w" using AddDoc_fields_data [OF fields] by auto
  have frame: "apply_batch (wb a) v k = apply_batch (seg_wb g) v k" if "family k \<notin> data_families" for k
    unfolding ws(1) by (rule data_ops_frame [OF ws(2) that])
  have keys: "ser64 tid DBTableCurrentSegmentPrefix \<noteq> ser64 tid DBTableSegmentNextIDPrefix"
    using position_families(3) by (simp add: ser64_key_eq)
  have cur: "apply_batch (wb a) v (ser64 tid DBTableCurrentSegmentPrefix) = Some (ser64 (seg_id g) [])"
    using frame inv position_families by (simp add: seg_inv_def)
  show ?thesis using inv frame keys cur unfolding g' seg_inv_def
    by (simp add: Let_def apply_batch_snoc [of "_ @ [_]", simplified] apply_batch_snoc)
qed


lemma AddDocs_batch_inv: "AddDocs_batch ops db tid ds g = Inr g' \<Longrightarrow> seg_inv v tid sid g \<Longrightarrow> seg_inv v tid sid g'"
  by (induction ds arbitrary: g) (auto simp: bnd_eq_Inr dest: AddDoc_batch_inv)

lemma GetTidOffset_facts:
  assumes "cache_ordered c"
  shows "fst (GetTidOffset t c) = off_of c t" and "cache_ordered (snd (GetTidOffset t c))"
    and "off_of (snd (GetTidOffset t c)) u = off_of c u"
    and "segmap (snd (GetTidOffset t c)) = segmap c" and "tnamenamp (snd (GetTidOffset t c)) = tnamenamp c"
    and "tidnamemap (snd (GetTidOffset t c)) = tidnamemap c" and "tschemaamp (snd (GetTidOffset t c)) = tschemaamp c"
    and "cache_tid (snd (GetTidOffset t c)) = cache_tid c"
  using assms by (auto simp: GetTidOffset_def off_of_def cache_ordered_def ordered_map_put map_of_map_put split: option.splits)

definition moved :: "u64 \<Rightarrow> SegState \<Rightarrow> DBCache \<Rightarrow> DBCache" where
  "moved tid g c = UpdateTidOffset tid (seg_offset g)
     (let c = snd (GetTidOffset tid c) in if has_update g then UpdateSegMap tid (seg_id g) c else c)"

lemma moved_facts:
  assumes "cache_ordered c" and "map_of (segmap c) tid = Some sid" and "\<not> has_update g \<longrightarrow> seg_id g = sid"
  shows "cache_ordered (moved tid g c)" and "map_of (segmap (moved tid g c)) = (map_of (segmap c))(tid \<mapsto> seg_id g)"
    and "off_of (moved tid g c) u = (if u = tid then seg_offset g else off_of c u)"
    and "tnamenamp (moved tid g c) = tnamenamp c" and "tidnamemap (moved tid g c) = tidnamemap c"
    and "tschemaamp (moved tid g c) = tschemaamp c" and "cache_tid (moved tid g c) = cache_tid c"
proof -
  note o = GetTidOffset_facts [OF assms(1), of tid]
  have "off_of (snd (GetTidOffset tid c)) u = off_of c u" by (rule o(3))
  then show "off_of (moved tid g c) u = (if u = tid then seg_offset g else off_of c u)"
    using o(2) by (auto simp: moved_def UpdateTidOffset_def UpdateSegMap_def off_of_def cache_ordered_def map_of_map_put Let_def)
  show "map_of (segmap (moved tid g c)) = (map_of (segmap c))(tid \<mapsto> seg_id g)"
    using assms o(2,4) by (auto simp: moved_def UpdateTidOffset_def UpdateSegMap_def cache_ordered_def map_of_map_put Let_def)
qed (use GetTidOffset_facts [OF assms(1), of tid] in
  \<open>auto simp: moved_def UpdateTidOffset_def UpdateSegMap_def cache_ordered_def ordered_map_put Let_def\<close>)

lemma moved_coherent:
  assumes coh: "coherent v c" and seg: "map_of (segmap c) tid = Some sid" and inv: "seg_inv v tid sid g"
  shows "coherent (apply_batch (seg_wb g) v) (moved tid g c)" (is "coherent ?v ?c")
proof -
  note cd = coherentD [OF coh] and pre = distinct_prefixes
  have "\<not> has_update g \<longrightarrow> seg_id g = sid" using inv by (simp add: seg_inv_def)
  note mf = moved_facts [OF cd(1) seg this]
  have frame: "?v k = v k" if "family k \<notin> data_families" "k \<noteq> ser64 tid DBTableCurrentSegmentPrefix"
    "k \<noteq> ser64 tid DBTableSegmentNextIDPrefix" for k
    using inv that unfolding seg_inv_def by blast
  have pos: "?v (ser64 tid DBTableCurrentSegmentPrefix) = Some (ser64 (seg_id g) [])"
    "?v (ser64 tid DBTableSegmentNextIDPrefix) = Some (ser64 (seg_offset g) (ser64 (seg_id g) []))"
    using inv by (simp_all add: seg_inv_def)
  have seqk: "?v DBTableSequenceKey = v DBTableSequenceKey"
    using pre by (intro frame) (simp_all add: key_neqs data_families_def)
  have tabk: "?v (TableKey n) = v (TableKey n)" for n
    using pre by (intro frame) (auto simp: key_neqs data_families_def)
  have mapk: "?v (ser64 t DBTableMappingPrefix) = v (ser64 t DBTableMappingPrefix)" for t
    using pre by (intro frame) (auto simp: ser64_key_eq data_families_def)
  have cur: "?v (ser64 t DBTableCurrentSegmentPrefix) = v (ser64 t DBTableCurrentSegmentPrefix)" if "t \<noteq> tid" for t
    using pre that by (intro frame) (auto simp: ser64_key_eq data_families_def)
  have nxt: "?v (ser64 t DBTableSegmentNextIDPrefix) = v (ser64 t DBTableSegmentNextIDPrefix)" if "t \<noteq> tid" for t
    using pre that by (intro frame) (auto simp: ser64_key_eq data_families_def)
  have ok: "table_ok ?v ?c nx n t" if "table_ok v c nx n t" for nx n t
    using that mf mapk by (auto simp: table_ok_def)
  obtain nx where nx: "cache_tid c = Some nx" "v DBTableSequenceKey = Some (ser64 nx [])"
    "\<forall>n t. map_of (tnamenamp c) n = Some t \<longrightarrow> table_ok v c nx n t" using cd(2) by blast
  have "?v (ser64 t DBTableCurrentSegmentPrefix) = map_option (\<lambda>s. ser64 s []) (map_of (segmap ?c) t)" for t
    using cd(4) [of t] cur [of t] pos(1) mf(2) by (cases "t = tid") simp_all
  moreover have "?v (ser64 t DBTableSegmentNextIDPrefix) = map_option (\<lambda>s. ser64 (off_of ?c t) (ser64 s [])) (map_of (segmap ?c) t)" for t
    using cd(5) [of t] nxt [of t] pos(2) mf(2,3) by (cases "t = tid") simp_all
  moreover have "?v (TableKey n) = map_option (\<lambda>t. ser64 t []) (map_of (tnamenamp ?c) n)" for n
    using cd(3) [of n] tabk mf(4) by simp
  moreover have "\<exists>next. cache_tid ?c = Some next \<and> ?v DBTableSequenceKey = Some (ser64 next []) \<and>
       (\<forall>n t. map_of (tnamenamp ?c) n = Some t \<longrightarrow> table_ok ?v ?c next n t)"
    using nx ok seqk mf(4,7) by (intro exI [of _ nx]) simp
  ultimately show ?thesis unfolding coherent_def using mf(1) by blast
qed

text \<open>What adding documents returns once the batch is built.\<close>

lemma AddDocs_known_result:
  assumes laws: "kv_laws ops view" and coh: "coherent (view (kvdb st)) (db_cache st)"
    and tab: "GetTidByTname n (db_cache st) = Some tid" and seg: "GetSegId tid (db_cache st) = Some sid"
    and batch: "AddDocs_batch ops (kvdb st) tid ds
      \<lparr>seg_wb = [], seg_id = sid, seg_offset = off_of (db_cache st) tid, has_update = False\<rparr> = Inr g"
  shows "\<exists>db. AddDocs_known ops n ds st = Inr (R_OK, \<lparr>kvdb = db, db_cache = moved tid g (db_cache st)\<rparr>) \<and>
    view db = apply_batch (seg_wb g) (view (kvdb st))"
proof -
  obtain db where db: "db_Write ops (seg_wb g) (kvdb st) = (R_OK, db)" "view db = apply_batch (seg_wb g) (view (kvdb st))"
    using kv_lawsD(3) [OF laws] by blast
  obtain off c where oc: "GetTidOffset tid (db_cache st) = (off, c)" by (cases "GetTidOffset tid (db_cache st)")
  then have "off = off_of (db_cache st) tid" using GetTidOffset_facts(1) [OF coherentD(1) [OF coh], of tid] by simp
  then have "AddDocs_known ops n ds st = Inr (R_OK, \<lparr>kvdb = db, db_cache = moved tid g (db_cache st)\<rparr>)"
    using tab seg batch db(1) oc by (simp add: AddDocs_known_def moved_def Let_def)
  then show ?thesis using db(2) by blast
qed

lemma seg_inv_start:
  assumes "coherent v c" and "map_of (segmap c) tid = Some sid"
  shows "seg_inv v tid sid \<lparr>seg_wb = [], seg_id = sid, seg_offset = off_of c tid, has_update = False\<rparr>"
  using coherentD(4,5) [OF assms(1), of tid] assms(2) by (simp add: seg_inv_def apply_batch_def)


text \<open>The writes for one field of a new document.\<close>

definition new_field_ops :: "u64 \<Rightarrow> u64 \<Rightarrow> u64 \<Rightarrow> u8 \<times> byte list \<Rightarrow> WriteOp list" where
  "new_field_ops tid sid off fv =
     (if fst fv = 0 then [WPut (ser64 tid DBTableUidIdMappingPrefix @ snd fv) (ser64 off (ser64 sid []))] else []) @
     [WPut (field_val_key tid sid off (fst fv)) (snd fv), WPut (field_index_key tid (fst fv) (snd fv) sid off) []]"

lemma new_field_ops_simps:
  "new_field_ops tid sid off (0, v) = [WPut (ser64 tid DBTableUidIdMappingPrefix @ v) (ser64 off (ser64 sid [])),
     WPut (field_val_key tid sid off 0) v, WPut (field_index_key tid 0 v sid off) []]"
  "fid \<noteq> 0 \<Longrightarrow> new_field_ops tid sid off (fid, v) =
     [WPut (field_val_key tid sid off fid) v, WPut (field_index_key tid fid v sid off) []]"
  by (simp_all add: new_field_ops_def)

lemma AddDoc_fields_new:
  assumes "kv_laws ops view" and "\<forall>u. (0, u) \<in> set fvs \<longrightarrow> view db (ser64 tid DBTableUidIdMappingPrefix @ u) = None"
    and "addr_to_delete a = []"
  shows "AddDoc_fields ops db tid sid fvs a = Inr (a\<lparr>wb := wb a @ concat (map (new_field_ops tid sid (offset_used a)) fvs)\<rparr>)"
  using assms(2,3)
proof (induction fvs arbitrary: a)
  case (Cons fv fvs)
  obtain fid v where fv: "fv = (fid, v)" by (cases fv)
  show ?case
  proof (cases "fid = 0")
    case True
    then obtain x where "db_Get ops db (ser64 tid DBTableUidIdMappingPrefix @ v) = (R_NotFound, x)"
      using Cons.prems(1) kv_lawsD(2) [OF assms(1)] fv by force
    then show ?thesis using Cons True
      by (simp add: fv AddDoc_uid_def AddDoc_delete_def new_field_ops_simps Let_def)
  next
    case False
    then show ?thesis using Cons by (simp add: fv AddDoc_delete_def new_field_ops_simps)
  qed
qed simp

text \<open>The position after a new document.\<close>

definition next_position :: "u64 \<Rightarrow> u64 \<Rightarrow> u64 \<times> u64" where
  "next_position sid off = (if DBTableSegmentSize \<le> off + 1 then (sid + 1, 0) else (sid, off + 1))"

lemma AddDoc_batch_new:
  assumes "kv_laws ops view" and "Doc_Serialize d = Inr m"
    and "\<forall>u. (0, u) \<in> set m \<longrightarrow> view db (ser64 tid DBTableUidIdMappingPrefix @ u) = None"
  shows "\<exists>g' ps. AddDoc_batch ops db tid d g = Inr g' \<and> (seg_id g', seg_offset g') = next_position (seg_id g) (seg_offset g) \<and>
    seg_wb g' = seg_wb g @ concat (map (new_field_ops tid (seg_id g) (seg_offset g)) m) @ ps \<and>
    (\<forall>w \<in> set ps. family (op_key w) \<notin> data_families)"
  using assms(2) AddDoc_fields_new [OF assms(1,3)] position_families
  by (simp add: AddDoc_batch_def next_position_def Let_def)

lemma new_field_ops_other:
  assumes "w \<in> set (concat (map (new_field_ops tid sid off) m))" and "op_key w = field_val_key tid sid off fid" and "(fid, x) \<in> set m"
    and "ordered m"
  shows "w = WPut (field_val_key tid sid off fid) x"
proof -
  obtain fv where fv: "fv \<in> set m" "w \<in> set (new_field_ops tid sid off fv)" using assms(1) by auto
  have fam: "family (op_key w) = DBTableFieldValuePrefix" using assms(2) by simp
  have "w = WPut (field_val_key tid sid off (fst fv)) (snd fv)"
    using fv(2) fam distinct_prefixes by (auto simp: new_field_ops_def split: if_splits)
  moreover from this have "fst fv = fid" using assms(2) by (simp add: field_val_key_inj)
  moreover from this have "snd fv = x"
    using fv(1) assms(3,4) by (metis eq_key_imp_eq_value ordered_distinct prod.collapse)
  ultimately show ?thesis by simp
qed

lemma index_ops:
  assumes "w \<in> set (concat (map (new_field_ops tid sid off) m))" and "family (op_key w) = DBTableFieldIndexPrefix"
  shows "w = WPut (op_key w) []"
  using assms distinct_prefixes by (auto simp: new_field_ops_def split: if_splits)

lemma uid_ops:
  assumes "w \<in> set (concat (map (new_field_ops tid sid off) m))" and "family (op_key w) = DBTableUidIdMappingPrefix"
  shows "w = WPut (op_key w) (ser64 off (ser64 sid []))"
  using assms distinct_prefixes by (auto simp: new_field_ops_def split: if_splits)

lemma batch_put:
  assumes "\<forall>w \<in> set ps. family (op_key w) \<notin> data_families" and "WPut k x \<in> set us"
    and "\<And>w. w \<in> set us \<Longrightarrow> op_key w = k \<Longrightarrow> w = WPut k x" and "family k \<in> data_families"
  shows "apply_batch (us @ ps) v k = Some x"
proof (rule apply_batch_put)
  show "WPut k x \<in> set (us @ ps)" using assms(2) by simp
  have "w = WPut k x" if "w \<in> set (us @ ps)" "op_key w = k" for w
    using that assms(1,3,4) by (metis Un_iff set_append)
  then show "\<forall>w \<in> set (us @ ps). op_key w = k \<longrightarrow> w = WPut k x" by blast
qed

lemma batch_value:
  assumes "\<forall>w \<in> set ps. family (op_key w) \<notin> data_families" and "(fid, x) \<in> set m" and "ordered m"
  shows "apply_batch (concat (map (new_field_ops tid sid off) m) @ ps) v (field_val_key tid sid off fid) = Some x"
proof (rule batch_put [OF assms(1)])
  show "WPut (field_val_key tid sid off fid) x \<in> set (concat (map (new_field_ops tid sid off) m))"
    using assms(2) by (force simp: new_field_ops_def)
  show "w = WPut (field_val_key tid sid off fid) x"
    if "w \<in> set (concat (map (new_field_ops tid sid off) m))" "op_key w = field_val_key tid sid off fid" for w
    by (rule new_field_ops_other [OF that assms(2,3)])
qed (simp add: data_families_def)

lemma AddDoc_stores:
  assumes "kv_laws ops view" and "coherent (view (kvdb st)) (db_cache st)"
    and "GetTidByTname n (db_cache st) = Some tid" and "GetSegId tid (db_cache st) = Some sid"
    and "off = off_of (db_cache st) tid"
    and "DocSchema_HasBuilt (doc_base d)" and "Doc_Serialize d = Inr m" and "ordered m"
    and "\<forall>u. (0, u) \<in> set m \<longrightarrow> view (kvdb st) (ser64 tid DBTableUidIdMappingPrefix @ u) = None"
  shows "\<exists>st'. AddDoc ops n d st = Inr (R_OK, st') \<and> coherent (view (kvdb st')) (db_cache st') \<and>
    (\<forall>fid x. (fid, x) \<in> set m \<longrightarrow> view (kvdb st') (field_val_key tid sid off fid) = Some x \<and>
       view (kvdb st') (field_index_key tid fid x sid off) = Some []) \<and>
    (\<forall>u. (0, u) \<in> set m \<longrightarrow> view (kvdb st') (ser64 tid DBTableUidIdMappingPrefix @ u) = Some (ser64 off (ser64 sid []))) \<and>
    GetSegId tid (db_cache st') = Some (fst (next_position sid off)) \<and>
    off_of (db_cache st') tid = snd (next_position sid off)"
proof -
  let ?c = "db_cache st" and ?v = "view (kvdb st)"
  let ?g = "\<lparr>seg_wb = [], seg_id = sid, seg_offset = off_of ?c tid, has_update = False\<rparr>"
  let ?ops = "concat (map (new_field_ops tid sid off) m)"
  have seg: "map_of (segmap ?c) tid = Some sid" using assms(4) by (simp add: GetSegId_def)
  obtain g ps where g: "AddDoc_batch ops (kvdb st) tid d ?g = Inr g" "(seg_id g, seg_offset g) = next_position sid off"
    "seg_wb g = ?ops @ ps" "\<forall>w \<in> set ps. family (op_key w) \<notin> data_families"
    using AddDoc_batch_new [OF assms(1,7,9), of ?g] assms(5) by auto
  have inv: "seg_inv ?v tid sid g" by (rule AddDoc_batch_inv [OF g(1) seg_inv_start [OF assms(2) seg]])
  obtain db where db: "AddDocs_known ops n [d] st = Inr (R_OK, \<lparr>kvdb = db, db_cache = moved tid g ?c\<rparr>)"
    "view db = apply_batch (seg_wb g) ?v"
    using AddDocs_known_result [OF assms(1-4), of "[d]" g] g(1) by auto
  obtain nx where "table_ok ?v ?c nx n tid" using coherentD(2) [OF assms(2)] assms(3) by (auto simp: GetTidByTname_def)
  then have add: "AddDoc ops n d st = AddDocs_known ops n [d] st"
    using assms(6) by (auto simp: AddDoc_def GetSchema_name_def table_ok_def)
  note put = batch_put [OF g(4), of _ _ ?ops ?v, folded g(3), folded db(2)]
  have val: "view db (field_val_key tid sid off fid) = Some x" if "(fid, x) \<in> set m" for fid x
    unfolding db(2) g(3) by (rule batch_value [OF g(4) that assms(8)])
  have idx: "view db (field_index_key tid fid x sid off) = Some []" if "(fid, x) \<in> set m" for fid x
  proof (rule put)
    show "WPut (field_index_key tid fid x sid off) [] \<in> set ?ops" using that by (force simp: new_field_ops_def)
    show "w = WPut (field_index_key tid fid x sid off) []" if "w \<in> set ?ops" "op_key w = field_index_key tid fid x sid off" for w
      using index_ops [OF that(1)] that(2) by simp
  qed (simp add: data_families_def)
  have uid: "view db (ser64 tid DBTableUidIdMappingPrefix @ u) = Some (ser64 off (ser64 sid []))" if "(0, u) \<in> set m" for u
  proof (rule put)
    show "WPut (ser64 tid DBTableUidIdMappingPrefix @ u) (ser64 off (ser64 sid [])) \<in> set ?ops"
      using that by (force simp: new_field_ops_def)
    show "w = WPut (ser64 tid DBTableUidIdMappingPrefix @ u) (ser64 off (ser64 sid []))"
      if "w \<in> set ?ops" "op_key w = ser64 tid DBTableUidIdMappingPrefix @ u" for w
      using uid_ops [OF that(1)] that(2) by simp
  qed (simp add: data_families_def)
  have "\<not> has_update g \<longrightarrow> seg_id g = sid" using inv by (simp add: seg_inv_def)
  note mf = moved_facts(2,3) [OF coherentD(1) [OF assms(2)] seg this]
  show ?thesis using db(1) add val idx uid moved_coherent [OF assms(2) seg inv] mf g(2) db(2)
    by (auto simp: GetSegId_def prod_eq_iff)
qed


text \<open>C13. Adding a new document. On a coherent store, a built document whose key is not yet in the table is
  added with status OK: the store stays coherent, the key leads to the current position, every field's
  bytes are found under the position and its number and are indexed, and the next position follows,
  in a new segment after 50000 documents.\<close>

theorem AddDoc_new:
  assumes "kv_laws ops view" and "coherent (view (kvdb st)) (db_cache st)"
    and "GetTidByTname n (db_cache st) = Some tid" and "GetSegId tid (db_cache st) = Some sid"
    and "off = off_of (db_cache st) tid"
    and "DocSchema_HasBuilt (doc_base d)" and "Doc_Serialize d = Inr m" and "ordered m"
    and "\<forall>u. (0, u) \<in> set m \<longrightarrow> view (kvdb st) (ser64 tid DBTableUidIdMappingPrefix @ u) = None"
  shows "\<exists>st'. AddDoc ops n d st = Inr (R_OK, st') \<and> coherent (view (kvdb st')) (db_cache st') \<and>
    (\<forall>fid x. (fid, x) \<in> set m \<longrightarrow> view (kvdb st') (field_val_key tid sid off fid) = Some x \<and>
       view (kvdb st') (field_index_key tid fid x sid off) = Some []) \<and>
    (\<forall>u. (0, u) \<in> set m \<longrightarrow> view (kvdb st') (ser64 tid DBTableUidIdMappingPrefix @ u) = Some (ser64 off (ser64 sid []))) \<and>
    GetSegId tid (db_cache st') = Some (fst (next_position sid off)) \<and>
    off_of (db_cache st') tid = snd (next_position sid off)"
  by (rule AddDoc_stores [OF assms])

section \<open>A store from scratch\<close>

definition fresh_cache :: "u64 \<Rightarrow> DBCache" where "fresh_cache t = DBCache_new\<lparr>cache_tid := Some t\<rparr>"

lemma le_zero_bytes: "le_bytes 8 0 = ser64 0 []"
proof -
  have "le_bytes n 0 = replicate n 0" for n by (induction n) simp_all
  then show ?thesis by (simp add: Serialize_num_bytes)
qed

lemma fresh_coherent: "coherent [DBTableSequenceKey \<mapsto> ser64 t []] (fresh_cache t)"
  by (simp add: coherent_def cache_ordered_def fresh_cache_def DBCache_new_def key_neqs)

text \<open>Opening an empty store writes the first table number and leaves a coherent store.\<close>

lemma fresh_store:
  assumes "kv_laws ops view" and "view db = Map.empty"
  shows "\<exists>db'. RocksDBImpl_new ops db = Inr \<lparr>kvdb = db', db_cache = fresh_cache 0\<rparr> \<and> coherent (view db') (fresh_cache 0) \<and>
    view db' = [DBTableSequenceKey \<mapsto> ser64 0 []]"
proof -
  obtain x where get: "db_Get ops db DBTableSequenceKey = (R_NotFound, x)" using kv_lawsD(2) [OF assms(1)] assms(2) by fastforce
  obtain db' where db': "db_Write ops [WPut DBTableSequenceKey (le_bytes 8 0)] db = (R_OK, db')"
    "view db' = apply_batch [WPut DBTableSequenceKey (le_bytes 8 0)] (view db)" using kv_lawsD(3) [OF assms(1)] by blast
  have "apply_batch [WPut DBTableSequenceKey x] Map.empty = [DBTableSequenceKey \<mapsto> x]" for x
    by (simp add: apply_batch_def apply_op_def)
  then have "view db' = [DBTableSequenceKey \<mapsto> ser64 0 []]" unfolding db'(2) assms(2) le_zero_bytes .
  moreover from this have "coherent (view db') (fresh_cache 0)" by (simp only: fresh_coherent)
  moreover have "RocksDBImpl_new ops db = Inr \<lparr>kvdb = db', db_cache = fresh_cache 0\<rparr>" using get db'(1)
    by (simp add: RocksDBImpl_new_def RocksDBImpl_Init_def SetTid_def fresh_cache_def)
  ultimately show ?thesis by blast
qed

definition start_store :: "(key \<times> byte list) list RocksDBImpl" where
  "start_store = \<lparr>kvdb = [(DBTableSequenceKey, ser64 0 [])], db_cache = fresh_cache 0\<rparr>"

lemma start_store_facts:
  "coherent (map_of (kvdb start_store)) (db_cache start_store)" "cache_tid (db_cache start_store) = Some 0"
  "map_of (tnamenamp (db_cache start_store)) n = None"
  "family k \<noteq> DBTableSequenceKey \<Longrightarrow> map_of (kvdb start_store) k = None"
proof -
  have "map_of [(a, b)] = [a \<mapsto> b]" for a :: key and b :: "byte list" by simp
  then show "coherent (map_of (kvdb start_store)) (db_cache start_store)"
    unfolding start_store_def RocksDBImpl.simps by (simp only: fresh_coherent)
qed (auto simp: start_store_def fresh_cache_def DBCache_new_def)

text \<open>A schema with the key only, a store with one table of that schema, and a document.\<close>

definition key_schema :: DocSchema where
  "key_schema = AddLongField (LongField_new ''_id'') DocSchema_default"

lemma key_schema_built:
  obtains b where "DocSchema_Build key_schema = Inr (True, b)" and "built_from [(''_id'', 0)] b" and "schema_wf b"
    and "fields_schema b = [(''_id'', 0, 0)]"
proof -
  have f: "fields_schema key_schema = [(''_id'', 0, 0)]" "fields_id_type key_schema = []" "\<not> ds_fixed key_schema"
    by code_simp+
  have wf: "schema_wf key_schema" unfolding key_schema_def
    by (intro field_added_wf [OF _ _ add_accepted(1)] schema_wf_default; code_simp)
  obtain b where b: "DocSchema_Build key_schema = Inr (True, b)" "built_from (kinds key_schema) b" "schema_wf b"
    using Build_ok [OF wf f(3,2)] by metis
  have "fields_schema b = fields_schema key_schema"
    using b(1) f by (auto simp: DocSchema_Build_def field_type_of_def field_idx)
  then show thesis using that b f by (simp add: kinds_def)
qed

lemma one_table:
  assumes laws: "kv_laws ops view" and coh: "coherent (view (kvdb st)) (db_cache st)" and none: "map_of (tnamenamp (db_cache st)) n = None"
    and tid: "cache_tid (db_cache st) = Some t" and less: "t < t + 1" and schema: "schema_wf b" "built_from ks b"
    and free: "\<And>u. view (kvdb st) (ser64 t DBTableUidIdMappingPrefix @ u) = None"
  obtains st' where "CreateTable ops n b st = Inr (R_OK, st')" and "coherent (view (kvdb st')) (db_cache st')"
    and "GetTidByTname n (db_cache st') = Some t" and "GetSegId t (db_cache st') = Some 0" and "off_of (db_cache st') t = 0"
    and "\<And>u. view (kvdb st') (ser64 t DBTableUidIdMappingPrefix @ u) = None"
    and "\<And>m. m \<noteq> n \<Longrightarrow> GetTidByTname m (db_cache st') = GetTidByTname m (db_cache st)"
proof -
  have ser: "DocSchema_Serialize b = Inr (DocSchema_Size b # enc 0 ks)" by (rule Serialize_ok [OF schema])
  have built: "DocSchema_HasBuilt b" using schema(2) by (simp add: built_from_def DocSchema_HasBuilt_def)
  have key: "view (kvdb st) (TableKey n) = None" using coherentD(3) [OF coh, of n] none by simp
  obtain db where db: "CreateTable ops n b st = Inr (R_OK, \<lparr>kvdb = db, db_cache = created t n b (db_cache st)\<rparr>)"
    "view db = (view (kvdb st))(DBTableSequenceKey \<mapsto> ser64 (t + 1) [], TableKey n \<mapsto> ser64 t [],
      ser64 t DBTableCurrentSegmentPrefix \<mapsto> ser64 0 [], ser64 t DBTableSegmentNextIDPrefix \<mapsto> ser64 0 (ser64 0 []),
      ser64 t DBTableMappingPrefix \<mapsto> DocSchema_Size b # enc 0 ks)"
    using CreateTable_new [OF laws key built tid ser coherentD(1) [OF coh]] by blast
  have "coherent (view db) (created t n b (db_cache st))"
    unfolding db(2) by (rule created_coherent [OF coh none tid less ser])
  moreover have "view db (ser64 t DBTableUidIdMappingPrefix @ u) = None" for u
  proof -
    have "ser64 t DBTableUidIdMappingPrefix @ u \<noteq> k" if "family k \<noteq> DBTableUidIdMappingPrefix" for k
      using that by (metis family_keys(4) length_prefixes(5))
    moreover have "DBTableMappingPrefix \<noteq> DBTableUidIdMappingPrefix" using distinct_prefixes by auto
    ultimately show ?thesis unfolding db(2) using distinct_prefixes free by simp
  qed
  ultimately show thesis using that db(1) coherentD(1) [OF coh]
    by (simp add: created_def GetTidByTname_def GetSegId_def off_of_def cache_ordered_def map_of_map_put)
qed

theorem CreateTable_coherent_witness:
  "\<exists>b st. DocSchema_Build key_schema = Inr (True, b) \<and> CreateTable list_store ''docs'' b start_store = Inr (R_OK, st) \<and>
     coherent (map_of (kvdb st)) (db_cache st) \<and> GetTidByTname ''docs'' (db_cache st) = Some 0"
proof -
  obtain b where b: "DocSchema_Build key_schema = Inr (True, b)" "built_from [(''_id'', 0)] b" "schema_wf b"
    using key_schema_built by metis
  have "GetTidByTname ''docs'' (db_cache start_store) = None" by (simp add: GetTidByTname_def start_store_facts)
  then show ?thesis
    using CreateTable_coherent [OF list_store_laws start_store_facts(1) b(3,2) start_store_facts(2), of "''docs''"] b(1) by auto
qed

text \<open>A document of that table with the key \<open>k\<close>, built.\<close>

lemma key_document:
  assumes "built_from [(''_id'', 0)] b" and "schema_wf b" and "fields_schema b = [(''_id'', 0, 0)]"
  obtains d m where "DocSchema_HasBuilt (doc_base d)" and "Doc_Serialize d = Inr m" and "ordered m" and "(0, ser64 k []) \<in> set m"
proof -
  obtain d where d: "bnd (NewPK k) (\<lambda>pk. Doc_new pk b) = Inr d" "doc_ok [(''_id'', 0)] d" "doc_schema d = b"
    "fields_schema (doc_base d) = [(''_id'', 0, 0)]" "map (val \<circ> nf) (long_fields (doc_base d)) = [Some k]"
    by (rule key_doc_ok [OF assms(1,2), of k]) auto
  have "map_of (fields_schema (doc_base d)) ''_id'' = Some (0, 0)" using d(4) by simp
  moreover obtain pk where pk: "long_fields (doc_base d) = [pk]" "val (nf pk) = Some k" using d(5) by auto
  ultimately have nm: "name (nf pk) = ''_id''"
    using d(2) by (auto simp: doc_ok_def schema_wf_def kind_names_def field_idx)
  have idt: "GetFieldId ''_id'' (doc_schema d) = Some 0"
    using assms(1) d(3) by (simp add: GetFieldId_def built_from_def id_table_def)
  obtain m where m: "Doc_Serialize d = Inr m" "ordered m"
    "stored (name \<circ> nf) LongField_Serialize (doc_schema d) (long_fields (doc_base d)) m"
    using Doc_Serialize_stores [OF d(2)] by blast
  have "(0, ser64 k []) \<in> set m"
    using m(3) pk nm idt by (intro map_of_SomeD) (simp add: stored_def LongField_Serialize_def GetValue_def)
  moreover have "Doc_Serialize (d\<lparr>doc_base := (doc_base d)\<lparr>ds_fixed := True\<rparr>\<rparr>) = Doc_Serialize d" by (simp add: Doc_Serialize_def)
  ultimately show thesis using that [of "d\<lparr>doc_base := (doc_base d)\<lparr>ds_fixed := True\<rparr>\<rparr>" m] m by (simp add: DocSchema_HasBuilt_def)
qed

lemma AddDoc_keeps_names: "AddDoc ops n d st = Inr (s, st') \<Longrightarrow> tnamenamp (db_cache st') = tnamenamp (db_cache st)"
  by (auto simp: AddDoc_def AddDocs_known_def GetTidOffset_def UpdateTidOffset_def UpdateSegMap_def bnd_eq_Inr Let_def
      split: if_splits option.splits prod.splits)

text \<open>The store with the table \<open>docs\<close>, and documents for it.\<close>

lemma docs_store_keys:
  obtains b st where "CreateTable list_store ''docs'' b start_store = Inr (R_OK, st)"
    and "coherent (map_of (kvdb st)) (db_cache st)" and "GetTidByTname ''docs'' (db_cache st) = Some 0"
    and "GetSegId 0 (db_cache st) = Some 0" and "off_of (db_cache st) 0 = 0"
    and "\<And>u. map_of (kvdb st) (ser64 0 DBTableUidIdMappingPrefix @ u) = None"
    and "\<And>n. n \<noteq> ''docs'' \<Longrightarrow> GetTidByTname n (db_cache st) = None"
    and "\<And>k. \<exists>d m. DocSchema_HasBuilt (doc_base d) \<and> Doc_Serialize d = Inr m \<and> ordered m \<and> (0, ser64 k []) \<in> set m"
proof -
  obtain b where b: "built_from [(''_id'', 0)] b" "schema_wf b" "fields_schema b = [(''_id'', 0, 0)]"
    using key_schema_built by metis
  have free: "map_of (kvdb start_store) (ser64 0 DBTableUidIdMappingPrefix @ u) = None" for u
    using start_store_facts(4) family_keys(4) [of DBTableUidIdMappingPrefix 0 u] distinct_prefixes by fastforce
  obtain st where st: "CreateTable list_store ''docs'' b start_store = Inr (R_OK, st)"
    "coherent (map_of (kvdb st)) (db_cache st)" "GetTidByTname ''docs'' (db_cache st) = Some 0"
    "GetSegId 0 (db_cache st) = Some 0" "off_of (db_cache st) 0 = 0"
    "\<And>u. map_of (kvdb st) (ser64 0 DBTableUidIdMappingPrefix @ u) = None"
    "\<And>n. n \<noteq> ''docs'' \<Longrightarrow> GetTidByTname n (db_cache st) = GetTidByTname n (db_cache start_store)"
    by (rule one_table [where n = "''docs''", OF list_store_laws start_store_facts(1,3,2) _ b(2,1) free]) simp_all
  have other: "GetTidByTname n (db_cache start_store) = None" for n using start_store_facts(3) by (simp add: GetTidByTname_def)
  have "\<exists>d m. DocSchema_HasBuilt (doc_base d) \<and> Doc_Serialize d = Inr m \<and> ordered m \<and> (0, ser64 k []) \<in> set m" for k
    using key_document [OF b, of k] by metis
  then show thesis using that [OF st(1-6)] st(7) unfolding other by blast
qed

lemma docs_store:
  obtains b st d m u where "CreateTable list_store ''docs'' b start_store = Inr (R_OK, st)"
    and "coherent (map_of (kvdb st)) (db_cache st)" and "GetTidByTname ''docs'' (db_cache st) = Some 0"
    and "GetSegId 0 (db_cache st) = Some 0" and "off_of (db_cache st) 0 = 0"
    and "\<And>u. map_of (kvdb st) (ser64 0 DBTableUidIdMappingPrefix @ u) = None"
    and "DocSchema_HasBuilt (doc_base d)" and "Doc_Serialize d = Inr m" and "ordered m" and "(0, u) \<in> set m"
proof (rule docs_store_keys)
  fix b st
  assume st: "CreateTable list_store ''docs'' b start_store = Inr (R_OK, st)"
    "coherent (map_of (kvdb st)) (db_cache st)" "GetTidByTname ''docs'' (db_cache st) = Some 0"
    "GetSegId 0 (db_cache st) = Some 0" "off_of (db_cache st) 0 = 0"
    "\<And>u. map_of (kvdb st) (ser64 0 DBTableUidIdMappingPrefix @ u) = None"
    and docs: "\<And>k. \<exists>d m. DocSchema_HasBuilt (doc_base d) \<and> Doc_Serialize d = Inr m \<and> ordered m \<and> (0, ser64 k []) \<in> set m"
  obtain d m where "DocSchema_HasBuilt (doc_base d)" "Doc_Serialize d = Inr m" "ordered m" "(0, ser64 7 []) \<in> set m"
    using docs [of 7] by blast
  then show thesis by (rule that [OF st])
qed

theorem AddDoc_new_witness:
  "\<exists>b st d st' m. CreateTable list_store ''docs'' b start_store = Inr (R_OK, st) \<and>
     Doc_Serialize d = Inr m \<and> AddDoc list_store ''docs'' d st = Inr (R_OK, st') \<and> off_of (db_cache st') 0 = 1 \<and>
     (\<exists>u. (0, u) \<in> set m \<and> map_of (kvdb st') (field_val_key 0 0 0 0) = Some u)"
proof -
  obtain b st d m u where st: "CreateTable list_store ''docs'' b start_store = Inr (R_OK, st)"
    "coherent (map_of (kvdb st)) (db_cache st)" "GetTidByTname ''docs'' (db_cache st) = Some 0"
    "GetSegId 0 (db_cache st) = Some 0" "off_of (db_cache st) 0 = 0"
    "\<And>u. map_of (kvdb st) (ser64 0 DBTableUidIdMappingPrefix @ u) = None"
    and d: "DocSchema_HasBuilt (doc_base d)" "Doc_Serialize d = Inr m" "ordered m" "(0, u) \<in> set m" using docs_store by metis
  have pos: "next_position 0 0 = (0, 1)" by code_simp
  obtain st' where "AddDoc list_store ''docs'' d st = Inr (R_OK, st')"
    "\<forall>fid x. (fid, x) \<in> set m \<longrightarrow> map_of (kvdb st') (field_val_key 0 0 0 fid) = Some x" "off_of (db_cache st') 0 = 1"
    using AddDoc_new [OF list_store_laws st(2,3,4) st(5) [symmetric] d(1-3)] st(6) unfolding pos by auto
  then show ?thesis using st(1) d(2,4) by blast
qed

section \<open>Updating a document\<close>

lemma de64_pair: "de64 (ser64 off (ser64 sid [])) 0 = Inr sid" "de64 (ser64 off (ser64 sid [])) 8 = Inr off"
proof -
  have pair: "ser64 off (ser64 sid []) = ser64 sid [] @ ser64 off []" by (rule ser_append)
  show "de64 (ser64 off (ser64 sid [])) 0 = Inr sid" unfolding pair using de64_ser64 [of "[]" sid "ser64 off []"] by simp
  show "de64 (ser64 off (ser64 sid [])) 8 = Inr off" unfolding pair using de64_ser64 [of "ser64 sid []" off "[]"] by simp
qed

lemma AddDoc_batch_same_segment:
  assumes laws: "kv_laws ops view" and ser: "Doc_Serialize d = Inr m" and ord: "ordered m" and key: "(0, u) \<in> set m"
    and old: "view db (ser64 tid DBTableUidIdMappingPrefix @ u) = Some (ser64 off (ser64 (seg_id g) []))"
  shows "\<exists>ps. AddDoc_batch ops db tid d g = Inr (g\<lparr>seg_wb := seg_wb g @ concat (map (new_field_ops tid (seg_id g) off) m) @ ps\<rparr>) \<and>
    (\<forall>w \<in> set ps. family (op_key w) \<notin> data_families)"
proof -
  obtain rest where m: "m = (0, u) # rest" and rest: "\<forall>x. (0, x) \<notin> set rest"
  proof (cases m)
    case (Cons fv rest)
    have first: "\<forall>k \<in> fst ` set rest. fst fv < k" using ord Cons by auto
    have "fst fv = 0"
    proof (rule ccontr)
      assume "fst fv \<noteq> 0"
      then have "(0, u) \<in> set rest" using key Cons by auto
      then show False using first by force
    qed
    then show thesis using that [of rest] Cons key first by (cases fv) force
  qed (use key in simp)
  let ?a = "\<lparr>wb = seg_wb g, addr_to_delete = [], offset_used = seg_offset g, has_new = True\<rparr>"
  have get: "db_Get ops db (ser64 tid DBTableUidIdMappingPrefix @ u) = (R_OK, ser64 off (ser64 (seg_id g) []))"
    by (rule kv_lawsD(1) [OF laws old])
  have "AddDoc_fields ops db tid (seg_id g) m ?a =
      Inr \<lparr>wb = seg_wb g @ concat (map (new_field_ops tid (seg_id g) off) m), addr_to_delete = [], offset_used = off, has_new = False\<rparr>"
    using AddDoc_fields_new [OF laws, of rest db tid] rest
    by (simp add: m AddDoc_uid_def get de64_pair AddDoc_delete_def new_field_ops_simps Let_def)
  then have "AddDoc_batch ops db tid d g = Inr (g\<lparr>seg_wb := seg_wb g @ concat (map (new_field_ops tid (seg_id g) off) m) @
      [WPut (ser64 tid DBTableSegmentNextIDPrefix) (ser64 (seg_offset g) (ser64 (seg_id g) []))]\<rparr>)"
    using ser by (simp add: AddDoc_batch_def Let_def)
  moreover have "family (op_key (WPut (ser64 tid DBTableSegmentNextIDPrefix) x)) \<notin> data_families" for x
    using position_families(2) by simp
  ultimately show ?thesis by (metis empty_iff insert_iff list.set)
qed

text \<open>Updating a document whose key is already stored in the current segment reuses its place and
  replaces the values, but no index entry is deleted: the entry for the old value of a field is still
  there next to the new one, so a search for the old value finds the document.\<close>

theorem AddDoc_update_stale_index:
  assumes "kv_laws ops view" and "coherent (view (kvdb st)) (db_cache st)"
    and "GetTidByTname n (db_cache st) = Some tid" and "GetSegId tid (db_cache st) = Some sid"
    and "DocSchema_HasBuilt (doc_base d)" and "Doc_Serialize d = Inr m" and "ordered m" and "(0, u) \<in> set m"
    and "view (kvdb st) (ser64 tid DBTableUidIdMappingPrefix @ u) = Some (ser64 off (ser64 sid []))"
    and "(fid, x) \<in> set m" and "view (kvdb st) (field_index_key tid fid old sid off) \<noteq> None"
  shows "\<exists>st'. AddDoc ops n d st = Inr (R_OK, st') \<and> coherent (view (kvdb st')) (db_cache st') \<and>
    view (kvdb st') (field_val_key tid sid off fid) = Some x \<and> view (kvdb st') (field_index_key tid fid old sid off) \<noteq> None \<and>
    GetSegId tid (db_cache st') = Some sid \<and> off_of (db_cache st') tid = off_of (db_cache st) tid"
proof -
  let ?c = "db_cache st" and ?v = "view (kvdb st)"
  let ?g = "\<lparr>seg_wb = [], seg_id = sid, seg_offset = off_of ?c tid, has_update = False\<rparr>"
  let ?ops = "concat (map (new_field_ops tid sid off) m)"
  have seg: "map_of (segmap ?c) tid = Some sid" using assms(4) by (simp add: GetSegId_def)
  obtain ps where batch: "AddDoc_batch ops (kvdb st) tid d ?g = Inr (?g\<lparr>seg_wb := ?ops @ ps\<rparr>)"
    and ps: "\<forall>w \<in> set ps. family (op_key w) \<notin> data_families"
    using AddDoc_batch_same_segment [OF assms(1,6-8), of "kvdb st" tid off ?g] assms(9) by auto
  let ?h = "?g\<lparr>seg_wb := ?ops @ ps\<rparr>"
  have inv: "seg_inv ?v tid sid ?h" by (rule AddDoc_batch_inv [OF batch seg_inv_start [OF assms(2) seg]])
  obtain db where db: "AddDocs_known ops n [d] st = Inr (R_OK, \<lparr>kvdb = db, db_cache = moved tid ?h ?c\<rparr>)"
    "view db = apply_batch (seg_wb ?h) ?v"
    using AddDocs_known_result [OF assms(1-4), of "[d]" ?h] batch by auto
  obtain nx where "table_ok ?v ?c nx n tid" using coherentD(2) [OF assms(2)] assms(3) by (auto simp: GetTidByTname_def)
  then have add: "AddDoc ops n d st = AddDocs_known ops n [d] st"
    using assms(5) by (auto simp: AddDoc_def GetSchema_name_def table_ok_def)
  have val: "view db (field_val_key tid sid off fid) = Some x"
    unfolding db(2) using batch_value [OF ps assms(10,7)] by simp
  let ?k = "field_index_key tid fid old sid off"
  have "\<exists>y. w = WPut ?k y" if "w \<in> set (?ops @ ps)" "op_key w = ?k" for w
    using that index_ops [of w tid sid off m] ps by (auto simp: data_families_def)
  then have idx: "view db ?k \<noteq> None" unfolding db(2) using assms(11) by (intro apply_batch_puts_keep) auto
  have "\<not> has_update ?h \<longrightarrow> seg_id ?h = sid" by simp
  note mf = moved_facts(2,3) [OF coherentD(1) [OF assms(2)] seg this]
  show ?thesis using db(1) add val idx moved_coherent [OF assms(2) seg inv] mf db(2)
    by (simp add: GetSegId_def)
qed

text \<open>What an addition that returns has done: nothing, or the batch on disk and the position in the cache.\<close>

lemma AddDocs_known_moved:
  assumes "kv_laws ops view" and coh: "coherent (view (kvdb st)) (db_cache st)" and add: "AddDocs_known ops n ds st = Inr (s, st')"
  shows "s \<noteq> R_OK \<and> st' = st \<or> s = R_OK \<and> (\<exists>tid sid g. map_of (tnamenamp (db_cache st)) n = Some tid \<and>
    map_of (segmap (db_cache st)) tid = Some sid \<and> seg_inv (view (kvdb st)) tid sid g \<and> db_cache st' = moved tid g (db_cache st) \<and>
    view (kvdb st') = apply_batch (seg_wb g) (view (kvdb st)))"
proof (cases "\<exists>tid sid. GetTidByTname n (db_cache st) = Some tid \<and> GetSegId tid (db_cache st) = Some sid")
  case False
  then show ?thesis using add by (auto simp: AddDocs_known_def split: option.splits)
next
  case True
  then obtain tid sid where ts: "GetTidByTname n (db_cache st) = Some tid" "GetSegId tid (db_cache st) = Some sid" by blast
  let ?c = "db_cache st" and ?v = "view (kvdb st)"
  let ?g = "\<lparr>seg_wb = [], seg_id = sid, seg_offset = off_of ?c tid, has_update = False\<rparr>"
  have seg: "map_of (segmap ?c) tid = Some sid" using ts(2) by (simp add: GetSegId_def)
  obtain off c where oc: "GetTidOffset tid ?c = (off, c)" by (cases "GetTidOffset tid ?c")
  then have off: "off = off_of ?c tid" using GetTidOffset_facts(1) [OF coherentD(1) [OF coh], of tid] by simp
  obtain g where g: "AddDocs_batch ops (kvdb st) tid ds ?g = Inr g"
    using add ts oc off by (cases "AddDocs_batch ops (kvdb st) tid ds ?g") (simp_all add: AddDocs_known_def)
  have inv: "seg_inv ?v tid sid g" by (rule AddDocs_batch_inv [OF g seg_inv_start [OF coh seg]])
  obtain db where "AddDocs_known ops n ds st = Inr (R_OK, \<lparr>kvdb = db, db_cache = moved tid g ?c\<rparr>)"
    "view db = apply_batch (seg_wb g) ?v" using AddDocs_known_result [OF assms(1) coh ts g] by blast
  then show ?thesis using add inv seg ts(1) by (auto simp: GetTidByTname_def)
qed

text \<open>Adding documents keeps the store and its cache in step: whatever documents are added, if the
  operation returns, cache and disk agree afterwards, and a status other than OK leaves both unchanged.\<close>

theorem AddDocs_coherent:
  assumes "kv_laws ops view" and "coherent (view (kvdb st)) (db_cache st)" and "AddDocs ops n ds st = Inr (s, st')"
  shows "coherent (view (kvdb st')) (db_cache st') \<and> (s = R_OK \<or> st' = st)"
proof (cases "GetSchema_name n (db_cache st)")
  case None
  then show ?thesis using assms(2,3) by (auto simp: AddDocs_def)
next
  case (Some sch)
  then have "AddDocs_known ops n ds st = Inr (s, st')" using assms(3) by (simp add: AddDocs_def)
  then show ?thesis using AddDocs_known_moved [OF assms(1,2)] moved_coherent [OF assms(2)] assms(2) by metis
qed

theorem AddDoc_update_stale_index_witness:
  "\<exists>st d st'. AddDoc list_store ''docs'' d st = Inr (R_OK, st') \<and>
     (\<exists>k. family k = DBTableFieldIndexPrefix \<and> map_of (kvdb st') k \<noteq> None) \<and> off_of (db_cache st') 0 = off_of (db_cache st) 0"
proof -
  obtain b st d m u where st: "CreateTable list_store ''docs'' b start_store = Inr (R_OK, st)"
    "coherent (map_of (kvdb st)) (db_cache st)" "GetTidByTname ''docs'' (db_cache st) = Some 0"
    "GetSegId 0 (db_cache st) = Some 0" "off_of (db_cache st) 0 = 0"
    "\<And>u. map_of (kvdb st) (ser64 0 DBTableUidIdMappingPrefix @ u) = None"
    and d: "DocSchema_HasBuilt (doc_base d)" "Doc_Serialize d = Inr m" "ordered m" "(0, u) \<in> set m" using docs_store by metis
  have pos: "next_position 0 0 = (0, 1)" by code_simp
  obtain st' where st': "AddDoc list_store ''docs'' d st = Inr (R_OK, st')" "coherent (map_of (kvdb st')) (db_cache st')"
    "map_of (kvdb st') (field_index_key 0 0 u 0 0) = Some []"
    "map_of (kvdb st') (ser64 0 DBTableUidIdMappingPrefix @ u) = Some (ser64 0 (ser64 0 []))" "GetSegId 0 (db_cache st') = Some 0"
    using AddDoc_stores [OF list_store_laws st(2,3,4) st(5) [symmetric] d(1-3)] st(6) d(4) unfolding pos by auto
  have tab: "GetTidByTname ''docs'' (db_cache st') = Some 0"
    using AddDoc_keeps_names [OF st'(1)] st(3) by (simp add: GetTidByTname_def)
  have "map_of (kvdb st') (field_index_key 0 0 u 0 0) \<noteq> None" using st'(3) by simp
  then obtain st2 where "AddDoc list_store ''docs'' d st' = Inr (R_OK, st2)" "map_of (kvdb st2) (field_index_key 0 0 u 0 0) \<noteq> None"
    "off_of (db_cache st2) 0 = off_of (db_cache st') 0"
    using AddDoc_update_stale_index [OF list_store_laws st'(2) tab st'(5) d st'(4) d(4)] by blast
  moreover have "family (field_index_key 0 0 u 0 0) = DBTableFieldIndexPrefix" by (rule family_keys(6))
  ultimately show ?thesis by blast
qed

theorem AddDocs_coherent_witness:
  "\<exists>st d st'. AddDocs list_store ''docs'' [d] st = Inr (R_OK, st') \<and> coherent (map_of (kvdb st')) (db_cache st')"
proof -
  obtain b st d m u where st: "CreateTable list_store ''docs'' b start_store = Inr (R_OK, st)"
    "coherent (map_of (kvdb st)) (db_cache st)" "GetTidByTname ''docs'' (db_cache st) = Some 0"
    "GetSegId 0 (db_cache st) = Some 0" "off_of (db_cache st) 0 = 0"
    "\<And>u. map_of (kvdb st) (ser64 0 DBTableUidIdMappingPrefix @ u) = None"
    and d: "DocSchema_HasBuilt (doc_base d)" "Doc_Serialize d = Inr m" "ordered m" "(0, u) \<in> set m" using docs_store by metis
  obtain st' where "AddDoc list_store ''docs'' d st = Inr (R_OK, st')"
    using AddDoc_stores [OF list_store_laws st(2,3,4) st(5) [symmetric] d(1-3)] st(6) by auto
  then have add: "AddDocs list_store ''docs'' [d] st = Inr (R_OK, st')"
    using d(1) by (auto simp: AddDoc_def AddDocs_def split: if_splits)
  then show ?thesis using AddDocs_coherent [OF list_store_laws st(2) add] by blast
qed

end
