(* ===== verification/Rk_Reopen.thy ===== *)
theory Rk_Reopen
  imports Rk_Coherent
begin

text \<open>
  Opening a store that is not empty: \<open>Init\<close> rebuilds the cache from three scans. Shown here: on a store left by the
  operations, where every entry of the position and schema families belongs to a table, the rebuilt
  cache agrees with the one that was lost.
\<close>

section \<open>Lists of bytes in order\<close>

lemma take_mono: "xs \<le> ys \<Longrightarrow> take n xs \<le> take n (ys :: byte list)"
proof (induction n arbitrary: xs ys)
  case (Suc n)
  then show ?case by (cases xs; cases ys) auto
qed simp

lemma append_less_cancel: "p @ xs < p @ ys \<longleftrightarrow> xs < (ys :: byte list)"
  by (induction p) simp_all

lemma append_le_cancel: "p @ xs \<le> p @ ys \<longleftrightarrow> xs \<le> (ys :: byte list)"
  by (induction p) simp_all

lemma prefix_le: "p \<le> p @ (xs :: byte list)"
  by (induction p) simp_all

lemma ser64_less: "ser64 t [] < ser64 u [] \<longleftrightarrow> t < u"
proof -
  have b: "unat x < 256 ^ 8" for x :: u64 using unsigned_less [of x] by simp
  show ?thesis using be_less [of "rev (le_bytes 8 (unat t))" "rev (le_bytes 8 (unat u))"] b
    by (simp add: Serialize_num_bytes bytes_val_le_bytes word_less_nat_alt)
qed

lemma ser64_key_less: "ser64 t p < ser64 u p \<longleftrightarrow> t < u"
  using append_less_cancel ser64_less ser_append by metis

lemma ser64_key_le: "ser64 t p \<le> ser64 u p \<longleftrightarrow> t \<le> u"
  using ser64_key_less [of u p t] by (simp add: not_less [symmetric])

text \<open>A key between two keys of a family is of the family; so the scans read entries of one family only.\<close>

lemma family_between:
  assumes "a \<le> k" and "k \<le> b" and "family a = p" and "family b = p"
  shows "family k = p"
  using take_mono [OF assms(1), of 3] take_mono [OF assms(2), of 3] assms(3,4) by (simp add: family_def)

lemma scan_family:
  assumes "length p = 3"
  shows "in_bounds (Some (ser64 z p)) (Some (ser64 nx p)) k \<Longrightarrow> family k = p"
    and "in_bounds (Some (ser64 z p)) (Some (ser64 nx p)) (ser64 t p) \<longleftrightarrow> z \<le> t \<and> t < nx"
  using family_between [of "ser64 z p" k "ser64 nx p" p] assms by (auto simp: in_bounds_def ser64_key_less ser64_key_le)

section \<open>Filling a map\<close>

lemma fold_map_put:
  "ordered m \<Longrightarrow> ordered (fold (\<lambda>(k, x). map_put k x) xs m) \<and>
     map_of (fold (\<lambda>(k, x). map_put k x) xs m) = map_of m ++ map_of (rev xs)"
proof (induction xs arbitrary: m)
  case (Cons kx xs)
  obtain k x where kx: "kx = (k, x)" by fastforce
  have "ordered (map_put k x m)" using Cons.prems by (rule ordered_map_put)
  then show ?case using Cons.IH [of "map_put k x m"] Cons.prems by (auto simp: kx map_of_map_put fun_eq_iff map_add_def split: option.splits)
qed simp

lemma map_of_rev_eq:
  assumes "distinct (map fst xs)"
  shows "map_of (rev xs) k = Some x \<longleftrightarrow> (k, x) \<in> set xs"
  using map_of_eq_Some_iff [of "rev xs" k x] assms by (simp add: rev_map [symmetric])

lemma map_of_rev_same:
  assumes "distinct (map fst xs)" and "\<And>k x. (k, x) \<in> set xs \<longleftrightarrow> m k = Some x"
  shows "map_of (rev xs) = m"
proof
  fix k
  show "map_of (rev xs) k = m k"
    using map_of_rev_eq [OF assms(1), of k] assms(2) [of k] by (cases "m k"; cases "map_of (rev xs) k") auto
qed

section \<open>The scans\<close>

text \<open>What is in the store belongs to the tables: the position entries and the schema entries are those of
  tables with numbers below the next one, and the schemas can be read back.\<close>

definition readable :: "byte list \<Rightarrow> bool" where
  "readable b \<longleftrightarrow> (\<exists>r. DocSchema_Deserialize b DocSchema_default = Inr r \<and> DocSchema_Serialize r = Inr b)"

definition clean :: "(key \<rightharpoonup> byte list) \<Rightarrow> DBCache \<Rightarrow> bool" where
  "clean v c \<longleftrightarrow>
     (\<forall>k. v k \<noteq> None \<longrightarrow> family k = DBTableSegmentNextIDPrefix \<longrightarrow>
        (\<exists>t n. k = ser64 t DBTableSegmentNextIDPrefix \<and> map_of (tnamenamp c) n = Some t)) \<and>
     (\<forall>k b. v k = Some b \<longrightarrow> family k = DBTableMappingPrefix \<longrightarrow>
        (\<exists>t n. k = ser64 t DBTableMappingPrefix \<and> map_of (tnamenamp c) n = Some t \<and> readable b))"

definition name_entry :: "string \<times> u64 \<Rightarrow> key \<times> byte list" where
  "name_entry nt = (TableKey (fst nt), ser64 (snd nt) [])"

definition seg_entry :: "u64 \<times> u64 \<times> u64 \<Rightarrow> key \<times> byte list" where
  "seg_entry x = (ser64 (fst x) DBTableSegmentNextIDPrefix, ser64 (snd (snd x)) (ser64 (fst (snd x)) []))"

lemma de64_at: "length pre = n \<Longrightarrow> de64 (pre @ ser64 v [] @ rest) n = Inr v"
  using de64_ser64 by blast

lemma de64_0: "de64 (ser64 v []) 0 = Inr v"
  using de64_ser64 [of "[]" v "[]"] by simp

lemma de64_key: "length p = 3 \<Longrightarrow> de64 (ser64 v p) 3 = Inr v"
  using de64_ser64 [of p v "[]"] by (simp add: ser_append [of _ _ p])

lemma Init_names_run:
  assumes "\<forall>kv \<in> set (take 1 rest). family (fst kv) \<noteq> DBTablePrefix"
  shows "Init_names (map name_entry ns @ rest) c = Inr (c\<lparr>tnamenamp := fold (\<lambda>(n, t). map_put n t) ns (tnamenamp c),
    tidnamemap := fold (\<lambda>(t, n). map_put t n) (map prod.swap ns) (tidnamemap c)\<rparr>)"
proof (induction ns arbitrary: c)
  case Nil
  then show ?case using assms by (cases rest) (auto simp: family_def)
next
  case (Cons nt ns)
  have k: "drop 3 (TableKey n) = str n" "take 3 (TableKey n) = DBTablePrefix" for n by (simp_all add: TableKey_def)
  have m: "map char_of_byte (str n) = n" for n by (simp add: comp_def)
  show ?case using Cons.IH by (simp add: name_entry_def k m de64_0 UpdateTableMapping_name_def split_beta comp_def Let_def)
qed

lemma Init_segments_run:
  "Init_segments (map seg_entry ss) c = Inr (c\<lparr>segmap := fold (\<lambda>(t, s). map_put t s) (map (\<lambda>(t, s, x). (t, s)) ss) (segmap c),
    offset_map := fold (\<lambda>(t, x). map_put t x) (map (\<lambda>(t, s, x). (t, x)) ss) (offset_map c)\<rparr>)"
proof (induction ss arbitrary: c)
  case (Cons x ss)
  obtain t s off where x: "x = (t, s, off)" by (cases x)
  show ?case using Cons.IH
    by (simp add: x seg_entry_def de64_key de64_pair UpdateSegMap_def UpdateTidOffset_def)
qed simp


definition schema_entry :: "u64 \<times> byte list \<Rightarrow> key \<times> byte list" where
  "schema_entry x = (ser64 (fst x) DBTableMappingPrefix, snd x)"

definition read_schema :: "byte list \<Rightarrow> DocSchema" where
  "read_schema b = projr (DocSchema_Deserialize b DocSchema_default)"

lemma readable_schema:
  assumes "readable b"
  shows "DocSchema_Deserialize b DocSchema_default = Inr (read_schema b)" and "DocSchema_Serialize (DocSchema_copy (read_schema b)) = Inr b"
  using assms unfolding readable_def read_schema_def Serialize_copy by auto

lemma Init_schemas_run:
  assumes "\<forall>(t, b) \<in> set xs. readable b \<and> map_of (tidnamemap c) t \<noteq> None"
  shows "Init_schemas (map schema_entry xs) c = Inr (c\<lparr>tschemaamp :=
    fold (\<lambda>(n, r). map_put n r) (map (\<lambda>(t, b). (the (map_of (tidnamemap c) t), DocSchema_copy (read_schema b))) xs) (tschemaamp c)\<rparr>)"
  using assms
proof (induction xs arbitrary: c)
  case (Cons x xs)
  obtain t b where x: "x = (t, b)" by (cases x)
  obtain n where n: "map_of (tidnamemap c) t = Some n" and b: "readable b" using Cons.prems x by auto
  let ?c = "c\<lparr>tschemaamp := map_put n (DocSchema_copy (read_schema b)) (tschemaamp c)\<rparr>"
  have "Init_schemas (map schema_entry xs) ?c = Inr (?c\<lparr>tschemaamp :=
    fold (\<lambda>(n, r). map_put n r) (map (\<lambda>(t, b). (the (map_of (tidnamemap ?c) t), DocSchema_copy (read_schema b))) xs) (tschemaamp ?c)\<rparr>)"
    using Cons.prems by (intro Cons.IH) auto
  then show ?case using readable_schema(1) [OF b]
    by (simp add: x schema_entry_def [of "(t, b)"] de64_key UpdateTableMapping_schema_def name_at_def n)
qed simp

lemma scan_entry:
  assumes "kv_laws ops view"
  shows "(k, b) \<in> set (db_Scan ops lo hi db) \<longleftrightarrow> in_bounds lo hi k \<and> view db k = Some b"
proof -
  have "distinct (map fst (db_Scan ops lo hi db))" using kv_lawsD(4) [OF assms] ordered_distinct by blast
  then show ?thesis using map_of_eq_Some_iff [of "db_Scan ops lo hi db" k b] kv_lawsD(5) [OF assms, of lo hi db k] by (auto split: if_splits)
qed

lemma takeWhile_sorted:
  assumes "sorted_wrt R xs" and "\<And>x y. x \<in> set xs \<Longrightarrow> y \<in> set xs \<Longrightarrow> R x y \<Longrightarrow> P y \<Longrightarrow> P x"
  shows "takeWhile P xs = filter P xs"
  using assms
proof (induction xs)
  case (Cons x xs)
  have "takeWhile P xs = filter P xs" using Cons by auto
  moreover have "filter P xs = []" if "\<not> P x" using Cons.prems that by (force simp: filter_empty_conv)
  ultimately show ?case by simp
qed simp

lemma byte_of_char_of_byte [simp]: "byte_of_char (char_of_byte b) = b"
proof -
  have "unat b < 256" using unsigned_less [of b] by simp
  then show ?thesis by (simp add: byte_of_char_def char_of_byte_def)
qed

lemma names_scan:
  assumes laws: "kv_laws ops view" and coh: "coherent (view db) c"
  obtains ns rest where "db_Scan ops (Some DBTablePrefix) None db = map name_entry ns @ rest"
    and "\<forall>kv \<in> set (take 1 rest). family (fst kv) \<noteq> DBTablePrefix"
    and "\<And>n t. (n, t) \<in> set ns \<longleftrightarrow> map_of (tnamenamp c) n = Some t" and "distinct (map fst ns)"
proof -
  let ?es = "db_Scan ops (Some DBTablePrefix) None db" and ?P = "\<lambda>kv :: key \<times> byte list. family (fst kv) = DBTablePrefix"
  have tab: "view db (TableKey n) = map_option (\<lambda>t. ser64 t []) (map_of (tnamenamp c) n)" for n by (rule coherentD(3) [OF coh])
  have key: "k = TableKey (map char_of_byte (drop 3 k))" if "family k = DBTablePrefix" for k
    using that append_take_drop_id [of 3 k] by (simp add: family_def TableKey_def comp_def)
  have ord: "ordered ?es" by (rule kv_lawsD(4) [OF laws])
  have tw: "takeWhile ?P ?es = filter ?P ?es"
  proof (rule takeWhile_sorted [of "\<lambda>x y. fst x < fst y"])
    show "sorted_wrt (\<lambda>x y. fst x < fst y) ?es" using ord by (simp add: sorted_wrt_map)
    show "?P x" if "x \<in> set ?es" "y \<in> set ?es" "fst x < fst y" "?P y" for x y
    proof -
      have "DBTablePrefix \<le> fst x" using that(1) scan_entry [OF laws, of "fst x" "snd x"] by (auto simp: in_bounds_def)
      then show ?thesis using family_between [of DBTablePrefix "fst x" "fst y"] that(3,4) by (simp add: family_def)
    qed
  qed
  have "\<forall>kb \<in> set (filter ?P ?es). \<exists>nt. kb = name_entry nt"
  proof
    fix kb
    assume kb: "kb \<in> set (filter ?P ?es)"
    obtain k b where kb': "kb = (k, b)" by fastforce
    define n where "n = map char_of_byte (drop 3 k)"
    have k: "k = TableKey n" using kb key [of k] unfolding kb' n_def by simp
    have "view db k = Some b" using kb scan_entry [OF laws] unfolding kb' by auto
    then obtain t where "b = ser64 t []" using tab [of n] k by auto
    then show "\<exists>nt. kb = name_entry nt" using k kb' by (auto simp: name_entry_def)
  qed
  then obtain ns where ns: "filter ?P ?es = map name_entry ns" using ex_map_conv [of "filter ?P ?es" name_entry] by blast
  have mem: "(n, t) \<in> set ns \<longleftrightarrow> map_of (tnamenamp c) n = Some t" for n t
  proof -
    have "(n, t) \<in> set ns \<longleftrightarrow> name_entry (n, t) \<in> set (filter ?P ?es)"
      unfolding ns by (force simp: name_entry_def TableKey_inj ser64_inj image_iff)
    also have "\<dots> \<longleftrightarrow> view db (TableKey n) = Some (ser64 t [])"
      using scan_entry [OF laws, of "TableKey n" "ser64 t []"] prefix_le by (auto simp: name_entry_def in_bounds_def TableKey_def)
    also have "\<dots> \<longleftrightarrow> map_of (tnamenamp c) n = Some t" unfolding tab by (auto simp: ser64_inj)
    finally show ?thesis .
  qed
  have "distinct (map fst (filter ?P ?es))" using ord ordered_distinct distinct_map_filter by blast
  then have "distinct (map fst ns)" unfolding ns
    by (auto simp: name_entry_def distinct_map inj_on_def TableKey_inj comp_def)
  moreover have "?es = map name_entry ns @ dropWhile ?P ?es" using takeWhile_dropWhile_id [of ?P ?es] tw ns by metis
  moreover have "\<forall>kv \<in> set (take 1 (dropWhile ?P ?es)). family (fst kv) \<noteq> DBTablePrefix"
  proof (cases "dropWhile ?P ?es")
    case (Cons kv r)
    then have "\<not> ?P kv" using hd_dropWhile [of ?P ?es] by (metis list.distinct(1) list.sel(1))
    then show ?thesis unfolding Cons by simp
  next
    case Nil
    show ?thesis unfolding Nil by simp
  qed
  ultimately show thesis using that mem by blast
qed


lemma table_below:
  assumes "coherent v c" and "cache_tid c = Some nx" and "map_of (tnamenamp c) n = Some t"
  shows "t < nx" and "table_ok v c nx n t"
  using coherentD(2) [OF assms(1)] assms(2,3) by (auto simp: table_ok_def)

text \<open>The list of the entries of a family of numbered keys.\<close>

lemma family_scan:
  assumes laws: "kv_laws ops view" and p: "length p = 3"
    and entries: "\<And>k b. view db k = Some b \<Longrightarrow> family k = p \<Longrightarrow> \<exists>x. (k, b) = f x"
  obtains xs where "db_Scan ops (Some (ser64 z p)) (Some (p @ ser64 nx [])) db = map f xs"
proof -
  let ?es = "db_Scan ops (Some (ser64 z p)) (Some (p @ ser64 nx [])) db"
  have hi: "p @ ser64 nx [] = ser64 nx p" by (rule ser_append [symmetric])
  have "\<forall>kb \<in> set ?es. \<exists>x. kb = f x"
  proof
    fix kb
    assume kb: "kb \<in> set ?es"
    obtain k b where kb': "kb = (k, b)" by fastforce
    have "in_bounds (Some (ser64 z p)) (Some (ser64 nx p)) k \<and> view db k = Some b"
      using kb scan_entry [OF laws] unfolding kb' hi by blast
    then show "\<exists>x. kb = f x" using entries scan_family(1) [OF p] unfolding kb' by blast
  qed
  then show thesis using that ex_map_conv [of ?es f] by blast
qed

lemma family_scan_mem:
  assumes "kv_laws ops view" and "length p = 3"
  shows "(ser64 t p, b) \<in> set (db_Scan ops (Some (ser64 z p)) (Some (p @ ser64 nx [])) db) \<longleftrightarrow> z \<le> t \<and> t < nx \<and> view db (ser64 t p) = Some b"
  using scan_entry [OF assms(1)] scan_family(2) [OF assms(2)] ser_append [of 8 "unat nx" p] by metis

lemma segments_scan:
  assumes laws: "kv_laws ops view" and coh: "coherent (view db) c" and cl: "clean (view db) c" and nx: "cache_tid c = Some nx"
  obtains ss where "db_Scan ops (Some (ser64 0 DBTableSegmentNextIDPrefix)) (Some (DBTableSegmentNextIDPrefix @ ser64 nx [])) db = map seg_entry ss"
    and "\<And>t s x. (t, s, x) \<in> set ss \<longleftrightarrow> map_of (segmap c) t = Some s \<and> x = off_of c t" and "distinct (map fst ss)"
proof -
  let ?p = DBTableSegmentNextIDPrefix
  let ?es = "db_Scan ops (Some (ser64 0 ?p)) (Some (?p @ ser64 nx [])) db"
  have seg: "view db (ser64 t ?p) = map_option (\<lambda>s. ser64 (off_of c t) (ser64 s [])) (map_of (segmap c) t)" for t
    by (rule coherentD(5) [OF coh])
  have known: "\<exists>t n. k = ser64 t ?p \<and> map_of (tnamenamp c) n = Some t" if "view db k \<noteq> None" "family k = ?p" for k
    using cl that unfolding clean_def by blast
  have "\<exists>x. (k, b) = seg_entry x" if kb: "view db k = Some b" "family k = ?p" for k b
  proof -
    obtain t where k: "k = ser64 t ?p" using known kb by fastforce
    then obtain s where "b = ser64 (off_of c t) (ser64 s [])" using seg [of t] kb(1) by auto
    then show ?thesis using k by (auto simp: seg_entry_def intro!: exI [of _ "(t, s, off_of c t)"])
  qed
  then obtain ss where ss: "?es = map seg_entry ss" by (rule family_scan [OF laws length_prefixes(4)])
  have inj: "seg_entry x = seg_entry y \<longleftrightarrow> x = y" for x y
  proof
    assume eq: "seg_entry x = seg_entry y"
    then have "fst x = fst y" by (simp add: seg_entry_def ser64_key_eq)
    moreover have "de64 (snd (seg_entry x)) 0 = de64 (snd (seg_entry y)) 0" "de64 (snd (seg_entry x)) 8 = de64 (snd (seg_entry y)) 8"
      using eq by simp_all
    ultimately show "x = y" by (simp add: seg_entry_def de64_pair prod_eq_iff)
  qed simp
  have "(t, s, x) \<in> set ss \<longleftrightarrow> map_of (segmap c) t = Some s \<and> x = off_of c t" for t s x
  proof -
    have "(t, s, x) \<in> set ss \<longleftrightarrow> seg_entry (t, s, x) \<in> set ?es" unfolding ss by (auto simp: inj image_iff)
    also have "\<dots> \<longleftrightarrow> t < nx \<and> view db (ser64 t ?p) = Some (ser64 x (ser64 s []))"
      unfolding seg_entry_def fst_conv snd_conv using family_scan_mem [OF laws length_prefixes(4), of t _ 0 nx db] by simp
    also have "\<dots> \<longleftrightarrow> view db (ser64 t ?p) = Some (ser64 x (ser64 s []))"
      using known [of "ser64 t ?p"] table_below(1) [OF coh nx] by (auto simp: ser64_key_eq)
    also have "\<dots> \<longleftrightarrow> map_of (segmap c) t = Some s \<and> x = off_of c t"
      unfolding seg using inj [of "(t, _, off_of c t)" "(t, s, x)"] by (auto simp: seg_entry_def)
    finally show ?thesis .
  qed
  moreover have "distinct (map fst ss)"
  proof -
    have "distinct (map fst ?es)" using kv_lawsD(4) [OF laws] ordered_distinct by blast
    moreover have "map fst ?es = map (\<lambda>t. ser64 t ?p) (map fst ss)" unfolding ss by (simp add: seg_entry_def comp_def)
    ultimately show ?thesis by (metis distinct_map)
  qed
  ultimately show thesis using that ss by blast
qed

lemma schemas_scan:
  assumes laws: "kv_laws ops view" and coh: "coherent (view db) c" and cl: "clean (view db) c" and nx: "cache_tid c = Some nx"
  obtains xs where "db_Scan ops (Some (ser64 0 DBTableMappingPrefix)) (Some (DBTableMappingPrefix @ ser64 nx [])) db = map schema_entry xs"
    and "\<And>t b. (t, b) \<in> set xs \<longleftrightarrow> view db (ser64 t DBTableMappingPrefix) = Some b" and "distinct (map fst xs)"
proof -
  let ?p = DBTableMappingPrefix
  let ?es = "db_Scan ops (Some (ser64 0 ?p)) (Some (?p @ ser64 nx [])) db"
  have known: "\<exists>t n. k = ser64 t ?p \<and> map_of (tnamenamp c) n = Some t" if "view db k = Some b" "family k = ?p" for k b
    using cl that unfolding clean_def by blast
  have "\<exists>x. (k, b) = schema_entry x" if "view db k = Some b" "family k = ?p" for k b
    using known [OF that] by (auto simp: schema_entry_def)
  then obtain xs where xs: "?es = map schema_entry xs" by (rule family_scan [OF laws length_prefixes(6)])
  have "(t, b) \<in> set xs \<longleftrightarrow> view db (ser64 t ?p) = Some b" for t b
  proof -
    have "(t, b) \<in> set xs \<longleftrightarrow> schema_entry (t, b) \<in> set ?es" unfolding xs by (force simp: schema_entry_def ser64_key_eq)
    also have "\<dots> \<longleftrightarrow> t < nx \<and> view db (ser64 t ?p) = Some b"
      unfolding schema_entry_def fst_conv snd_conv using family_scan_mem [OF laws length_prefixes(6), of t _ 0 nx db] by simp
    also have "\<dots> \<longleftrightarrow> view db (ser64 t ?p) = Some b"
      using known [of "ser64 t ?p"] table_below(1) [OF coh nx] by (auto simp: ser64_key_eq)
    finally show ?thesis .
  qed
  moreover have "distinct (map fst xs)"
  proof -
    have "distinct (map fst ?es)" using kv_lawsD(4) [OF laws] ordered_distinct by blast
    moreover have "map fst ?es = map (\<lambda>t. ser64 t ?p) (map fst xs)" unfolding xs by (simp add: schema_entry_def comp_def)
    ultimately show ?thesis by (metis distinct_map)
  qed
  ultimately show thesis using that xs by blast
qed

section \<open>The rebuilt cache\<close>

text \<open>The cache after the three scans, and what it holds.\<close>

definition rebuilt :: "u64 \<Rightarrow> (string \<times> u64) list \<Rightarrow> (u64 \<times> u64 \<times> u64) list \<Rightarrow> (u64 \<times> byte list) list \<Rightarrow> DBCache" where
  "rebuilt nx ns ss xs =
     (let names = fold (\<lambda>(t, n). map_put t n) (map prod.swap ns) []
      in \<lparr>cache_tid = Some nx, segmap = fold (\<lambda>(t, s). map_put t s) (map (\<lambda>(t, s, x). (t, s)) ss) [],
          tnamenamp = fold (\<lambda>(n, t). map_put n t) ns [], tidnamemap = names,
          tschemaamp = fold (\<lambda>(n, r). map_put n r) (map (\<lambda>(t, b). (the (map_of names t), DocSchema_copy (read_schema b))) xs) [],
          offset_map = fold (\<lambda>(t, x). map_put t x) (map (\<lambda>(t, s, x). (t, x)) ss) []\<rparr>)"

lemma rebuilt_ordered: "cache_ordered (rebuilt nx ns ss xs)"
  using fold_map_put [of "[] :: (u64 \<times> u64) list"] fold_map_put [of "[] :: (string \<times> u64) list"] fold_map_put [of "[] :: (u64 \<times> string) list"]
    fold_map_put [of "[] :: (string \<times> DocSchema) list"]
  by (simp add: cache_ordered_def rebuilt_def Let_def)

lemma rebuilt_maps:
  assumes ns: "\<And>n t. (n, t) \<in> set ns \<longleftrightarrow> map_of (tnamenamp c) n = Some t" "distinct (map fst ns)"
    and inj: "\<forall>n t. map_of (tnamenamp c) n = Some t \<longrightarrow> map_of (tidnamemap c) t = Some n"
    and ss: "\<And>t s x. (t, s, x) \<in> set ss \<longleftrightarrow> map_of (segmap c) t = Some s \<and> x = off_of c t" "distinct (map fst ss)"
  shows "map_of (tnamenamp (rebuilt nx ns ss xs)) = map_of (tnamenamp c)"
    and "map_of (tnamenamp c) n = Some t \<Longrightarrow> map_of (tidnamemap (rebuilt nx ns ss xs)) t = Some n"
    and "map_of (segmap (rebuilt nx ns ss xs)) = map_of (segmap c)"
    and "map_of (segmap c) t \<noteq> None \<Longrightarrow> off_of (rebuilt nx ns ss xs) t = off_of c t"
proof -
  show "map_of (tnamenamp (rebuilt nx ns ss xs)) = map_of (tnamenamp c)"
    using fold_map_put [of "[] :: (string \<times> u64) list" ns] map_of_rev_same [OF ns(2) ns(1)] by (simp add: rebuilt_def Let_def)
  have "inj_on snd (set ns)" by (rule inj_onI) (metis ns(1) inj option.inject prod.collapse)
  then have d: "distinct (map fst (map prod.swap ns))"
    using ns(2) by (simp add: distinct_map comp_def inj_on_def)
  show "map_of (tidnamemap (rebuilt nx ns ss xs)) t = Some n" if "map_of (tnamenamp c) n = Some t"
    using that ns(1) [of n t] fold_map_put [of "[] :: (u64 \<times> string) list" "map prod.swap ns"] map_of_rev_eq [OF d, of t n]
    by (auto simp: rebuilt_def Let_def)
  have d1: "distinct (map fst (map (\<lambda>(t, s, x). (t, s)) ss))" and d2: "distinct (map fst (map (\<lambda>(t, s, x). (t, x)) ss))"
    using ss(2) by (simp_all add: comp_def split_beta)
  have "map_of (rev (map (\<lambda>(t, s, x). (t, s)) ss)) = map_of (segmap c)"
    by (rule map_of_rev_same [OF d1]) (use ss(1) in force)
  then show "map_of (segmap (rebuilt nx ns ss xs)) = map_of (segmap c)"
    using fold_map_put [of "[] :: (u64 \<times> u64) list" "map (\<lambda>(t, s, x). (t, s)) ss"] by (simp add: rebuilt_def Let_def)
  show "off_of (rebuilt nx ns ss xs) t = off_of c t" if "map_of (segmap c) t \<noteq> None"
  proof -
    have "(t, off_of c t) \<in> set (map (\<lambda>(t, s, x). (t, x)) ss)" using that ss(1) by force
    then have "map_of (rev (map (\<lambda>(t, s, x). (t, x)) ss)) t = Some (off_of c t)" using map_of_rev_eq [OF d2] by blast
    then show ?thesis
      using fold_map_put [of "[] :: (u64 \<times> u64) list" "map (\<lambda>(t, s, x). (t, x)) ss"] by (simp add: off_of_def rebuilt_def Let_def)
  qed
qed

lemma rebuilt_schemas:
  assumes xs: "\<And>t b. (t, b) \<in> set xs \<longleftrightarrow> v (ser64 t DBTableMappingPrefix) = Some b" "distinct (map fst xs)"
    and names: "\<forall>t b. (t, b) \<in> set xs \<longrightarrow> readable b \<and> (\<exists>n. map_of (tnamenamp c) n = Some t)"
    and ids: "\<forall>n t. map_of (tnamenamp c) n = Some t \<longrightarrow> map_of (tidnamemap (rebuilt nx ns ss xs)) t = Some n"
    and tab: "map_of (tnamenamp c) n = Some t" and b: "v (ser64 t DBTableMappingPrefix) = Some b"
  shows "map_of (tschemaamp (rebuilt nx ns ss xs)) n = Some (DocSchema_copy (read_schema b))"
proof -
  let ?ids = "fold (\<lambda>(t, n). map_put t n) (map prod.swap ns) []"
  let ?l = "map (\<lambda>(t, b). (the (map_of ?ids t), DocSchema_copy (read_schema b))) xs"
  have ids': "map_of ?ids u = Some m" if "map_of (tnamenamp c) m = Some u" for m u
    using ids that by (simp add: rebuilt_def Let_def)
  have d: "distinct (map fst ?l)"
  proof -
    have inj: "inj_on (\<lambda>u. the (map_of ?ids u)) (set (map fst xs))"
    proof (rule inj_onI)
      fix u w
      assume "u \<in> set (map fst xs)" "w \<in> set (map fst xs)" "the (map_of ?ids u) = the (map_of ?ids w)"
      moreover from this obtain m1 m2 where m: "map_of (tnamenamp c) m1 = Some u" "map_of (tnamenamp c) m2 = Some w"
        using names by force
      ultimately have "m1 = m2" using ids' [OF m(1)] ids' [OF m(2)] by simp
      then show "u = w" using m by simp
    qed
    have eq: "map fst ?l = map (\<lambda>u. the (map_of ?ids u)) (map fst xs)" by (simp add: comp_def split_beta)
    show ?thesis unfolding eq distinct_map [of _ "map fst xs"] using xs(2) inj by blast
  qed
  have m: "(n, DocSchema_copy (read_schema b)) \<in> set ?l"
  proof -
    have "(t, b) \<in> set xs" using b unfolding xs(1) .
    then have "(\<lambda>(t, b). (the (map_of ?ids t), DocSchema_copy (read_schema b))) (t, b) \<in> set ?l" unfolding set_map by (rule imageI)
    then show ?thesis unfolding prod.case ids' [OF tab] option.sel .
  qed
  have "map_of (rev ?l) n = Some (DocSchema_copy (read_schema b))" by (rule iffD2 [OF map_of_rev_eq [OF d] m])
  then show ?thesis using fold_map_put [of "[] :: (string \<times> DocSchema) list" ?l] by (simp add: rebuilt_def Let_def)
qed

text \<open>Opening a store that holds the next table number runs the three scans.\<close>

lemma Init_run:
  assumes laws: "kv_laws ops view" and coh: "coherent (view db) c" and cl: "clean (view db) c" and nx: "cache_tid c = Some nx"
  obtains ns ss xs where "RocksDBImpl_new ops db = Inr \<lparr>kvdb = db, db_cache = rebuilt nx ns ss xs\<rparr>"
    and "\<And>n t. (n, t) \<in> set ns \<longleftrightarrow> map_of (tnamenamp c) n = Some t" and "distinct (map fst ns)"
    and "\<And>t s x. (t, s, x) \<in> set ss \<longleftrightarrow> map_of (segmap c) t = Some s \<and> x = off_of c t" and "distinct (map fst ss)"
    and "\<And>t b. (t, b) \<in> set xs \<longleftrightarrow> view db (ser64 t DBTableMappingPrefix) = Some b" and "distinct (map fst xs)"
proof -
  obtain ns rest where ns: "db_Scan ops (Some DBTablePrefix) None db = map name_entry ns @ rest"
    "\<forall>kv \<in> set (take 1 rest). family (fst kv) \<noteq> DBTablePrefix"
    "\<And>n t. (n, t) \<in> set ns \<longleftrightarrow> map_of (tnamenamp c) n = Some t" "distinct (map fst ns)"
    using names_scan [OF laws coh] by metis
  obtain ss where ss: "db_Scan ops (Some (ser64 0 DBTableSegmentNextIDPrefix)) (Some (DBTableSegmentNextIDPrefix @ ser64 nx [])) db = map seg_entry ss"
    "\<And>t s x. (t, s, x) \<in> set ss \<longleftrightarrow> map_of (segmap c) t = Some s \<and> x = off_of c t" "distinct (map fst ss)"
    using segments_scan [OF laws coh cl nx] by metis
  obtain xs where xs: "db_Scan ops (Some (ser64 0 DBTableMappingPrefix)) (Some (DBTableMappingPrefix @ ser64 nx [])) db = map schema_entry xs"
    "\<And>t b. (t, b) \<in> set xs \<longleftrightarrow> view db (ser64 t DBTableMappingPrefix) = Some b" "distinct (map fst xs)"
    using schemas_scan [OF laws coh cl nx] by metis
  have get: "db_Get ops db DBTableSequenceKey = (R_OK, ser64 nx [])"
    using coherentD(2) [OF coh] nx kv_lawsD(1) [OF laws] by fastforce
  have known: "readable b \<and> (\<exists>n. map_of (tnamenamp c) n = Some t)" if "(t, b) \<in> set xs" for t b
    using that cl xs(2) [of t b] unfolding clean_def by (metis family_keys(3) length_prefixes(6) ser64_key_inj)
  let ?c1 = "DBCache_new\<lparr>cache_tid := Some nx\<rparr>"
  let ?c2 = "?c1\<lparr>tnamenamp := fold (\<lambda>(n, t). map_put n t) ns (tnamenamp ?c1),
    tidnamemap := fold (\<lambda>(t, n). map_put t n) (map prod.swap ns) (tidnamemap ?c1)\<rparr>"
  let ?c3 = "?c2\<lparr>segmap := fold (\<lambda>(t, s). map_put t s) (map (\<lambda>(t, s, x). (t, s)) ss) (segmap ?c2),
    offset_map := fold (\<lambda>(t, x). map_put t x) (map (\<lambda>(t, s, x). (t, x)) ss) (offset_map ?c2)\<rparr>"
  have "map_of (tidnamemap ?c3) t \<noteq> None" if "map_of (tnamenamp c) n = Some t" for n t
  proof -
    have "(t, n) \<in> set (map prod.swap ns)" using that ns(3) by force
    then have "t \<in> fst ` set (rev (map prod.swap ns))" by (metis fst_conv image_eqI set_rev)
    then have "map_of (rev (map prod.swap ns)) t \<noteq> None" by (simp only: map_of_eq_None_iff not_not)
    then show ?thesis using fold_map_put [of "[] :: (u64 \<times> string) list" "map prod.swap ns"] by (simp add: DBCache_new_def)
  qed
  then have "\<forall>(t, b) \<in> set xs. readable b \<and> map_of (tidnamemap ?c3) t \<noteq> None" using known by blast
  note run = Init_names_run [OF ns(2), of ns ?c1] Init_segments_run [of ss ?c2] Init_schemas_run [OF this]
  have "RocksDBImpl_new ops db = Inr \<lparr>kvdb = db, db_cache = rebuilt nx ns ss xs\<rparr>"
    unfolding RocksDBImpl_new_def RocksDBImpl_Init_def
    using get run unfolding ns(1) [symmetric] ss(1) [symmetric] xs(1) [symmetric]
    by (simp add: de64_0 SetTid_def guard_def rebuilt_def Let_def DBCache_new_def)
  then show thesis using that ns(3,4) ss(2,3) xs(2,3) by blast
qed


section \<open>Properties\<close>

lemma rebuilt_coherent:
  assumes coh: "coherent v c" and cl: "clean v c" and nx: "cache_tid c = Some nx"
    and ns: "\<And>n t. (n, t) \<in> set ns \<longleftrightarrow> map_of (tnamenamp c) n = Some t" "distinct (map fst ns)"
    and ss: "\<And>t s x. (t, s, x) \<in> set ss \<longleftrightarrow> map_of (segmap c) t = Some s \<and> x = off_of c t" "distinct (map fst ss)"
    and xs: "\<And>t b. (t, b) \<in> set xs \<longleftrightarrow> v (ser64 t DBTableMappingPrefix) = Some b" "distinct (map fst xs)"
  shows "coherent v (rebuilt nx ns ss xs)"
    and "map_of (tnamenamp c) n = Some t \<Longrightarrow> \<exists>s s'. map_of (tschemaamp c) n = Some s \<and>
      map_of (tschemaamp (rebuilt nx ns ss xs)) n = Some s' \<and> DocSchema_Serialize s' = DocSchema_Serialize s"
proof -
  let ?c = "rebuilt nx ns ss xs"
  have tab: "table_ok v c nx n t" if "map_of (tnamenamp c) n = Some t" for n t by (rule table_below(2) [OF coh nx that])
  have ids: "\<forall>n t. map_of (tnamenamp c) n = Some t \<longrightarrow> map_of (tidnamemap c) t = Some n" using tab by (simp add: table_ok_def)
  note maps = rebuilt_maps [OF ns ids ss, where nx = nx and xs = xs]
  have known: "\<forall>t b. (t, b) \<in> set xs \<longrightarrow> readable b \<and> (\<exists>n. map_of (tnamenamp c) n = Some t)"
    using cl xs(1) unfolding clean_def by (metis family_keys(3) length_prefixes(6) ser64_key_inj)
  have ids': "\<forall>n t. map_of (tnamenamp c) n = Some t \<longrightarrow> map_of (tidnamemap ?c) t = Some n" using maps(2) by blast
  have sch: "\<exists>s s' b. map_of (tschemaamp c) n = Some s \<and> DocSchema_Serialize s = Inr b \<and> v (ser64 t DBTableMappingPrefix) = Some b \<and>
      map_of (tschemaamp ?c) n = Some s' \<and> DocSchema_Serialize s' = Inr b" if nt: "map_of (tnamenamp c) n = Some t" for n t
  proof -
    obtain s b where sb: "map_of (tschemaamp c) n = Some s" "DocSchema_Serialize s = Inr b" "v (ser64 t DBTableMappingPrefix) = Some b"
      using tab [OF nt] by (auto simp: table_ok_def)
    have "readable b" using known xs(1) sb(3) by blast
    then show ?thesis using sb rebuilt_schemas [OF xs known ids' nt sb(3)] readable_schema(2) by blast
  qed
  then show "map_of (tnamenamp c) n = Some t \<Longrightarrow> \<exists>s s'. map_of (tschemaamp c) n = Some s \<and>
      map_of (tschemaamp (rebuilt nx ns ss xs)) n = Some s' \<and> DocSchema_Serialize s' = DocSchema_Serialize s" by metis
  have "table_ok v ?c nx n t" if "map_of (tnamenamp ?c) n = Some t" for n t
  proof -
    have nt: "map_of (tnamenamp c) n = Some t" using that maps(1) by simp
    then show ?thesis using tab [OF nt] sch [OF nt] maps(2) [OF nt] maps(3) unfolding table_ok_def by auto
  qed
  moreover have "cache_tid ?c = Some nx" by (simp add: rebuilt_def Let_def)
  moreover have "v DBTableSequenceKey = Some (ser64 nx [])" using coherentD(2) [OF coh] nx by auto
  moreover have "v (ser64 t DBTableSegmentNextIDPrefix) = map_option (\<lambda>s. ser64 (off_of ?c t) (ser64 s [])) (map_of (segmap ?c) t)" for t
    using coherentD(5) [OF coh, of t] maps(4) [of t] unfolding maps(3) by (cases "map_of (segmap c) t") simp_all
  ultimately show "coherent v ?c" unfolding coherent_def
    using rebuilt_ordered coherentD(3,4) [OF coh] maps(1,3) by auto
qed

lemma reopen_run:
  assumes "kv_laws ops view" and "coherent (view db) c" and "clean (view db) c"
  shows "\<exists>c'. RocksDBImpl_new ops db = Inr \<lparr>kvdb = db, db_cache = c'\<rparr> \<and> coherent (view db) c' \<and> clean (view db) c' \<and>
    cache_tid c' = cache_tid c \<and> (\<forall>n. GetTidByTname n c' = GetTidByTname n c) \<and> (\<forall>t. GetSegId t c' = GetSegId t c) \<and>
    (\<forall>t. GetSegId t c \<noteq> None \<longrightarrow> off_of c' t = off_of c t) \<and>
    (\<forall>n. GetTidByTname n c \<noteq> None \<longrightarrow> (\<exists>s s'. GetSchema_name n c = Some s \<and> GetSchema_name n c' = Some s' \<and>
       DocSchema_Serialize s' = DocSchema_Serialize s))"
proof -
  obtain nx where nx: "cache_tid c = Some nx" using coherentD(2) [OF assms(2)] by blast
  obtain ns ss xs where run: "RocksDBImpl_new ops db = Inr \<lparr>kvdb = db, db_cache = rebuilt nx ns ss xs\<rparr>"
    and ns: "\<And>n t. (n, t) \<in> set ns \<longleftrightarrow> map_of (tnamenamp c) n = Some t" "distinct (map fst ns)"
    and ss: "\<And>t s x. (t, s, x) \<in> set ss \<longleftrightarrow> map_of (segmap c) t = Some s \<and> x = off_of c t" "distinct (map fst ss)"
    and xs: "\<And>t b. (t, b) \<in> set xs \<longleftrightarrow> view db (ser64 t DBTableMappingPrefix) = Some b" "distinct (map fst xs)"
    using Init_run [OF assms nx] by metis
  let ?c = "rebuilt nx ns ss xs"
  have ids: "\<forall>n t. map_of (tnamenamp c) n = Some t \<longrightarrow> map_of (tidnamemap c) t = Some n"
    using table_below(2) [OF assms(2) nx] by (simp add: table_ok_def)
  note maps = rebuilt_maps [OF ns ids ss, where nx = nx and xs = xs] and coh = rebuilt_coherent [OF assms(2,3) nx ns ss xs]
  have "clean (view db) ?c" using assms(3) maps(1) by (simp add: clean_def)
  moreover have "cache_tid ?c = cache_tid c" by (simp add: rebuilt_def Let_def nx)
  ultimately show ?thesis using run coh maps
    by (intro exI [of _ ?c]) (simp add: GetTidByTname_def GetSegId_def GetSchema_name_def, blast)
qed


text \<open>The operations keep the store clean.\<close>

lemma created_clean:
  assumes coh: "coherent v c" and cl: "clean v c" and none: "map_of (tnamenamp c) n = None" and b: "readable b"
  shows "clean (v(DBTableSequenceKey \<mapsto> ser64 (t + 1) [], TableKey n \<mapsto> ser64 t [],
      ser64 t DBTableCurrentSegmentPrefix \<mapsto> ser64 0 [], ser64 t DBTableSegmentNextIDPrefix \<mapsto> ser64 0 (ser64 0 []),
      ser64 t DBTableMappingPrefix \<mapsto> b)) (created t n schema c)" (is "clean ?v ?c")
proof -
  have ord: "ordered (tnamenamp c)" using coherentD(1) [OF coh] by (simp add: cache_ordered_def)
  have names: "map_of (tnamenamp ?c) = (map_of (tnamenamp c))(n \<mapsto> t)" using ord by (simp add: created_def map_of_map_put)
  then have new: "map_of (tnamenamp ?c) n = Some t" and old: "map_of (tnamenamp c) m = Some u \<Longrightarrow> map_of (tnamenamp ?c) m = Some u" for m u
    using none by auto
  have seg: "?v k = v k" if "family k = DBTableSegmentNextIDPrefix" "k \<noteq> ser64 t DBTableSegmentNextIDPrefix" for k
  proof -
    have "k \<noteq> DBTableSequenceKey" "k \<noteq> TableKey n" "k \<noteq> ser64 t DBTableCurrentSegmentPrefix" "k \<noteq> ser64 t DBTableMappingPrefix"
      using that(1) distinct_prefixes by auto
    then show ?thesis using that(2) by simp
  qed
  have sch: "?v k = v k" if "family k = DBTableMappingPrefix" "k \<noteq> ser64 t DBTableMappingPrefix" for k
  proof -
    have "k \<noteq> DBTableSequenceKey" "k \<noteq> TableKey n" "k \<noteq> ser64 t DBTableCurrentSegmentPrefix" "k \<noteq> ser64 t DBTableSegmentNextIDPrefix"
      using that(1) distinct_prefixes by auto
    then show ?thesis using that(2) by simp
  qed
  have "\<exists>u m. k = ser64 u DBTableSegmentNextIDPrefix \<and> map_of (tnamenamp ?c) m = Some u"
    if "?v k \<noteq> None" "family k = DBTableSegmentNextIDPrefix" for k
    using cl that seg [of k] new old unfolding clean_def by metis
  moreover have "\<exists>u m. k = ser64 u DBTableMappingPrefix \<and> map_of (tnamenamp ?c) m = Some u \<and> readable x"
    if "?v k = Some x" "family k = DBTableMappingPrefix" for k x
  proof (cases "k = ser64 t DBTableMappingPrefix")
    case True
    then show ?thesis using that(1) new b by auto
  next
    case False
    then show ?thesis using cl that sch [of k] old unfolding clean_def by metis
  qed
  ultimately show ?thesis unfolding clean_def by blast
qed

lemma moved_clean:
  assumes coh: "coherent v c" and cl: "clean v c" and seg: "map_of (segmap c) tid = Some sid" and inv: "seg_inv v tid sid g"
    and tab: "map_of (tnamenamp c) n = Some tid"
  shows "clean (apply_batch (seg_wb g) v) (moved tid g c)" (is "clean ?v ?c")
proof -
  have "\<not> has_update g \<longrightarrow> seg_id g = sid" using inv by (simp add: seg_inv_def)
  note names = moved_facts(4) [OF coherentD(1) [OF coh] seg this]
  have frame: "?v k = v k" if "family k \<notin> data_families" "k \<noteq> ser64 tid DBTableCurrentSegmentPrefix"
    "k \<noteq> ser64 tid DBTableSegmentNextIDPrefix" for k
    using inv that unfolding seg_inv_def by blast
  have seg: "?v k = v k" if "family k = DBTableSegmentNextIDPrefix" "k \<noteq> ser64 tid DBTableSegmentNextIDPrefix" for k
    using that distinct_prefixes by (intro frame) (auto simp: data_families_def)
  have sch: "?v k = v k" if "family k = DBTableMappingPrefix" for k
    using that distinct_prefixes by (intro frame) (auto simp: data_families_def)
  have "\<exists>u m. k = ser64 u DBTableSegmentNextIDPrefix \<and> map_of (tnamenamp c) m = Some u"
    if "?v k \<noteq> None" "family k = DBTableSegmentNextIDPrefix" for k
    using cl that seg [of k] tab unfolding clean_def by metis
  then show ?thesis using cl sch unfolding clean_def names by metis
qed

text \<open>The store with the table \<open>docs\<close> is clean.\<close>

lemma start_clean: "clean (map_of (kvdb start_store)) c"
  using start_store_facts(4) distinct_prefixes unfolding clean_def by fastforce


section \<open>All runs\<close>

text \<open>The states a program can bring the store into: a new store opened, tables created with schemas that
  were built from well-formed ones within the limits of the format, documents added, the store closed and
  opened again.\<close>

inductive store_reachable :: "'db rocks \<Rightarrow> ('db \<Rightarrow> (key \<rightharpoonup> byte list)) \<Rightarrow> 'db RocksDBImpl \<Rightarrow> bool" for ops view where
  open_new: "view db = Map.empty \<Longrightarrow> RocksDBImpl_new ops db = Inr st \<Longrightarrow> store_reachable ops view st"
| create: "store_reachable ops view st \<Longrightarrow> schema_wf sch \<Longrightarrow> \<not> ds_fixed sch \<Longrightarrow> fields_id_type sch = [] \<Longrightarrow>
    length (fields_schema sch) < 256 \<Longrightarrow> \<forall>n \<in> set (map fst (fields_schema sch)). length n < 256 \<Longrightarrow>
    DocSchema_Build sch = Inr (True, b) \<Longrightarrow> cache_tid (db_cache st) = Some t \<Longrightarrow> t < t + 1 \<Longrightarrow>
    CreateTable ops n b st = Inr (s, st') \<Longrightarrow> store_reachable ops view st'"
| add: "store_reachable ops view st \<Longrightarrow> AddDocs ops n ds st = Inr (s, st') \<Longrightarrow> store_reachable ops view st'"
| add_one: "store_reachable ops view st \<Longrightarrow> AddDoc ops n d st = Inr (s, st') \<Longrightarrow> store_reachable ops view st'"
| reopen: "store_reachable ops view st \<Longrightarrow> RocksDBImpl_new ops (kvdb st) = Inr st' \<Longrightarrow> store_reachable ops view st'"

lemma CreateTable_keeps:
  assumes laws: "kv_laws ops view" and coh: "coherent (view (kvdb st)) (db_cache st)" and cl: "clean (view (kvdb st)) (db_cache st)"
    and t: "cache_tid (db_cache st) = Some t" "t < t + 1" and built: "DocSchema_HasBuilt b" and x: "DocSchema_Serialize b = Inr x" "readable x"
    and run: "CreateTable ops n b st = Inr (s, st')"
  shows "coherent (view (kvdb st')) (db_cache st') \<and> clean (view (kvdb st')) (db_cache st')"
proof (cases "map_of (tnamenamp (db_cache st)) n")
  case None
  then have key: "view (kvdb st) (TableKey n) = None" using coherentD(3) [OF coh, of n] by simp
  obtain db where db: "st' = \<lparr>kvdb = db, db_cache = created t n b (db_cache st)\<rparr>"
    "view db = (view (kvdb st))(DBTableSequenceKey \<mapsto> ser64 (t + 1) [], TableKey n \<mapsto> ser64 t [],
      ser64 t DBTableCurrentSegmentPrefix \<mapsto> ser64 0 [], ser64 t DBTableSegmentNextIDPrefix \<mapsto> ser64 0 (ser64 0 []),
      ser64 t DBTableMappingPrefix \<mapsto> x)"
    using CreateTable_new [OF laws key built t(1) x(1) coherentD(1) [OF coh]] run by auto
  have "coherent (view db) (created t n b (db_cache st))" "clean (view db) (created t n b (db_cache st))"
    unfolding db(2) by (rule created_coherent [OF coh None t x(1)], rule created_clean [OF coh cl None x(2)])
  then show ?thesis unfolding db(1) by simp
next
  case (Some u)
  then obtain y where "view (kvdb st) (TableKey n) = Some y" using coherentD(3) [OF coh, of n] by auto
  then have "st' = st" using run kv_lawsD(1) [OF laws] by (auto simp: CreateTable_def)
  then show ?thesis using coh cl by simp
qed

lemma AddDocs_keeps:
  assumes laws: "kv_laws ops view" and coh: "coherent (view (kvdb st)) (db_cache st)" and cl: "clean (view (kvdb st)) (db_cache st)"
    and run: "AddDocs_known ops n ds st = Inr (s, st')"
  shows "coherent (view (kvdb st')) (db_cache st') \<and> clean (view (kvdb st')) (db_cache st')"
  using AddDocs_known_moved [OF laws coh run] moved_coherent [OF coh] moved_clean [OF coh cl] coh cl by metis

lemma store_invariant:
  assumes "store_reachable ops view st" and laws: "kv_laws ops view"
  shows "coherent (view (kvdb st)) (db_cache st) \<and> clean (view (kvdb st)) (db_cache st)"
  using assms(1)
proof (induction rule: store_reachable.induct)
  case (open_new db st)
  obtain db' where db': "st = \<lparr>kvdb = db', db_cache = fresh_cache 0\<rparr>" "coherent (view db') (fresh_cache 0)"
    "view db' = [DBTableSequenceKey \<mapsto> ser64 0 []]"
    using fresh_store [OF laws open_new(1)] open_new(2) by (metis sum.inject(2))
  have "clean (view db') (fresh_cache 0)" using distinct_prefixes unfolding db'(3) by (auto simp: clean_def split: if_splits)
  then show ?case using db'(1,2) by simp
next
  case (create st sch b t n s st')
  obtain b' r where b: "DocSchema_Build sch = Inr (True, b')" "built_from (kinds sch) b'" "schema_wf b'"
    "DocSchema_Serialize b' = Inr (DocSchema_Size b' # enc 0 (kinds sch))"
    and r: "DocSchema_Deserialize (DocSchema_Size b' # enc 0 (kinds sch)) DocSchema_default = Inr r"
      "built_from (kinds sch) r" "schema_wf r"
    using schema_read_back [OF create.hyps(2-6)] by metis
  have eq: "b' = b" using b(1) create.hyps(7) by simp
  have "readable (DocSchema_Size b # enc 0 (kinds sch))"
    using r(1) b(4) Serialize_same [OF b(3,2) r(3,2)] unfolding readable_def eq by auto
  moreover have "DocSchema_HasBuilt b" using b(2) unfolding eq by (simp add: built_from_def DocSchema_HasBuilt_def)
  ultimately show ?case using CreateTable_keeps [OF laws _ _ create.hyps(8,9) _ b(4) [unfolded eq] _ create.hyps(10)] create.IH by blast
next
  case (add st n ds s st')
  then have "st' = st \<or> AddDocs_known ops n ds st = Inr (s, st')" by (simp add: AddDocs_def split: if_splits)
  then show ?case using AddDocs_keeps [OF laws conjunct1 [OF add.IH] conjunct2 [OF add.IH]] add.IH by metis
next
  case (add_one st n d s st')
  then have "st' = st \<or> AddDocs_known ops n [d] st = Inr (s, st')" by (simp add: AddDoc_def split: if_splits)
  then show ?case using AddDocs_keeps [OF laws conjunct1 [OF add_one.IH] conjunct2 [OF add_one.IH]] add_one.IH by metis
next
  case (reopen st st')
  obtain c' where "RocksDBImpl_new ops (kvdb st) = Inr \<lparr>kvdb = kvdb st, db_cache = c'\<rparr>" "coherent (view (kvdb st)) c'" "clean (view (kvdb st)) c'"
    using reopen_run [OF laws conjunct1 [OF reopen.IH] conjunct2 [OF reopen.IH]] by blast
  then show ?case using reopen.hyps(2) by auto
qed

text \<open>C12. Closing and reopening loses nothing. In every state a program can reach by opening a new store, creating
  tables, adding documents and reopening, the cache agrees with the disk, and opening the store again succeeds
  without a fault, changes nothing on disk and rebuilds the cache from it: every table has its number,
  segment and position back, the next table number is the same, and the schema of a table has the same
  bytes.\<close>

theorem reopen_recovers:
  assumes "kv_laws ops view" and "store_reachable ops view st"
  shows "coherent (view (kvdb st)) (db_cache st) \<and>
    (\<exists>c'. RocksDBImpl_new ops (kvdb st) = Inr \<lparr>kvdb = kvdb st, db_cache = c'\<rparr> \<and> coherent (view (kvdb st)) c' \<and>
      cache_tid c' = cache_tid (db_cache st) \<and> (\<forall>n. GetTidByTname n c' = GetTidByTname n (db_cache st)) \<and>
      (\<forall>t. GetSegId t c' = GetSegId t (db_cache st)) \<and>
      (\<forall>t. GetSegId t (db_cache st) \<noteq> None \<longrightarrow> off_of c' t = off_of (db_cache st) t) \<and>
      (\<forall>n. GetTidByTname n (db_cache st) \<noteq> None \<longrightarrow> (\<exists>s s'. GetSchema_name n (db_cache st) = Some s \<and>
         GetSchema_name n c' = Some s' \<and> DocSchema_Serialize s' = DocSchema_Serialize s)))"
proof -
  have inv: "coherent (view (kvdb st)) (db_cache st)" "clean (view (kvdb st)) (db_cache st)" using store_invariant [OF assms(2,1)] by simp_all
  show ?thesis using reopen_run [OF assms(1) inv] inv(1) by blast
qed

theorem reopen_recovers_witness:
  "\<exists>b st c'. DocSchema_Build key_schema = Inr (True, b) \<and> CreateTable list_store ''docs'' b start_store = Inr (R_OK, st) \<and>
     RocksDBImpl_new list_store (kvdb st) = Inr \<lparr>kvdb = kvdb st, db_cache = c'\<rparr> \<and> GetTidByTname ''docs'' c' = Some 0 \<and>
     GetSegId 0 c' = Some 0"
proof -
  have f: "fields_schema key_schema = [(''_id'', 0, 0)]" "fields_id_type key_schema = []" "\<not> ds_fixed key_schema" by code_simp+
  have wf: "schema_wf key_schema" unfolding key_schema_def
    by (intro field_added_wf [OF _ _ add_accepted(1)] schema_wf_default; code_simp)
  obtain b where b: "DocSchema_Build key_schema = Inr (True, b)" "built_from [(''_id'', 0)] b" "schema_wf b"
    using key_schema_built by metis
  have free: "map_of (kvdb start_store) (ser64 0 DBTableUidIdMappingPrefix @ u) = None" for u
    using start_store_facts(4) family_keys(4) [of DBTableUidIdMappingPrefix 0 u] distinct_prefixes by fastforce
  obtain st where st: "CreateTable list_store ''docs'' b start_store = Inr (R_OK, st)"
    "GetTidByTname ''docs'' (db_cache st) = Some 0" "GetSegId 0 (db_cache st) = Some 0"
    by (rule one_table [where n = "''docs''", OF list_store_laws start_store_facts(1,3,2) _ b(3,2) free]) simp_all
  have "RocksDBImpl_new list_store [] = Inr start_store"
    unfolding RocksDBImpl_new_def RocksDBImpl_Init_def start_store_def le_zero_bytes
    by (simp add: list_store_def SetTid_def fresh_cache_def guard_def)
  then have "store_reachable list_store map_of start_store" by (intro store_reachable.open_new [of _ "[]"]) simp_all
  then have "store_reachable list_store map_of st"
    by (rule store_reachable.create [OF _ wf f(3,2) _ _ b(1) start_store_facts(2) _ st(1)]) (simp_all add: f(1))
  then show ?thesis using reopen_recovers [OF list_store_laws] st b(1) by metis
qed

end
