(* ===== verification/Rk_Dump.thy ===== *)
theory Rk_Dump
  imports Rk_Reopen
begin

text \<open>
  Printing a store: the class \<open>KeyHelper\<close> (\<open>rocksdb_lab/rocksdb_impl.h\<close>) and \<open>RocksDBImpl::Dump\<close>. The text written to
  \<open>std::cout\<close> is the result; what goes to \<open>std::cerr\<close> is left out. Every caller leaves the argument \<open>header\<close> at its default, the
  empty string. How a \<open>float\<close> is printed is the argument \<open>show_float\<close>.
\<close>

section \<open>KeyHelper\<close>

abbreviation show64 :: "u64 \<Rightarrow> string" where "show64 n \<equiv> show_nat (unat n)"
abbreviation text_of :: "byte list \<Rightarrow> string" where "text_of b \<equiv> map char_of_byte b"
abbreviation nl :: string where "nl \<equiv> [CHR 0x0A]"

definition show_long :: "long \<Rightarrow> string" where
  "show_long x = (if sint x < 0 then CHR ''-'' # show_nat (nat (- sint x)) else show_nat (nat (sint x)))"

definition PrintDBTableNameKey :: "key \<Rightarrow> byte list \<Rightarrow> string outcome" where
  "PrintDBTableNameKey key vl = bnd (de64 vl 0) (\<lambda>tid. Inr (''[ '' @ text_of key @ '', '' @ show64 tid @ '' ]'' @ nl))"

definition PrintDBSequenceKey :: "key \<Rightarrow> byte list \<Rightarrow> string outcome" where
  "PrintDBSequenceKey key vl = bnd (de64 vl 0) (\<lambda>tid. Inr (''[ '' @ text_of DBTableSequenceKey @ '', '' @ show64 tid @ '' ]'' @ nl))"

definition PrintDBTableMappingKey :: "key \<Rightarrow> byte list \<Rightarrow> string outcome" where
  "PrintDBTableMappingKey key vl =
     bnd (de64 key PrefixSize) (\<lambda>tid. bnd (DocSchema_Deserialize vl DocSchema_default) (\<lambda>schema.
       Inr (''[ '' @ text_of DBTableMappingPrefix @ '':'' @ show64 tid @ '' ]'' @ nl)))"

definition PrintDBSegmentNextIDKey :: "key \<Rightarrow> byte list \<Rightarrow> string outcome" where
  "PrintDBSegmentNextIDKey key vl =
     bnd (de64 key PrefixSize) (\<lambda>tid. bnd (de64 vl 0) (\<lambda>sid. bnd (de64 vl 8) (\<lambda>i.
       Inr (''[ '' @ text_of DBTableSegmentNextIDPrefix @ show64 tid @ '', '' @ show64 sid @ '':'' @ show64 i @ '' ]'' @ nl))))"

definition PrintDBUidIdMappingKey :: "key \<Rightarrow> byte list \<Rightarrow> string outcome" where
  "PrintDBUidIdMappingKey key vl =
     bnd (de64 key PrefixSize) (\<lambda>tid. bnd (de64 vl 0) (\<lambda>sid. bnd (de64 key (PrefixSize + 8)) (\<lambda>uid. bnd (de64 vl 8) (\<lambda>i.
       Inr (''[ '' @ text_of DBTableUidIdMappingPrefix @ '':'' @ show64 tid @ '':'' @ show_long uid @ '', '' @ show64 sid @ '':'' @ show64 i @ '' ]'' @ nl)))))"

definition PrintDBCurrentSegmentKey :: "key \<Rightarrow> byte list \<Rightarrow> string outcome" where
  "PrintDBCurrentSegmentKey key vl =
     bnd (de64 key PrefixSize) (\<lambda>tid. bnd (de64 vl 0) (\<lambda>sid.
       Inr (''[ '' @ text_of DBTableCurrentSegmentPrefix @ '':'' @ show64 tid @ '', '' @ show64 sid @ '' ]'' @ nl)))"

text \<open>The numbers of a vector as they lie in memory; bytes after the last whole number are not printed.\<close>

fun print_floats :: "(float32 \<Rightarrow> string) \<Rightarrow> nat \<Rightarrow> byte list \<Rightarrow> string" where
  "print_floats show_float 0 b = ''''"
| "print_floats show_float (Suc n) b = show_float (word_of_nat (bytes_val (take 4 b))) @ '' '' @ print_floats show_float n (drop 4 b)"

text \<open>The value of a field by its type; a \<open>float\<close> field is read as a \<open>long\<close>.\<close>

definition print_value :: "(float32 \<Rightarrow> string) \<Rightarrow> u8 \<Rightarrow> byte list \<Rightarrow> string outcome" where
  "print_value show_float field_type vl =
     (if field_type = LongFieldType then bnd (de64 vl 0) (\<lambda>vv. Inr (''[:]'' @ show_long vv))
      else if field_type = FloatFieldType then bnd (de64 vl 0) (\<lambda>vv. Inr (''<:>'' @ show_long vv))
      else if field_type = StringFieldType then Inr (''{:}'' @ text_of vl)
      else if field_type = FloatVectorFieldType
      then Inr (''(:)< '' @ (if 16 < length vl then ''...'' else print_floats show_float (length vl div 4) vl) @ ''>'')
      else Inl AssertFailed)"

definition PrintDBFieldValueKeyValue :: "(float32 \<Rightarrow> string) \<Rightarrow> key \<Rightarrow> byte list \<Rightarrow> DBCache \<Rightarrow> (string \<times> DBCache) outcome" where
  "PrintDBFieldValueKeyValue show_float key vl c =
     bnd (de64 key PrefixSize) (\<lambda>tid. bnd (de64 key (PrefixSize + 8)) (\<lambda>sid. bnd (de64 key (PrefixSize + 16)) (\<lambda>offset.
     bnd (de8 key (PrefixSize + 24)) (\<lambda>fid.
     let out = ''[ '' @ text_of DBTableFieldValuePrefix @ '':'' @ show64 tid @ '':'' @ show64 sid @ '':'' @ show64 offset @ '':'' @ show_nat (unat fid);
         (schema, c) = GetSchema_tid tid c
     in bnd (of_opt NullDeref schema) (\<lambda>schema.
        case GetFieldType_id fid schema of None \<Rightarrow> Inr (out, c)
        | Some field_type \<Rightarrow> bnd (print_value show_float field_type vl) (\<lambda>v. Inr (out @ v @ '' ]'' @ nl, c)))))))"

text \<open>The value inside an index key, between the number of the field and the last sixteen bytes.\<close>

definition print_index_value :: "(float32 \<Rightarrow> string) \<Rightarrow> u8 \<Rightarrow> key \<Rightarrow> string outcome" where
  "print_index_value show_float field_type key =
     (if field_type = LongFieldType then bnd (de64 key 12) (\<lambda>vl. Inr (CHR '':'' # show_long vl))
      else if field_type = FloatFieldType
      then bnd (Deserialize_num 4 (drop 12 key)) (\<lambda>vl. Inr (CHR '':'' # show_float (word_of_nat vl)))
      else if field_type = StringFieldType
      then if length key < 28 then Inl OutOfBounds else Inr (CHR '':'' # text_of (take (length key - 28) (drop 12 key)))
      else if field_type = FloatVectorFieldType then Inr '':<vectors>''
      else Inl AssertFailed)"

definition PrintDBIndexKey :: "(float32 \<Rightarrow> string) \<Rightarrow> key \<Rightarrow> DBCache \<Rightarrow> (string \<times> DBCache) outcome" where
  "PrintDBIndexKey show_float key c =
     (let out = ''[ '' @ text_of (take PrefixSize key) @ '':'' in
     bnd (de64 key PrefixSize) (\<lambda>tid.
     let (schema, c) = GetSchema_tid tid c in
     bnd (de8 key (PrefixSize + 8)) (\<lambda>fid.
     bnd (of_opt NullDeref schema) (\<lambda>schema.
     case GetFieldType_id fid schema of None \<Rightarrow> Inr (out, c)
     | Some field_type \<Rightarrow>
         bnd (print_index_value show_float field_type key) (\<lambda>v.
         if length key < 16 then Inl OutOfBounds
         else bnd (de64 key (length key - 16)) (\<lambda>sid. bnd (de64 key (length key - 8)) (\<lambda>i.
              Inr (out @ show64 tid @ '':'' @ show_nat (unat fid) @ v @ '':'' @ show64 sid @ '':'' @ show64 i @ '' ]'' @ nl, c))))))))"

section \<open>Dump\<close>

definition starts_with :: "key \<Rightarrow> key \<Rightarrow> bool" where "starts_with k p \<longleftrightarrow> take (length p) k = p"

text \<open>What the loop prints for one entry.\<close>

definition Dump_entry :: "(float32 \<Rightarrow> string) \<Rightarrow> key \<Rightarrow> byte list \<Rightarrow> DBCache \<Rightarrow> (string \<times> DBCache) outcome" where
  "Dump_entry show_float key vl c =
     (let keep = (\<lambda>r. bnd r (\<lambda>out. Inr (out, c))) in
      if starts_with key DBTablePrefix then keep (PrintDBTableNameKey key vl)
      else if starts_with key DBTableCurrentSegmentPrefix then keep (PrintDBCurrentSegmentKey key vl)
      else if starts_with key DBTableSequenceKey then keep (PrintDBSequenceKey key vl)
      else if starts_with key DBTableSegmentNextIDPrefix then keep (PrintDBSegmentNextIDKey key vl)
      else if starts_with key DBTableUidIdMappingPrefix then keep (PrintDBUidIdMappingKey key vl)
      else if starts_with key DBTableMappingPrefix then keep (PrintDBTableMappingKey key vl)
      else if starts_with key DBTableFieldIndexPrefix then PrintDBIndexKey show_float key c
      else if starts_with key DBTableFieldValuePrefix then PrintDBFieldValueKeyValue show_float key vl c
      else Inr (''Error: unKown key '' @ text_of key @ nl, c))"

fun Dump_loop :: "(float32 \<Rightarrow> string) \<Rightarrow> bool \<Rightarrow> (key \<times> byte list) list \<Rightarrow> nat \<Rightarrow> string \<Rightarrow> DBCache \<Rightarrow> (nat \<times> string \<times> DBCache) outcome" where
  "Dump_loop show_float do_print [] count out c = Inr (count, out, c)"
| "Dump_loop show_float do_print ((key, vl) # kvs) count out c =
     (if \<not> do_print then Dump_loop show_float do_print kvs (count + 1) out c
      else bnd (Dump_entry show_float key vl c) (\<lambda>(line, c). Dump_loop show_float do_print kvs (count + 1) (out @ line) c))"

definition Dump :: "'db rocks \<Rightarrow> (float32 \<Rightarrow> string) \<Rightarrow> bool \<Rightarrow> 'db RocksDBImpl \<Rightarrow> (string \<times> 'db RocksDBImpl) outcome" where
  "Dump ops show_float do_print st =
     bnd (Dump_loop show_float do_print (db_Scan ops None None (kvdb st)) 0 '''' (db_cache st)) (\<lambda>(count, out, c).
       Inr (out @ ''Found '' @ show_nat count @ '' KVs'' @ nl, st\<lparr>db_cache := c\<rparr>))"


section \<open>What is printed\<close>

lemma starts_with_family: "length p = 3 \<Longrightarrow> starts_with k p \<longleftrightarrow> family k = p"
  by (simp add: starts_with_def family_def)

lemma Dump_entry_family:
  "family k = DBTableUidIdMappingPrefix \<Longrightarrow> Dump_entry sf k v c = bnd (PrintDBUidIdMappingKey k v) (\<lambda>out. Inr (out, c))"
  "family k = DBTableFieldIndexPrefix \<Longrightarrow> Dump_entry sf k v c = PrintDBIndexKey sf k c"
  "family k = DBTableFieldValuePrefix \<Longrightarrow> Dump_entry sf k v c = PrintDBFieldValueKeyValue sf k v c"
  using distinct_prefixes by (auto simp: Dump_entry_def starts_with_family)

lemma de8_at: "length pre = n \<Longrightarrow> de8 (pre @ [b] @ rest) n = Inr b"
proof -
  assume "length pre = n"
  moreover have "unat b < 256 ^ 1" using unsigned_less [of b, where 'a = nat] by simp
  then have "Deserialize_num 1 ([b] @ rest) = Inr (unat b)"
    using Deserialize_Serialize_num [of "unat b" 1 rest] Serialize_byte [of b "[]"] by simp
  ultimately show ?thesis by (simp add: de8_def)
qed

text \<open>The parts of the keys.\<close>

lemma field_val_key_parts: "field_val_key tid sid off fid = DBTableFieldValuePrefix @ ser64 tid [] @ ser64 sid [] @ ser64 off [] @ [fid]"
  unfolding field_val_key_def ser8_byte by (simp add: Serialize_num_bytes)

lemma field_index_key_parts:
  "field_index_key tid fid v sid off = DBTableFieldIndexPrefix @ ser64 tid [] @ [fid] @ v @ ser64 sid [] @ ser64 off []"
  unfolding field_index_key_def ser8_byte by (simp add: Serialize_num_bytes)

lemma field_val_key_read:
  "de64 (field_val_key tid sid off fid) 3 = Inr tid" "de64 (field_val_key tid sid off fid) 11 = Inr sid"
  "de64 (field_val_key tid sid off fid) 19 = Inr off" "de8 (field_val_key tid sid off fid) 27 = Inr fid"
  unfolding field_val_key_parts
  using de64_at [of DBTableFieldValuePrefix 3 tid] de64_at [of "DBTableFieldValuePrefix @ ser64 tid []" 11 sid]
    de64_at [of "DBTableFieldValuePrefix @ ser64 tid [] @ ser64 sid []" 19 off]
    de8_at [of "DBTableFieldValuePrefix @ ser64 tid [] @ ser64 sid [] @ ser64 off []" 27 fid "[]"]
  by simp_all

lemma length_field_index_key: "length (field_index_key tid fid v sid off) = 28 + length v"
  by (simp add: field_index_key_parts)

lemma field_index_key_read:
  "de64 (field_index_key tid fid v sid off) 3 = Inr tid" "de8 (field_index_key tid fid v sid off) 11 = Inr fid"
  "de64 (field_index_key tid fid v sid off) (12 + length v) = Inr sid" "de64 (field_index_key tid fid v sid off) (20 + length v) = Inr off"
  "take (length v) (drop 12 (field_index_key tid fid v sid off)) = v" "take 3 (field_index_key tid fid v sid off) = DBTableFieldIndexPrefix"
  unfolding field_index_key_parts
  using de64_at [of DBTableFieldIndexPrefix 3 tid] de8_at [of "DBTableFieldIndexPrefix @ ser64 tid []" 11 fid]
    de64_at [of "DBTableFieldIndexPrefix @ ser64 tid [] @ [fid] @ v" "12 + length v" sid]
    de64_at [of "DBTableFieldIndexPrefix @ ser64 tid [] @ [fid] @ v @ ser64 sid []" "20 + length v" off "[]"]
  by simp_all

lemma index_value_long: "de64 (field_index_key tid fid (ser64 x []) sid off) 12 = Inr x"
  using de64_at [of "DBTableFieldIndexPrefix @ ser64 tid [] @ [fid]" 12 x] by (simp add: field_index_key_parts)

text \<open>The text for a stored value and for its index entry: the same parts, in the order of the two keys.\<close>

definition value_line :: "u64 \<Rightarrow> u64 \<Rightarrow> u64 \<Rightarrow> u8 \<Rightarrow> string \<Rightarrow> string" where
  "value_line tid sid off fid v = ''[ TFV:'' @ show64 tid @ '':'' @ show64 sid @ '':'' @ show64 off @ '':'' @ show_nat (unat fid) @ v @ '' ]'' @ nl"

definition index_line :: "u64 \<Rightarrow> u8 \<Rightarrow> string \<Rightarrow> u64 \<Rightarrow> u64 \<Rightarrow> string" where
  "index_line tid fid v sid off = ''[ TFI:'' @ show64 tid @ '':'' @ show_nat (unat fid) @ '':'' @ v @ '':'' @ show64 sid @ '':'' @ show64 off @ '' ]'' @ nl"

lemma prefix_texts:
  "text_of DBTableFieldValuePrefix = ''TFV''" "text_of DBTableFieldIndexPrefix = ''TFI''" "text_of DBTableUidIdMappingPrefix = ''TID''"
  by (simp_all add: prefix_defs)

lemma Dump_value:
  assumes "GetSchema_tid tid c = (Some s, c')" and "GetFieldType_id fid s = Some ty"
  shows "Dump_entry sf (field_val_key tid sid off fid) v c = bnd (print_value sf ty v) (\<lambda>t. Inr (value_line tid sid off fid t, c'))"
  using assms by (simp add: Dump_entry_family PrintDBFieldValueKeyValue_def PrefixSize_def field_val_key_read prefix_texts value_line_def)

lemma Dump_index:
  assumes "GetSchema_tid tid c = (Some s, c')" and "GetFieldType_id fid s = Some ty"
    and "print_index_value sf ty (field_index_key tid fid v sid off) = Inr (CHR '':'' # t)"
  shows "Dump_entry sf (field_index_key tid fid v sid off) w c = Inr (index_line tid fid t sid off, c')"
proof -
  have "length (field_index_key tid fid v sid off) - 16 = 12 + length v" "length (field_index_key tid fid v sid off) - 8 = 20 + length v"
    "\<not> length (field_index_key tid fid v sid off) < 16" by (simp_all add: length_field_index_key)
  then show ?thesis using assms
    by (simp add: Dump_entry_family PrintDBIndexKey_def PrefixSize_def field_index_key_read prefix_texts index_line_def)
qed

text \<open>\<open>Dump\<close> reads back what adding a document wrote. For a field of a table in the cache, the line for the
  stored value and the line for its index entry show the table, the segment, the position, the field and the
  value that were put into the keys, for numbers and for strings; the line for the key of a document shows
  where the document is.\<close>

theorem Dump_decodes:
  assumes "GetSchema_tid tid c = (Some s, c')"
  shows "Dump_entry sf (ser64 uid (ser64 tid DBTableUidIdMappingPrefix)) (ser64 off (ser64 sid [])) c =
      Inr (''[ TID:'' @ show64 tid @ '':'' @ show_long uid @ '', '' @ show64 sid @ '':'' @ show64 off @ '' ]'' @ nl, c) \<and>
    (GetFieldType_id fid s = Some LongFieldType \<longrightarrow>
      Dump_entry sf (field_val_key tid sid off fid) (ser64 x []) c = Inr (value_line tid sid off fid (''[:]'' @ show_long x), c') \<and>
      Dump_entry sf (field_index_key tid fid (ser64 x []) sid off) [] c = Inr (index_line tid fid (show_long x) sid off, c')) \<and>
    (GetFieldType_id fid s = Some StringFieldType \<longrightarrow>
      Dump_entry sf (field_val_key tid sid off fid) (str w) c = Inr (value_line tid sid off fid (''{:}'' @ w), c') \<and>
      Dump_entry sf (field_index_key tid fid (str w) sid off) [] c = Inr (index_line tid fid w sid off, c'))"
proof (intro conjI impI)
  let ?k = "ser64 uid (ser64 tid DBTableUidIdMappingPrefix)"
  have k: "?k = DBTableUidIdMappingPrefix @ ser64 tid [] @ ser64 uid []" by (simp add: Serialize_num_bytes)
  have "de64 ?k 3 = Inr tid" "de64 ?k 11 = Inr uid" unfolding k
    using de64_at [of DBTableUidIdMappingPrefix 3 tid] de64_at [of "DBTableUidIdMappingPrefix @ ser64 tid []" 11 uid "[]"] by simp_all
  moreover have "family ?k = DBTableUidIdMappingPrefix" unfolding k by simp
  ultimately show "Dump_entry sf ?k (ser64 off (ser64 sid [])) c =
      Inr (''[ TID:'' @ show64 tid @ '':'' @ show_long uid @ '', '' @ show64 sid @ '':'' @ show64 off @ '' ]'' @ nl, c)"
    by (simp add: Dump_entry_family PrintDBUidIdMappingKey_def PrefixSize_def de64_pair prefix_texts)
next
  assume ty: "GetFieldType_id fid s = Some LongFieldType"
  show "Dump_entry sf (field_val_key tid sid off fid) (ser64 x []) c = Inr (value_line tid sid off fid (''[:]'' @ show_long x), c')"
    using Dump_value [OF assms ty] by (simp add: print_value_def de64_0)
  show "Dump_entry sf (field_index_key tid fid (ser64 x []) sid off) [] c = Inr (index_line tid fid (show_long x) sid off, c')"
    by (rule Dump_index [OF assms ty]) (simp add: print_index_value_def index_value_long)
next
  assume ty: "GetFieldType_id fid s = Some StringFieldType"
  note ne = LongFieldType_def FloatFieldType_def StringFieldType_def
  have m: "text_of (str w) = w" by (simp add: comp_def)
  show "Dump_entry sf (field_val_key tid sid off fid) (str w) c = Inr (value_line tid sid off fid (''{:}'' @ w), c')"
    using Dump_value [OF assms ty] by (simp add: print_value_def ne comp_def)
  show "Dump_entry sf (field_index_key tid fid (str w) sid off) [] c = Inr (index_line tid fid w sid off, c')"
    using field_index_key_read(5) [of "str w" tid fid sid off] m
    by (intro Dump_index [OF assms ty]) (simp add: print_index_value_def ne length_field_index_key)
qed


theorem Dump_decodes_witness:
  "Dump_entry (\<lambda>x. '''') (field_index_key 1 0 (ser64 (-3) []) 0 7) []
     \<lparr>cache_tid = Some 2, segmap = [], tnamenamp = [(''t'', 1)], tidnamemap = [(1, ''t'')],
      tschemaamp = [(''t'', DocSchema_default\<lparr>fields_id_type := [LongFieldType]\<rparr>)], offset_map = []\<rparr> =
   Inr (''[ TFI:1:0:-3:0:7 ]'' @ nl,
     \<lparr>cache_tid = Some 2, segmap = [], tnamenamp = [(''t'', 1)], tidnamemap = [(1, ''t'')],
      tschemaamp = [(''t'', DocSchema_default\<lparr>fields_id_type := [LongFieldType]\<rparr>)], offset_map = []\<rparr>)"
proof -
  let ?s = "DocSchema_default\<lparr>fields_id_type := [LongFieldType]\<rparr>"
  let ?c = "\<lparr>cache_tid = Some 2, segmap = [], tnamenamp = [(''t'', 1)], tidnamemap = [(1, ''t'')], tschemaamp = [(''t'', ?s)], offset_map = []\<rparr>"
  have "GetSchema_tid 1 ?c = (Some ?s, ?c)" by (simp add: GetSchema_tid_def name_at_def GetSchema_name_def)
  moreover have "GetFieldType_id 0 ?s = Some LongFieldType" by (simp add: GetFieldType_id_def)
  ultimately have "Dump_entry (\<lambda>x. '''') (field_index_key 1 0 (ser64 (-3) []) 0 7) [] ?c = Inr (index_line 1 0 (show_long (-3)) 0 7, ?c)"
    using Dump_decodes by blast
  moreover have "index_line 1 0 (show_long (-3)) 0 7 = ''[ TFI:1:0:-3:0:7 ]'' @ nl" by code_simp
  ultimately show ?thesis by simp
qed

text \<open>A \<open>float\<close> takes four bytes and is read as eight: printing a store with a value of such a field reads
  outside the value, whatever else the store holds.\<close>

definition float_entry :: "u64 \<Rightarrow> u8 \<Rightarrow> DBCache \<Rightarrow> bool" where
  "float_entry tid fid c \<longleftrightarrow> ordered (tidnamemap c) \<and>
     (\<exists>n s. map_of (tidnamemap c) tid = Some n \<and> map_of (tschemaamp c) n = Some s \<and> GetFieldType_id fid s = Some FloatFieldType)"

lemma name_at_float_entry: "float_entry tid fid c \<Longrightarrow> name_at t c = (n, c') \<Longrightarrow> float_entry tid fid c'"
  by (auto simp: float_entry_def name_at_def ordered_map_put map_of_map_put split: option.splits)

lemma PrintDBIndexKey_cache: "PrintDBIndexKey sf k c = Inr (line, c') \<Longrightarrow> \<exists>t. c' = snd (name_at t c)"
  by (auto simp: PrintDBIndexKey_def GetSchema_tid_def Let_def split_beta bnd_eq_Inr split: if_splits option.splits)

lemma PrintDBFieldValueKeyValue_cache: "PrintDBFieldValueKeyValue sf k v c = Inr (line, c') \<Longrightarrow> \<exists>t. c' = snd (name_at t c)"
  by (auto simp: PrintDBFieldValueKeyValue_def GetSchema_tid_def Let_def split_beta bnd_eq_Inr split: option.splits)

lemma Dump_entry_float_entry:
  assumes "float_entry tid fid c" and "Dump_entry sf k v c = Inr (line, c')"
  shows "float_entry tid fid c'"
proof -
  have "c' = c \<or> (\<exists>t. c' = snd (name_at t c))" using assms(2)
    by (auto simp: Dump_entry_def Let_def bnd_eq_Inr split: if_splits dest: PrintDBIndexKey_cache PrintDBFieldValueKeyValue_cache)
  then show ?thesis using assms(1) name_at_float_entry [of tid fid c] by (metis prod.collapse)
qed

lemma Dump_float_fails:
  assumes laws: "kv_laws ops view" and fe: "float_entry tid fid (db_cache st)"
    and v: "view (kvdb st) (field_val_key tid sid off fid) = Some v" "length v = 4"
  shows "\<exists>e. Dump ops sf True st = Inl e"
proof -
  have bad: "Dump_entry sf (field_val_key tid sid off fid) v c = Inl OutOfBounds" if fe: "float_entry tid fid c" for c
  proof -
    obtain s where "GetSchema_tid tid c = (Some s, c)" "GetFieldType_id fid s = Some FloatFieldType"
      using fe by (auto simp: float_entry_def GetSchema_tid_def name_at_def GetSchema_name_def)
    then show ?thesis using v(2) Dump_value [of tid c s c]
      by (simp add: print_value_def LongFieldType_def FloatFieldType_def de64_def Deserialize_num_def)
  qed
  have loop: "\<exists>e. Dump_loop sf True kvs n out c = Inl e"
    if "(field_val_key tid sid off fid, v) \<in> set kvs" "float_entry tid fid c" for kvs n out c
    using that
  proof (induction kvs arbitrary: n out c)
    case (Cons kv kvs)
    obtain k w where kv: "kv = (k, w)" by fastforce
    show ?case
    proof (cases "Dump_entry sf k w c")
      case (Inr r)
      obtain line c' where r: "r = (line, c')" by fastforce
      have "(field_val_key tid sid off fid, v) \<in> set kvs" using Cons.prems Inr bad unfolding kv by auto
      then show ?thesis using Cons.IH [of c'] Dump_entry_float_entry [OF Cons.prems(2) Inr [unfolded r]] Inr r kv by simp
    qed (simp add: kv)
  qed simp
  have "(field_val_key tid sid off fid, v) \<in> set (db_Scan ops None None (kvdb st))"
    using v(1) scan_entry [OF laws] by (simp add: in_bounds_def)
  from loop [OF this fe, of 0 "''''"] show ?thesis by (auto simp: Dump_def)
qed

text \<open>Without printing the store is counted.\<close>

lemma Dump_counts:
  assumes "kv_laws ops view"
  shows "Dump ops sf False st = Inr (''Found '' @ show_nat (card (dom (view (kvdb st)))) @ '' KVs'' @ nl, st)"
proof -
  let ?es = "db_Scan ops None None (kvdb st)"
  have "Dump_loop sf False kvs n out c = Inr (n + length kvs, out, c)" for kvs n out c
    by (induction kvs arbitrary: n) auto
  moreover have "map_of ?es = view (kvdb st)" using kv_lawsD(5) [OF assms, of None None] by (simp add: in_bounds_def fun_eq_iff)
  then have "dom (view (kvdb st)) = set (map fst ?es)" by (metis dom_map_of_conv_image_fst set_map)
  moreover have "distinct (map fst ?es)" using kv_lawsD(4) [OF assms] ordered_distinct by blast
  ultimately show ?thesis using distinct_card [of "map fst ?es"] by (simp add: Dump_def)
qed

end
