(* ===== verification/Rk_Request.thy ===== *)
theory Rk_Request
  imports Rk_Dump
begin

text \<open>
  The front end of the document store (\<open>rocksdb_lab/database.cpp\<close>), the requests that add documents (\<open>requests.h\<close>, \<open>requests.cpp\<close>), and
  what happens when several executors run such requests at once. \<open>AddDocs\<close> takes no lock of its own: it reads the position from the
  cache and builds its batch, writes the batch, and updates the cache. The step relation \<open>add_step\<close> interleaves these
  three parts of any number of calls.
\<close>

section \<open>MyDB\<close>

definition MyDB_CreateTable :: "'db rocks \<Rightarrow> string \<Rightarrow> DocSchema \<Rightarrow> 'db RocksDBImpl \<Rightarrow> (RStatus \<times> 'db RocksDBImpl) outcome" where
  "MyDB_CreateTable ops n schema impl = CreateTable ops n schema impl"

definition MyDB_AddDoc :: "'db rocks \<Rightarrow> string \<Rightarrow> Doc \<Rightarrow> 'db RocksDBImpl \<Rightarrow> (RStatus \<times> 'db RocksDBImpl) outcome" where
  "MyDB_AddDoc ops n doc impl = AddDoc ops n doc impl"

definition MyDB_AddDocs :: "'db rocks \<Rightarrow> string \<Rightarrow> Doc list \<Rightarrow> 'db RocksDBImpl \<Rightarrow> (RStatus \<times> 'db RocksDBImpl) outcome" where
  "MyDB_AddDocs ops n docs impl = AddDocs ops n docs impl"

definition MyDB_GetTables :: "'db rocks \<Rightarrow> 'db RocksDBImpl \<Rightarrow> Table list outcome" where
  "MyDB_GetTables ops impl = GetTables ops impl"

definition MyDB_GetDoc :: "'db rocks \<Rightarrow> string \<Rightarrow> long \<Rightarrow> 'db RocksDBImpl \<Rightarrow> (RStatus option \<times> Doc option \<times> 'db RocksDBImpl) outcome" where
  "MyDB_GetDoc ops n uid impl = GetDoc ops n uid impl"

definition MyDB_GetDocs :: "'db rocks \<Rightarrow> string \<Rightarrow> FieldFilter list \<Rightarrow> 'db RocksDBImpl \<Rightarrow> (RStatus \<times> Doc list \<times> 'db RocksDBImpl) outcome" where
  "MyDB_GetDocs ops n filters impl = GetDocs ops n filters impl"

definition MyDB_LoadField :: "'db rocks \<Rightarrow> string \<Rightarrow> string \<Rightarrow> 'db RocksDBImpl \<Rightarrow> (RStatus \<times> byte list \<times> 'db RocksDBImpl) outcome" where
  "MyDB_LoadField ops n field_name impl = LoadField ops n field_name impl"

definition MyDB_Dump :: "'db rocks \<Rightarrow> (float32 \<Rightarrow> string) \<Rightarrow> bool \<Rightarrow> 'db RocksDBImpl \<Rightarrow> (string \<times> 'db RocksDBImpl) outcome" where
  "MyDB_Dump ops show_float do_print impl = Dump ops show_float do_print impl"

section \<open>Requests\<close>

record AddDocContext =
  request_id :: string
  is_async :: bool
  ctx_table_name :: string
  ctx_docs :: "Doc list"

definition AddDocContext_new :: "string \<Rightarrow> string \<Rightarrow> Doc list \<Rightarrow> AddDocContext" where
  "AddDocContext_new rid n docs = \<lparr>request_id = rid, is_async = False, ctx_table_name = n, ctx_docs = docs\<rparr>"

definition AddDocContext_AddDoc :: "Doc \<Rightarrow> AddDocContext \<Rightarrow> AddDocContext" where
  "AddDocContext_AddDoc doc c = c\<lparr>ctx_docs := ctx_docs c @ [doc]\<rparr>"

record AddDocRequest =
  rq_done :: bool
  rq_status :: RStatus
  rq_context :: AddDocContext

definition AddDocRequest_Create :: "AddDocContext \<Rightarrow> AddDocRequest" where
  "AddDocRequest_Create c = \<lparr>rq_done = False, rq_status = R_OK, rq_context = c\<rparr>"

definition OnExecute :: "'db rocks \<Rightarrow> AddDocRequest \<Rightarrow> 'db RocksDBImpl \<Rightarrow> (RStatus \<times> 'db RocksDBImpl) outcome" where
  "OnExecute ops r db = MyDB_AddDocs ops (ctx_table_name (rq_context r)) (ctx_docs (rq_context r)) db"

definition Request_Done :: "AddDocRequest \<Rightarrow> AddDocRequest" where "Request_Done r = r\<lparr>rq_done := True\<rparr>"

definition Request_Execute :: "'db rocks \<Rightarrow> AddDocRequest \<Rightarrow> 'db RocksDBImpl \<Rightarrow> (RStatus \<times> AddDocRequest \<times> 'db RocksDBImpl) outcome" where
  "Request_Execute ops r db = bnd (OnExecute ops r db) (\<lambda>(s, db). Inr (s, Request_Done (r\<lparr>rq_status := s\<rparr>), db))"

text \<open>\<open>WaitToFinish\<close> waits as long as the request is not done.\<close>

definition WaitToFinish :: "AddDocRequest \<Rightarrow> RStatus option" where
  "WaitToFinish r = (if rq_done r then Some R_OK else None)"

section \<open>Several calls at once\<close>

datatype add_thread = Start string "Doc list" | Batched u64 SegState | Written u64 SegState | Finished RStatus

definition AddDocs_begin :: "'db rocks \<Rightarrow> string \<Rightarrow> Doc list \<Rightarrow> 'db RocksDBImpl \<Rightarrow> (add_thread \<times> 'db RocksDBImpl) outcome" where
  "AddDocs_begin ops n docs st =
     (if GetSchema_name n (db_cache st) = None then Inr (Finished R_NotFound, st)
      else case GetTidByTname n (db_cache st) of None \<Rightarrow> Inr (Finished R_NotFound, st)
      | Some tid \<Rightarrow>
          (case GetSegId tid (db_cache st) of None \<Rightarrow> Inr (Finished R_NotFound, st)
           | Some sid \<Rightarrow>
               let (off, c) = GetTidOffset tid (db_cache st) in
               bnd (AddDocs_batch ops (kvdb st) tid docs \<lparr>seg_wb = [], seg_id = sid, seg_offset = off, has_update = False\<rparr>) (\<lambda>g.
                 Inr (Batched tid g, st\<lparr>db_cache := c\<rparr>))))"

definition AddDocs_write :: "'db rocks \<Rightarrow> u64 \<Rightarrow> SegState \<Rightarrow> 'db RocksDBImpl \<Rightarrow> add_thread \<times> 'db RocksDBImpl" where
  "AddDocs_write ops tid g st =
     (let (s, db) = db_Write ops (seg_wb g) (kvdb st)
      in (if s \<noteq> R_OK then Finished s else Written tid g, st\<lparr>kvdb := db\<rparr>))"

definition AddDocs_finish :: "u64 \<Rightarrow> SegState \<Rightarrow> 'db RocksDBImpl \<Rightarrow> add_thread \<times> 'db RocksDBImpl" where
  "AddDocs_finish tid g st =
     (let c = (if has_update g then UpdateSegMap tid (seg_id g) (db_cache st) else db_cache st)
      in (Finished R_OK, st\<lparr>db_cache := UpdateTidOffset tid (seg_offset g) c\<rparr>))"

inductive add_step :: "'db rocks \<Rightarrow> 'db RocksDBImpl \<times> add_thread list \<Rightarrow> 'db RocksDBImpl \<times> add_thread list \<Rightarrow> bool" for ops where
  begin_step: "i < length ts \<Longrightarrow> ts ! i = Start n docs \<Longrightarrow> AddDocs_begin ops n docs st = Inr (t, st') \<Longrightarrow> add_step ops (st, ts) (st', ts[i := t])"
| write_step: "i < length ts \<Longrightarrow> ts ! i = Batched tid g \<Longrightarrow> AddDocs_write ops tid g st = (t, st') \<Longrightarrow> add_step ops (st, ts) (st', ts[i := t])"
| finish_step: "i < length ts \<Longrightarrow> ts ! i = Written tid g \<Longrightarrow> AddDocs_finish tid g st = (t, st') \<Longrightarrow> add_step ops (st, ts) (st', ts[i := t])"

text \<open>The three parts after one another are \<open>AddDocs\<close>.\<close>

definition run_parts :: "'db rocks \<Rightarrow> string \<Rightarrow> Doc list \<Rightarrow> 'db RocksDBImpl \<Rightarrow> (RStatus \<times> 'db RocksDBImpl) outcome" where
  "run_parts ops n docs st =
     bnd (AddDocs_begin ops n docs st) (\<lambda>(t, st). case t of Finished s \<Rightarrow> Inr (s, st)
       | Batched tid g \<Rightarrow> (case AddDocs_write ops tid g st of (Written tid g, st) \<Rightarrow>
             (case AddDocs_finish tid g st of (Finished s, st) \<Rightarrow> Inr (s, st) | _ \<Rightarrow> Inl AssertFailed)
           | (Finished s, st) \<Rightarrow> Inr (s, st) | _ \<Rightarrow> Inl AssertFailed)
       | _ \<Rightarrow> Inl AssertFailed)"

lemma run_parts_eq: "run_parts ops n docs st = AddDocs ops n docs st"
  by (cases "GetTidByTname n (db_cache st)")
    (auto simp: run_parts_def AddDocs_def AddDocs_known_def AddDocs_begin_def AddDocs_write_def AddDocs_finish_def bnd_assoc Let_def
      split: option.splits prod.splits intro!: arg_cong2 [of _ _ _ _ bnd])


section \<open>Different tables\<close>

text \<open>The caches may differ in how they hold their maps; what coherence needs are the lookups.\<close>

lemma coherent_cong:
  assumes "coherent v c" and "cache_ordered c'" and "tnamenamp c' = tnamenamp c" "tidnamemap c' = tidnamemap c" "tschemaamp c' = tschemaamp c"
    "cache_tid c' = cache_tid c" and "\<And>t. map_of (segmap c') t = map_of (segmap c) t" and "\<And>t. off_of c' t = off_of c t"
  shows "coherent v c'"
  using assms unfolding coherent_def table_ok_def by metis

definition start_seg :: "DBCache \<Rightarrow> u64 \<Rightarrow> u64 \<Rightarrow> SegState" where
  "start_seg c t sid = \<lparr>seg_wb = [], seg_id = sid, seg_offset = off_of c t, has_update = False\<rparr>"

text \<open>What a call on table \<open>n\<close> has done so far, against the cache \<open>c\<close> and the cache \<open>gc\<close> in which the writes on disk are
  already entered.\<close>

definition thread_ok :: "DBCache \<Rightarrow> DBCache \<Rightarrow> string \<Rightarrow> add_thread \<Rightarrow> bool" where
  "thread_ok gc c n th = (case th of
      Start m ds \<Rightarrow> m = n
    | Batched t g \<Rightarrow> map_of (tnamenamp c) n = Some t \<and>
        (\<exists>sid. map_of (segmap c) t = Some sid \<and> (\<forall>v. seg_inv v t sid (start_seg c t sid) \<longrightarrow> seg_inv v t sid g))
    | Written t g \<Rightarrow> map_of (tnamenamp c) n = Some t \<and> map_of (segmap gc) t = Some (seg_id g) \<and> off_of gc t = seg_offset g \<and>
        (\<exists>sid. map_of (segmap c) t = Some sid \<and> (\<not> has_update g \<longrightarrow> sid = seg_id g))
    | Finished s \<Rightarrow> s = (if map_of (tnamenamp c) n = None then R_NotFound else R_OK))"

definition same_tables :: "DBCache \<Rightarrow> DBCache \<Rightarrow> bool" where
  "same_tables gc c \<longleftrightarrow> tnamenamp gc = tnamenamp c \<and> tidnamemap gc = tidnamemap c \<and> tschemaamp gc = tschemaamp c \<and> cache_tid gc = cache_tid c"

definition add_inv :: "(key \<rightharpoonup> byte list) \<Rightarrow> DBCache \<Rightarrow> DBCache \<Rightarrow> string list \<Rightarrow> add_thread list \<Rightarrow> bool" where
  "add_inv v gc c ns ts \<longleftrightarrow> length ts = length ns \<and> coherent v gc \<and> cache_ordered c \<and> same_tables gc c \<and>
     (\<forall>t. (\<forall>g. Written t g \<notin> set ts) \<longrightarrow> map_of (segmap gc) t = map_of (segmap c) t \<and> off_of gc t = off_of c t) \<and>
     (\<forall>i < length ts. thread_ok gc c (ns ! i) (ts ! i))"

lemma tid_names:
  assumes "coherent v gc" and "same_tables gc c" and "map_of (tnamenamp c) n = Some t" and "map_of (tnamenamp c) m = Some t"
  shows "n = m"
proof -
  obtain nx where "\<forall>n t. map_of (tnamenamp gc) n = Some t \<longrightarrow> table_ok v gc nx n t" using coherentD(2) [OF assms(1)] by blast
  moreover have "map_of (tnamenamp gc) n = Some t" "map_of (tnamenamp gc) m = Some t" using assms(2-4) by (simp_all add: same_tables_def)
  ultimately have "table_ok v gc nx n t" "table_ok v gc nx m t" by blast+
  then show ?thesis by (simp add: table_ok_def)
qed

text \<open>Calls on different tables work on different identifiers.\<close>

lemma other_tid:
  assumes inv: "add_inv v gc c ns ts" and ns: "distinct ns" and i: "i < length ts" and j: "j < length ts" "j \<noteq> i"
    and t: "map_of (tnamenamp c) (ns ! i) = Some t"
  shows "map_of (tnamenamp c) (ns ! j) \<noteq> Some t"
proof
  assume "map_of (tnamenamp c) (ns ! j) = Some t"
  then have "ns ! i = ns ! j" using tid_names [of v gc c] t inv unfolding add_inv_def by blast
  then show False using ns i j inv by (auto simp: add_inv_def nth_eq_iff_index_eq)
qed

lemma no_other_written:
  assumes inv: "add_inv v gc c ns ts" and ns: "distinct ns" and i: "i < length ts" and t: "map_of (tnamenamp c) (ns ! i) = Some t"
    and th: "\<forall>g. th \<noteq> Written t g"
  shows "Written t g \<notin> set (ts[i := th])"
proof
  assume "Written t g \<in> set (ts[i := th])"
  then obtain j where j: "j < length ts" "ts[i := th] ! j = Written t g" by (auto simp: in_set_conv_nth)
  then have "j \<noteq> i" using th i by auto
  then have "ts ! j = Written t g" using j(2) by simp
  then have "map_of (tnamenamp c) (ns ! j) = Some t" using inv j(1) by (force simp: add_inv_def thread_ok_def)
  then show False using other_tid [OF inv ns i j(1) \<open>j \<noteq> i\<close> t] by blast
qed

lemma no_written:
  assumes "add_inv v gc c ns ts" and "distinct ns" and "i < length ts" and "map_of (tnamenamp c) (ns ! i) = Some t"
    and "\<forall>g. ts ! i \<noteq> Written t g"
  shows "Written t g \<notin> set ts"
  using no_other_written [OF assms, of g] by (simp only: list_update_id not_False_eq_True)

lemma stays: "y \<in> set ts \<Longrightarrow> ts ! i \<noteq> y \<Longrightarrow> y \<in> set (ts[i := x])"
  by (metis in_set_conv_nth length_list_update nth_list_update_neq)

lemma threads_update:
  assumes "add_inv v gc c ns ts" and "i < length ts" and "thread_ok gc' c' (ns ! i) th"
    and "\<And>j. j < length ts \<Longrightarrow> j \<noteq> i \<Longrightarrow> thread_ok gc c (ns ! j) (ts ! j) \<Longrightarrow> thread_ok gc' c' (ns ! j) (ts ! j)"
  shows "\<forall>j < length (ts[i := th]). thread_ok gc' c' (ns ! j) (ts[i := th] ! j)"
  using assms by (auto simp: add_inv_def nth_list_update)

text \<open>The cache after \<open>AddDocs_finish\<close>.\<close>

lemma finish_facts:
  assumes "cache_ordered c" and "map_of (segmap c) t = Some sid" and "\<not> has_update g \<longrightarrow> sid = seg_id g"
  defines "c' \<equiv> UpdateTidOffset t (seg_offset g) (if has_update g then UpdateSegMap t (seg_id g) c else c)"
  shows "cache_ordered c'" and "map_of (segmap c') = (map_of (segmap c))(t \<mapsto> seg_id g)"
    and "off_of c' u = (if u = t then seg_offset g else off_of c u)" and "same_tables gc c \<Longrightarrow> same_tables gc c'" and "tnamenamp c' = tnamenamp c"
  using assms by (auto simp: c'_def UpdateTidOffset_def UpdateSegMap_def cache_ordered_def ordered_map_put map_of_map_put off_of_def same_tables_def)

lemma begin_inv:
  assumes inv: "add_inv (view (kvdb st)) gc (db_cache st) ns ts" and ns: "distinct ns" and i: "i < length ts"
    and th: "ts ! i = Start n docs" and run: "AddDocs_begin ops n docs st = Inr (t, st')"
  shows "add_inv (view (kvdb st')) gc (db_cache st') ns (ts[i := t])"
proof -
  let ?c = "db_cache st"
  have c: "cache_ordered ?c" "coherent (view (kvdb st)) gc" "same_tables gc ?c" "length ts = length ns" using inv by (simp_all add: add_inv_def)
  have n: "n = ns ! i" using inv i th by (force simp: add_inv_def thread_ok_def)
  have w: "map_of (segmap gc) u = map_of (segmap ?c) u \<and> off_of gc u = off_of ?c u" if "\<forall>g. Written u g \<notin> set ts" for u
    using inv that unfolding add_inv_def by blast
  have tw: "t \<noteq> Written u g" for u g
    using run by (auto simp: AddDocs_begin_def Let_def bnd_eq_Inr split: if_splits option.splits prod.splits)
  have written: "Written u g \<notin> set ts" if "Written u g \<notin> set (ts[i := t])" for u g
    using that stays [of "Written u g" ts i t] th by auto
  show ?thesis
  proof (cases "map_of (tnamenamp ?c) n")
    case None
    then have r: "t = Finished R_NotFound" "st' = st" using run by (auto simp: AddDocs_begin_def GetTidByTname_def split: if_splits)
    have "thread_ok gc ?c (ns ! i) t" using None n r(1) by (simp add: thread_ok_def)
    then have "\<forall>j < length (ts[i := t]). thread_ok gc ?c (ns ! j) (ts[i := t] ! j)" by (rule threads_update [OF inv i])
    moreover have "map_of (segmap gc) u = map_of (segmap ?c) u \<and> off_of gc u = off_of ?c u" if "\<forall>g. Written u g \<notin> set (ts[i := t])" for u
      using w written that by blast
    ultimately show ?thesis unfolding add_inv_def r(2) using c by simp
  next
    case (Some tid)
    obtain nx where ok: "table_ok (view (kvdb st)) gc nx n tid" using coherentD(2) [OF c(2)] Some c(3) by (auto simp: same_tables_def)
    have "Written tid g \<notin> set ts" for g using no_written [OF inv ns i, of tid g] Some n th by simp
    then obtain sid where sid: "map_of (segmap ?c) tid = Some sid" using ok w [of tid] by (auto simp: table_ok_def)
    note gf = GetTidOffset_facts [OF c(1), of tid]
    obtain g where g: "AddDocs_batch ops (kvdb st) tid docs (start_seg ?c tid sid) = Inr g" "t = Batched tid g"
      "st' = st\<lparr>db_cache := snd (GetTidOffset tid ?c)\<rparr>"
      using run ok Some sid gf(1) c(3)
      by (auto simp: AddDocs_begin_def GetTidByTname_def GetSegId_def GetSchema_name_def table_ok_def same_tables_def start_seg_def bnd_eq_Inr split_beta)
    have ss: "start_seg (snd (GetTidOffset tid ?c)) u s = start_seg ?c u s" for u s by (simp add: start_seg_def gf(3))
    have keep: "thread_ok gc (snd (GetTidOffset tid ?c)) m x = thread_ok gc ?c m x" for m x
      unfolding thread_ok_def by (simp only: gf(4,5) ss)
    have "thread_ok gc ?c (ns ! i) t" using Some n sid AddDocs_batch_inv [OF g(1)] g(2) by (simp add: thread_ok_def)
    then have "\<forall>j < length (ts[i := t]). thread_ok gc (db_cache st') (ns ! j) (ts[i := t] ! j)"
      unfolding g(3) using keep by (intro threads_update [OF inv i]) simp_all
    moreover have "map_of (segmap gc) u = map_of (segmap (db_cache st')) u \<and> off_of gc u = off_of (db_cache st') u"
      if "\<forall>g. Written u g \<notin> set (ts[i := t])" for u using w written that gf(3,4) unfolding g(3) by simp
    ultimately show ?thesis unfolding add_inv_def using c gf by (simp add: g(3) same_tables_def)
  qed
qed

lemma write_inv:
  assumes laws: "kv_laws ops view" and inv: "add_inv (view (kvdb st)) gc (db_cache st) ns ts" and ns: "distinct ns" and i: "i < length ts"
    and th: "ts ! i = Batched t g" and run: "AddDocs_write ops t g st = (x, st')"
  shows "add_inv (view (kvdb st')) (moved t g gc) (db_cache st') ns (ts[i := x])"
proof -
  let ?c = "db_cache st"
  have c: "cache_ordered ?c" "coherent (view (kvdb st)) gc" "same_tables gc ?c" "length ts = length ns" using inv by (simp_all add: add_inv_def)
  have "thread_ok gc ?c (ns ! i) (Batched t g)" using inv i th by (force simp: add_inv_def)
  then obtain sid where tid: "map_of (tnamenamp ?c) (ns ! i) = Some t" and sid: "map_of (segmap ?c) t = Some sid"
    and sg: "\<forall>v. seg_inv v t sid (start_seg ?c t sid) \<longrightarrow> seg_inv v t sid g" by (auto simp: thread_ok_def)
  have nw: "Written t h \<notin> set ts" for h using no_written [OF inv ns i tid, of h] th by simp
  have w: "map_of (segmap gc) u = map_of (segmap ?c) u \<and> off_of gc u = off_of ?c u" if "\<forall>g. Written u g \<notin> set ts" for u
    using inv that unfolding add_inv_def by blast
  have gsid: "map_of (segmap gc) t = Some sid" "off_of gc t = off_of ?c t" using w nw sid by auto
  have sv: "seg_inv (view (kvdb st)) t sid g"
    using sg seg_inv_start [OF c(2) gsid(1)] gsid(2) unfolding start_seg_def by metis
  then have up: "\<not> has_update g \<longrightarrow> seg_id g = sid" by (simp add: seg_inv_def)
  note mf = moved_facts [OF coherentD(1) [OF c(2)] gsid(1) up]
  obtain db where db: "db_Write ops (seg_wb g) (kvdb st) = (R_OK, db)" "view db = apply_batch (seg_wb g) (view (kvdb st))"
    using kv_lawsD(3) [OF laws] by blast
  then have x: "x = Written t g" "st' = st\<lparr>kvdb := db\<rparr>" using run by (auto simp: AddDocs_write_def)
  have "thread_ok (moved t g gc) ?c (ns ! i) x" using tid mf sid up by (auto simp: thread_ok_def x)
  moreover have "thread_ok (moved t g gc) ?c (ns ! j) (ts ! j)"
    if j: "j < length ts" "j \<noteq> i" and ok: "thread_ok gc ?c (ns ! j) (ts ! j)" for j
  proof (cases "ts ! j")
    case (Written u h)
    then have "u \<noteq> t" using other_tid [OF inv ns i j tid] ok by (auto simp: thread_ok_def)
    then show ?thesis using ok Written mf by (simp add: thread_ok_def)
  qed (use ok in \<open>simp_all add: thread_ok_def\<close>)
  ultimately have ths: "\<forall>j < length (ts[i := x]). thread_ok (moved t g gc) ?c (ns ! j) (ts[i := x] ! j)"
    by (rule threads_update [OF inv i])
  have "map_of (segmap (moved t g gc)) u = map_of (segmap ?c) u \<and> off_of (moved t g gc) u = off_of ?c u"
    if no: "\<forall>g. Written u g \<notin> set (ts[i := x])" for u
  proof -
    have "u \<noteq> t" using no i x(1) by (metis set_update_memI)
    moreover have "\<forall>g. Written u g \<notin> set ts" using no stays [of _ ts i x] th by (metis add_thread.distinct(7))
    ultimately show ?thesis using w [of u] mf by simp
  qed
  then show ?thesis unfolding add_inv_def using c ths moved_coherent [OF c(2) gsid(1) sv] db(2) mf x(2) by (simp add: same_tables_def)
qed

lemma finish_inv:
  assumes inv: "add_inv v gc (db_cache st) ns ts" and ns: "distinct ns" and i: "i < length ts"
    and th: "ts ! i = Written t g" and run: "AddDocs_finish t g st = (x, st')"
  shows "add_inv v gc (db_cache st') ns (ts[i := x]) \<and> kvdb st' = kvdb st"
proof -
  let ?c = "db_cache st"
  have c: "cache_ordered ?c" "coherent v gc" "same_tables gc ?c" "length ts = length ns" using inv by (simp_all add: add_inv_def)
  have "thread_ok gc ?c (ns ! i) (Written t g)" using inv i th by (force simp: add_inv_def)
  then obtain sid where tid: "map_of (tnamenamp ?c) (ns ! i) = Some t" and gc: "map_of (segmap gc) t = Some (seg_id g)" "off_of gc t = seg_offset g"
    and sid: "map_of (segmap ?c) t = Some sid" "\<not> has_update g \<longrightarrow> sid = seg_id g" by (auto simp: thread_ok_def)
  note ff = finish_facts [OF c(1) sid]
  have x: "x = Finished R_OK" "db_cache st' = UpdateTidOffset t (seg_offset g) (if has_update g then UpdateSegMap t (seg_id g) ?c else ?c)"
    "kvdb st' = kvdb st" using run by (auto simp: AddDocs_finish_def Let_def)
  note ff' = ff [folded x(2)]
  have "thread_ok gc (db_cache st') (ns ! i) x" using tid ff'(5) by (simp add: thread_ok_def x(1))
  moreover have "thread_ok gc (db_cache st') (ns ! j) (ts ! j)"
    if j: "j < length ts" "j \<noteq> i" and ok: "thread_ok gc ?c (ns ! j) (ts ! j)" for j
  proof -
    have "map_of (tnamenamp ?c) (ns ! j) \<noteq> Some t" by (rule other_tid [OF inv ns i j tid])
    moreover have "start_seg (db_cache st') u s = start_seg ?c u s" if "u \<noteq> t" for u s using that ff'(3) by (simp add: start_seg_def)
    ultimately show ?thesis using ok ff'(2,3,5) unfolding thread_ok_def by (auto split: add_thread.splits)
  qed
  ultimately have ths: "\<forall>j < length (ts[i := x]). thread_ok gc (db_cache st') (ns ! j) (ts[i := x] ! j)" by (rule threads_update [OF inv i])
  have "map_of (segmap gc) u = map_of (segmap (db_cache st')) u \<and> off_of gc u = off_of (db_cache st') u"
    if no: "\<forall>g. Written u g \<notin> set (ts[i := x])" for u
  proof (cases "u = t")
    case False
    have "\<forall>g. Written u g \<notin> set ts" using no stays [of _ ts i x] th False by (metis add_thread.inject(3))
    then show ?thesis using inv False ff'(2,3) unfolding add_inv_def by simp
  qed (use gc ff'(2,3) in simp)
  then show ?thesis unfolding add_inv_def using c ths ff'(1) ff'(4) [OF c(3)] x(3) by simp
qed


lemma add_step_inv:
  assumes laws: "kv_laws ops view" and ns: "distinct ns" and step: "add_step ops (st, ts) (st', ts')"
    and inv: "add_inv (view (kvdb st)) gc (db_cache st) ns ts"
  shows "\<exists>gc'. add_inv (view (kvdb st')) gc' (db_cache st') ns ts' \<and> tnamenamp gc' = tnamenamp gc"
  using step
proof cases
  case (begin_step i n docs t)
  then have "add_inv (view (kvdb st')) gc (db_cache st') ns ts'" using begin_inv [where view = view and st = st, OF inv ns] by simp
  then show ?thesis by blast
next
  case (write_step i tid g t)
  have "tnamenamp (moved tid g gc) = tnamenamp gc"
    by (auto simp: moved_def UpdateTidOffset_def UpdateSegMap_def GetTidOffset_def Let_def split: option.splits)
  then show ?thesis using write_step write_inv [where st = st, OF laws inv ns] by fastforce
next
  case (finish_step i tid g t)
  then have "add_inv (view (kvdb st')) gc (db_cache st') ns ts'" using finish_inv [where st = st, OF inv ns] by metis
  then show ?thesis by blast
qed

lemma add_steps_inv:
  assumes laws: "kv_laws ops view" and ns: "distinct ns" and steps: "(add_step ops)\<^sup>*\<^sup>* (st, ts) (st', ts')"
    and inv: "add_inv (view (kvdb st)) gc (db_cache st) ns ts"
  shows "\<exists>gc'. add_inv (view (kvdb st')) gc' (db_cache st') ns ts' \<and> tnamenamp gc' = tnamenamp gc"
  using steps
proof (induction "(st', ts')" arbitrary: st' ts' rule: rtranclp_induct)
  case base
  then show ?case using inv by auto
next
  case (step y)
  obtain st1 ts1 where y: "y = (st1, ts1)" by fastforce
  obtain gc1 where "add_inv (view (kvdb st1)) gc1 (db_cache st1) ns ts1" "tnamenamp gc1 = tnamenamp gc" using step(3) [OF y] by blast
  then show ?case using add_step_inv [where st = st1 and gc = gc1, OF laws ns step(2) [unfolded y]] by metis
qed

text \<open>C14. Adding documents to different tables at the same time is safe. However the parts of the calls are interleaved, once all of them
  have returned the cache agrees with the disk, every call on a table that exists has returned OK, and every other one
  NotFound.\<close>

theorem AddDocs_different_tables:
  assumes "kv_laws ops view" and "coherent (view (kvdb st)) (db_cache st)" and "distinct (map fst cs)"
    and "(add_step ops)\<^sup>*\<^sup>* (st, map (\<lambda>(n, docs). Start n docs) cs) (st', ts')" and "\<forall>t \<in> set ts'. \<exists>s. t = Finished s"
  shows "coherent (view (kvdb st')) (db_cache st') \<and>
    ts' = map (\<lambda>(n, docs). Finished (if GetTidByTname n (db_cache st) = None then R_NotFound else R_OK)) cs"
proof -
  let ?c = "db_cache st"
  have "add_inv (view (kvdb st)) ?c ?c (map fst cs) (map (\<lambda>(n, docs). Start n docs) cs)"
    using assms(2) coherentD(1) [OF assms(2)] by (auto simp: add_inv_def same_tables_def thread_ok_def split_beta)
  then obtain gc where gc: "add_inv (view (kvdb st')) gc (db_cache st') (map fst cs) ts'" "tnamenamp gc = tnamenamp ?c"
    using add_steps_inv [OF assms(1,3,4)] by blast
  have nw: "Written t g \<notin> set ts'" for t g using assms(5) by auto
  have coh: "coherent (view (kvdb st')) (db_cache st')"
    by (rule coherent_cong [of _ gc]) (use gc(1) nw in \<open>simp_all add: add_inv_def same_tables_def\<close>)
  have names: "tnamenamp (db_cache st') = tnamenamp gc" using gc(1) by (simp add: add_inv_def same_tables_def)
  have res: "ts' ! i = Finished (if GetTidByTname (fst (cs ! i)) ?c = None then R_NotFound else R_OK)" if i: "i < length cs" for i
  proof -
    have len: "length ts' = length cs" using gc(1) by (simp add: add_inv_def)
    then obtain s where s: "ts' ! i = Finished s" using assms(5) i by (metis nth_mem)
    then have "thread_ok gc (db_cache st') (fst (cs ! i)) (Finished s)" using gc(1) i len by (force simp: add_inv_def)
    then show ?thesis using s gc(2) names by (simp add: thread_ok_def GetTidByTname_def)
  qed
  have "length ts' = length cs" using gc(1) by (simp add: add_inv_def)
  then show ?thesis using coh res by (simp add: list_eq_iff_nth_eq split_beta)
qed

section \<open>The same table\<close>

lemma begin_new:
  assumes laws: "kv_laws ops view" and coh: "coherent (view (kvdb st)) (db_cache st)"
    and tid: "GetTidByTname n (db_cache st) = Some tid" and sid: "GetSegId tid (db_cache st) = Some sid" and off: "off = off_of (db_cache st) tid"
    and ser: "Doc_Serialize d = Inr m" and new: "\<forall>u. (0, u) \<in> set m \<longrightarrow> view (kvdb st) (ser64 tid DBTableUidIdMappingPrefix @ u) = None"
  obtains g ps where "AddDocs_begin ops n [d] st = Inr (Batched tid g, st\<lparr>db_cache := snd (GetTidOffset tid (db_cache st))\<rparr>)"
    and "(seg_id g, seg_offset g) = next_position sid off" and "seg_wb g = concat (map (new_field_ops tid sid off) m) @ ps"
    and "\<forall>w \<in> set ps. family (op_key w) \<notin> data_families" and "\<not> has_update g \<longrightarrow> sid = seg_id g"
proof -
  let ?c = "db_cache st"
  let ?g = "\<lparr>seg_wb = [], seg_id = sid, seg_offset = off, has_update = False\<rparr>"
  obtain g ps where g: "AddDoc_batch ops (kvdb st) tid d ?g = Inr g" "(seg_id g, seg_offset g) = next_position sid off"
    "seg_wb g = concat (map (new_field_ops tid sid off) m) @ ps" "\<forall>w \<in> set ps. family (op_key w) \<notin> data_families"
    using AddDoc_batch_new [OF laws ser new, of ?g] by auto
  have "seg_inv (view (kvdb st)) tid sid g"
    using AddDoc_batch_inv [OF g(1)] seg_inv_start [OF coh, of tid sid] sid unfolding off by (simp add: GetSegId_def)
  then have up: "\<not> has_update g \<longrightarrow> sid = seg_id g" by (auto simp: seg_inv_def)
  have "GetTidOffset tid ?c = (off, snd (GetTidOffset tid ?c))"
    using GetTidOffset_facts(1) [OF coherentD(1) [OF coh], of tid] off by (metis prod.collapse)
  moreover obtain nx where "table_ok (view (kvdb st)) ?c nx n tid" using coherentD(2) [OF coh] tid by (auto simp: GetTidByTname_def)
  then have "GetSchema_name n ?c \<noteq> None" by (auto simp: table_ok_def GetSchema_name_def)
  ultimately have "AddDocs_begin ops n [d] st = Inr (Batched tid g, st\<lparr>db_cache := snd (GetTidOffset tid ?c)\<rparr>)"
    unfolding AddDocs_begin_def using tid sid g(1) by (simp add: split_beta prod_eq_iff)
  then show thesis using that g(2-4) up by blast
qed

lemma race_path:
  assumes "AddDocs_begin ops n ds1 st = Inr (Batched t g1, st1)" and "AddDocs_begin ops n ds2 st1 = Inr (Batched t g2, st2)"
    and "AddDocs_write ops t g1 st2 = (Written t g1, st3)" and "AddDocs_write ops t g2 st3 = (Written t g2, st4)"
    and "AddDocs_finish t g1 st4 = (Finished s1, st5)" and "AddDocs_finish t g2 st5 = (Finished s2, st6)"
  shows "(add_step ops)\<^sup>*\<^sup>* (st, [Start n ds1, Start n ds2]) (st6, [Finished s1, Finished s2])"
proof -
  have 1: "add_step ops (st, [Start n ds1, Start n ds2]) (st1, [Batched t g1, Start n ds2])"
    using begin_step [of 0 "[Start n ds1, Start n ds2]", OF _ _ assms(1)] by simp
  have 2: "add_step ops (st1, [Batched t g1, Start n ds2]) (st2, [Batched t g1, Batched t g2])"
    using begin_step [of 1 "[Batched t g1, Start n ds2]", OF _ _ assms(2)] by simp
  have 3: "add_step ops (st2, [Batched t g1, Batched t g2]) (st3, [Written t g1, Batched t g2])"
    using write_step [of 0 "[Batched t g1, Batched t g2]", OF _ _ assms(3)] by simp
  have 4: "add_step ops (st3, [Written t g1, Batched t g2]) (st4, [Written t g1, Written t g2])"
    using write_step [of 1 "[Written t g1, Batched t g2]", OF _ _ assms(4)] by simp
  have 5: "add_step ops (st4, [Written t g1, Written t g2]) (st5, [Finished s1, Written t g2])"
    using finish_step [of 0 "[Written t g1, Written t g2]", OF _ _ assms(5)] by simp
  have 6: "add_step ops (st5, [Finished s1, Written t g2]) (st6, [Finished s1, Finished s2])"
    using finish_step [of 1 "[Finished s1, Written t g2]", OF _ _ assms(6)] by simp
  note go = converse_rtranclp_into_rtranclp [of "add_step ops"]
  show ?thesis by (rule go [OF 1 go [OF 2 go [OF 3 go [OF 4 go [OF 5 go [OF 6 rtranclp.rtrancl_refl]]]]]])
qed

lemma apply_batch_same_put:
  assumes "\<forall>w \<in> set ws. op_key w = k \<longrightarrow> w = WPut k x" and "m k = Some x"
  shows "apply_batch ws m k = Some x"
proof (cases "WPut k x \<in> set ws")
  case False
  then have "\<forall>w \<in> set ws. op_key w \<noteq> k" using assms(1) by metis
  then show ?thesis using assms(2) by (simp add: apply_batch_other)
qed (rule apply_batch_put [OF _ assms(1)])

lemma uid_kept:
  assumes "\<forall>w \<in> set ps. family (op_key w) \<notin> data_families" and "(0, u) \<in> set m \<or> v (ser64 tid DBTableUidIdMappingPrefix @ u) = Some (ser64 off (ser64 sid []))"
  shows "apply_batch (concat (map (new_field_ops tid sid off) m) @ ps) v (ser64 tid DBTableUidIdMappingPrefix @ u) = Some (ser64 off (ser64 sid []))"
    (is "apply_batch (?us @ ps) v ?k = Some ?x")
proof -
  have fam: "family ?k = DBTableUidIdMappingPrefix" "family ?k \<in> data_families" by (simp_all add: data_families_def)
  have us: "w = WPut ?k ?x" if "w \<in> set ?us" "op_key w = ?k" for w using uid_ops [OF that(1)] that(2) fam(1) by simp
  have all: "\<forall>w \<in> set (?us @ ps). op_key w = ?k \<longrightarrow> w = WPut ?k ?x" using us assms(1) fam(2) by (metis Un_iff set_append)
  show ?thesis
  proof (cases "(0, u) \<in> set m")
    case True
    then have "WPut ?k ?x \<in> set (?us @ ps)" by (force simp: new_field_ops_def)
    then show ?thesis using all by (rule apply_batch_put)
  qed (use assms(2) in \<open>blast intro: apply_batch_same_put [OF all]\<close>)
qed


text \<open>C15. Two calls that add one new document each to the same table at the same time can both return OK and lose a document. When both have
  read the position before either has updated the cache, both documents go to the same position: both keys
  lead to it, the field values found there are the second document's, and the table has moved on by one position only.\<close>

theorem AddDocs_same_table_race:
  assumes laws: "kv_laws ops view" and coh: "coherent (view (kvdb st)) (db_cache st)"
    and tid: "GetTidByTname n (db_cache st) = Some tid" and sid: "GetSegId tid (db_cache st) = Some sid" and off: "off = off_of (db_cache st) tid"
    and ser: "Doc_Serialize d1 = Inr m1" "Doc_Serialize d2 = Inr m2" "ordered m2"
    and new: "\<forall>u. (0, u) \<in> set m1 \<union> set m2 \<longrightarrow> view (kvdb st) (ser64 tid DBTableUidIdMappingPrefix @ u) = None"
  shows "\<exists>st'. (add_step ops)\<^sup>*\<^sup>* (st, [Start n [d1], Start n [d2]]) (st', [Finished R_OK, Finished R_OK]) \<and>
    (\<forall>u. (0, u) \<in> set m1 \<union> set m2 \<longrightarrow> view (kvdb st') (ser64 tid DBTableUidIdMappingPrefix @ u) = Some (ser64 off (ser64 sid []))) \<and>
    (\<forall>fid x. (fid, x) \<in> set m2 \<longrightarrow> view (kvdb st') (field_val_key tid sid off fid) = Some x) \<and>
    GetSegId tid (db_cache st') = Some (fst (next_position sid off)) \<and> off_of (db_cache st') tid = snd (next_position sid off)"
proof -
  let ?c = "db_cache st" and ?c1 = "snd (GetTidOffset tid (db_cache st))"
  note gf = GetTidOffset_facts [OF coherentD(1) [OF coh], of tid]
  let ?st1 = "st\<lparr>db_cache := ?c1\<rparr>" and ?c2 = "snd (GetTidOffset tid ?c1)"
  note gf2 = GetTidOffset_facts [OF gf(2), of tid]
  have coh1: "coherent (view (kvdb ?st1)) (db_cache ?st1)" by (rule coherent_cong [of _ ?c]) (use coh gf in simp_all)
  obtain g1 ps1 where b1: "AddDocs_begin ops n [d1] st = Inr (Batched tid g1, ?st1)" "(seg_id g1, seg_offset g1) = next_position sid off"
    "seg_wb g1 = concat (map (new_field_ops tid sid off) m1) @ ps1" "\<forall>w \<in> set ps1. family (op_key w) \<notin> data_families"
    "\<not> has_update g1 \<longrightarrow> sid = seg_id g1"
    using begin_new [where view = view and st = st, OF laws coh tid sid off ser(1)] new by blast
  obtain g2 ps2 where b2: "AddDocs_begin ops n [d2] ?st1 = Inr (Batched tid g2, st\<lparr>db_cache := ?c2\<rparr>)" "(seg_id g2, seg_offset g2) = next_position sid off"
    "seg_wb g2 = concat (map (new_field_ops tid sid off) m2) @ ps2" "\<forall>w \<in> set ps2. family (op_key w) \<notin> data_families"
    "\<not> has_update g2 \<longrightarrow> sid = seg_id g2"
    using begin_new [where view = view and st = ?st1 and n = n and tid = tid and sid = sid and off = off, OF laws coh1 _ _ _ ser(2)]
      new tid sid off gf by (auto simp: GetTidByTname_def GetSegId_def)
  obtain db1 where db1: "db_Write ops (seg_wb g1) (kvdb st) = (R_OK, db1)" "view db1 = apply_batch (seg_wb g1) (view (kvdb st))"
    using kv_lawsD(3) [OF laws] by blast
  obtain db2 where db2: "db_Write ops (seg_wb g2) db1 = (R_OK, db2)" "view db2 = apply_batch (seg_wb g2) (view db1)"
    using kv_lawsD(3) [OF laws] by blast
  let ?upd = "\<lambda>g c. UpdateTidOffset tid (seg_offset g) (if has_update g then UpdateSegMap tid (seg_id g) c else c)"
  have s: "map_of (segmap ?c2) tid = Some sid" using sid gf gf2 by (simp add: GetSegId_def)
  note f1 = finish_facts [OF gf2(2) s b1(5)]
  have "map_of (segmap (?upd g1 ?c2)) tid = Some (seg_id g1)" using f1(2) by simp
  note f2 = finish_facts [OF f1(1) this, of g2]
  have same: "seg_id g2 = seg_id g1" "seg_offset g2 = seg_offset g1" using b1(2) b2(2) by (simp_all add: prod_eq_iff)
  let ?st' = "\<lparr>kvdb = db2, db_cache = ?upd g2 (?upd g1 ?c2)\<rparr>"
  have path: "(add_step ops)\<^sup>*\<^sup>* (st, [Start n [d1], Start n [d2]]) (?st', [Finished R_OK, Finished R_OK])"
    by (rule race_path [where ?st3.0 = "\<lparr>kvdb = db1, db_cache = ?c2\<rparr>" and ?st4.0 = "\<lparr>kvdb = db2, db_cache = ?c2\<rparr>"
          and ?st5.0 = "\<lparr>kvdb = db2, db_cache = ?upd g1 ?c2\<rparr>", OF b1(1) b2(1)])
      (simp_all add: AddDocs_write_def AddDocs_finish_def db1(1) db2(1) Let_def)
  have uid: "view db2 (ser64 tid DBTableUidIdMappingPrefix @ u) = Some (ser64 off (ser64 sid []))" if "(0, u) \<in> set m1 \<union> set m2" for u
    unfolding db2(2) b2(3) by (rule uid_kept [OF b2(4)]) (use that uid_kept [OF b1(4), of u m1] db1(2) b1(3) in auto)
  have val: "view db2 (field_val_key tid sid off fid) = Some x" if "(fid, x) \<in> set m2" for fid x
    unfolding db2(2) b2(3) by (rule batch_value [OF b2(4) that ser(3)])
  show ?thesis using path uid val f2(2,3) same b2(2) by (intro exI [of _ ?st']) (simp add: GetSegId_def prod_eq_iff)
qed


theorem AddDocs_same_table_race_witness:
  "\<exists>b st d1 d2 st'. CreateTable list_store ''docs'' b start_store = Inr (R_OK, st) \<and>
     (add_step list_store)\<^sup>*\<^sup>* (st, [Start ''docs'' [d1], Start ''docs'' [d2]]) (st', [Finished R_OK, Finished R_OK]) \<and>
     map_of (kvdb st') (ser64 0 DBTableUidIdMappingPrefix @ ser64 7 []) = Some (ser64 0 (ser64 0 [])) \<and>
     map_of (kvdb st') (ser64 0 DBTableUidIdMappingPrefix @ ser64 8 []) = Some (ser64 0 (ser64 0 [])) \<and>
     map_of (kvdb st') (field_val_key 0 0 0 0) = Some (ser64 8 []) \<and> off_of (db_cache st') 0 = 1"
proof -
  obtain b st where st: "CreateTable list_store ''docs'' b start_store = Inr (R_OK, st)"
    "coherent (map_of (kvdb st)) (db_cache st)" "GetTidByTname ''docs'' (db_cache st) = Some 0"
    "GetSegId 0 (db_cache st) = Some 0" "off_of (db_cache st) 0 = 0" "\<And>u. map_of (kvdb st) (ser64 0 DBTableUidIdMappingPrefix @ u) = None"
    and docs: "\<And>k. \<exists>d m. DocSchema_HasBuilt (doc_base d) \<and> Doc_Serialize d = Inr m \<and> ordered m \<and> (0, ser64 k []) \<in> set m"
    by (rule docs_store_keys) blast
  obtain d1 m1 where d1: "Doc_Serialize d1 = Inr m1" "(0, ser64 7 []) \<in> set m1" using docs [of 7] by blast
  obtain d2 m2 where d2: "Doc_Serialize d2 = Inr m2" "ordered m2" "(0, ser64 8 []) \<in> set m2" using docs [of 8] by blast
  have pos: "next_position 0 0 = (0, 1)" by code_simp
  obtain st' where "(add_step list_store)\<^sup>*\<^sup>* (st, [Start ''docs'' [d1], Start ''docs'' [d2]]) (st', [Finished R_OK, Finished R_OK])"
    "\<forall>u. (0, u) \<in> set m1 \<union> set m2 \<longrightarrow> map_of (kvdb st') (ser64 0 DBTableUidIdMappingPrefix @ u) = Some (ser64 0 (ser64 0 []))"
    "\<forall>fid x. (fid, x) \<in> set m2 \<longrightarrow> map_of (kvdb st') (field_val_key 0 0 0 fid) = Some x" "off_of (db_cache st') 0 = 1"
    using AddDocs_same_table_race [OF list_store_laws st(2,3,4) st(5) [symmetric] d1(1) d2(1,2)] st(6) unfolding pos by auto
  then show ?thesis using st(1) d1(2) d2(3) by blast
qed


text \<open>A call on the table \<open>docs\<close> and one on a table that does not exist, interleaved.\<close>

lemma two_tables_run:
  assumes laws: "kv_laws ops view" and coh: "coherent (view (kvdb st)) (db_cache st)"
    and tid: "GetTidByTname n (db_cache st) = Some tid" and sid: "GetSegId tid (db_cache st) = Some sid" and none: "GetTidByTname n' (db_cache st) = None"
    and ser: "Doc_Serialize d = Inr m" and new: "\<forall>u. (0, u) \<in> set m \<longrightarrow> view (kvdb st) (ser64 tid DBTableUidIdMappingPrefix @ u) = None"
  obtains st' where "(add_step ops)\<^sup>*\<^sup>* (st, [Start n [d], Start n' ds]) (st', [Finished R_OK, Finished R_NotFound])"
proof -
  let ?st1 = "st\<lparr>db_cache := snd (GetTidOffset tid (db_cache st))\<rparr>"
  obtain g where b: "AddDocs_begin ops n [d] st = Inr (Batched tid g, ?st1)"
    using begin_new [where view = view and st = st, OF laws coh tid sid refl ser new] by metis
  have b2: "AddDocs_begin ops n' ds ?st1 = Inr (Finished R_NotFound, ?st1)"
    using none GetTidOffset_facts(5) [OF coherentD(1) [OF coh], of tid] by (simp add: AddDocs_begin_def GetTidByTname_def)
  obtain db where db: "db_Write ops (seg_wb g) (kvdb st) = (R_OK, db)" using kv_lawsD(3) [OF laws] by blast
  let ?st2 = "?st1\<lparr>kvdb := db\<rparr>"
  have w: "AddDocs_write ops tid g ?st1 = (Written tid g, ?st2)" by (simp add: AddDocs_write_def db)
  obtain st3 where f: "AddDocs_finish tid g ?st2 = (Finished R_OK, st3)" by (simp add: AddDocs_finish_def Let_def)
  have 1: "add_step ops (st, [Start n [d], Start n' ds]) (?st1, [Batched tid g, Start n' ds])"
    using begin_step [of 0 "[Start n [d], Start n' ds]", OF _ _ b] by simp
  have 2: "add_step ops (?st1, [Batched tid g, Start n' ds]) (?st1, [Batched tid g, Finished R_NotFound])"
    using begin_step [of 1 "[Batched tid g, Start n' ds]", OF _ _ b2] by simp
  have 3: "add_step ops (?st1, [Batched tid g, Finished R_NotFound]) (?st2, [Written tid g, Finished R_NotFound])"
    using write_step [of 0 "[Batched tid g, Finished R_NotFound]", OF _ _ w] by simp
  have 4: "add_step ops (?st2, [Written tid g, Finished R_NotFound]) (st3, [Finished R_OK, Finished R_NotFound])"
    using finish_step [of 0 "[Written tid g, Finished R_NotFound]", OF _ _ f] by simp
  note go = converse_rtranclp_into_rtranclp [of "add_step ops"]
  show thesis by (rule that) (rule go [OF 1 go [OF 2 go [OF 3 go [OF 4 rtranclp.rtrancl_refl]]]])
qed

theorem AddDocs_different_tables_witness:
  "\<exists>b st d st'. CreateTable list_store ''docs'' b start_store = Inr (R_OK, st) \<and>
     (add_step list_store)\<^sup>*\<^sup>* (st, [Start ''docs'' [d], Start ''other'' [d]]) (st', [Finished R_OK, Finished R_NotFound]) \<and>
     coherent (map_of (kvdb st')) (db_cache st')"
proof -
  obtain b st where st: "CreateTable list_store ''docs'' b start_store = Inr (R_OK, st)"
    "coherent (map_of (kvdb st)) (db_cache st)" "GetTidByTname ''docs'' (db_cache st) = Some 0"
    "GetSegId 0 (db_cache st) = Some 0" "\<And>u. map_of (kvdb st) (ser64 0 DBTableUidIdMappingPrefix @ u) = None"
    "\<And>n. n \<noteq> ''docs'' \<Longrightarrow> GetTidByTname n (db_cache st) = None"
    and docs: "\<And>k. \<exists>d m. DocSchema_HasBuilt (doc_base d) \<and> Doc_Serialize d = Inr m \<and> ordered m \<and> (0, ser64 k []) \<in> set m"
    by (rule docs_store_keys) blast
  obtain d m where d: "Doc_Serialize d = Inr m" using docs [of 7] by blast
  have "GetTidByTname ''other'' (db_cache st) = None" using st(6) by simp
  then obtain st' where run: "(add_step list_store)\<^sup>*\<^sup>* (st, [Start ''docs'' [d], Start ''other'' [d]]) (st', [Finished R_OK, Finished R_NotFound])"
    using two_tables_run [where view = map_of and ops = list_store and st = st, OF list_store_laws st(2,3,4) _ d] st(5) by blast
  then have "coherent (map_of (kvdb st')) (db_cache st')"
    using AddDocs_different_tables [where view = map_of and ops = list_store and st = st and cs = "[(''docs'', [d]), (''other'', [d])]", OF list_store_laws st(2)]
    by force
  then show ?thesis using st(1) run by blast
qed

end
