(* ===== verification/Rk_Queue.thy ===== *)
theory Rk_Queue
  imports Prelude Ordered_Map
begin

text \<open>
  The bounded blocking queue (\<open>rocksdb_lab/BlockingQueue.h\<close>, \<open>BlockingQueue.inl\<close>; \<open>duckdb_lab\<close> has the same
  file) and the task queue of the thread pool (\<open>duckdb_lab/ThreadPool.h\<close>). A call that has to wait has no
  result yet, \<open>None\<close>. Both are bounded queues in the sense of the locale \<open>bounded_fifo\<close>, from which the order of
  what goes through them follows.
\<close>

section \<open>Bounded queues\<close>

datatype 'a queue_event = Put_event 'a | Take_event

text \<open>A run of puts and takes that all go through: what was put, what was taken, the queue at the end.\<close>

fun queue_run ::
  "('a \<Rightarrow> 'q \<Rightarrow> 'q option) \<Rightarrow> ('q \<Rightarrow> ('a \<times> 'q) option) \<Rightarrow> 'a queue_event list \<Rightarrow> 'q \<Rightarrow> ('a list \<times> 'a list \<times> 'q) option" where
  "queue_run pt tk [] q = Some ([], [], q)"
| "queue_run pt tk (Put_event x # es) q =
     Option.bind (pt x q) (\<lambda>q. map_option (\<lambda>(ins, outs, q). (x # ins, outs, q)) (queue_run pt tk es q))"
| "queue_run pt tk (Take_event # es) q =
     Option.bind (tk q) (\<lambda>(x, q). map_option (\<lambda>(ins, outs, q). (ins, x # outs, q)) (queue_run pt tk es q))"

locale bounded_fifo =
  fixes pt :: "'a \<Rightarrow> 'q \<Rightarrow> 'q option" and tk :: "'q \<Rightarrow> ('a \<times> 'q) option"
    and contents :: "'q \<Rightarrow> 'a list" and limit :: "'q \<Rightarrow> nat"
  assumes pt_some: "pt x q = Some q' \<Longrightarrow> contents q' = contents q @ [x] \<and> limit q' = limit q \<and> length (contents q) < limit q"
    and pt_room: "length (contents q) < limit q \<Longrightarrow> pt x q \<noteq> None"
    and tk_some: "tk q = Some (x, q') \<Longrightarrow> contents q = x # contents q' \<and> limit q' = limit q"
    and tk_nonempty: "contents q \<noteq> [] \<Longrightarrow> tk q \<noteq> None"
begin

lemma run_order:
  "queue_run pt tk es q = Some (ins, outs, q') \<Longrightarrow> contents q @ ins = outs @ contents q' \<and> limit q' = limit q"
proof (induction es arbitrary: q ins outs)
  case (Cons e es)
  show ?case
  proof (cases e)
    case (Put_event x)
    then obtain q1 ins1 where "pt x q = Some q1" "queue_run pt tk es q1 = Some (ins1, outs, q')" "ins = x # ins1"
      using Cons.prems by (auto simp: bind_eq_Some_conv)
    then show ?thesis using Cons.IH pt_some by fastforce
  next
    case Take_event
    then obtain x q1 outs1 where "tk q = Some (x, q1)" "queue_run pt tk es q1 = Some (ins, outs1, q')" "outs = x # outs1"
      using Cons.prems by (auto simp: bind_eq_Some_conv)
    then show ?thesis using Cons.IH tk_some by fastforce
  qed
qed simp

lemma run_bound:
  "length (contents q) \<le> limit q \<Longrightarrow> queue_run pt tk es q = Some (ins, outs, q') \<Longrightarrow> length (contents q') \<le> limit q'"
proof (induction es arbitrary: q ins outs)
  case (Cons e es)
  show ?case
  proof (cases e)
    case (Put_event x)
    then obtain q1 ins1 where "pt x q = Some q1" "queue_run pt tk es q1 = Some (ins1, outs, q')"
      using Cons.prems by (auto simp: bind_eq_Some_conv)
    moreover from this(1) have "length (contents q1) \<le> limit q1" using pt_some by fastforce
    ultimately show ?thesis using Cons.IH by blast
  next
    case Take_event
    then obtain x q1 outs1 where "tk q = Some (x, q1)" "queue_run pt tk es q1 = Some (ins, outs1, q')"
      using Cons.prems by (auto simp: bind_eq_Some_conv)
    then show ?thesis using Cons.IH Cons.prems(1) tk_some by (metis Suc_leD length_Cons)
  qed
qed simp

text \<open>Whatever is in the queue can be taken out, in order.\<close>

lemma drain: "\<exists>q'. queue_run pt tk (replicate (length (contents q)) Take_event) q = Some ([], contents q, q') \<and> contents q' = []"
proof (induction "length (contents q)" arbitrary: q)
  case (Suc n)
  then have "contents q \<noteq> []" by auto
  then obtain x q1 where q1: "tk q = Some (x, q1)" using tk_nonempty by (metis option.exhaust surj_pair)
  then have c: "contents q = x # contents q1" using tk_some by blast
  then have "n = length (contents q1)" using Suc.hyps(2) by simp
  then obtain q' where "queue_run pt tk (replicate (length (contents q1)) Take_event) q1 = Some ([], contents q1, q')" "contents q' = []"
    using Suc.hyps(1) by blast
  then show ?case using q1 c by simp
qed simp

lemma one_of_two: "0 < limit q \<Longrightarrow> pt x q \<noteq> None \<or> tk q \<noteq> None"
  using pt_room tk_nonempty by (metis length_greater_0_conv list.size(3))

end

section \<open>BlockingQueue\<close>

record 'a BlockingQueue =
  bq_queue :: "'a list"
  bq_capacity :: nat

definition BlockingQueue_new :: "'a BlockingQueue" where
  "BlockingQueue_new = \<lparr>bq_queue = [], bq_capacity = 32\<rparr>"

definition BQ_Put :: "'a \<Rightarrow> 'a BlockingQueue \<Rightarrow> 'a BlockingQueue option" where
  "BQ_Put task q = (if length (bq_queue q) < bq_capacity q then Some (q\<lparr>bq_queue := bq_queue q @ [task]\<rparr>) else None)"

definition BQ_Take :: "'a BlockingQueue \<Rightarrow> ('a \<times> 'a BlockingQueue) option" where
  "BQ_Take q = (case bq_queue q of [] \<Rightarrow> None | x # xs \<Rightarrow> Some (x, q\<lparr>bq_queue := xs\<rparr>))"

definition BQ_Size :: "'a BlockingQueue \<Rightarrow> nat" where "BQ_Size q = length (bq_queue q)"
definition BQ_Empty :: "'a BlockingQueue \<Rightarrow> bool" where "BQ_Empty q \<longleftrightarrow> bq_queue q = []"

definition BQ_Front :: "'a BlockingQueue \<Rightarrow> 'a option" where
  "BQ_Front q = (case bq_queue q of [] \<Rightarrow> None | x # xs \<Rightarrow> Some x)"

definition BQ_Back :: "'a BlockingQueue \<Rightarrow> 'a option" where
  "BQ_Back q = (if bq_queue q = [] then None else Some (last (bq_queue q)))"

definition BQ_SetCapacity :: "nat \<Rightarrow> 'a BlockingQueue \<Rightarrow> 'a BlockingQueue" where
  "BQ_SetCapacity capacity q = q\<lparr>bq_capacity := (if 0 < capacity then capacity else bq_capacity q)\<rparr>"

interpretation bq: bounded_fifo BQ_Put BQ_Take bq_queue bq_capacity
  by unfold_locales (auto simp: BQ_Put_def BQ_Take_def split: if_splits list.splits)

section \<open>ThreadPool\<close>

text \<open>The tasks not yet taken, the stop flag and how many workers have not returned. An exception thrown by
  \<open>enqueue\<close> is \<open>Inl\<close>.\<close>

record 't ThreadPool =
  tasks :: "'t list"
  max_queue_size :: nat
  stop_flag :: bool
  workers :: nat

datatype pool_error = EnqueueOnStopped

definition ThreadPool_new :: "nat \<Rightarrow> nat \<Rightarrow> 't ThreadPool" where
  "ThreadPool_new threads queue_size = \<lparr>tasks = [], max_queue_size = queue_size, stop_flag = False, workers = threads\<rparr>"

definition enqueue :: "'t \<Rightarrow> 't ThreadPool \<Rightarrow> (pool_error + 't ThreadPool) option" where
  "enqueue t p =
     (if length (tasks p) < max_queue_size p
      then Some (if stop_flag p then Inl EnqueueOnStopped else Inr (p\<lparr>tasks := tasks p @ [t]\<rparr>))
      else None)"

text \<open>One round of a worker up to running the task: \<open>Inl\<close> is the return of the thread.\<close>

definition worker_round :: "'t ThreadPool \<Rightarrow> ('t ThreadPool + 't \<times> 't ThreadPool) option" where
  "worker_round p =
     (if \<not> (stop_flag p \<or> tasks p \<noteq> []) then None
      else if stop_flag p \<and> tasks p = [] then Some (Inl (p\<lparr>workers := workers p - 1\<rparr>))
      else Some (Inr (hd (tasks p), p\<lparr>tasks := tl (tasks p)\<rparr>)))"

definition ThreadPool_stop :: "'t ThreadPool \<Rightarrow> 't ThreadPool" where
  "ThreadPool_stop p = p\<lparr>stop_flag := True\<rparr>"

text \<open>The pool as a bounded queue: a stopped pool takes no more tasks, so that its limit is zero.\<close>

definition pool_put :: "'t \<Rightarrow> 't ThreadPool \<Rightarrow> 't ThreadPool option" where
  "pool_put t p = (case enqueue t p of Some (Inr p) \<Rightarrow> Some p | _ \<Rightarrow> None)"

definition pool_limit :: "'t ThreadPool \<Rightarrow> nat" where
  "pool_limit p = (if stop_flag p then 0 else max_queue_size p)"

definition pool_take :: "'t ThreadPool \<Rightarrow> ('t \<times> 't ThreadPool) option" where
  "pool_take p = (case worker_round p of Some (Inr r) \<Rightarrow> Some r | _ \<Rightarrow> None)"

interpretation tp: bounded_fifo pool_put pool_take tasks pool_limit
  by unfold_locales (auto simp: pool_limit_def pool_put_def pool_take_def enqueue_def worker_round_def neq_Nil_conv split: if_splits)

text \<open>The blocking queue is a bounded first-in-first-out queue: in any run of puts and takes that go
  through, what was in the queue and what was put is what was taken followed by what is left, in
  this order; a queue within its capacity stays within it; and it never blocks both sides.\<close>

theorem BlockingQueue_fifo:
  assumes "queue_run BQ_Put BQ_Take es q = Some (ins, outs, q')" and "length (bq_queue q) \<le> bq_capacity q" and "0 < bq_capacity q"
  shows "bq_queue q @ ins = outs @ bq_queue q' \<and> length (bq_queue q') \<le> bq_capacity q' \<and> bq_capacity q' = bq_capacity q \<and>
    (\<forall>x. BQ_Put x q' \<noteq> None \<or> BQ_Take q' \<noteq> None)"
  using bq.run_order [OF assms(1)] bq.run_bound [OF assms(2,1)] bq.one_of_two assms(3) by metis

theorem BlockingQueue_fifo_witness:
  "queue_run BQ_Put BQ_Take [Put_event (1 :: nat), Put_event 2, Take_event] BlockingQueue_new =
     Some ([1, 2], [1], \<lparr>bq_queue = [2], bq_capacity = 32\<rparr>) \<and> [] @ [1, 2] = [1] @ [2 :: nat]"
proof -
  have run: "queue_run BQ_Put BQ_Take [Put_event (1 :: nat), Put_event 2, Take_event] BlockingQueue_new =
     Some ([1, 2], [1], \<lparr>bq_queue = [2], bq_capacity = 32\<rparr>)"
    by (simp add: BQ_Put_def BQ_Take_def BlockingQueue_new_def)
  then show ?thesis using BlockingQueue_fifo [OF run] by (simp add: BlockingQueue_new_def)
qed


text \<open>Rounds of the workers, whichever of them runs: the tasks run, in order, and the pool afterwards.\<close>

fun worker_rounds :: "nat \<Rightarrow> 't ThreadPool \<Rightarrow> ('t list \<times> 't ThreadPool) option" where
  "worker_rounds 0 p = Some ([], p)"
| "worker_rounds (Suc n) p =
     (case worker_round p of None \<Rightarrow> None
      | Some (Inl p) \<Rightarrow> worker_rounds n p
      | Some (Inr (t, p)) \<Rightarrow> map_option (\<lambda>(ts, p). (t # ts, p)) (worker_rounds n p))"

lemma worker_rounds_idle: "stop_flag p \<Longrightarrow> tasks p = [] \<Longrightarrow> worker_rounds n p = Some ([], p\<lparr>workers := workers p - n\<rparr>)"
  by (induction n arbitrary: p) (simp_all add: worker_round_def)

lemma worker_rounds_drain:
  "stop_flag p \<Longrightarrow> worker_rounds (length (tasks p) + n) p = Some (tasks p, p\<lparr>tasks := [], workers := workers p - n\<rparr>)"
proof (induction "tasks p" arbitrary: p)
  case Nil
  then show ?case using worker_rounds_idle [of p n] by simp
next
  case (Cons t ts)
  let ?p = "p\<lparr>tasks := ts\<rparr>"
  have "worker_rounds (length (tasks ?p) + n) ?p = Some (tasks ?p, ?p\<lparr>tasks := [], workers := workers ?p - n\<rparr>)"
    using Cons.hyps(1) [of ?p] Cons.prems by simp
  then show ?case using Cons.hyps(2) [symmetric] Cons.prems by (simp add: worker_round_def)
qed

text \<open>Stopping the thread pool loses no task: once the destructor has set the flag, the workers run all
  tasks still queued, in the order of their arrival, and then all return; a task offered to a stopped
  pool with room is answered by an exception and leaves the pool as it was.\<close>

theorem ThreadPool_stop_drains:
  assumes "stop_flag p"
  shows "worker_rounds (length (tasks p) + workers p) p = Some (tasks p, p\<lparr>tasks := [], workers := 0\<rparr>) \<and>
    (length (tasks p) < max_queue_size p \<longrightarrow> enqueue t p = Some (Inl EnqueueOnStopped))"
  using worker_rounds_drain [OF assms, of "workers p"] assms by (simp add: enqueue_def)

theorem ThreadPool_stop_drains_witness:
  "worker_rounds 4 (ThreadPool_stop \<lparr>tasks = ''ab'', max_queue_size = 9, stop_flag = False, workers = 2\<rparr>) =
     Some (''ab'', \<lparr>tasks = [], max_queue_size = 9, stop_flag = True, workers = 0\<rparr>)"
  using ThreadPool_stop_drains [of "ThreadPool_stop \<lparr>tasks = ''ab'', max_queue_size = 9, stop_flag = False, workers = 2\<rparr>"]
  by (simp add: ThreadPool_stop_def numeral_eq_Suc)

end
