(* ===== verification/Rk_Executor.thy ===== *)
theory Rk_Executor
  imports Rk_Queue
begin

text \<open>
  Requests and the executor that runs them (\<open>rocksdb_lab/requests.cpp\<close>, \<open>executor.h\<close>, \<open>executor.cpp\<close>). Requests are
  an abstract type; what a request does when it runs is not modelled, only that it runs. \<open>routing\<close> is
  the virtual \<open>Routing\<close>, which answers -1 unless it is overridden. Each executor is a thread
  with a queue of request pointers, null meaning the end; threads interleave as steps of a relation. For each
  executor the state records what was put into its queue and what it has run.
\<close>

section \<open>The executor\<close>

datatype stop_phase = Running | Stopping "int list"

record 'r RequestExector =
  parallel :: nat
  current :: nat
  ex_stopped :: bool
  phase :: stop_phase
  executors :: "(int \<times> 'r option BlockingQueue) list"
  alive :: "int set"
  sent :: "int \<Rightarrow> 'r option list"
  executed :: "int \<Rightarrow> 'r list"

definition RequestExector_new :: "nat \<Rightarrow> 'r RequestExector" where
  "RequestExector_new p = \<lparr>parallel = p, current = 0, ex_stopped = False, phase = Running, executors = [], alive = {},
     sent = (\<lambda>_. []), executed = (\<lambda>_. [])\<rparr>"

definition put_to :: "int \<Rightarrow> 'r option \<Rightarrow> 'r RequestExector \<Rightarrow> 'r RequestExector option" where
  "put_to k x e =
     Option.bind (map_of (executors e) k) (\<lambda>q. map_option (\<lambda>q. e\<lparr>executors := map_put k q (executors e),
       sent := (sent e)(k := sent e k @ [x])\<rparr>) (BQ_Put x q))"

text \<open>The executor of \<open>Enqueue\<close> for target \<open>k\<close>: a new queue and a new thread if there is none.\<close>

definition with_executor :: "int \<Rightarrow> 'r RequestExector \<Rightarrow> 'r RequestExector" where
  "with_executor k e =
     (if map_of (executors e) k = None
      then e\<lparr>executors := map_put k BlockingQueue_new (executors e), alive := insert k (alive e)\<rparr> else e)"

text \<open>\<open>Enqueue\<close>: the target, a new executor if there is none, and the put, which may wait (\<open>None\<close>).\<close>

definition Enqueue :: "('r \<Rightarrow> nat \<Rightarrow> int) \<Rightarrow> 'r \<Rightarrow> 'r RequestExector \<Rightarrow> 'r RequestExector option outcome" where
  "Enqueue routing r e =
     (let target = routing r (parallel e) in
      bnd (if target = -1
           then if parallel e = 0 then Inl DivByZero
                else Inr (int (current e), e\<lparr>current := (current e + 1) mod parallel e\<rparr>)
           else Inr (target, e)) (\<lambda>(target, e).
      Inr (put_to target (Some r) (with_executor target e))))"

text \<open>\<open>HandleRequest\<close>: the flag says whether the caller then waits for the request to finish, which it has when it was run.\<close>

definition HandleRequest ::
  "('r \<Rightarrow> nat \<Rightarrow> int) \<Rightarrow> ('r \<Rightarrow> bool) \<Rightarrow> 'r option \<Rightarrow> 'r RequestExector \<Rightarrow> ('r RequestExector \<times> bool) option outcome" where
  "HandleRequest routing IsAsync request e =
     (case request of None \<Rightarrow> Inr (Some (e, False))
      | Some r \<Rightarrow> bnd (Enqueue routing r e) (\<lambda>e. Inr (map_option (\<lambda>e. (e, \<not> IsAsync r)) e)))"

definition request_done :: "'r \<Rightarrow> 'r RequestExector \<Rightarrow> bool" where
  "request_done r e \<longleftrightarrow> list_ex (\<lambda>(k, q). r \<in> set (executed e k)) (executors e)"

text \<open>One round of \<open>WorkingThread\<close> of executor \<open>k\<close>, when its queue is not empty.\<close>

definition WorkingThread_round :: "int \<Rightarrow> 'r RequestExector \<Rightarrow> 'r RequestExector option" where
  "WorkingThread_round k e =
     (if k \<notin> alive e then None
      else Option.bind (map_of (executors e) k) (\<lambda>q. map_option (\<lambda>(request, q).
        let e = e\<lparr>executors := map_put k q (executors e)\<rparr>
        in case request of None \<Rightarrow> e\<lparr>alive := alive e - {k}\<rparr>
           | Some r \<Rightarrow> e\<lparr>executed := (executed e)(k := executed e k @ [r])\<rparr>) (BQ_Take q)))"

text \<open>\<open>Stop\<close> holds the mutex throughout: a null request for every executor, then all threads are joined.\<close>

definition Stop_begin :: "'r RequestExector \<Rightarrow> 'r RequestExector option" where
  "Stop_begin e = (if ex_stopped e \<or> phase e \<noteq> Running then None else Some (e\<lparr>phase := Stopping (map fst (executors e))\<rparr>))"

definition Stop_put :: "'r RequestExector \<Rightarrow> 'r RequestExector option" where
  "Stop_put e = (case phase e of Stopping (k # ks) \<Rightarrow> map_option (\<lambda>e. e\<lparr>phase := Stopping ks\<rparr>) (put_to k None e) | _ \<Rightarrow> None)"

definition Stop_join :: "'r RequestExector \<Rightarrow> 'r RequestExector option" where
  "Stop_join e = (if phase e = Stopping [] \<and> alive e = {} then Some (e\<lparr>phase := Running, ex_stopped := True\<rparr>) else None)"

inductive exec_step :: "('r \<Rightarrow> nat \<Rightarrow> int) \<Rightarrow> 'r RequestExector \<Rightarrow> 'r RequestExector \<Rightarrow> bool" for routing where
  submit: "phase e = Running \<Longrightarrow> Enqueue routing r e = Inr (Some e') \<Longrightarrow> exec_step routing e e'"
| work: "WorkingThread_round k e = Some e' \<Longrightarrow> exec_step routing e e'"
| stop_begin: "Stop_begin e = Some e' \<Longrightarrow> exec_step routing e e'"
| stop_put: "Stop_put e = Some e' \<Longrightarrow> exec_step routing e e'"
| stop_join: "Stop_join e = Some e' \<Longrightarrow> exec_step routing e e'"

inductive exec_reachable :: "('r \<Rightarrow> nat \<Rightarrow> int) \<Rightarrow> nat \<Rightarrow> 'r RequestExector \<Rightarrow> bool" for routing p where
  init: "exec_reachable routing p (RequestExector_new p)"
| step: "exec_reachable routing p e \<Longrightarrow> exec_step routing e e' \<Longrightarrow> exec_reachable routing p e'"

section \<open>The invariant\<close>

text \<open>What was put into a queue is what its thread ran, the end mark if the thread has seen it, and what is
  still in the queue. Before the executor is stopped the end mark is sent only by \<open>Stop\<close>, last, and once.\<close>

fun queue_good :: "'r option BlockingQueue option \<Rightarrow> 'r option list \<Rightarrow> 'r list \<Rightarrow> bool \<Rightarrow> bool" where
  "queue_good None s x al \<longleftrightarrow> s = [] \<and> x = [] \<and> \<not> al"
| "queue_good (Some q) s x al \<longleftrightarrow> s = map Some x @ (if al then [] else [None]) @ bq_queue q \<and>
     length (bq_queue q) \<le> bq_capacity q \<and> bq_capacity q = 32"

definition queue_ok :: "'r RequestExector \<Rightarrow> int \<Rightarrow> bool" where
  "queue_ok e k \<longleftrightarrow> queue_good (map_of (executors e) k) (sent e k) (executed e k) (k \<in> alive e)"

text \<open>\<open>ended\<close>: the end mark was sent, once and last.\<close>

definition ended :: "'r option list \<Rightarrow> bool" where
  "ended s \<longleftrightarrow> s \<noteq> [] \<and> last s = None \<and> None \<notin> set (butlast s)"

fun ends_good :: "stop_phase \<Rightarrow> int \<Rightarrow> bool \<Rightarrow> 'r option list \<Rightarrow> bool" where
  "ends_good Running k known s \<longleftrightarrow> None \<notin> set s"
| "ends_good (Stopping ks) k known s \<longleftrightarrow> (if k \<in> set ks \<or> \<not> known then None \<notin> set s else ended s)"

definition ends_ok :: "'r RequestExector \<Rightarrow> int \<Rightarrow> bool" where
  "ends_ok e k \<longleftrightarrow> ex_stopped e \<or> ends_good (phase e) k (map_of (executors e) k \<noteq> None) (sent e k)"

fun phase_good :: "stop_phase \<Rightarrow> bool \<Rightarrow> int set \<Rightarrow> bool" where
  "phase_good Running st keys \<longleftrightarrow> True"
| "phase_good (Stopping ks) st keys \<longleftrightarrow> \<not> st \<and> distinct ks \<and> set ks \<subseteq> keys"

definition exec_inv :: "'r RequestExector \<Rightarrow> bool" where
  "exec_inv e \<longleftrightarrow> ordered (executors e) \<and> (\<forall>k. queue_ok e k) \<and> (\<forall>k. ends_ok e k) \<and>
     phase_good (phase e) (ex_stopped e) (fst ` set (executors e))"

lemma exec_inv_new: "exec_inv (RequestExector_new p)"
  by (simp add: exec_inv_def queue_ok_def ends_ok_def RequestExector_new_def)

lemma put_to_facts:
  assumes "put_to k x e = Some e'" and "ordered (executors e)"
  obtains q where "map_of (executors e) k = Some q" and "length (bq_queue q) < bq_capacity q"
    and "map_of (executors e') = (map_of (executors e))(k \<mapsto> q\<lparr>bq_queue := bq_queue q @ [x]\<rparr>)"
    and "sent e' = (sent e)(k := sent e k @ [x])" and "ordered (executors e')"
    and "fst ` set (executors e') = fst ` set (executors e)"
proof -
  obtain q where q: "map_of (executors e) k = Some q" "length (bq_queue q) < bq_capacity q"
    "e' = e\<lparr>executors := map_put k (q\<lparr>bq_queue := bq_queue q @ [x]\<rparr>) (executors e), sent := (sent e)(k := sent e k @ [x])\<rparr>"
    using assms(1) by (auto simp: put_to_def bind_eq_Some_conv BQ_Put_def split: if_splits)
  have "map_of (executors e') = (map_of (executors e))(k \<mapsto> q\<lparr>bq_queue := bq_queue q @ [x]\<rparr>)"
    "sent e' = (sent e)(k := sent e k @ [x])" "ordered (executors e')"
    using assms(2) q(3) by (simp_all add: ordered_map_put map_of_map_put)
  moreover from this(1) have "fst ` set (executors e') = fst ` set (executors e)"
    using q(1) by (metis dom_fun_upd dom_map_of_conv_image_fst domI insert_absorb option.distinct(1))
  ultimately show thesis using that q(1,2) by blast
qed

lemma put_to_rest:
  assumes "put_to k x e = Some e'"
  shows "executed e' = executed e" "alive e' = alive e" "phase e' = phase e" "ex_stopped e' = ex_stopped e"
    "parallel e' = parallel e" "current e' = current e"
  using assms by (auto simp: put_to_def bind_eq_Some_conv)

lemma put_to_queue_ok:
  assumes "put_to k x e = Some e'" and "ordered (executors e)" and "\<forall>j. queue_ok e j"
  shows "queue_ok e' j"
proof (rule put_to_facts [OF assms(1,2)])
  fix q
  assume q: "map_of (executors e) k = Some q" "length (bq_queue q) < bq_capacity q"
    "map_of (executors e') = (map_of (executors e))(k \<mapsto> q\<lparr>bq_queue := bq_queue q @ [x]\<rparr>)"
    "sent e' = (sent e)(k := sent e k @ [x])"
  show ?thesis
  proof (cases "j = k")
    case True
    then show ?thesis using assms(3) [rule_format, of k] q(1,2)
      by (simp add: queue_ok_def q(3,4) put_to_rest [OF assms(1)])
  next
    case False
    then show ?thesis using assms(3) [rule_format, of j] by (simp add: queue_ok_def q(3,4) put_to_rest [OF assms(1)])
  qed
qed

lemma exec_inv_with_executor:
  assumes "exec_inv e" and "phase e = Running"
  shows "exec_inv (with_executor k e)"
proof (cases "map_of (executors e) k = None")
  case True
  have o: "ordered (executors e)" "\<forall>j. queue_ok e j" "\<forall>j. ends_ok e j" using assms(1) by (auto simp: exec_inv_def)
  let ?e = "with_executor k e"
  have m: "map_of (executors ?e) = (map_of (executors e))(k \<mapsto> BlockingQueue_new)" "ordered (executors ?e)" "alive ?e = insert k (alive e)"
    "sent ?e = sent e" "executed ?e = executed e" "phase ?e = phase e" "ex_stopped ?e = ex_stopped e"
    using True o(1) by (simp_all add: with_executor_def map_of_map_put ordered_map_put)
  have "queue_ok ?e j" for j
    using o(2) [rule_format, of j] True by (cases "j = k") (simp_all add: queue_ok_def m(1,3,4,5) BlockingQueue_new_def)
  moreover have "ends_ok ?e j" for j using o(3) [rule_format, of j] assms(2) by (simp add: ends_ok_def m(4,6,7))
  ultimately show ?thesis using m(2,6) assms(2) by (simp add: exec_inv_def)
next
  case False
  then show ?thesis using assms(1) unfolding with_executor_def by auto
qed

lemma exec_inv_submit_put:
  assumes "exec_inv e" and "phase e = Running" and "put_to k (Some r) e = Some e'"
  shows "exec_inv e'"
proof -
  have o: "ordered (executors e)" "\<forall>j. queue_ok e j" "\<forall>j. ends_ok e j" using assms(1) by (auto simp: exec_inv_def)
  show ?thesis
  proof (rule put_to_facts [OF assms(3) o(1)])
    assume s: "sent e' = (sent e)(k := sent e k @ [Some r])" "ordered (executors e')"
    have "ends_ok e' j" for j
      using o(3) [rule_format, of j] assms(2) by (auto simp: ends_ok_def s(1) put_to_rest [OF assms(3)])
    then show ?thesis using put_to_queue_ok [OF assms(3) o(1,2)] s(2) assms(2)
      by (simp add: exec_inv_def put_to_rest [OF assms(3)])
  qed
qed

lemma Enqueue_ok:
  assumes "Enqueue routing r e = Inr (Some e')"
  obtains k c where "put_to k (Some r) (with_executor k (e\<lparr>current := c\<rparr>)) = Some e'"
    and "k = (if routing r (parallel e) = -1 then int (current e) else routing r (parallel e))"
proof (cases "routing r (parallel e) = -1")
  case True
  then show thesis using assms that by (auto simp: Enqueue_def split: if_splits)
next
  case False
  have "e\<lparr>current := current e\<rparr> = e" by simp
  then show thesis using False assms that [of "routing r (parallel e)" "current e"] by (simp add: Enqueue_def Let_def)
qed

lemma exec_inv_current: "exec_inv (e\<lparr>current := c\<rparr>) \<longleftrightarrow> exec_inv e"
  by (simp add: exec_inv_def queue_ok_def ends_ok_def)

lemma with_executor_phase [simp]: "phase (with_executor k e) = phase e"
  by (simp add: with_executor_def)

lemma exec_inv_submit:
  assumes "exec_inv e" and "phase e = Running" and "Enqueue routing r e = Inr (Some e')"
  shows "exec_inv e'"
proof (rule Enqueue_ok [OF assms(3)])
  fix k c
  assume p: "put_to k (Some r) (with_executor k (e\<lparr>current := c\<rparr>)) = Some e'"
  have "exec_inv (with_executor k (e\<lparr>current := c\<rparr>))"
    by (rule exec_inv_with_executor) (simp_all add: exec_inv_current assms(1,2))
  then show ?thesis using exec_inv_submit_put [OF _ _ p] assms(2) by simp
qed

lemma WorkingThread_round_facts:
  assumes "WorkingThread_round k e = Some e'" and "ordered (executors e)"
  obtains q x where "map_of (executors e) k = Some q" and "k \<in> alive e" and "bq_queue q = x # tl (bq_queue q)"
    and "map_of (executors e') = (map_of (executors e))(k \<mapsto> q\<lparr>bq_queue := tl (bq_queue q)\<rparr>)" and "ordered (executors e')"
    and "alive e' = (if x = None then alive e - {k} else alive e)"
    and "executed e' = (case x of None \<Rightarrow> executed e | Some r \<Rightarrow> (executed e)(k := executed e k @ [r]))"
proof -
  obtain q x xs where q: "k \<in> alive e" "map_of (executors e) k = Some q" "bq_queue q = x # xs"
    "e' = (let e = e\<lparr>executors := map_put k (q\<lparr>bq_queue := xs\<rparr>) (executors e)\<rparr>
        in case x of None \<Rightarrow> e\<lparr>alive := alive e - {k}\<rparr>
           | Some r \<Rightarrow> e\<lparr>executed := (executed e)(k := executed e k @ [r])\<rparr>)"
    using assms(1) by (cases "bq_queue (the (map_of (executors e) k))")
      (auto simp: WorkingThread_round_def bind_eq_Some_conv BQ_Take_def split: if_splits)
  have "executors e' = map_put k (q\<lparr>bq_queue := xs\<rparr>) (executors e)" "alive e' = (if x = None then alive e - {k} else alive e)"
    "executed e' = (case x of None \<Rightarrow> executed e | Some r \<Rightarrow> (executed e)(k := executed e k @ [r]))"
    using q(4) by (simp_all add: Let_def split: option.splits)
  then show thesis using that [of q x] q(1,2,3) assms(2) by (simp add: ordered_map_put map_of_map_put)
qed

lemma WorkingThread_round_rest:
  assumes "WorkingThread_round k e = Some e'"
  shows "sent e' = sent e" "phase e' = phase e" "ex_stopped e' = ex_stopped e" "parallel e' = parallel e" "current e' = current e"
  using assms by (auto simp: WorkingThread_round_def bind_eq_Some_conv Let_def split: if_splits option.splits)

lemma keys_map_of: "fst ` set xs = dom (map_of xs)"
  by (simp add: dom_map_of_conv_image_fst)

lemma exec_inv_work:
  assumes "exec_inv e" and "WorkingThread_round k e = Some e'"
  shows "exec_inv e'"
proof -
  have o: "ordered (executors e)" "\<forall>j. queue_ok e j" "\<forall>j. ends_ok e j" "phase_good (phase e) (ex_stopped e) (dom (map_of (executors e)))"
    using assms(1) by (auto simp: exec_inv_def keys_map_of)
  note rest = WorkingThread_round_rest [OF assms(2)]
  show ?thesis
  proof (rule WorkingThread_round_facts [OF assms(2) o(1)])
    fix q x
    assume q: "map_of (executors e) k = Some q" "k \<in> alive e" "bq_queue q = x # tl (bq_queue q)"
      and m: "map_of (executors e') = (map_of (executors e))(k \<mapsto> q\<lparr>bq_queue := tl (bq_queue q)\<rparr>)" "ordered (executors e')"
      and a: "alive e' = (if x = None then alive e - {k} else alive e)"
      and x: "executed e' = (case x of None \<Rightarrow> executed e | Some r \<Rightarrow> (executed e)(k := executed e k @ [r]))"
    obtain xs where xs: "bq_queue q = x # xs" using q(3) by blast
    have "queue_ok e' j" for j
    proof (cases "j = k")
      case True
      then show ?thesis using o(2) [rule_format, of k] q(1,2) xs by (cases x) (simp_all add: queue_ok_def m(1) a x rest)
    next
      case False
      then show ?thesis using o(2) [rule_format, of j] by (cases x) (simp_all add: queue_ok_def m(1) a x rest)
    qed
    moreover have "ends_ok e' j" for j
      using o(3) [rule_format, of j] q(1) by (cases "j = k") (simp_all add: ends_ok_def m(1) rest)
    moreover have "dom (map_of (executors e')) = dom (map_of (executors e))" using q(1) m(1) by auto
    ultimately show ?thesis using o(4) m(2) by (simp add: exec_inv_def keys_map_of rest)
  qed
qed

lemma exec_inv_stop_begin: "exec_inv e \<Longrightarrow> Stop_begin e = Some e' \<Longrightarrow> exec_inv e'"
  by (auto simp: exec_inv_def Stop_begin_def queue_ok_def ends_ok_def keys_map_of strict_sorted_iff split: if_splits)

lemma exec_inv_stop_join: "exec_inv e \<Longrightarrow> Stop_join e = Some e' \<Longrightarrow> exec_inv e'"
  by (auto simp: exec_inv_def Stop_join_def queue_ok_def ends_ok_def split: if_splits)

lemma exec_inv_stop_put:
  assumes "exec_inv e" and "Stop_put e = Some e'"
  shows "exec_inv e'"
proof -
  obtain k ks e1 where e1: "phase e = Stopping (k # ks)" "put_to k None e = Some e1" "e' = e1\<lparr>phase := Stopping ks\<rparr>"
    using assms(2) by (auto simp: Stop_put_def split: stop_phase.splits list.splits)
  have o: "ordered (executors e)" "\<forall>j. queue_ok e j" "\<forall>j. ends_ok e j" "\<not> ex_stopped e" "distinct (k # ks)"
    "set ks \<subseteq> fst ` set (executors e)"
    using assms(1) e1(1) by (auto simp: exec_inv_def)
  note rest = put_to_rest [OF e1(2)]
  show ?thesis
  proof (rule put_to_facts [OF e1(2) o(1)])
    fix q
    assume q: "map_of (executors e) k = Some q"
      and m: "map_of (executors e1) = (map_of (executors e))(k \<mapsto> q\<lparr>bq_queue := bq_queue q @ [None]\<rparr>)"
      and s: "sent e1 = (sent e)(k := sent e k @ [None])" "ordered (executors e1)"
        "fst ` set (executors e1) = fst ` set (executors e)"
    have "queue_ok e' j" for j using put_to_queue_ok [OF e1(2) o(1,2), of j] by (simp add: e1(3) queue_ok_def)
    moreover have "ends_ok e' j" for j
      using o(3) [rule_format, of j] o(4,5) by (cases "j = k") (simp_all add: ends_ok_def ended_def e1 m s rest)
    ultimately show ?thesis using o s by (simp add: exec_inv_def e1(3) rest)
  qed
qed

lemma exec_inv_step: "exec_step routing e e' \<Longrightarrow> exec_inv e \<Longrightarrow> exec_inv e'"
  by (induction rule: exec_step.induct)
     (blast intro: exec_inv_submit exec_inv_work exec_inv_stop_begin exec_inv_stop_put exec_inv_stop_join)+

lemma exec_inv_reachable: "exec_reachable routing p e \<Longrightarrow> exec_inv e"
  by (induction rule: exec_reachable.induct) (blast intro: exec_inv_new exec_inv_step)+

text \<open>C16. Every executor runs what it was given, in the order of \<open>Enqueue\<close>, each request once: at every moment
  what was put into its queue is what its thread ran, then the end mark if the thread has returned, then what is
  queued, at most 32 entries; and before \<open>Stop\<close> no thread has returned.\<close>

theorem executor_order:
  assumes "exec_reachable routing p e" and "map_of (executors e) k = Some q"
  shows "sent e k = map Some (executed e k) @ (if k \<in> alive e then [] else [None]) @ bq_queue q \<and> length (bq_queue q) \<le> 32 \<and>
    (phase e = Running \<and> \<not> ex_stopped e \<longrightarrow> k \<in> alive e)"
proof -
  have "queue_ok e k" "ends_ok e k" using exec_inv_reachable [OF assms(1)] by (simp_all add: exec_inv_def)
  then show ?thesis using assms(2) by (auto simp: queue_ok_def ends_ok_def split: if_splits)
qed

text \<open>What \<open>Stop\<close> leaves: no queued request, and every request that was put into a queue was run.\<close>

lemma Stop_join_drained:
  assumes "exec_inv e" and "Stop_join e = Some e'" and "map_of (executors e') k = Some q"
  shows "bq_queue q = [] \<and> sent e' k = map Some (executed e' k) @ [None]"
proof -
  have j: "phase e = Stopping []" "alive e = {}" "e' = e\<lparr>phase := Running, ex_stopped := True\<rparr>"
    using assms(2) by (auto simp: Stop_join_def split: if_splits)
  have "queue_ok e k" "ends_ok e k" "\<not> ex_stopped e" using assms(1) j(1) by (simp_all add: exec_inv_def)
  then have "sent e k = map Some (executed e k) @ None # bq_queue q" "ended (sent e k)"
    using assms(3) j by (simp_all add: queue_ok_def ends_ok_def)
  then show ?thesis using j(3) by (cases "bq_queue q" rule: rev_cases) (auto simp: ended_def butlast_append split: if_splits)
qed

section \<open>Stopping\<close>

definition queued :: "'r RequestExector \<Rightarrow> nat" where
  "queued e = sum_list (map (\<lambda>kq. length (bq_queue (snd kq))) (executors e))"

fun stop_left :: "stop_phase \<Rightarrow> nat" where
  "stop_left Running = 0"
| "stop_left (Stopping ks) = Suc (2 * length ks)"

definition stop_measure :: "'r RequestExector \<Rightarrow> nat" where
  "stop_measure e = queued e + stop_left (phase e)"

lemma sum_map_put:
  fixes f :: "int \<times> 'q \<Rightarrow> nat"
  assumes "ordered xs" and "map_of xs k = Some q"
  shows "sum_list (map f (map_put k q' xs)) + f (k, q) = sum_list (map f xs) + f (k, q')"
  using assms
proof (induction xs)
  case (Cons x xs)
  obtain k0 q0 where x: "x = (k0, q0)" by fastforce
  have "\<not> k < k0" using Cons.prems ordered_map_of_head [of k0 q0 xs k] x by auto
  then show ?case using Cons x by (auto split: if_splits)
qed simp

lemma queued_put_to:
  assumes "put_to k x e = Some e'" and "ordered (executors e)"
  shows "queued e' = Suc (queued e)"
proof -
  obtain q where q: "map_of (executors e) k = Some q" "executors e' = map_put k (q\<lparr>bq_queue := bq_queue q @ [x]\<rparr>) (executors e)"
    using assms(1) by (auto simp: put_to_def bind_eq_Some_conv BQ_Put_def split: if_splits)
  show ?thesis using sum_map_put [OF assms(2) q(1), of "\<lambda>kq. length (bq_queue (snd kq))" "q\<lparr>bq_queue := bq_queue q @ [x]\<rparr>"]
    by (simp add: queued_def q(2))
qed

lemma queued_work:
  assumes "WorkingThread_round k e = Some e'" and "ordered (executors e)"
  shows "queued e = Suc (queued e')"
proof -
  obtain q x xs where q: "map_of (executors e) k = Some q" "bq_queue q = x # xs"
    "executors e' = map_put k (q\<lparr>bq_queue := xs\<rparr>) (executors e)"
    using assms(1) by (cases "bq_queue (the (map_of (executors e) k))")
      (auto simp: WorkingThread_round_def bind_eq_Some_conv BQ_Take_def Let_def split: if_splits option.splits)
  show ?thesis using sum_map_put [OF assms(2) q(1), of "\<lambda>kq. length (bq_queue (snd kq))" "q\<lparr>bq_queue := xs\<rparr>"]
    by (simp add: queued_def q(2,3))
qed

text \<open>While \<open>Stop\<close> holds the mutex every step, of whichever thread, brings it nearer to its end.\<close>

lemma stop_measure_step:
  assumes "exec_step routing e e'" and "exec_inv e" and "phase e \<noteq> Running"
  shows "stop_measure e' < stop_measure e"
  using assms(1)
proof cases
  case (work k)
  then show ?thesis using queued_work [OF work] assms(2) by (simp add: stop_measure_def exec_inv_def WorkingThread_round_rest)
next
  case stop_put
  then obtain k ks e1 where e1: "phase e = Stopping (k # ks)" "put_to k None e = Some e1" "e' = e1\<lparr>phase := Stopping ks\<rparr>"
    by (auto simp: Stop_put_def split: stop_phase.splits list.splits)
  then show ?thesis using queued_put_to [OF e1(2)] assms(2) by (simp add: stop_measure_def queued_def exec_inv_def)
qed (use assms(3) in \<open>auto simp: Stop_begin_def Stop_join_def stop_measure_def queued_def split: if_splits\<close>)

text \<open>And some step is always possible: a thread that has not returned has the end mark still in its queue, or is yet to be sent it.\<close>

lemma WorkingThread_round_ready:
  assumes "k \<in> alive e" and "map_of (executors e) k = Some q" and "bq_queue q \<noteq> []"
  shows "WorkingThread_round k e \<noteq> None"
  using assms by (auto simp: WorkingThread_round_def BQ_Take_def neq_Nil_conv)

lemma stop_progress:
  assumes "exec_inv e" and "phase e = Stopping ks"
  shows "\<exists>e'. exec_step routing e e'"
proof (cases "alive e = {} \<and> ks = []")
  case True
  then show ?thesis using assms(2) by (metis Stop_join_def exec_step.stop_join)
next
  case False
  have inv: "queue_ok e k" "ends_ok e k" for k using assms(1) by (simp_all add: exec_inv_def)
  have st: "\<not> ex_stopped e" "set ks \<subseteq> dom (map_of (executors e))" "distinct ks" using assms by (simp_all add: exec_inv_def keys_map_of)
  have ready: "WorkingThread_round k e \<noteq> None" if "k \<in> alive e" "map_of (executors e) k = Some q" "bq_queue q \<noteq> []" for k q
    using WorkingThread_round_ready that by blast
  show ?thesis
  proof (cases ks)
    case Nil
    then obtain k where k: "k \<in> alive e" using False by blast
    then obtain q where q: "map_of (executors e) k = Some q" using inv(1) [of k] by (cases "map_of (executors e) k") (auto simp: queue_ok_def)
    then have "ended (map Some (executed e k) @ bq_queue q)" using inv [of k] k Nil st assms(2) by (simp add: queue_ok_def ends_ok_def)
    then have "bq_queue q \<noteq> []" by (auto simp: ended_def last_map)
    then show ?thesis using ready [OF k q] exec_step.work by blast
  next
    case (Cons k ks')
    then obtain q where q: "map_of (executors e) k = Some q" using st(2) by auto
    show ?thesis
    proof (cases "length (bq_queue q) < 32")
      case True
      then have "put_to k None e \<noteq> None" using q inv(1) [of k] by (simp add: put_to_def BQ_Put_def queue_ok_def)
      then show ?thesis using assms(2) Cons by (auto simp: Stop_put_def intro!: exec_step.stop_put)
    next
      case False
      then have "bq_queue q \<noteq> []" by auto
      moreover have "k \<in> alive e"
        using inv [of k] q st Cons assms(2) by (auto simp: queue_ok_def ends_ok_def split: if_splits)
      ultimately show ?thesis using ready [OF _ q] exec_step.work by blast
    qed
  qed
qed

text \<open>A step taken while \<open>Stop\<close> holds the mutex, and what all runs of such steps have in common.\<close>

definition stop_step :: "('r \<Rightarrow> nat \<Rightarrow> int) \<Rightarrow> 'r RequestExector \<Rightarrow> 'r RequestExector \<Rightarrow> bool" where
  "stop_step routing e e' \<longleftrightarrow> phase e \<noteq> Running \<and> exec_step routing e e'"

definition drained :: "'r RequestExector \<Rightarrow> bool" where
  "drained e \<longleftrightarrow> ex_stopped e \<and> alive e = {} \<and>
     (\<forall>k q. map_of (executors e) k = Some q \<longrightarrow> bq_queue q = [] \<and> sent e k = map Some (executed e k) @ [None])"

lemma stop_step_ends:
  assumes "exec_step routing e e'" and "exec_inv e" and "phase e \<noteq> Running" and "phase e' = Running"
  shows "drained e'"
  using assms(1)
proof cases
  case stop_join
  then show ?thesis using Stop_join_drained [OF assms(2) stop_join] by (auto simp: drained_def Stop_join_def split: if_splits)
qed (use assms(3,4) in \<open>auto simp: WorkingThread_round_rest Stop_begin_def Stop_put_def split: stop_phase.splits list.splits if_splits\<close>)

lemma stop_steps:
  assumes "(stop_step routing ^^ n) e e'" and "exec_inv e" and "phase e \<noteq> Running"
  shows "exec_inv e' \<and> n + stop_measure e' \<le> stop_measure e \<and> (phase e' = Running \<longrightarrow> drained e')"
  using assms(1)
proof (induction n arbitrary: e')
  case 0
  then show ?case using assms(2,3) by simp
next
  case (Suc n)
  then obtain e1 where run: "(stop_step routing ^^ n) e e1" "stop_step routing e1 e'" by (auto elim: relcomppE)
  then have e1: "exec_step routing e1 e'" "phase e1 \<noteq> Running" by (simp_all add: stop_step_def)
  then have "exec_inv e1" "n + stop_measure e1 \<le> stop_measure e" using Suc.IH run(1) by blast+
  then show ?case using e1 exec_inv_step stop_measure_step stop_step_ends by fastforce
qed


section \<open>After Stop\<close>

text \<open>A thread that has returned never runs anything again: \<open>Enqueue\<close> finds its executor in the map and makes no new one.\<close>

lemma returned_step:
  assumes "exec_step routing e e'" and "ordered (executors e)" and "map_of (executors e) k \<noteq> None" and "k \<notin> alive e"
  shows "map_of (executors e') k \<noteq> None \<and> k \<notin> alive e' \<and> executed e' k = executed e k"
  using assms(1)
proof cases
  case (submit r)
  show ?thesis
  proof (rule Enqueue_ok [OF submit(2)])
    fix j c
    let ?e = "with_executor j (e\<lparr>current := c\<rparr>)"
    assume p: "put_to j (Some r) ?e = Some e'"
    have w: "ordered (executors ?e)" "map_of (executors ?e) k \<noteq> None" "k \<notin> alive ?e" "executed ?e = executed e"
      using assms(2-4) by (auto simp: with_executor_def ordered_map_put map_of_map_put)
    show ?thesis by (rule put_to_facts [OF p w(1)]) (use w put_to_rest [OF p] in auto)
  qed
next
  case (work j)
  show ?thesis by (rule WorkingThread_round_facts [OF work assms(2)]) (use assms(3,4) in \<open>auto split: option.splits\<close>)
next
  case stop_put
  then obtain j ks e1 where e1: "put_to j None e = Some e1" "e' = e1\<lparr>phase := Stopping ks\<rparr>"
    by (auto simp: Stop_put_def split: stop_phase.splits list.splits)
  show ?thesis by (rule put_to_facts [OF e1(1) assms(2)]) (use assms(3,4) put_to_rest [OF e1(1)] e1(2) in auto)
qed (use assms(3,4) in \<open>auto simp: Stop_begin_def Stop_join_def split: if_splits\<close>)

lemma returned_steps:
  assumes "(exec_step routing)\<^sup>*\<^sup>* e e'" and "exec_inv e" and "map_of (executors e) k \<noteq> None" and "k \<notin> alive e"
  shows "exec_inv e' \<and> map_of (executors e') k \<noteq> None \<and> k \<notin> alive e' \<and> executed e' k = executed e k"
  using assms(1)
proof (induction rule: rtranclp_induct)
  case base
  then show ?case using assms(2-4) by blast
next
  case (step e1 e2)
  then have "ordered (executors e1)" by (simp add: exec_inv_def)
  then show ?case using step returned_step [OF step.hyps(2)] exec_inv_step by metis
qed

text \<open>\<open>HandleRequest\<close> does not look at \<open>stopped_\<close>: a request handed to an executor after \<open>Stop\<close> is put into the queue of a
  thread that has returned, and in no continuation is it run by it, so that a caller that waits for
  it waits for ever.\<close>

theorem HandleRequest_after_Stop:
  assumes "exec_reachable routing p e0" and "Stop_join e0 = Some e" and "map_of (executors e) k \<noteq> None"
    and "k = (if routing r (parallel e) = -1 then int (current e) else routing r (parallel e))"
    and "HandleRequest routing IsAsync (Some r) e = Inr (Some (e1, waits))" and "(exec_step routing)\<^sup>*\<^sup>* e1 e'"
  shows "sent e1 k = sent e k @ [Some r] \<and> executed e' k = executed e k \<and> waits = (\<not> IsAsync r)"
proof -
  have e: "exec_inv e" "phase e = Running" "alive e = {}"
    using exec_inv_reachable [OF assms(1)] exec_inv_stop_join [OF _ assms(2)] assms(2) by (auto simp: Stop_join_def split: if_splits)
  have q: "Enqueue routing r e = Inr (Some e1)" "waits = (\<not> IsAsync r)"
    using assms(5) by (auto simp: HandleRequest_def bnd_eq_Inr)
  have st: "exec_step routing e e1" by (rule exec_step.submit [OF e(2) q(1)])
  have ord: "ordered (executors e)" using e(1) by (simp add: exec_inv_def)
  have "executed e1 k = executed e k" "k \<notin> alive e1" "map_of (executors e1) k \<noteq> None"
    using returned_step [OF st ord assms(3)] e(3) by auto
  then have "executed e' k = executed e k"
    using returned_steps [OF assms(6) exec_inv_step [OF st e(1)]] by simp
  moreover have "sent e1 k = sent e k @ [Some r]"
  proof (rule Enqueue_ok [OF q(1)])
    fix j c
    let ?e = "with_executor j (e\<lparr>current := c\<rparr>)"
    assume p: "put_to j (Some r) ?e = Some e1" and j: "j = (if routing r (parallel e) = -1 then int (current e) else routing r (parallel e))"
    have w: "ordered (executors ?e)" "sent ?e = sent e" using ord by (auto simp: with_executor_def ordered_map_put)
    show ?thesis by (rule put_to_facts [OF p w(1)]) (use w assms(4) j in auto)
  qed
  ultimately show ?thesis using q(2) by simp
qed

section \<open>A run\<close>

text \<open>One executor, one request, \<open>Stop\<close>, and a request that comes too late.\<close>

definition sample_state :: "nat \<Rightarrow> stop_phase \<Rightarrow> bool \<Rightarrow> nat option list \<Rightarrow> bool \<Rightarrow> nat option list \<Rightarrow> nat list \<Rightarrow> nat RequestExector" where
  "sample_state c ph st q al s x = \<lparr>parallel = 1, current = c, ex_stopped = st, phase = ph,
     executors = [(0, \<lparr>bq_queue = q, bq_capacity = 32\<rparr>)], alive = (if al then {0} else {}),
     sent = (\<lambda>_. [])(0 := s), executed = (\<lambda>_. [])(0 := x)\<rparr>"

abbreviation no_routing :: "nat \<Rightarrow> nat \<Rightarrow> int" where "no_routing r n \<equiv> -1"

lemmas executor_defs = Enqueue_def HandleRequest_def with_executor_def put_to_def BQ_Put_def BQ_Take_def WorkingThread_round_def
  Stop_begin_def Stop_put_def Stop_join_def RequestExector_new_def BlockingQueue_new_def sample_state_def

lemma sample_submitted: "exec_reachable no_routing 1 (sample_state 0 Running False [Some 5] True [Some 5] [])"
  by (rule exec_reachable.step [OF exec_reachable.init exec_step.submit [of _ _ 5]]) (simp_all add: executor_defs fun_eq_iff)

lemma sample_stopping: "exec_reachable no_routing 1 (sample_state 0 (Stopping [0]) False [Some 5] True [Some 5] [])"
  by (rule exec_reachable.step [OF sample_submitted exec_step.stop_begin]) (simp add: executor_defs)

lemma sample_marked: "exec_reachable no_routing 1 (sample_state 0 (Stopping []) False [Some 5, None] True [Some 5, None] [])"
  by (rule exec_reachable.step [OF sample_stopping exec_step.stop_put]) (simp add: executor_defs)

lemma sample_ran: "exec_reachable no_routing 1 (sample_state 0 (Stopping []) False [None] True [Some 5, None] [5])"
  by (rule exec_reachable.step [OF sample_marked exec_step.work [of 0]]) (simp add: executor_defs)

lemma sample_returned: "exec_reachable no_routing 1 (sample_state 0 (Stopping []) False [] False [Some 5, None] [5])"
  by (rule exec_reachable.step [OF sample_ran exec_step.work [of 0]]) (simp add: executor_defs)

lemma sample_run: "(stop_step no_routing ^^ 4) (sample_state 0 (Stopping [0]) False [Some 5] True [Some 5] [])
    (sample_state 0 Running True [] False [Some 5, None] [5])"
proof -
  have "stop_step no_routing (sample_state 0 (Stopping [0]) False [Some 5] True [Some 5] []) (sample_state 0 (Stopping []) False [Some 5, None] True [Some 5, None] [])"
    unfolding stop_step_def by (rule conjI [OF _ exec_step.stop_put]) (simp_all add: executor_defs)
  moreover have "stop_step no_routing (sample_state 0 (Stopping []) False [Some 5, None] True [Some 5, None] []) (sample_state 0 (Stopping []) False [None] True [Some 5, None] [5])"
    unfolding stop_step_def by (rule conjI [OF _ exec_step.work [of 0]]) (simp_all add: executor_defs)
  moreover have "stop_step no_routing (sample_state 0 (Stopping []) False [None] True [Some 5, None] [5]) (sample_state 0 (Stopping []) False [] False [Some 5, None] [5])"
    unfolding stop_step_def by (rule conjI [OF _ exec_step.work [of 0]]) (simp_all add: executor_defs)
  moreover have "stop_step no_routing (sample_state 0 (Stopping []) False [] False [Some 5, None] [5]) (sample_state 0 Running True [] False [Some 5, None] [5])"
    unfolding stop_step_def by (rule conjI [OF _ exec_step.stop_join]) (simp_all add: executor_defs)
  ultimately show ?thesis by (auto simp: numeral_eq_Suc intro: relcomppI)
qed

theorem executor_order_witness:
  "sent (sample_state 0 (Stopping []) False [None] True [Some 5, None] [5]) 0 = [Some 5] @ [] @ [None] \<and> length [None :: nat option] \<le> 32"
  using executor_order [OF sample_ran, of 0] by (simp add: sample_state_def)


theorem HandleRequest_after_Stop_witness:
  "HandleRequest no_routing (\<lambda>_. False) (Some 7) (sample_state 0 Running True [] False [Some 5, None] [5]) =
     Inr (Some (sample_state 0 Running True [Some 7] False [Some 5, None, Some 7] [5], True)) \<and>
   (exec_step no_routing)\<^sup>*\<^sup>* (sample_state 0 Running True [Some 7] False [Some 5, None, Some 7] [5]) (sample_state 0 Running True [Some 7, Some 8] False [Some 5, None, Some 7, Some 8] [5]) \<and>
   executed (sample_state 0 Running True [Some 7, Some 8] False [Some 5, None, Some 7, Some 8] [5]) 0 = [5]"
proof -
  have j: "Stop_join (sample_state 0 (Stopping []) False [] False [Some 5, None] [5]) = Some (sample_state 0 Running True [] False [Some 5, None] [5])"
    by (simp add: executor_defs)
  have h: "HandleRequest no_routing (\<lambda>_. False) (Some 7) (sample_state 0 Running True [] False [Some 5, None] [5]) =
     Inr (Some (sample_state 0 Running True [Some 7] False [Some 5, None, Some 7] [5], True))"
    by (simp add: executor_defs fun_eq_iff)
  have st: "(exec_step no_routing)\<^sup>*\<^sup>* (sample_state 0 Running True [Some 7] False [Some 5, None, Some 7] [5])
      (sample_state 0 Running True [Some 7, Some 8] False [Some 5, None, Some 7, Some 8] [5])"
    by (intro r_into_rtranclp exec_step.submit [of _ _ 8]) (simp_all add: executor_defs fun_eq_iff)
  show ?thesis using HandleRequest_after_Stop [OF sample_returned j _ _ h st, of 0] h st by (simp add: sample_state_def)
qed

end
