(* ===== verification/Meta_Resource.thy ===== *)
theory Meta_Resource
  imports Prelude Ordered_Map "HOL-Library.Char_ord" "HOL-Library.List_Lexorder"
begin

text \<open>
  Reference-counted resources of \<open>new_meta_lab\<close>: \<open>Utils.h\<close>, \<open>Proxy.h\<close>, \<open>Resources.h\<close>, \<open>Resources.inl\<close> and
  \<open>Store.h\<close>. Objects are shared, so they lie in heaps indexed by their address: collections and collection
  commits. A callback registered on an object is \<open>OnNoRefCallBack\<close> bound to the object it was registered for,
  and is represented by that object's address. Identifiers and counts are integers; the clock and the
  random number are arguments.
\<close>

section \<open>Objects\<close>

datatype MetaState = PENDING | ACTIVE | DEACTIVE

record DBBaseResource =
  res_id :: int
  res_status :: MetaState
  created_on :: int
  refcnt :: int
  on_no_ref_cbs :: "nat list"

record Collection = DBBaseResource +
  coll_name :: string

record CollectionCommit = DBBaseResource +
  mappings :: "int list"
  collection_id :: int

definition Collection_new :: "int \<Rightarrow> string \<Rightarrow> MetaState \<Rightarrow> int \<Rightarrow> Collection" where
  "Collection_new i n st ts = \<lparr>res_id = i, res_status = st, created_on = ts, refcnt = 0, on_no_ref_cbs = [], coll_name = n\<rparr>"

definition CollectionCommit_new :: "int \<Rightarrow> int \<Rightarrow> int list \<Rightarrow> MetaState \<Rightarrow> int \<Rightarrow> CollectionCommit" where
  "CollectionCommit_new i cid ms st ts = \<lparr>res_id = i, res_status = st, created_on = ts, refcnt = 0, on_no_ref_cbs = [],
     mappings = ms, collection_id = cid\<rparr>"

definition IsActive :: "('r) DBBaseResource_scheme \<Rightarrow> bool" where "IsActive r \<longleftrightarrow> res_status r = ACTIVE"
definition IsDeactive :: "('r) DBBaseResource_scheme \<Rightarrow> bool" where "IsDeactive r \<longleftrightarrow> res_status r = DEACTIVE"

definition state_number :: "MetaState \<Rightarrow> int" where
  "state_number st = (case st of PENDING \<Rightarrow> 0 | ACTIVE \<Rightarrow> 1 | DEACTIVE \<Rightarrow> 2)"

definition Resource_ToString :: "('r) DBBaseResource_scheme \<Rightarrow> string" where
  "Resource_ToString r = ''ID='' @ show_integer (res_id r) @ '', Status='' @ show_integer (state_number (res_status r)) @
     '', TS='' @ show_integer (created_on r)"

definition Collection_ToString :: "Collection \<Rightarrow> string" where
  "Collection_ToString c = ''<'' @ Resource_ToString c @ '', Name='' @ coll_name c @ ''>''"

fun show_mappings :: "bool \<Rightarrow> int list \<Rightarrow> string" where
  "show_mappings first [] = ''''"
| "show_mappings first (i # is) = (if first then '''' else '', '') @ show_integer i @ show_mappings False is"

definition CollectionCommit_ToString :: "CollectionCommit \<Rightarrow> string" where
  "CollectionCommit_ToString c = ''<'' @ Resource_ToString c @ '', Mappings=['' @ show_mappings True (mappings c) @ '']>''"

section \<open>ReferenceProxy\<close>

definition Ref :: "('r) DBBaseResource_scheme \<Rightarrow> ('r) DBBaseResource_scheme" where
  "Ref r = r\<lparr>refcnt := refcnt r + 1\<rparr>"

definition RegisterOnNoRefCB :: "nat \<Rightarrow> ('r) DBBaseResource_scheme \<Rightarrow> ('r) DBBaseResource_scheme" where
  "RegisterOnNoRefCB cb r = r\<lparr>on_no_ref_cbs := on_no_ref_cbs r @ [cb]\<rparr>"

text \<open>\<open>UnRef\<close> without the callbacks: the object afterwards and the callbacks to run.\<close>

definition UnRef :: "('r) DBBaseResource_scheme \<Rightarrow> ('r) DBBaseResource_scheme \<times> nat list" where
  "UnRef r =
     (if refcnt r = 0 then (r, [])
      else let r = r\<lparr>refcnt := refcnt r - 1\<rparr> in (r, if refcnt r = 0 then on_no_ref_cbs r else []))"

text \<open>Access through a pointer.\<close>

definition deref :: "'o list \<Rightarrow> nat \<Rightarrow> 'o outcome" where
  "deref h p = (if p < length h then Inr (h ! p) else Inl DanglingUse)"

section \<open>The store and the holders\<close>

record Meta =
  colls :: "Collection list"
  commits :: "CollectionCommit list"
  id_collections :: "(int \<times> nat) list"
  name_collections :: "(string \<times> nat) list"
  collection_commit :: "(int \<times> nat) list"
  coll_id_map :: "(int \<times> nat) list"
  coll_name_map :: "(string \<times> nat) list"
  commit_id_map :: "(int \<times> nat) list"

definition Meta_empty :: Meta where
  "Meta_empty = \<lparr>colls = [], commits = [], id_collections = [], name_collections = [], collection_commit = [],
     coll_id_map = [], coll_name_map = [], commit_id_map = []\<rparr>"

text \<open>The constructor of \<open>Store\<close>: \<open>random\<close> collections with a commit each; \<open>clock i\<close> is the time read
  for the \<open>i\<close>-th object.\<close>

fun Store_fill :: "(nat \<Rightarrow> int) \<Rightarrow> nat \<Rightarrow> Meta \<Rightarrow> Meta" where
  "Store_fill clock 0 w = w"
| "Store_fill clock (Suc n) w =
     (let w = Store_fill clock n w; i = int (Suc n); nm = ''c_'' @ show_nat (Suc n);
          c = length (colls w);
          w = w\<lparr>colls := colls w @ [Collection_new i nm PENDING (clock (2 * n))],
                id_collections := map_put i c (id_collections w), name_collections := map_put nm c (name_collections w)\<rparr>;
          cc = length (commits w)
      in w\<lparr>commits := commits w @ [CollectionCommit_new i i [] PENDING (clock (2 * n + 1))],
           collection_commit := map_put i cc (collection_commit w)\<rparr>)"

definition Store_new :: "nat \<Rightarrow> (nat \<Rightarrow> int) \<Rightarrow> Meta" where
  "Store_new rnd clock = Store_fill clock (rnd mod 5 + 5) Meta_empty"

text \<open>Loading makes a new object with the data of the stored one.\<close>

definition Store_copy_collection :: "nat \<Rightarrow> Meta \<Rightarrow> (nat \<times> Meta) outcome" where
  "Store_copy_collection p w = bnd (deref (colls w) p) (\<lambda>c.
     Inr (length (colls w), w\<lparr>colls := colls w @ [Collection_new (res_id c) (coll_name c) (res_status c) (created_on c)]\<rparr>))"

definition Store_GetCollection :: "int \<Rightarrow> Meta \<Rightarrow> (nat option \<times> Meta) outcome" where
  "Store_GetCollection i w =
     (case map_of (id_collections w) i of None \<Rightarrow> Inr (None, w)
      | Some p \<Rightarrow> bnd (Store_copy_collection p w) (\<lambda>(q, w). Inr (Some q, w)))"

definition Store_GetCollection_name :: "string \<Rightarrow> Meta \<Rightarrow> (nat option \<times> Meta) outcome" where
  "Store_GetCollection_name n w =
     (case map_of (name_collections w) n of None \<Rightarrow> Inr (None, w)
      | Some p \<Rightarrow> bnd (Store_copy_collection p w) (\<lambda>(q, w). Inr (Some q, w)))"

definition RemoveCollection :: "int \<Rightarrow> Meta \<Rightarrow> (bool \<times> Meta) outcome" where
  "RemoveCollection i w =
     (case map_of (id_collections w) i of None \<Rightarrow> Inr (False, w)
      | Some p \<Rightarrow> bnd (deref (colls w) p) (\<lambda>c.
          Inr (True, w\<lparr>id_collections := map_erase i (id_collections w),
                       name_collections := map_erase (coll_name c) (name_collections w)\<rparr>)))"

definition Store_GetCollectionCommit :: "int \<Rightarrow> Meta \<Rightarrow> (nat option \<times> Meta) outcome" where
  "Store_GetCollectionCommit i w =
     (case map_of (collection_commit w) i of None \<Rightarrow> Inr (None, w)
      | Some p \<Rightarrow> bnd (deref (commits w) p) (\<lambda>c. Inr (Some (length (commits w)),
          w\<lparr>commits := commits w @ [CollectionCommit_new (res_id c) (collection_id c) (mappings c) (res_status c) (created_on c)]\<rparr>)))"

definition RemoveCollectionCommit :: "int \<Rightarrow> Meta \<Rightarrow> bool \<times> Meta" where
  "RemoveCollectionCommit i w =
     (if map_of (collection_commit w) i = None then (False, w)
      else (True, w\<lparr>collection_commit := map_erase i (collection_commit w)\<rparr>))"

subsection \<open>ResourceHolder\<close>

text \<open>The members of the template, on the heap and the map of the instance. \<open>AddNoLock\<close> registers the
  callback of the holder on the resource.\<close>

definition AddNoLock ::
  "nat option \<Rightarrow> ('r) DBBaseResource_scheme list \<Rightarrow> (int \<times> nat) list \<Rightarrow> (bool \<times> ('r) DBBaseResource_scheme list \<times> (int \<times> nat) list) outcome" where
  "AddNoLock res h m =
     (case res of None \<Rightarrow> Inr (False, h, m)
      | Some p \<Rightarrow> bnd (deref h p) (\<lambda>r.
          if map_of m (res_id r) \<noteq> None then Inr (False, h, m)
          else Inr (True, h[p := RegisterOnNoRefCB p r], map_put (res_id r) p m)))"

definition ReleaseNoLock :: "int \<Rightarrow> (int \<times> nat) list \<Rightarrow> bool \<times> (int \<times> nat) list" where
  "ReleaseNoLock i m = (if map_of m i = None then (False, m) else (True, map_erase i m))"

text \<open>A \<open>ScopedResource\<close>: constructor and destructor count only if it is scoped.\<close>

record ScopedResource =
  sr_res :: "nat option"
  scoped :: bool

definition ScopedResource_null :: ScopedResource where
  "ScopedResource_null = \<lparr>sr_res = None, scoped = False\<rparr>"

definition ScopedResource_new :: "nat option \<Rightarrow> bool \<Rightarrow> ('r) DBBaseResource_scheme list \<Rightarrow> (ScopedResource \<times> ('r) DBBaseResource_scheme list) outcome" where
  "ScopedResource_new p sc h =
     (if sc then bnd (of_opt NullDeref p) (\<lambda>a. bnd (deref h a) (\<lambda>r. Inr (\<lparr>sr_res = p, scoped = sc\<rparr>, h[a := Ref r])))
      else Inr (\<lparr>sr_res = p, scoped = sc\<rparr>, h))"

subsection \<open>CollectionCommitsHolder\<close>

definition CommitsHolder_Load :: "int \<Rightarrow> Meta \<Rightarrow> (nat option \<times> Meta) outcome" where
  "CommitsHolder_Load i w =
     bnd (Store_GetCollectionCommit i w) (\<lambda>(c, w).
       if c = None then Inr (None, w)
       else bnd (AddNoLock c (commits w) (commit_id_map w)) (\<lambda>(_, h, m). Inr (c, w\<lparr>commits := h, commit_id_map := m\<rparr>)))"

definition CommitsHolder_GetResource :: "int \<Rightarrow> bool \<Rightarrow> Meta \<Rightarrow> (ScopedResource \<times> Meta) outcome" where
  "CommitsHolder_GetResource i sc w =
     (case map_of (commit_id_map w) i of
        None \<Rightarrow> bnd (CommitsHolder_Load i w) (\<lambda>(ret, w).
          if ret = None then Inr (ScopedResource_null, w)
          else bnd (ScopedResource_new ret sc (commits w)) (\<lambda>(s, h). Inr (s, w\<lparr>commits := h\<rparr>)))
      | Some p \<Rightarrow> bnd (ScopedResource_new (Some p) sc (commits w)) (\<lambda>(s, h). Inr (s, w\<lparr>commits := h\<rparr>)))"

definition CommitsHolder_HardDelete :: "int \<Rightarrow> Meta \<Rightarrow> bool \<times> Meta" where
  "CommitsHolder_HardDelete i w = RemoveCollectionCommit i w"

definition CommitsHolder_Release :: "int \<Rightarrow> Meta \<Rightarrow> bool \<times> Meta" where
  "CommitsHolder_Release i w = (let (ok, m) = ReleaseNoLock i (commit_id_map w) in (ok, w\<lparr>commit_id_map := m\<rparr>))"

definition CommitsHolder_OnNoRefCallBack :: "nat \<Rightarrow> Meta \<Rightarrow> Meta outcome" where
  "CommitsHolder_OnNoRefCallBack p w = bnd (deref (commits w) p) (\<lambda>r.
     let w = snd (CommitsHolder_HardDelete (res_id r) w) in Inr (snd (CommitsHolder_Release (res_id r) w)))"

fun run_callbacks :: "(nat \<Rightarrow> 'w \<Rightarrow> 'w outcome) \<Rightarrow> nat list \<Rightarrow> 'w \<Rightarrow> 'w outcome" where
  "run_callbacks cb [] w = Inr w"
| "run_callbacks cb (p # ps) w = bnd (cb p w) (run_callbacks cb ps)"

definition Commit_UnRef :: "nat \<Rightarrow> Meta \<Rightarrow> Meta outcome" where
  "Commit_UnRef p w = bnd (deref (commits w) p) (\<lambda>r.
     let (r, cbs) = UnRef r in run_callbacks CommitsHolder_OnNoRefCallBack cbs (w\<lparr>commits := (commits w)[p := r]\<rparr>))"

subsection \<open>CollectionsHolder\<close>

definition CollectionsHolder_Load :: "int \<Rightarrow> Meta \<Rightarrow> (nat option \<times> Meta) outcome" where
  "CollectionsHolder_Load i w =
     bnd (Store_GetCollection i w) (\<lambda>(c, w).
       if c = None then Inr (None, w)
       else bnd (AddNoLock c (colls w) (coll_id_map w)) (\<lambda>(_, h, m). Inr (c, w\<lparr>colls := h, coll_id_map := m\<rparr>)))"

definition CollectionsHolder_Load_name :: "string \<Rightarrow> Meta \<Rightarrow> (nat option \<times> Meta) outcome" where
  "CollectionsHolder_Load_name n w =
     bnd (Store_GetCollection_name n w) (\<lambda>(c, w).
       if c = None then Inr (None, w)
       else bnd (AddNoLock c (colls w) (coll_id_map w)) (\<lambda>(_, h, m). Inr (c, w\<lparr>colls := h, coll_id_map := m\<rparr>)))"

definition CollectionsHolder_GetResource :: "int \<Rightarrow> bool \<Rightarrow> Meta \<Rightarrow> (ScopedResource \<times> Meta) outcome" where
  "CollectionsHolder_GetResource i sc w =
     (case map_of (coll_id_map w) i of
        None \<Rightarrow> bnd (CollectionsHolder_Load i w) (\<lambda>(ret, w).
          if ret = None then Inr (ScopedResource_null, w)
          else bnd (ScopedResource_new ret sc (colls w)) (\<lambda>(s, h). Inr (s, w\<lparr>colls := h\<rparr>)))
      | Some p \<Rightarrow> bnd (ScopedResource_new (Some p) sc (colls w)) (\<lambda>(s, h). Inr (s, w\<lparr>colls := h\<rparr>)))"

definition CollectionsHolder_GetCollection :: "string \<Rightarrow> bool \<Rightarrow> Meta \<Rightarrow> (ScopedResource \<times> Meta) outcome" where
  "CollectionsHolder_GetCollection n sc w =
     (case map_of (coll_name_map w) n of
        None \<Rightarrow> bnd (CollectionsHolder_Load_name n w) (\<lambda>(ret, w).
          if ret = None then Inr (ScopedResource_null, w)
          else bnd (ScopedResource_new ret sc (colls w)) (\<lambda>(s, h). Inr (s, w\<lparr>colls := h\<rparr>)))
      | Some p \<Rightarrow> bnd (ScopedResource_new (Some p) sc (colls w)) (\<lambda>(s, h). Inr (s, w\<lparr>colls := h\<rparr>)))"

definition CollectionsHolder_Add :: "nat option \<Rightarrow> Meta \<Rightarrow> (bool \<times> Meta) outcome" where
  "CollectionsHolder_Add res w =
     (if res = None then Inr (False, w)
      else bnd (AddNoLock res (colls w) (coll_id_map w)) (\<lambda>(ok, h, m). Inr (ok, w\<lparr>colls := h, coll_id_map := m\<rparr>)))"

definition CollectionsHolder_Release_name :: "string \<Rightarrow> Meta \<Rightarrow> (bool \<times> Meta) outcome" where
  "CollectionsHolder_Release_name n w =
     (case map_of (coll_name_map w) n of None \<Rightarrow> Inr (False, w)
      | Some p \<Rightarrow> bnd (deref (colls w) p) (\<lambda>c.
          Inr (True, w\<lparr>coll_id_map := map_erase (res_id c) (coll_id_map w), coll_name_map := map_erase n (coll_name_map w)\<rparr>)))"

text \<open>\<open>Release\<close> by identifier erases the entry and then reads the name through the erased iterator.\<close>

definition CollectionsHolder_Release :: "int \<Rightarrow> Meta \<Rightarrow> (bool \<times> Meta) outcome" where
  "CollectionsHolder_Release i w =
     (if map_of (coll_id_map w) i = None then Inr (False, w) else Inl DanglingUse)"

definition CollectionsHolder_HardDelete :: "int \<Rightarrow> Meta \<Rightarrow> (bool \<times> Meta) outcome" where
  "CollectionsHolder_HardDelete i w = RemoveCollection i w"

definition CollectionsHolder_OnNoRefCallBack :: "nat \<Rightarrow> Meta \<Rightarrow> Meta outcome" where
  "CollectionsHolder_OnNoRefCallBack p w = bnd (deref (colls w) p) (\<lambda>r.
     bnd (CollectionsHolder_HardDelete (res_id r) w) (\<lambda>(_, w).
     bnd (CollectionsHolder_Release (res_id r) w) (\<lambda>(_, w). Inr w)))"

definition Collection_UnRef :: "nat \<Rightarrow> Meta \<Rightarrow> Meta outcome" where
  "Collection_UnRef p w = bnd (deref (colls w) p) (\<lambda>r.
     let (r, cbs) = UnRef r in run_callbacks CollectionsHolder_OnNoRefCallBack cbs (w\<lparr>colls := (colls w)[p := r]\<rparr>))"

text \<open>\<open>Dump\<close> of a holder: one line per resource; the name of the class comes from \<open>typeid\<close>.\<close>

definition Holder_Dump :: "string \<Rightarrow> (nat \<Rightarrow> string) \<Rightarrow> string \<Rightarrow> (int \<times> nat) list \<Rightarrow> string" where
  "Holder_Dump class_name to_string tag m =
     class_name @ '' Dump Start ['' @ tag @ '']:'' @ show_nat (length m) @ [CHR 0x0A] @
     concat (map (\<lambda>(i, p). [CHR 0x09] @ to_string p @ [CHR 0x0A]) m) @
     class_name @ '' Dump   End ['' @ tag @ '']'' @ [CHR 0x0A]"

end
