(* ===== verification/Meta_Snapshot.thy ===== *)
theory Meta_Snapshot
  imports Meta_Resource
begin

text \<open>
  Snapshots and the holder that keeps the newest of them (\<open>new_meta_lab/Snapshots.h\<close>). A snapshot holds one
  reference to a collection commit and one to its collection. The calls made under a mutex are single
  steps; \<open>Add\<close>, \<open>GetSnapshot\<close> and a round of \<open>BackgroundGC\<close> are functions on the state.
\<close>

section \<open>Snapshot\<close>

record Snapshot =
  ss_collection :: "nat option"
  ss_commit :: "nat option"
  ss_refcnt :: int
  ss_cbs :: "nat list"

record SnapshotsHolder =
  meta :: Meta
  snaps :: "Snapshot list"
  min_id :: int
  max_id :: int
  active :: "(int \<times> nat option) list"
  to_release :: "nat option list"
  num_versions :: nat
  ss_done :: bool

definition ID_MAX :: int where "ID_MAX = 2 ^ 63 - 1"
definition ID_MIN :: int where "ID_MIN = - (2 ^ 63)"

definition SnapshotsHolder_new :: "nat \<Rightarrow> Meta \<Rightarrow> SnapshotsHolder" where
  "SnapshotsHolder_new n w = \<lparr>meta = w, snaps = [], min_id = ID_MAX, max_id = ID_MIN, active = [], to_release = [],
     num_versions = n, ss_done = False\<rparr>"

text \<open>A call of \<open>Ref\<close> through a handle.\<close>

definition ref_at :: "nat option \<Rightarrow> ('r) DBBaseResource_scheme list \<Rightarrow> ('r) DBBaseResource_scheme list outcome" where
  "ref_at p h = bnd (of_opt NullDeref p) (\<lambda>a. bnd (deref h a) (\<lambda>r. Inr (h[a := Ref r])))"

definition Snapshot_new :: "int \<Rightarrow> Meta \<Rightarrow> (Snapshot \<times> Meta) outcome" where
  "Snapshot_new i w =
     bnd (CommitsHolder_GetResource i False w) (\<lambda>(cc, w).
     bnd (guard AssertFailed (sr_res cc \<noteq> None)) (\<lambda>_.
     bnd (of_opt NullDeref (sr_res cc)) (\<lambda>p.
     bnd (deref (commits w) p) (\<lambda>r.
     bnd (CollectionsHolder_GetResource (collection_id r) False w) (\<lambda>(c, w).
     bnd (ref_at (sr_res cc) (commits w)) (\<lambda>h. let w = w\<lparr>commits := h\<rparr> in
     bnd (ref_at (sr_res c) (colls w)) (\<lambda>h. let w = w\<lparr>colls := h\<rparr> in
       Inr (\<lparr>ss_collection = sr_res c, ss_commit = sr_res cc, ss_refcnt = 0, ss_cbs = []\<rparr>, w))))))))"

definition Snapshot_GetID :: "Snapshot \<Rightarrow> Meta \<Rightarrow> int outcome" where
  "Snapshot_GetID s w = bnd (of_opt NullDeref (ss_commit s)) (\<lambda>p. bnd (deref (commits w) p) (\<lambda>r. Inr (res_id r)))"

definition UnRefAll :: "nat \<Rightarrow> SnapshotsHolder \<Rightarrow> SnapshotsHolder outcome" where
  "UnRefAll p h = bnd (deref (snaps h) p) (\<lambda>s.
     bnd (of_opt NullDeref (ss_commit s)) (\<lambda>cc. bnd (Commit_UnRef cc (meta h)) (\<lambda>w.
     bnd (of_opt NullDeref (ss_collection s)) (\<lambda>c. bnd (Collection_UnRef c w) (\<lambda>w. Inr (h\<lparr>meta := w\<rparr>))))))"

text \<open>\<open>ReferenceProxy::UnRef\<close> on a snapshot; its callbacks are \<open>UnRefAll\<close>.\<close>

definition Snapshot_UnRef :: "nat \<Rightarrow> SnapshotsHolder \<Rightarrow> SnapshotsHolder outcome" where
  "Snapshot_UnRef p h = bnd (deref (snaps h) p) (\<lambda>s.
     if ss_refcnt s = 0 then Inr h
     else let s = s\<lparr>ss_refcnt := ss_refcnt s - 1\<rparr>; h = h\<lparr>snaps := (snaps h)[p := s]\<rparr>
          in if ss_refcnt s = 0 then run_callbacks UnRefAll (ss_cbs s) h else Inr h)"

section \<open>SnapshotsHolder\<close>

definition ReadyForRelease :: "nat option \<Rightarrow> SnapshotsHolder \<Rightarrow> SnapshotsHolder" where
  "ReadyForRelease p h = h\<lparr>to_release := to_release h @ [p]\<rparr>"

text \<open>The second critical section of \<open>Add\<close>: the version \<open>p\<close>, already referenced and with its callback,
  enters the map, and the oldest one leaves it when there are too many. The value is the result and
  the version to release.\<close>

definition Add_insert :: "int \<Rightarrow> nat \<Rightarrow> SnapshotsHolder \<Rightarrow> (bool \<times> nat option option \<times> SnapshotsHolder) outcome" where
  "Add_insert i p h =
     (if map_of (active h) i \<noteq> None then Inr (False, None, h)
      else let h = (if i < min_id h then h\<lparr>min_id := i\<rparr> else h);
               h = (if max_id h < i then h\<lparr>max_id := i\<rparr> else h);
               h = h\<lparr>active := map_put i (Some p) (active h)\<rparr>
           in if length (active h) \<le> num_versions h then Inr (True, None, h)
              else bnd (of_opt OutOfBounds (map_of (active h) (min_id h))) (\<lambda>oldest.
                let h = h\<lparr>active := map_erase (min_id h) (active h)\<rparr>
                in if active h = [] then Inl OutOfBounds
                   else Inr (True, Some oldest, h\<lparr>min_id := fst (hd (active h))\<rparr>)))"

definition Snapshots_Add :: "int \<Rightarrow> SnapshotsHolder \<Rightarrow> (bool \<times> SnapshotsHolder) outcome" where
  "Snapshots_Add i h =
     (if 0 < length (active h) \<and> i < max_id h then Inr (False, h)
      else bnd (Snapshot_new i (meta h)) (\<lambda>(s, w). let h = h\<lparr>meta := w\<rparr> in
        if ss_done h then Inr (False, h)
        else let p = length (snaps h); s = s\<lparr>ss_cbs := ss_cbs s @ [p], ss_refcnt := ss_refcnt s + 1\<rparr>;
                 h = h\<lparr>snaps := snaps h @ [s]\<rparr>
             in bnd (Add_insert i p h) (\<lambda>(ok, oldest, h).
                  Inr (ok, case oldest of None \<Rightarrow> h | Some q \<Rightarrow> ReadyForRelease q h))))"

text \<open>A handle on a snapshot: \<open>active_[id]\<close> inserts a null pointer when there is no entry.\<close>

definition scoped_snapshot :: "nat option \<Rightarrow> bool \<Rightarrow> SnapshotsHolder \<Rightarrow> (ScopedResource \<times> SnapshotsHolder) outcome" where
  "scoped_snapshot p sc h =
     (if sc then bnd (of_opt NullDeref p) (\<lambda>a. bnd (deref (snaps h) a) (\<lambda>s.
        Inr (\<lparr>sr_res = p, scoped = sc\<rparr>, h\<lparr>snaps := (snaps h)[a := s\<lparr>ss_refcnt := ss_refcnt s + 1\<rparr>]\<rparr>)))
      else Inr (\<lparr>sr_res = p, scoped = sc\<rparr>, h))"

definition GetSnapshot :: "int \<Rightarrow> bool \<Rightarrow> SnapshotsHolder \<Rightarrow> (ScopedResource \<times> SnapshotsHolder) outcome" where
  "GetSnapshot i sc h =
     (if i = 0 \<or> i = max_id h
      then let h = (if map_of (active h) i = None then h\<lparr>active := map_put i None (active h)\<rparr> else h)
           in bnd (of_opt OutOfBounds (map_of (active h) i)) (\<lambda>ss. scoped_snapshot ss sc h)
      else if i < min_id h \<or> max_id h < i then Inr (ScopedResource_null, h)
      else case map_of (active h) i of None \<Rightarrow> Inr (ScopedResource_null, h) | Some ss \<Rightarrow> scoped_snapshot ss sc h)"

definition ScopedSnapshot_delete :: "ScopedResource \<Rightarrow> SnapshotsHolder \<Rightarrow> SnapshotsHolder outcome" where
  "ScopedSnapshot_delete s h = (if scoped s then bnd (of_opt NullDeref (sr_res s)) (\<lambda>p. Snapshot_UnRef p h) else Inr h)"

definition NotifyDone :: "SnapshotsHolder \<Rightarrow> SnapshotsHolder" where
  "NotifyDone h = h\<lparr>ss_done := True\<rparr>"

text \<open>One round of the collector: everything to release is taken out of the queue and given back. \<open>None\<close>
  is the end of the loop. After each version its identifier is printed, which needs its commit.\<close>

fun release_all :: "nat option list \<Rightarrow> SnapshotsHolder \<Rightarrow> SnapshotsHolder outcome" where
  "release_all [] h = Inr h"
| "release_all (ss # sss) h =
     bnd (of_opt NullDeref ss) (\<lambda>p. bnd (Snapshot_UnRef p h) (\<lambda>h.
     bnd (deref (snaps h) p) (\<lambda>s. bnd (Snapshot_GetID s (meta h)) (\<lambda>_. release_all sss h))))"

definition BackgroundGC_round :: "SnapshotsHolder \<Rightarrow> SnapshotsHolder option outcome" where
  "BackgroundGC_round h =
     (if ss_done h then Inr None
      else let sss = to_release h in bnd (release_all sss (h\<lparr>to_release := []\<rparr>)) (\<lambda>h. Inr (Some h)))"

section \<open>The versions kept\<close>

text \<open>The invariant: identifiers in order, at most \<open>num_versions\<close> of them, the bounds exact, no null entry.\<close>

definition versions_ok :: "SnapshotsHolder \<Rightarrow> bool" where
  "versions_ok h \<longleftrightarrow> ordered (active h) \<and> 0 < num_versions h \<and> length (active h) \<le> num_versions h \<and>
     None \<notin> snd ` set (active h) \<and>
     (if active h = [] then min_id h = ID_MAX \<and> max_id h = ID_MIN
      else min_id h = fst (hd (active h)) \<and> max_id h = fst (last (active h)))"

definition keep_newest :: "nat \<Rightarrow> 'a list \<Rightarrow> 'a list" where
  "keep_newest n xs = drop (length xs - n) xs"

lemma versions_ok_new: "0 < n \<Longrightarrow> versions_ok (SnapshotsHolder_new n w)"
  by (simp add: versions_ok_def SnapshotsHolder_new_def)

lemma ordered_le_last: "ordered m \<Longrightarrow> k \<in> fst ` set m \<Longrightarrow> k \<le> fst (last m)"
proof (induction m)
  case (Cons a m)
  have "fst a \<le> fst (last m)" if "m \<noteq> []" using Cons.prems(1) that by (simp add: less_imp_le)
  then show ?case using Cons by auto
qed simp

lemma map_erase_head: "ordered ((k, v) # m) \<Longrightarrow> map_erase k ((k, v) # m) = m"
  by (auto simp: map_erase_def intro!: filter_True)

lemma Add_insert_newest:
  assumes ok: "versions_ok h" and new: "active h = [] \<or> max_id h < i" and range: "ID_MIN \<le> i" "i \<le> ID_MAX"
  shows "\<exists>h'. Add_insert i p h = Inr (True,
      if length (active h) < num_versions h then None else Some (snd (hd (active h))), h') \<and>
    active h' = keep_newest (num_versions h) (active h @ [(i, Some p)]) \<and> versions_ok h' \<and>
    max_id h' = i \<and> num_versions h' = num_versions h \<and> to_release h' = to_release h \<and> meta h' = meta h \<and>
    snaps h' = snaps h \<and> ss_done h' = ss_done h"
proof (cases "active h")
  case Nil
  then show ?thesis using ok range
    by (auto simp: versions_ok_def Add_insert_def Let_def keep_newest_def)
next
  case (Cons kv m)
  obtain k v where kv: "kv = (k, v)" by (cases kv)
  have ord: "ordered (active h)" and bounds: "min_id h = k" "max_id h = fst (last (active h))"
    using ok Cons kv by (auto simp: versions_ok_def)
  have below: "\<forall>j \<in> fst ` set (active h). j < i"
    using ordered_le_last [OF ord] new Cons bounds(2) by fastforce
  then have put: "map_put i (Some p) (active h) = active h @ [(i, Some p)]" by (rule map_put_last)
  have none: "map_of (active h) i = None" using below by (force simp: map_of_eq_None_iff)
  have low: "k < i" using below Cons kv by simp
  have ord': "ordered (active h @ [(i, Some p)])" using ord below by (auto simp: sorted_wrt_append)
  show ?thesis
  proof (cases "length (active h) < num_versions h")
    case True
    then show ?thesis using ok none put ord' low new Cons kv bounds
      by (auto simp: versions_ok_def Add_insert_def Let_def keep_newest_def)
  next
    case False
    then have full: "length (active h) = num_versions h" using ok by (auto simp: versions_ok_def)
    have er: "map_erase k ((k, v) # m @ [(i, Some p)]) = m @ [(i, Some p)]"
      using ord' Cons kv by (intro map_erase_head) simp
    show ?thesis using ok none put ord' low new Cons kv bounds full er
      by (auto simp: versions_ok_def Add_insert_def Let_def keep_newest_def hd_append split: if_splits)
  qed
qed


section \<open>Taking a snapshot\<close>

text \<open>The object a holder delivers for an identifier, loaded or still in the store.\<close>

definition held :: "int \<Rightarrow> (int \<times> nat) list \<Rightarrow> (int \<times> nat) list \<Rightarrow> 'o list \<Rightarrow> 'o option" where
  "held i cached stored h =
     Option.bind (case map_of cached i of Some p \<Rightarrow> Some p | None \<Rightarrow> map_of stored i)
       (\<lambda>p. if p < length h then Some (h ! p) else None)"

definition available :: "int \<Rightarrow> Meta \<Rightarrow> bool" where
  "available i w \<longleftrightarrow> (case held i (commit_id_map w) (collection_commit w) (commits w) of None \<Rightarrow> False
     | Some r \<Rightarrow> held (collection_id r) (coll_id_map w) (id_collections w) (colls w) \<noteq> None)"

lemma AddNoLock_total:
  "p < length h \<Longrightarrow> \<exists>ok m'. AddNoLock (Some p) h m = Inr (ok, h[p := if ok then RegisterOnNoRefCB p (h ! p) else h ! p], m')"
  by (auto simp: AddNoLock_def deref_def)

lemma Commits_GetResource_ok:
  assumes "held i (commit_id_map w) (collection_commit w) (commits w) = Some r"
  shows "\<exists>p w'. CommitsHolder_GetResource i False w = Inr (\<lparr>sr_res = Some p, scoped = False\<rparr>, w') \<and>
    p < length (commits w') \<and> collection_id (commits w' ! p) = collection_id r \<and>
    coll_id_map w' = coll_id_map w \<and> id_collections w' = id_collections w \<and> colls w' = colls w"
proof (cases "map_of (commit_id_map w) i")
  case (Some p)
  then show ?thesis using assms
    by (auto simp: held_def CommitsHolder_GetResource_def ScopedResource_new_def split: if_splits)
next
  case None
  then obtain q where q: "map_of (collection_commit w) i = Some q" "q < length (commits w)" "commits w ! q = r"
    using assms by (auto simp: held_def bind_eq_Some_conv split: if_splits)
  let ?c = "CollectionCommit_new (res_id r) (collection_id r) (mappings r) (res_status r) (created_on r)"
  let ?h = "commits w @ [?c]" and ?p = "length (commits w)"
  obtain ok m' where add: "AddNoLock (Some ?p) ?h (commit_id_map w) =
      Inr (ok, ?h[?p := if ok then RegisterOnNoRefCB ?p (?h ! ?p) else ?h ! ?p], m')"
    using AddNoLock_total [of ?p ?h "commit_id_map w"] by auto
  show ?thesis using None q
    by (simp add: CommitsHolder_GetResource_def CommitsHolder_Load_def Store_GetCollectionCommit_def deref_def add
        ScopedResource_new_def)
      (simp add: RegisterOnNoRefCB_def CollectionCommit_new_def)
qed

lemma Collections_GetResource_ok:
  assumes "held i (coll_id_map w) (id_collections w) (colls w) \<noteq> None"
  shows "\<exists>p w'. CollectionsHolder_GetResource i False w = Inr (\<lparr>sr_res = Some p, scoped = False\<rparr>, w') \<and>
    p < length (colls w') \<and> commits w' = commits w"
proof (cases "map_of (coll_id_map w) i")
  case (Some p)
  then show ?thesis using assms
    by (auto simp: held_def CollectionsHolder_GetResource_def ScopedResource_new_def split: if_splits)
next
  case None
  then obtain q where q: "map_of (id_collections w) i = Some q" "q < length (colls w)"
    using assms by (auto simp: held_def bind_eq_Some_conv split: if_splits)
  let ?r = "colls w ! q"
  let ?c = "Collection_new (res_id ?r) (coll_name ?r) (res_status ?r) (created_on ?r)"
  let ?h = "colls w @ [?c]" and ?p = "length (colls w)"
  obtain ok m' where add: "AddNoLock (Some ?p) ?h (coll_id_map w) =
      Inr (ok, ?h[?p := if ok then RegisterOnNoRefCB ?p (?h ! ?p) else ?h ! ?p], m')"
    using AddNoLock_total [of ?p ?h "coll_id_map w"] by auto
  show ?thesis using None q
    by (simp add: CollectionsHolder_GetResource_def CollectionsHolder_Load_def Store_GetCollection_def
        Store_copy_collection_def deref_def add ScopedResource_new_def)
qed

lemma Snapshot_new_ok:
  assumes "available i w"
  shows "\<exists>s w'. Snapshot_new i w = Inr (s, w') \<and> ss_refcnt s = 0 \<and> ss_cbs s = []"
proof -
  obtain r where r: "held i (commit_id_map w) (collection_commit w) (commits w) = Some r"
    and c: "held (collection_id r) (coll_id_map w) (id_collections w) (colls w) \<noteq> None"
    using assms by (auto simp: available_def split: option.splits)
  obtain p w1 where p: "CommitsHolder_GetResource i False w = Inr (\<lparr>sr_res = Some p, scoped = False\<rparr>, w1)"
    "p < length (commits w1)" "collection_id (commits w1 ! p) = collection_id r"
    "coll_id_map w1 = coll_id_map w" "id_collections w1 = id_collections w" "colls w1 = colls w"
    using Commits_GetResource_ok [OF r] by blast
  obtain q w2 where q: "CollectionsHolder_GetResource (collection_id r) False w1 =
      Inr (\<lparr>sr_res = Some q, scoped = False\<rparr>, w2)" "q < length (colls w2)" "commits w2 = commits w1"
    using Collections_GetResource_ok [of "collection_id r" w1] c p by auto
  show ?thesis using p q by (simp add: Snapshot_new_def ref_at_def deref_def Let_def)
qed


section \<open>Properties\<close>

text \<open>C22. The holder keeps the newest versions. If the commit and the collection of a version are available,
  adding a version newer than all others succeeds, keeps the invariant, leaves exactly the newest
  \<open>num_versions\<close> versions and hands the one pushed out to the collector; a version older than the
  newest is refused and changes nothing.\<close>

theorem Snapshots_Add_keeps_newest:
  assumes "versions_ok h" and "\<not> ss_done h" and "available i (meta h)" and "ID_MIN \<le> i" and "i \<le> ID_MAX"
  shows "(active h \<noteq> [] \<and> i < max_id h \<longrightarrow> Snapshots_Add i h = Inr (False, h)) \<and>
    (active h = [] \<or> max_id h < i \<longrightarrow> (\<exists>h'. Snapshots_Add i h = Inr (True, h') \<and> versions_ok h' \<and>
       active h' = keep_newest (num_versions h) (active h @ [(i, Some (length (snaps h)))]) \<and>
       to_release h' = to_release h @ (if length (active h) < num_versions h then [] else [snd (hd (active h))]) \<and>
       length (snaps h') = Suc (length (snaps h)) \<and> ss_refcnt (snaps h' ! length (snaps h)) = 1))"
proof (intro conjI impI)
  show "Snapshots_Add i h = Inr (False, h)" if "active h \<noteq> [] \<and> i < max_id h"
    using that by (simp add: Snapshots_Add_def)
next
  assume new: "active h = [] \<or> max_id h < i"
  obtain s w where s: "Snapshot_new i (meta h) = Inr (s, w)" "ss_refcnt s = 0" "ss_cbs s = []"
    using Snapshot_new_ok [OF assms(3)] by blast
  let ?p = "length (snaps h)"
  let ?h = "h\<lparr>meta := w, snaps := snaps h @ [s\<lparr>ss_cbs := [?p], ss_refcnt := 1\<rparr>]\<rparr>"
  have "versions_ok ?h" "active ?h = [] \<or> max_id ?h < i" using assms(1) new by (simp_all add: versions_ok_def)
  then obtain h' where h': "Add_insert i ?p ?h = Inr (True,
      if length (active ?h) < num_versions ?h then None else Some (snd (hd (active ?h))), h')"
    "active h' = keep_newest (num_versions ?h) (active ?h @ [(i, Some ?p)])" "versions_ok h'"
    "to_release h' = to_release ?h" "snaps h' = snaps ?h"
    using Add_insert_newest [OF _ _ assms(4,5), of ?h ?p] by blast
  have "Snapshots_Add i h = Inr (True, if length (active h) < num_versions h then h' else ReadyForRelease (snd (hd (active h))) h')"
    using new h'(1) s assms(2) by (auto simp: Snapshots_Add_def Let_def)
  then show "\<exists>h'. Snapshots_Add i h = Inr (True, h') \<and> versions_ok h' \<and>
       active h' = keep_newest (num_versions h) (active h @ [(i, Some (length (snaps h)))]) \<and>
       to_release h' = to_release h @ (if length (active h) < num_versions h then [] else [snd (hd (active h))]) \<and>
       length (snaps h') = Suc (length (snaps h)) \<and> ss_refcnt (snaps h' ! length (snaps h)) = 1"
    using h' by (auto simp: ReadyForRelease_def versions_ok_def)
qed

text \<open>The program of \<open>main.cpp\<close> up to the first collection: one version kept, two added.\<close>

definition main_holder :: "SnapshotsHolder outcome" where
  "main_holder = bnd (Snapshots_Add 1 (SnapshotsHolder_new 1 (Store_new 0 (\<lambda>_. 0)))) (\<lambda>(_, h).
     bnd (Snapshots_Add 2 h) (\<lambda>(_, h). Inr h))"

theorem Snapshots_Add_keeps_newest_witness:
  "\<exists>h'. Snapshots_Add 3 (SnapshotsHolder_new 1 (Store_new 0 (\<lambda>_. 0))) = Inr (True, h') \<and> versions_ok h' \<and>
     active h' = [(3, Some 0)]"
proof -
  let ?h = "SnapshotsHolder_new 1 (Store_new 0 (\<lambda>_. 0))"
  have "available 3 (meta ?h)" by code_simp
  then show ?thesis
    using Snapshots_Add_keeps_newest [OF versions_ok_new, of 1 "Store_new 0 (\<lambda>_. 0)" 3]
    by (auto simp: SnapshotsHolder_new_def ID_MIN_def ID_MAX_def keep_newest_def)
qed

lemma commit_callbacks_frame:
  "run_callbacks CommitsHolder_OnNoRefCallBack ps w = Inl DanglingUse \<or>
   (\<exists>w'. run_callbacks CommitsHolder_OnNoRefCallBack ps w = Inr w' \<and> colls w' = colls w \<and> coll_id_map w' = coll_id_map w)"
proof (induction ps arbitrary: w)
  case (Cons q ps)
  show ?case
  proof (cases "q < length (commits w)")
    case True
    define w1 where "w1 = snd (CommitsHolder_Release (res_id (commits w ! q))
        (snd (CommitsHolder_HardDelete (res_id (commits w ! q)) w)))"
    have "colls w1 = colls w" "coll_id_map w1 = coll_id_map w"
      by (simp_all add: w1_def CommitsHolder_Release_def CommitsHolder_HardDelete_def RemoveCollectionCommit_def
          ReleaseNoLock_def)
    then show ?thesis using Cons [of w1] True
      by (simp add: CommitsHolder_OnNoRefCallBack_def deref_def Let_def flip: w1_def)
  qed (simp add: CommitsHolder_OnNoRefCallBack_def deref_def)
qed simp

lemma Commit_UnRef_frame:
  "Commit_UnRef p w = Inl DanglingUse \<or>
   (\<exists>w'. Commit_UnRef p w = Inr w' \<and> colls w' = colls w \<and> coll_id_map w' = coll_id_map w)"
proof (cases "p < length (commits w)")
  case True
  obtain r cbs where "UnRef (commits w ! p) = (r, cbs)" by (cases "UnRef (commits w ! p)")
  then show ?thesis using True commit_callbacks_frame [of cbs "w\<lparr>commits := (commits w)[p := r]\<rparr>"]
    by (simp add: Commit_UnRef_def deref_def)
qed (simp add: Commit_UnRef_def deref_def)

lemma Collection_UnRef_dangles:
  assumes "c < length (colls w)" and "refcnt (colls w ! c) = 1" and "on_no_ref_cbs (colls w ! c) = c # ps"
    and "map_of (coll_id_map w) (res_id (colls w ! c)) \<noteq> None"
  shows "Collection_UnRef c w = Inl DanglingUse"
proof -
  have "CollectionsHolder_OnNoRefCallBack c (w\<lparr>colls := (colls w)[c := (colls w ! c)\<lparr>refcnt := 0\<rparr>]\<rparr>) = Inl DanglingUse"
    using assms(1,4)
    by (auto simp: CollectionsHolder_OnNoRefCallBack_def deref_def CollectionsHolder_HardDelete_def RemoveCollection_def
        CollectionsHolder_Release_def split: option.splits)
  then show ?thesis using assms by (simp add: Collection_UnRef_def deref_def UnRef_def Let_def)
qed

text \<open>Releasing a version. When the last reference to a snapshot is given back, the snapshot's
  collection has no other reference and is still in its holder, the execution uses an erased map
  iterator: the callback of the holder erases the entry of the collection and then reads its name
  through it.\<close>

theorem release_uses_erased_entry:
  assumes "p < length (snaps h)" and "ss_refcnt (snaps h ! p) = 1" and "ss_cbs (snaps h ! p) = [p]"
    and "ss_commit (snaps h ! p) = Some cc" and "ss_collection (snaps h ! p) = Some c"
    and "c < length (colls (meta h))" and "refcnt (colls (meta h) ! c) = 1"
    and "on_no_ref_cbs (colls (meta h) ! c) = [c]"
    and "map_of (coll_id_map (meta h)) (res_id (colls (meta h) ! c)) \<noteq> None"
  shows "Snapshot_UnRef p h = Inl DanglingUse"
proof -
  let ?s = "(snaps h ! p)\<lparr>ss_refcnt := 0\<rparr>"
  have "bnd (Commit_UnRef cc (meta h)) (\<lambda>w. bnd (Collection_UnRef c w) f) = Inl DanglingUse" for f :: "Meta \<Rightarrow> SnapshotsHolder outcome"
    using Commit_UnRef_frame [of cc "meta h"] Collection_UnRef_dangles [of c _ "[]"] assms(6-9) by auto
  then have "UnRefAll p (h\<lparr>snaps := (snaps h)[p := ?s]\<rparr>) = Inl DanglingUse"
    using assms(1,4,5) by (simp add: UnRefAll_def deref_def)
  then show ?thesis using assms(1-3) by (simp add: Snapshot_UnRef_def deref_def Let_def)
qed

lemma main_holder_state:
  "\<exists>h. main_holder = Inr h \<and> to_release h = [Some 0] \<and> \<not> ss_done h \<and> length (snaps h) = 2 \<and>
    snaps h ! 0 = \<lparr>ss_collection = Some 5, ss_commit = Some 5, ss_refcnt = 1, ss_cbs = [0]\<rparr> \<and>
    length (colls (meta h)) = 7 \<and> refcnt (colls (meta h) ! 5) = 1 \<and> on_no_ref_cbs (colls (meta h) ! 5) = [5] \<and>
    map_of (coll_id_map (meta h)) (res_id (colls (meta h) ! 5)) = Some 5"
proof -
  have "case main_holder of Inl _ \<Rightarrow> False | Inr h \<Rightarrow> to_release h = [Some 0] \<and> \<not> ss_done h \<and> length (snaps h) = 2 \<and>
    snaps h ! 0 = \<lparr>ss_collection = Some 5, ss_commit = Some 5, ss_refcnt = 1, ss_cbs = [0]\<rparr> \<and>
    length (colls (meta h)) = 7 \<and> refcnt (colls (meta h) ! 5) = 1 \<and> on_no_ref_cbs (colls (meta h) ! 5) = [5] \<and>
    map_of (coll_id_map (meta h)) (res_id (colls (meta h) ! 5)) = Some 5" by code_simp
  then show ?thesis by (auto split: sum.splits)
qed

theorem release_uses_erased_entry_witness:
  "\<exists>h. main_holder = Inr h \<and> BackgroundGC_round h = Inl DanglingUse"
proof -
  obtain h where h: "main_holder = Inr h" "to_release h = [Some 0]" "\<not> ss_done h" "length (snaps h) = 2"
    "snaps h ! 0 = \<lparr>ss_collection = Some 5, ss_commit = Some 5, ss_refcnt = 1, ss_cbs = [0]\<rparr>"
    "length (colls (meta h)) = 7" "refcnt (colls (meta h) ! 5) = 1" "on_no_ref_cbs (colls (meta h) ! 5) = [5]"
    "map_of (coll_id_map (meta h)) (res_id (colls (meta h) ! 5)) = Some 5"
    using main_holder_state by blast
  have "Snapshot_UnRef 0 (h\<lparr>to_release := []\<rparr>) = Inl DanglingUse"
    using h by (intro release_uses_erased_entry [of 0 _ 5 5]) simp_all
  then have "BackgroundGC_round h = Inl DanglingUse" using h(2,3) by (simp add: BackgroundGC_round_def)
  then show ?thesis using h(1) by blast
qed

text \<open>A version is released once. Giving back a reference to a commit that is not the last one only
  lowers the count; giving back the last one takes the commit out of its holder and out of the store
  and touches no other commit; giving back one reference too many does nothing.\<close>

theorem Commit_UnRef_lifetime:
  assumes "p < length (commits w)" and "on_no_ref_cbs (commits w ! p) = [p]" and "res_id (commits w ! p) = i"
  shows "Commit_UnRef p w = Inr
    (if refcnt (commits w ! p) = 0 then w
     else let w' = w\<lparr>commits := (commits w)[p := (commits w ! p)\<lparr>refcnt := refcnt (commits w ! p) - 1\<rparr>]\<rparr>
          in if refcnt (commits w ! p) = 1
             then w'\<lparr>collection_commit := map_erase i (collection_commit w), commit_id_map := map_erase i (commit_id_map w)\<rparr>
             else w')"
proof -
  have absent: "map_erase i m = m" if "map_of m i = None" for m :: "(int \<times> nat) list"
    using that by (force simp: map_erase_def map_of_eq_None_iff intro!: filter_True)
  show ?thesis using assms
    by (simp add: Commit_UnRef_def deref_def UnRef_def Let_def CommitsHolder_OnNoRefCallBack_def CommitsHolder_HardDelete_def
        RemoveCollectionCommit_def CommitsHolder_Release_def ReleaseNoLock_def absent)
qed


theorem Commit_UnRef_lifetime_witness:
  "\<exists>w. Commit_UnRef 0 (Meta_empty\<lparr>commits := [\<lparr>res_id = 4, res_status = PENDING, created_on = 0, refcnt = 1,
      on_no_ref_cbs = [0], mappings = [], collection_id = 4\<rparr>], commit_id_map := [(4, 0)], collection_commit := [(4, 0)]\<rparr>) = Inr w \<and>
    commit_id_map w = [] \<and> collection_commit w = []"
  using Commit_UnRef_lifetime [of 0 "Meta_empty\<lparr>commits := [\<lparr>res_id = 4, res_status = PENDING, created_on = 0, refcnt = 1,
      on_no_ref_cbs = [0], mappings = [], collection_id = 4\<rparr>], commit_id_map := [(4, 0)], collection_commit := [(4, 0)]\<rparr>" 4]
  by (simp add: map_erase_def)

text \<open>Adding the newest version a second time is refused, but the snapshot made for it has already
  taken a reference to the commit and to the collection, and nothing gives them back: the counts are
  one higher and no version kept or to be released is new.\<close>

theorem Snapshots_Add_again_leaks:
  assumes "versions_ok h" and "active h \<noteq> []" and "\<not> ss_done h"
    and "map_of (commit_id_map (meta h)) (max_id h) = Some p" and "p < length (commits (meta h))"
    and "map_of (coll_id_map (meta h)) (collection_id (commits (meta h) ! p)) = Some c" and "c < length (colls (meta h))"
  shows "\<exists>h'. Snapshots_Add (max_id h) h = Inr (False, h') \<and> active h' = active h \<and> to_release h' = to_release h \<and>
    refcnt (commits (meta h') ! p) = refcnt (commits (meta h) ! p) + 1 \<and>
    refcnt (colls (meta h') ! c) = refcnt (colls (meta h) ! c) + 1"
proof -
  let ?w = "(meta h)\<lparr>commits := (commits (meta h))[p := Ref (commits (meta h) ! p)],
    colls := (colls (meta h))[c := Ref (colls (meta h) ! c)]\<rparr>"
  have snap: "Snapshot_new (max_id h) (meta h) =
      Inr (\<lparr>ss_collection = Some c, ss_commit = Some p, ss_refcnt = 0, ss_cbs = []\<rparr>, ?w)"
    using assms(4-7) by (simp add: Snapshot_new_def CommitsHolder_GetResource_def CollectionsHolder_GetResource_def
        ScopedResource_new_def deref_def ref_at_def Let_def)
  have "max_id h \<in> fst ` set (active h)" using assms(1,2) by (simp add: versions_ok_def)
  then have "map_of (active h) (max_id h) \<noteq> None" by (simp add: map_of_eq_None_iff)
  then show ?thesis using assms(3,5,7) snap
    by (auto simp: Snapshots_Add_def Add_insert_def Let_def Ref_def)
qed

theorem Snapshots_Add_again_leaks_witness:
  "\<exists>h h'. main_holder = Inr h \<and> Snapshots_Add (max_id h) h = Inr (False, h') \<and>
     refcnt (commits (meta h') ! 6) = refcnt (commits (meta h) ! 6) + 1"
proof -
  have "case main_holder of Inl _ \<Rightarrow> False | Inr h \<Rightarrow> versions_ok h \<and> active h \<noteq> [] \<and> \<not> ss_done h \<and>
      map_of (commit_id_map (meta h)) (max_id h) = Some 6 \<and> 6 < length (commits (meta h)) \<and>
      map_of (coll_id_map (meta h)) (collection_id (commits (meta h) ! 6)) = Some 6 \<and> 6 < length (colls (meta h))"
    by code_simp
  then obtain h where h: "main_holder = Inr h" "versions_ok h" "active h \<noteq> []" "\<not> ss_done h"
    "map_of (commit_id_map (meta h)) (max_id h) = Some 6" "6 < length (commits (meta h))"
    "map_of (coll_id_map (meta h)) (collection_id (commits (meta h) ! 6)) = Some 6" "6 < length (colls (meta h))"
    by (auto split: sum.splits)
  show ?thesis using Snapshots_Add_again_leaks [OF h(2-8)] h(1) by blast
qed

end
