(* ===== verification/Tp_Sql.thy ===== *)
theory Tp_Sql
  imports Prelude
begin

text \<open>
  The statements of the benchmark as texts (\<open>duckdb_lab/templates.h\<close>). \<open>ID_TYPE\<close> is \<open>int\<close>; a number is written in decimal. Where a
  statement holds a \<open>float\<close>, the text the stream makes of it is the argument.
\<close>

definition show_int :: "int \<Rightarrow> string" where
  "show_int x = (if x < 0 then CHR ''-'' # show_nat (nat (- x)) else show_nat (nat x))"

section \<open>Delivery\<close>

definition DELIVERY_GetNewOrder :: "int \<Rightarrow> int \<Rightarrow> string" where
  "DELIVERY_GetNewOrder no_d_id no_w_id = ''SELECT NO_O_ID FROM NEW_ORDER WHERE NO_D_ID = '' @ show_int no_d_id @
     '' AND NO_W_ID = '' @ show_int no_w_id @ '' AND NO_O_ID > -1 LIMIT 1''"

definition DELIVERY_DeleteNewOrder :: "int \<Rightarrow> int \<Rightarrow> int \<Rightarrow> string" where
  "DELIVERY_DeleteNewOrder no_d_id no_w_id no_o_id = ''DELETE FROM NEW_ORDER WHERE NO_D_ID = '' @ show_int no_d_id @
     '' AND NO_W_ID = '' @ show_int no_w_id @ '' AND NO_O_ID = '' @ show_int no_o_id"

definition DELIVERY_GetCid :: "int \<Rightarrow> int \<Rightarrow> int \<Rightarrow> string" where
  "DELIVERY_GetCid o_id o_d_id o_w_id = ''SELECT O_C_ID FROM ORDERS WHERE O_ID = '' @ show_int o_id @ '' AND O_D_ID = '' @ show_int o_d_id @
     '' AND O_W_ID = '' @ show_int o_w_id"

definition DELIVERY_UpdateOrders :: "int \<Rightarrow> int \<Rightarrow> int \<Rightarrow> int \<Rightarrow> string" where
  "DELIVERY_UpdateOrders carrier_id o_id o_d_id o_w_id = ''UPDATE ORDERS SET O_CARRIER_ID = '' @ show_int carrier_id @
     '' WHERE O_ID = '' @ show_int o_id @ '' AND O_D_ID = '' @ show_int o_d_id @ ''  AND O_W_ID = '' @ show_int o_w_id"

definition DELIVERY_UpdateOrderLine :: "string \<Rightarrow> int \<Rightarrow> int \<Rightarrow> int \<Rightarrow> string" where
  "DELIVERY_UpdateOrderLine ol_delivery_date ol_o_id ol_d_id ol_w_id = ''UPDATE ORDER_LINE SET OL_DELIVERY_D = '' @ [CHR 0x27] @ ol_delivery_date @
     [CHR 0x27] @ '' WHERE OL_O_ID = '' @ show_int ol_o_id @ '' AND OL_D_ID = '' @ show_int ol_d_id @ ''  AND OL_W_ID = '' @ show_int ol_w_id"

definition DELIVERY_SumOLAmount :: "int \<Rightarrow> int \<Rightarrow> int \<Rightarrow> string" where
  "DELIVERY_SumOLAmount ol_o_id ol_d_id ol_w_id = ''SELECT SUM(OL_AMOUNT) FROM ORDER_LINE WHERE OL_O_ID ='' @ show_int ol_o_id @
     '' AND OL_D_ID = '' @ show_int ol_d_id @ '' AND OL_W_ID = '' @ show_int ol_w_id"

definition DELIVERY_UpdateCustomer :: "int \<Rightarrow> int \<Rightarrow> int \<Rightarrow> int \<Rightarrow> string" where
  "DELIVERY_UpdateCustomer ol_total cid c_did c_wid = ''UPDATE CUSTOMER SET C_BALANCE = C_BALANCE + '' @ show_int ol_total @
     ''  WHERE C_ID = '' @ show_int cid @ '' AND C_D_ID = '' @ show_int c_did @ '' AND C_W_ID = '' @ show_int c_wid"

section \<open>New order\<close>

definition NEWORDER_GetWarehouseTaxRate :: "int \<Rightarrow> string" where
  "NEWORDER_GetWarehouseTaxRate wid = ''SELECT W_TAX FROM WAREHOUSE WHERE W_ID = '' @ show_int wid"

definition NEWORDER_GetDistrict :: "int \<Rightarrow> int \<Rightarrow> string" where
  "NEWORDER_GetDistrict o_id d_w_id = ''SELECT D_TAX, D_NEXT_O_ID FROM DISTRICT WHERE D_ID = '' @ show_int o_id @ '' AND D_W_ID = '' @ show_int d_w_id"

definition NEWORDER_IncrementNextOrderId :: "int \<Rightarrow> int \<Rightarrow> int \<Rightarrow> string" where
  "NEWORDER_IncrementNextOrderId d_next_o_id did d_w_id = ''UPDATE DISTRICT SET D_NEXT_O_ID = '' @ show_int d_next_o_id @
     '' WHERE D_ID = '' @ show_int did @ '' AND D_W_ID = '' @ show_int d_w_id"

definition NEWORDER_GetCustomer :: "int \<Rightarrow> int \<Rightarrow> int \<Rightarrow> string" where
  "NEWORDER_GetCustomer c_wid c_did cid = ''SELECT C_DISCOUNT, C_LAST, C_CREDIT FROM CUSTOMER WHERE C_W_ID = '' @ show_int c_wid @
     '' AND C_D_ID = '' @ show_int c_did @ '' AND C_ID = '' @ show_int cid"

definition NEWORDER_CreateOrder :: "int \<Rightarrow> int \<Rightarrow> int \<Rightarrow> int \<Rightarrow> string \<Rightarrow> int \<Rightarrow> int \<Rightarrow> int \<Rightarrow> string" where
  "NEWORDER_CreateOrder d_next_o_id did wid cid entry_d carrier_id o_ol_cnt o_all_local =
     ''INSERT INTO ORDERS (O_ID, O_D_ID, O_W_ID, O_C_ID, O_ENTRY_D, O_CARRIER_ID, O_OL_CNT, O_ALL_LOCAL) VALUES ('' @
     show_int d_next_o_id @ '', '' @ show_int did @ '', '' @ show_int wid @ '', '' @ show_int cid @ '', '' @ [CHR 0x27] @ entry_d @ [CHR 0x27] @
     '', '' @ show_int carrier_id @ '', '' @ show_int o_ol_cnt @ '', '' @ show_int o_all_local @ '')''"

definition NEWORDER_CreateNewOrder :: "int \<Rightarrow> int \<Rightarrow> int \<Rightarrow> string" where
  "NEWORDER_CreateNewOrder o_id no_did no_wid = ''INSERT INTO NEW_ORDER (NO_O_ID, NO_D_ID, NO_W_ID) VALUES ('' @
     show_int o_id @ '', '' @ show_int no_did @ '', '' @ show_int no_wid @ '')''"

definition NEWORDER_GetItemInfo :: "int \<Rightarrow> string" where
  "NEWORDER_GetItemInfo ol_i_id = ''SELECT I_PRICE, I_NAME, I_DATA FROM ITEM WHERE I_ID = '' @ show_int ol_i_id"

text \<open>\<open>left << setfill('0') << setw(2)\<close>: zeros are added after the number. The fill and the adjustment stay for the
  fields that follow, the width does not.\<close>

definition setw_left :: "nat \<Rightarrow> char \<Rightarrow> string \<Rightarrow> string" where
  "setw_left w fill s = s @ replicate (w - length s) fill"

definition NEWORDER_GetStockInfo :: "int \<Rightarrow> int \<Rightarrow> int \<Rightarrow> string" where
  "NEWORDER_GetStockInfo did ol_i_id ol_supply_w_id = ''SELECT S_QUANTITY, S_DATA, S_YTD, S_ORDER_CNT, S_REMOTE_CNT, S_DIST_'' @
     setw_left 2 CHR ''0'' (show_int did) @ '' FROM STOCK WHERE   S_I_ID = '' @ show_int ol_i_id @ '' AND S_W_ID = '' @ show_int ol_supply_w_id"

definition NEWORDER_UpdateStock :: "int \<Rightarrow> int \<Rightarrow> int \<Rightarrow> int \<Rightarrow> int \<Rightarrow> int \<Rightarrow> string" where
  "NEWORDER_UpdateStock s_quantity s_ytd s_order_cnt s_remote_cnt ol_i_id ol_supply_w_id =
     ''UPDATE STOCK SET S_QUANTITY = '' @ show_int s_quantity @ '', S_YTD = '' @ show_int s_ytd @ '', S_ORDER_CNT = '' @ show_int s_order_cnt @
     '', S_REMOTE_CNT = '' @ show_int s_remote_cnt @ '' WHERE S_I_ID = '' @ show_int ol_i_id @ '' AND S_W_ID = '' @ show_int ol_supply_w_id"

text \<open>The date is not in quotes.\<close>

definition NEWORDER_CreateOrderLine ::
  "int \<Rightarrow> int \<Rightarrow> int \<Rightarrow> int \<Rightarrow> int \<Rightarrow> int \<Rightarrow> string \<Rightarrow> int \<Rightarrow> int \<Rightarrow> string \<Rightarrow> string" where
  "NEWORDER_CreateOrderLine o_id did wid ol_number ol_i_id ol_supply_w_id entry_d ol_quantity ol_amount ol_dist_info =
     ''INSERT INTO ORDER_LINE (OL_O_ID, OL_D_ID, OL_W_ID, OL_NUMBER, OL_I_ID, OL_SUPPLY_W_ID, '' @
     ''OL_DELIVERY_D, OL_QUANTITY, OL_AMOUNT, OL_DIST_INFO) VALUES ('' @ show_int o_id @ '', '' @ show_int did @ '', '' @
     show_int wid @ '', '' @ show_int ol_number @ '', '' @ show_int ol_i_id @ '', '' @ show_int ol_supply_w_id @ '', '' @ entry_d @ '', '' @
     show_int ol_quantity @ '', '' @ show_int ol_amount @ '', '' @ [CHR 0x27] @ ol_dist_info @ [CHR 0x27] @ '')''"

section \<open>Order status\<close>

definition ORDER_STATUS_GetCustomerByCustomerId :: "int \<Rightarrow> int \<Rightarrow> int \<Rightarrow> string" where
  "ORDER_STATUS_GetCustomerByCustomerId wid did cid = ''SELECT C_ID, C_FIRST, C_MIDDLE, C_LAST, C_BALANCE FROM CUSTOMER WHERE C_W_ID = '' @
     show_int wid @ '' AND C_D_ID = '' @ show_int did @ '' AND C_ID = '' @ show_int cid"

definition ORDER_STATUS_GetCustomerByLastName :: "int \<Rightarrow> int \<Rightarrow> string \<Rightarrow> string" where
  "ORDER_STATUS_GetCustomerByLastName wid did clast = ''SELECT C_ID, C_FIRST, C_MIDDLE, C_LAST, C_BALANCE FROM CUSTOMER WHERE C_W_ID = '' @
     show_int wid @ '' AND C_D_ID = '' @ show_int did @ '' AND C_LAST = '' @ [CHR 0x27] @ clast @ [CHR 0x27] @ '' ORDER BY C_FIRST''"

definition ORDER_STATUS_GetLastOrder :: "int \<Rightarrow> int \<Rightarrow> int \<Rightarrow> string" where
  "ORDER_STATUS_GetLastOrder wid did cid = ''SELECT O_ID, O_CARRIER_ID, O_ENTRY_D FROM ORDERS WHERE O_W_ID = '' @ show_int wid @
     '' AND O_D_ID = '' @ show_int did @ '' AND O_C_ID = '' @ show_int cid @ '' ORDER BY O_ID DESC LIMIT 1''"

definition ORDER_STATUS_GetOrderLines :: "int \<Rightarrow> int \<Rightarrow> int \<Rightarrow> string" where
  "ORDER_STATUS_GetOrderLines wid did o_id =
     ''SELECT OL_SUPPLY_W_ID, OL_I_ID, OL_QUANTITY, OL_AMOUNT, OL_DELIVERY_D FROM ORDER_LINE WHERE OL_W_ID = '' @ show_int wid @
     '' AND OL_D_ID = '' @ show_int did @ '' AND OL_O_ID = '' @ show_int o_id"

section \<open>Payment\<close>

definition PAYMENT_GetWarehouse :: "int \<Rightarrow> string" where
  "PAYMENT_GetWarehouse wid = ''SELECT W_NAME, W_STREET_1, W_STREET_2, W_CITY, W_STATE, W_ZIP FROM WAREHOUSE WHERE W_ID = '' @ show_int wid"

definition PAYMENT_UpdateWarehouseBalance :: "string \<Rightarrow> int \<Rightarrow> string" where
  "PAYMENT_UpdateWarehouseBalance amount wid = ''UPDATE WAREHOUSE SET W_YTD = W_YTD + '' @ amount @ '' WHERE W_ID = '' @ show_int wid"

definition PAYMENT_GetDistrict :: "int \<Rightarrow> int \<Rightarrow> string" where
  "PAYMENT_GetDistrict wid did = ''SELECT D_NAME, D_STREET_1, D_STREET_2, D_CITY, D_STATE, D_ZIP FROM DISTRICT WHERE D_W_ID = '' @
     show_int wid @ '' AND D_ID = '' @ show_int did"

definition PAYMENT_UpdateDistrictBalance :: "string \<Rightarrow> int \<Rightarrow> int \<Rightarrow> string" where
  "PAYMENT_UpdateDistrictBalance amount d_w_id did = ''UPDATE DISTRICT SET D_YTD = D_YTD + '' @ amount @ '' WHERE D_W_ID  = '' @
     show_int d_w_id @ '' AND D_ID = '' @ show_int did"

definition customer_columns :: string where
  "customer_columns = ''SELECT C_ID, C_FIRST, C_MIDDLE, C_LAST, C_STREET_1, C_STREET_2, C_CITY, C_STATE, C_ZIP, C_PHONE, C_SINCE, '' @
     ''C_CREDIT, C_CREDIT_LIM, C_DISCOUNT, C_BALANCE, C_YTD_PAYMENT, C_PAYMENT_CNT, C_DATA FROM CUSTOMER WHERE C_W_ID = ''"

definition PAYMENT_GetCustomerByCustomerId :: "int \<Rightarrow> int \<Rightarrow> int \<Rightarrow> string" where
  "PAYMENT_GetCustomerByCustomerId wid did cid = customer_columns @ show_int wid @ '' AND C_D_ID = '' @ show_int did @ '' AND C_ID = '' @ show_int cid"

definition PAYMENT_GetCustomerByLastName :: "int \<Rightarrow> int \<Rightarrow> string \<Rightarrow> string" where
  "PAYMENT_GetCustomerByLastName wid did clast = customer_columns @ show_int wid @ '' AND C_D_ID = '' @ show_int did @
     '' AND C_LAST = '' @ [CHR 0x27] @ clast @ [CHR 0x27] @ '' ORDER BY C_FIRST''"

definition PAYMENT_UpdateBCCustomer :: "string \<Rightarrow> string \<Rightarrow> int \<Rightarrow> string \<Rightarrow> int \<Rightarrow> int \<Rightarrow> int \<Rightarrow> string" where
  "PAYMENT_UpdateBCCustomer c_balance c_ytd_payment c_payment_cnt c_data c_wid c_did cid =
     ''UPDATE CUSTOMER SET C_BALANCE = '' @ c_balance @ '', C_YTD_PAYMENT = '' @ c_ytd_payment @ '', C_PAYMENT_CNT = '' @ show_int c_payment_cnt @
     '', C_DATA = '' @ [CHR 0x27] @ c_data @ [CHR 0x27] @ '' WHERE C_W_ID = '' @ show_int c_wid @ '' AND C_D_ID = '' @ show_int c_did @
     '' AND C_ID = '' @ show_int cid"

definition PAYMENT_UpdateGCCustomer :: "string \<Rightarrow> string \<Rightarrow> int \<Rightarrow> int \<Rightarrow> int \<Rightarrow> int \<Rightarrow> string" where
  "PAYMENT_UpdateGCCustomer c_balance c_ytd_payment c_payment_cnt c_wid c_did cid =
     ''UPDATE CUSTOMER SET C_BALANCE = '' @ c_balance @ '', C_YTD_PAYMENT = '' @ c_ytd_payment @ '', C_PAYMENT_CNT = '' @ show_int c_payment_cnt @
     '' WHERE C_W_ID = '' @ show_int c_wid @ '' AND C_D_ID = '' @ show_int c_did @ '' AND C_ID = '' @ show_int cid"

definition PAYMENT_InsertHistory :: "int \<Rightarrow> int \<Rightarrow> int \<Rightarrow> int \<Rightarrow> int \<Rightarrow> string \<Rightarrow> string \<Rightarrow> string \<Rightarrow> string" where
  "PAYMENT_InsertHistory cid c_did c_wid did wid date amount h_data = ''INSERT INTO HISTORY VALUES ('' @ show_int cid @ '', '' @ show_int c_did @
     '', '' @ show_int c_wid @ '', '' @ show_int did @ '', '' @ show_int wid @ '', '' @ [CHR 0x27] @ date @ [CHR 0x27] @ '', '' @ amount @
     '', '' @ [CHR 0x27] @ h_data @ [CHR 0x27] @ '')''"

section \<open>Stock level\<close>

definition STOCKLEVEL_GetOid :: "int \<Rightarrow> int \<Rightarrow> string" where
  "STOCKLEVEL_GetOid wid did = ''SELECT D_NEXT_O_ID FROM DISTRICT WHERE D_W_ID = '' @ show_int wid @ '' AND D_ID = '' @ show_int did"

definition STOCKLEVEL_GetStockCount :: "int \<Rightarrow> int \<Rightarrow> int \<Rightarrow> int \<Rightarrow> int \<Rightarrow> int \<Rightarrow> string" where
  "STOCKLEVEL_GetStockCount wid did o_id o_id_min s_wid thresh =
     ''SELECT COUNT(DISTINCT(OL_I_ID)) FROM ORDER_LINE, STOCK '' @ ''WHERE OL_W_ID = '' @ show_int wid @ '' AND OL_D_ID = '' @ show_int did @
     '' AND OL_O_ID < '' @ show_int o_id @ '' AND OL_O_ID >= '' @ show_int o_id_min @ '' AND S_W_ID = '' @ show_int s_wid @
     '' AND S_I_ID = OL_I_ID AND S_QUANTITY < '' @ show_int thresh"

end
