(* ===== verification/Tp_Ids.thy ===== *)
theory Tp_Ids
  imports Prelude "HOL-Library.Signed_Division"
begin

text \<open>
  The identifier generators of the benchmark (\<open>duckdb_lab/Utils.h\<close>, \<open>Utils.cpp\<close>). The clock is an argument: its
  \<open>i\<close>-th reading in microseconds. Random numbers are arguments of what uses them; what the sources rely on is that
  \<open>RandomNumber(start, end)\<close> lies between its bounds.
\<close>

section \<open>SafeIDGenerator\<close>

definition MAX_IDS_PER_MICRO :: nat where "MAX_IDS_PER_MICRO = 1000"

text \<open>The last time stamp used, and how often the clock was read.\<close>

record SafeIDGenerator =
  time_stamp_ms :: u64
  clock_reads :: nat

definition SafeIDGenerator_new :: SafeIDGenerator where
  "SafeIDGenerator_new = \<lparr>time_stamp_ms = 0, clock_reads = 0\<rparr>"

text \<open>The next time stamp: the clock, or one more than the last one if the clock is not ahead of it. Comparison is
  signed, the product with the size is taken modulo \<open>2 ^ 64\<close>.\<close>

definition next_stamp :: "(nat \<Rightarrow> u64) \<Rightarrow> SafeIDGenerator \<Rightarrow> SafeIDGenerator" where
  "next_stamp clock g =
     (let micros = clock (clock_reads g)
      in \<lparr>time_stamp_ms = (if sint micros \<le> sint (time_stamp_ms g) then time_stamp_ms g + 1 else micros),
          clock_reads = clock_reads g + 1\<rparr>)"

definition GetNextIDNumber :: "(nat \<Rightarrow> u64) \<Rightarrow> SafeIDGenerator \<Rightarrow> u64 \<times> SafeIDGenerator" where
  "GetNextIDNumber clock g = (let g = next_stamp clock g in (time_stamp_ms g * of_nat MAX_IDS_PER_MICRO, g))"

definition NextIDNumbers :: "(nat \<Rightarrow> u64) \<Rightarrow> nat \<Rightarrow> u64 list \<Rightarrow> SafeIDGenerator \<Rightarrow> bool \<times> u64 list \<times> SafeIDGenerator" where
  "NextIDNumbers clock n ids g =
     (if n \<le> 0 \<or> MAX_IDS_PER_MICRO < n then (False, ids, g)
      else let g = next_stamp clock g; ID_high_part = time_stamp_ms g * of_nat MAX_IDS_PER_MICRO
           in (True, ids @ map (\<lambda>pos. ID_high_part + of_nat pos) [0..<n], g))"

function GetNextIDNumbers_loop :: "(nat \<Rightarrow> u64) \<Rightarrow> nat \<Rightarrow> u64 list \<Rightarrow> SafeIDGenerator \<Rightarrow> bool \<times> u64 list \<times> SafeIDGenerator" where
  "GetNextIDNumbers_loop clock n ids g =
     (if n = 0 then (True, ids, g)
      else if MAX_IDS_PER_MICRO < n
      then (case NextIDNumbers clock MAX_IDS_PER_MICRO ids g of
              (False, ids, g) \<Rightarrow> (False, ids, g)
            | (True, ids, g) \<Rightarrow> GetNextIDNumbers_loop clock (n - MAX_IDS_PER_MICRO) ids g)
      else NextIDNumbers clock n ids g)"
  by pat_completeness auto

termination
  by (relation "measure (\<lambda>(clock, n, ids, g). n)") (auto simp: MAX_IDS_PER_MICRO_def)

declare GetNextIDNumbers_loop.simps [simp del]

definition GetNextIDNumbers :: "(nat \<Rightarrow> u64) \<Rightarrow> nat \<Rightarrow> SafeIDGenerator \<Rightarrow> bool \<times> u64 list \<times> SafeIDGenerator" where
  "GetNextIDNumbers clock n g = GetNextIDNumbers_loop clock n [] g"

section \<open>RNGenerator\<close>

datatype IDType = LAST_NAME | CUSTOMER | ITEM

fun IDType_value :: "IDType \<Rightarrow> int" where
  "IDType_value LAST_NAME = 255"
| "IDType_value CUSTOMER = 1023"
| "IDType_value ITEM = 8191"

record RNGenerator =
  c_last :: int
  c_id :: int
  order_line_item_id :: int

definition RNGenerator_new :: "(int \<Rightarrow> int \<Rightarrow> int) \<Rightarrow> (int \<Rightarrow> int \<Rightarrow> int) \<Rightarrow> (int \<Rightarrow> int \<Rightarrow> int) \<Rightarrow> RNGenerator" where
  "RNGenerator_new r1 r2 r3 = \<lparr>c_last = r2 0 1023, c_id = r1 0 255, order_line_item_id = r3 0 8191\<rparr>"

text \<open>\<open>r1\<close> and \<open>r2\<close> are the two draws; the remainder is that of C++.\<close>

definition Produce :: "(int \<Rightarrow> int \<Rightarrow> int) \<Rightarrow> (int \<Rightarrow> int \<Rightarrow> int) \<Rightarrow> RNGenerator \<Rightarrow> IDType \<Rightarrow> int \<Rightarrow> int \<Rightarrow> int outcome" where
  "Produce r1 r2 g type start stop =
     bnd (guard AssertFailed (start \<le> stop)) (\<lambda>_.
       let c = (case type of LAST_NAME \<Rightarrow> c_last g | CUSTOMER \<Rightarrow> c_id g | ITEM \<Rightarrow> order_line_item_id g);
           part1 = r1 0 (IDType_value type); part2 = r2 start stop; s = (part1 OR part2) + c; m = stop - start + 1
       in Inr (s smod m + start))"

section \<open>Facts\<close>

lemma small_sint:
  assumes "uint (x :: u64) < 2 ^ 63"
  shows "sint x = uint x"
proof -
  have "- (2 ^ 63) \<le> (0 :: int)" by simp
  then have "- (2 ^ 63) \<le> uint x" using uint_nonnegative [of x] by (rule order_trans)
  then have "signed_take_bit 63 (uint x) = uint x" using assms by (rule signed_take_bit_int_eq_self)
  then show ?thesis by (simp add: sint_uint)
qed

lemma uint_small_add: "uint (x :: u64) + uint y < 2 ^ 64 \<Longrightarrow> uint (x + y) = uint x + uint y"
  using uint_add_lem [of x y] by simp

lemma uint_small_mult: "uint (x :: u64) * uint y < 2 ^ 64 \<Longrightarrow> uint (x * y) = uint x * uint y"
  using uint_mult_lem [of x y] by simp

lemma next_stamp_value:
  assumes "uint (clock (clock_reads g)) < 2 ^ 52" and "uint (time_stamp_ms g) < 2 ^ 53"
  shows "uint (time_stamp_ms (next_stamp clock g)) = max (uint (clock (clock_reads g))) (uint (time_stamp_ms g) + 1)"
proof -
  have "sint (clock (clock_reads g)) = uint (clock (clock_reads g))" "sint (time_stamp_ms g) = uint (time_stamp_ms g)"
    using assms by (auto intro!: small_sint)
  moreover have "uint (time_stamp_ms g + 1) = uint (time_stamp_ms g) + 1"
    using uint_small_add [of "time_stamp_ms g" 1] assms(2) by simp
  ultimately show ?thesis by (auto simp: next_stamp_def Let_def)
qed

text \<open>The identifiers of a time stamp.\<close>

lemma id_value:
  assumes "uint t < 2 ^ 53 + 1" and "pos < 1000"
  shows "uint (t * of_nat MAX_IDS_PER_MICRO + of_nat pos :: u64) = uint t * 1000 + int pos"
proof -
  have m: "uint (of_nat MAX_IDS_PER_MICRO :: u64) = 1000" by (simp add: MAX_IDS_PER_MICRO_def)
  have p: "uint (of_nat pos :: u64) = int pos" using assms(2) by (simp add: unsigned_of_nat take_bit_nat_eq_self)
  have t: "uint t * 1000 < 2 ^ 63" using assms(1) by simp
  then have "uint (t * of_nat MAX_IDS_PER_MICRO) = uint t * 1000" using uint_small_mult [of t "of_nat MAX_IDS_PER_MICRO"] m by simp
  then show ?thesis using uint_small_add [of "t * of_nat MAX_IDS_PER_MICRO" "of_nat pos"] p t assms(2) by simp
qed

lemma smod_nonneg: "0 \<le> k \<Longrightarrow> 0 < l \<Longrightarrow> k smod l = k mod (l :: int)"
  by (cases "k = 0") (simp_all add: signed_modulo_int_def)

section \<open>Identifiers are unique\<close>

text \<open>The generator is at most one step per reading ahead of the clock.\<close>

definition on_time :: "SafeIDGenerator \<Rightarrow> bool" where
  "on_time g \<longleftrightarrow> uint (time_stamp_ms g) \<le> 2 ^ 52 + int (clock_reads g)"

text \<open>\<open>xs\<close> are increasing identifiers given out between the states \<open>g\<close> and \<open>g'\<close>.\<close>

definition issued :: "SafeIDGenerator \<Rightarrow> u64 list \<Rightarrow> SafeIDGenerator \<Rightarrow> bool" where
  "issued g xs g' \<longleftrightarrow> sorted_wrt (<) (map uint xs) \<and> uint (time_stamp_ms g) \<le> uint (time_stamp_ms g') \<and>
     (\<forall>x \<in> set xs. uint (time_stamp_ms g) * 1000 + 1000 \<le> uint x \<and> uint x < uint (time_stamp_ms g') * 1000 + 1000)"

lemma issued_append: "issued g xs g1 \<Longrightarrow> issued g1 ys g2 \<Longrightarrow> issued g (xs @ ys) g2"
  unfolding issued_def by (fastforce simp: sorted_wrt_append)

lemma issued_nil [simp]: "issued g [] g"
  by (simp add: issued_def)

lemma stamp_issued:
  assumes "\<forall>i. uint (clock i) < 2 ^ 52" and "on_time g" and "clock_reads g < 2 ^ 52" and "n \<le> 1000"
  shows "issued g (map (\<lambda>pos. time_stamp_ms (next_stamp clock g) * of_nat MAX_IDS_PER_MICRO + of_nat pos) [0..<n]) (next_stamp clock g)"
    and "on_time (next_stamp clock g)" and "clock_reads (next_stamp clock g) = Suc (clock_reads g)"
proof -
  let ?g = "next_stamp clock g"
  have c: "uint (clock (clock_reads g)) < 2 ^ 52" using assms(1) by blast
  have "int (clock_reads g) < 2 ^ 52" using assms(3) by simp
  then have t: "uint (time_stamp_ms g) < 2 ^ 53" using assms(2) by (simp add: on_time_def)
  note v = next_stamp_value [of clock g, OF c t]
  show reads: "clock_reads ?g = Suc (clock_reads g)" by (simp add: next_stamp_def Let_def)
  show "on_time ?g" using v c assms(2) by (auto simp: on_time_def reads)
  have "uint (time_stamp_ms ?g) < 2 ^ 53 + 1" using v c t by auto
  then have ids: "uint (time_stamp_ms ?g * of_nat MAX_IDS_PER_MICRO + of_nat pos) = uint (time_stamp_ms ?g) * 1000 + int pos"
    if "pos < n" for pos using id_value that assms(4) by simp
  then have "map uint (map (\<lambda>pos. time_stamp_ms ?g * of_nat MAX_IDS_PER_MICRO + of_nat pos) [0..<n]) =
      map (\<lambda>pos. uint (time_stamp_ms ?g) * 1000 + int pos) [0..<n]" by simp
  moreover have "sorted_wrt (<) (map (\<lambda>pos. uint (time_stamp_ms ?g) * 1000 + int pos) [0..<n])"
    by (simp add: sorted_wrt_map)
  ultimately have "sorted_wrt (<) (map uint (map (\<lambda>pos. time_stamp_ms ?g * of_nat MAX_IDS_PER_MICRO + of_nat pos) [0..<n]))" by (simp only:)
  moreover have "uint (time_stamp_ms g) + 1 \<le> uint (time_stamp_ms ?g)" using v by simp
  ultimately show "issued g (map (\<lambda>pos. time_stamp_ms ?g * of_nat MAX_IDS_PER_MICRO + of_nat pos) [0..<n]) ?g"
    using ids assms(4) unfolding issued_def by auto
qed

lemma GetNextIDNumbers_issued:
  assumes "\<forall>i. uint (clock i) < 2 ^ 52" and "on_time g" and "clock_reads g + n div 1000 < 2 ^ 52"
  shows "\<exists>xs g'. GetNextIDNumbers_loop clock n ids g = (True, ids @ xs, g') \<and> length xs = n \<and> issued g xs g' \<and> on_time g' \<and>
    clock_reads g' \<le> clock_reads g + n div 1000 + 1"
  using assms(2,3)
proof (induction n arbitrary: ids g rule: less_induct)
  case (less n)
  let ?g = "next_stamp clock g"
  have r: "clock_reads g < 2 ^ 52" using less.prems(2) by simp
  show ?case
  proof (cases "1000 < n")
    case True
    let ?ys = "map (\<lambda>pos. time_stamp_ms ?g * of_nat MAX_IDS_PER_MICRO + of_nat pos) [0..<1000]"
    note s = stamp_issued [OF assms(1) less.prems(1) r, of 1000]
    have n: "n div 1000 = Suc ((n - 1000) div 1000)" using True by (simp add: le_div_geq)
    have "\<exists>xs g'. GetNextIDNumbers_loop clock (n - 1000) (ids @ ?ys) ?g = (True, (ids @ ?ys) @ xs, g') \<and> length xs = n - 1000 \<and> issued ?g xs g' \<and>
        on_time g' \<and> clock_reads g' \<le> clock_reads ?g + (n - 1000) div 1000 + 1"
      using True s(2,3) less.prems(2) n by (intro less.IH) simp_all
    then obtain xs g' where xs: "GetNextIDNumbers_loop clock (n - 1000) (ids @ ?ys) ?g = (True, (ids @ ?ys) @ xs, g')" "length xs = n - 1000"
      "issued ?g xs g'" "on_time g'" "clock_reads g' \<le> clock_reads ?g + (n - 1000) div 1000 + 1" by blast
    have "NextIDNumbers clock MAX_IDS_PER_MICRO ids g = (True, ids @ ?ys, ?g)" by (simp add: NextIDNumbers_def MAX_IDS_PER_MICRO_def Let_def)
    then have "GetNextIDNumbers_loop clock n ids g = (True, ids @ (?ys @ xs), g')"
      using True xs(1) by (subst GetNextIDNumbers_loop.simps) (simp add: MAX_IDS_PER_MICRO_def)
    moreover have "issued g (?ys @ xs) g'" using issued_append [OF s(1) xs(3)] by simp
    moreover have "length (?ys @ xs) = n" using True xs(2) by simp
    ultimately show ?thesis using xs(4,5) s(3) n by fastforce
  next
    case False
    show ?thesis
    proof (cases "n = 0")
      case True
      then show ?thesis using less.prems(1) by (subst GetNextIDNumbers_loop.simps) simp
    next
      case n: False
      let ?ys = "map (\<lambda>pos. time_stamp_ms ?g * of_nat MAX_IDS_PER_MICRO + of_nat pos) [0..<n]"
      note s = stamp_issued [OF assms(1) less.prems(1) r, of n]
      have "GetNextIDNumbers_loop clock n ids g = (True, ids @ ?ys, ?g)"
        using n False by (subst GetNextIDNumbers_loop.simps) (simp add: NextIDNumbers_def MAX_IDS_PER_MICRO_def Let_def)
      moreover have "length ?ys = n" by simp
      ultimately show ?thesis using s False by fastforce
    qed
  qed
qed

text \<open>Calls of the generator, one after the other, and the identifiers they give out.\<close>

datatype id_call = Single | Batch nat

fun id_run :: "(nat \<Rightarrow> u64) \<Rightarrow> id_call list \<Rightarrow> SafeIDGenerator \<Rightarrow> u64 list \<times> SafeIDGenerator" where
  "id_run clock [] g = ([], g)"
| "id_run clock (Single # cs) g = (let (x, g) = GetNextIDNumber clock g; (xs, g) = id_run clock cs g in (x # xs, g))"
| "id_run clock (Batch n # cs) g = (let (ok, ys, g) = GetNextIDNumbers clock n g; (xs, g) = id_run clock cs g in (ys @ xs, g))"

fun id_count :: "id_call \<Rightarrow> nat" where
  "id_count Single = 1"
| "id_count (Batch n) = n"

lemma id_run_issued:
  assumes "\<forall>i. uint (clock i) < 2 ^ 52" and "on_time g" and "clock_reads g + (\<Sum>c\<leftarrow>cs. id_count c div 1000 + 1) < 2 ^ 52"
  shows "issued g (fst (id_run clock cs g)) (snd (id_run clock cs g)) \<and> on_time (snd (id_run clock cs g)) \<and>
    length (fst (id_run clock cs g)) = (\<Sum>c\<leftarrow>cs. id_count c) \<and>
    clock_reads (snd (id_run clock cs g)) \<le> clock_reads g + (\<Sum>c\<leftarrow>cs. id_count c div 1000 + 1)"
  using assms(2,3)
proof (induction cs arbitrary: g)
  case (Cons c cs)
  have r: "clock_reads g < 2 ^ 52" using Cons.prems(2) by simp
  show ?case
  proof (cases c)
    case Single
    let ?g = "next_stamp clock g"
    have "issued g [time_stamp_ms ?g * of_nat MAX_IDS_PER_MICRO] ?g" and g: "on_time ?g" "clock_reads ?g = Suc (clock_reads g)"
      using stamp_issued [OF assms(1) Cons.prems(1) r, of 1] by simp_all
    moreover from this have "issued ?g (fst (id_run clock cs ?g)) (snd (id_run clock cs ?g)) \<and> on_time (snd (id_run clock cs ?g)) \<and>
        length (fst (id_run clock cs ?g)) = (\<Sum>c\<leftarrow>cs. id_count c) \<and>
        clock_reads (snd (id_run clock cs ?g)) \<le> clock_reads ?g + (\<Sum>c\<leftarrow>cs. id_count c div 1000 + 1)"
      using Cons.prems(2) Single by (intro Cons.IH) simp_all
    ultimately show ?thesis using issued_append [of g _ ?g] by (fastforce simp: Single GetNextIDNumber_def Let_def split_beta)
  next
    case (Batch n)
    obtain ys g1 where g1: "GetNextIDNumbers clock n g = (True, ys, g1)" "length ys = n" "issued g ys g1" "on_time g1"
      "clock_reads g1 \<le> clock_reads g + n div 1000 + 1"
      using GetNextIDNumbers_issued [OF assms(1) Cons.prems(1), of n "[]"] Cons.prems(2) Batch by (auto simp: GetNextIDNumbers_def)
    have "issued g1 (fst (id_run clock cs g1)) (snd (id_run clock cs g1)) \<and> on_time (snd (id_run clock cs g1)) \<and>
        length (fst (id_run clock cs g1)) = (\<Sum>c\<leftarrow>cs. id_count c) \<and>
        clock_reads (snd (id_run clock cs g1)) \<le> clock_reads g1 + (\<Sum>c\<leftarrow>cs. id_count c div 1000 + 1)"
      using Cons.prems(2) Batch g1(4,5) by (intro Cons.IH) simp_all
    then show ?thesis using issued_append [OF g1(3)] g1 by (simp add: Batch split_beta)
  qed
qed simp

text \<open>C30. Identifiers are unique whatever the clock does. With a clock that reads below \<open>2 ^ 52\<close> microseconds, and
  may stand still or go back, every sequence of calls gives out as many identifiers as asked for, each larger as
  a signed number than all before it.\<close>

theorem SafeID_unique:
  assumes "\<forall>i. uint (clock i) < 2 ^ 52" and "(\<Sum>c\<leftarrow>cs. id_count c div 1000 + 1) < 2 ^ 52"
  shows "sorted_wrt (<) (map sint (fst (id_run clock cs SafeIDGenerator_new))) \<and>
    length (fst (id_run clock cs SafeIDGenerator_new)) = (\<Sum>c\<leftarrow>cs. id_count c)"
proof -
  let ?r = "id_run clock cs SafeIDGenerator_new"
  have "on_time SafeIDGenerator_new" by (simp add: on_time_def SafeIDGenerator_new_def)
  then have r: "issued SafeIDGenerator_new (fst ?r) (snd ?r)" "on_time (snd ?r)" "length (fst ?r) = (\<Sum>c\<leftarrow>cs. id_count c)"
    "clock_reads (snd ?r) \<le> (\<Sum>c\<leftarrow>cs. id_count c div 1000 + 1)"
    using id_run_issued [OF assms(1), of SafeIDGenerator_new cs] assms(2) by (simp_all add: SafeIDGenerator_new_def)
  have "int (clock_reads (snd ?r)) < 2 ^ 52" using r(4) assms(2) by simp
  then have "uint (time_stamp_ms (snd ?r)) < 2 ^ 53" using r(2) by (simp add: on_time_def)
  then have "\<forall>x \<in> set (fst ?r). uint x < 2 ^ 63" using r(1) by (fastforce simp: issued_def)
  then have eq: "map sint (fst ?r) = map uint (fst ?r)" by (simp add: small_sint)
  show ?thesis unfolding eq using r(1,3) unfolding issued_def by blast
qed

theorem SafeID_unique_witness:
  "sorted_wrt (<) (map sint (fst (id_run (\<lambda>i. 7) [Single, Batch 3, Single] SafeIDGenerator_new)))"
  using SafeID_unique [of "\<lambda>i. 7" "[Single, Batch 3, Single]"] by simp

text \<open>\<open>Produce\<close> stays within the bounds asked for, whatever the draws: with non-negative bounds and constants
  of the generator the result lies between them, and the sum inside does not overflow an \<open>int\<close>.\<close>

lemma Produce_range:
  assumes "0 \<le> start" and "start \<le> stop" and "stop < 2 ^ 30" and "0 \<le> c_last g" "c_last g \<le> 1023" and "0 \<le> c_id g" "c_id g \<le> 255"
    and "0 \<le> order_line_item_id g" "order_line_item_id g \<le> 8191"
    and "\<forall>a b. 0 \<le> a \<and> a \<le> b \<longrightarrow> a \<le> r1 a b \<and> r1 a b \<le> b" and "\<forall>a b. 0 \<le> a \<and> a \<le> b \<longrightarrow> a \<le> r2 a b \<and> r2 a b \<le> b"
  shows "\<exists>x. Produce r1 r2 g type start stop = Inr x \<and> start \<le> x \<and> x \<le> stop \<and>
    (r1 0 (IDType_value type) OR r2 start stop) + 8191 < 2 ^ 31"
proof -
  let ?p = "r1 0 (IDType_value type)" and ?q = "r2 start stop" and ?m = "stop - start + 1"
  have p: "0 \<le> ?p" "?p \<le> IDType_value type" using assms(10) by (cases type; force)+
  have q: "0 \<le> ?q" "?q \<le> stop" using assms(1,2,11) by fastforce+
  have "?p < 2 ^ 30" "?q < 2 ^ 30" using p q assms(3) by (cases type; simp)+
  then have b: "?p OR ?q < 2 ^ 30" "0 \<le> ?p OR ?q" using OR_upper [of ?p 30 ?q] p q by simp_all
  define c where "c = (case type of LAST_NAME \<Rightarrow> c_last g | CUSTOMER \<Rightarrow> c_id g | ITEM \<Rightarrow> order_line_item_id g)"
  have c: "0 \<le> c" using assms by (cases type) (simp_all add: c_def)
  let ?s = "(?p OR ?q) + c"
  have "?s smod ?m = ?s mod ?m" using b(2) c assms(2) by (intro smod_nonneg) simp_all
  then have "Produce r1 r2 g type start stop = Inr (?s mod ?m + start)" using assms(2) by (simp add: Produce_def Let_def c_def)
  moreover have "0 \<le> ?s mod ?m" "?s mod ?m < ?m" using pos_mod_bound [of ?m ?s] pos_mod_sign [of ?m ?s] assms(2) by linarith+
  ultimately show ?thesis using b by auto
qed

end
