(* ===== verification/Tp_Metric.thy ===== *)
theory Tp_Metric
  imports Prelude Db_Status
begin

text \<open>
  The measurements of the benchmark (\<open>duckdb_lab/Collector.h\<close>), the pool of database drivers (\<open>runner.h\<close>) and a task
  (\<open>Task.cpp\<close>, with the kinds of \<open>Context.h\<close>). Floating-point numbers are an argument: the operations of \<open>float\<close>
  and its printed form. What a driver does with a transaction is an argument too; here only whether it was
  rolled back matters.
\<close>

section \<open>Metric\<close>

record 'f float_ops =
  f_zero :: 'f
  f_of :: "u64 \<Rightarrow> 'f"
  f_add :: "'f \<Rightarrow> 'f \<Rightarrow> 'f"
  f_mul :: "'f \<Rightarrow> 'f \<Rightarrow> 'f"
  f_div :: "'f \<Rightarrow> 'f \<Rightarrow> 'f"
  f_to_string :: "'f \<Rightarrow> string"
  f_print :: "'f \<Rightarrow> string"

record MetricEntry =
  exec_time_us :: u64
  is_commit :: bool
  entry_ts :: u64

record 'f Metric =
  entries :: "MetricEntry list"
  m_commits :: u64
  m_rollbacks :: u64
  m_totals :: u64
  m_rate :: 'f
  m_rate_str :: string
  total_commits_time :: u64
  total_rollback_time :: u64
  last_summary_ts :: u64
  last_modify_ts :: u64
  avg_la :: 'f

definition Metric_new :: "'f float_ops \<Rightarrow> 'f Metric" where
  "Metric_new fl = \<lparr>entries = [], m_commits = 0, m_rollbacks = 0, m_totals = 0, m_rate = f_zero fl, m_rate_str = '''',
     total_commits_time = 0, total_rollback_time = 0, last_summary_ts = 0, last_modify_ts = 0, avg_la = f_zero fl\<rparr>"

text \<open>\<open>Record\<close>; moving the entry into the list copies its numbers, so that its time stamp can still be read.\<close>

definition Metric_Record :: "MetricEntry \<Rightarrow> 'f Metric \<Rightarrow> 'f Metric" where
  "Metric_Record entry m =
     (let m = m\<lparr>entries := entries m @ [entry]\<rparr>
      in if last_modify_ts m < entry_ts entry then m\<lparr>last_modify_ts := entry_ts entry\<rparr> else m)"

definition Metric_Reset :: "'f float_ops \<Rightarrow> 'f Metric \<Rightarrow> 'f Metric" where
  "Metric_Reset fl m = m\<lparr>m_commits := 0, m_rollbacks := 0, m_totals := 0, total_commits_time := 0, total_rollback_time := 0,
     avg_la := f_zero fl, m_rate := f_zero fl, m_rate_str := ''''\<rparr>"

fun Summary_loop :: "'f float_ops \<Rightarrow> MetricEntry list \<Rightarrow> 'f \<Rightarrow> 'f Metric \<Rightarrow> 'f \<times> 'f Metric" where
  "Summary_loop fl [] total_la m = (total_la, m)"
| "Summary_loop fl (e # es) total_la m =
     Summary_loop fl es (f_add fl total_la (f_of fl (exec_time_us e)))
       (if is_commit e
        then m\<lparr>m_commits := m_commits m + 1, total_commits_time := total_commits_time m + exec_time_us e\<rparr>
        else m\<lparr>m_rollbacks := m_rollbacks m + 1, total_rollback_time := total_rollback_time m + exec_time_us e\<rparr>)"

definition Metric_Summary :: "'f float_ops \<Rightarrow> 'f Metric \<Rightarrow> 'f Metric outcome" where
  "Metric_Summary fl m =
     (if last_modify_ts m \<le> last_summary_ts m then Inr m
      else let m = Metric_Reset fl m; m = m\<lparr>m_totals := of_nat (length (entries m))\<rparr>;
               (total_la, m) = Summary_loop fl (entries m) (f_zero fl) m
           in bnd (guard AssertFailed (m_commits m + m_rollbacks m = m_totals m)) (\<lambda>_.
              let m = (if m_totals m \<noteq> 0
                       then let r = f_div fl (f_of fl (m_rollbacks m)) (f_of fl (m_totals m))
                            in m\<lparr>m_rate := r, m_rate_str := f_to_string fl (f_mul fl r (f_of fl 100)) @ ''%'',
                                 avg_la := f_div fl total_la (f_of fl (m_totals m))\<rparr>
                       else m)
              in Inr (m\<lparr>last_summary_ts := last_modify_ts m\<rparr>)))"

section \<open>Collector\<close>

record 'f Collector =
  d_m :: "'f Metric"
  no_m :: "'f Metric"
  os_m :: "'f Metric"
  sl_m :: "'f Metric"
  p_m :: "'f Metric"
  total_time :: u64

definition Collector_new :: "'f float_ops \<Rightarrow> 'f Collector" where
  "Collector_new fl = \<lparr>d_m = Metric_new fl, no_m = Metric_new fl, os_m = Metric_new fl, sl_m = Metric_new fl, p_m = Metric_new fl, total_time = 0\<rparr>"

definition RecordDeliveryEntry :: "MetricEntry \<Rightarrow> 'f Collector \<Rightarrow> 'f Collector" where
  "RecordDeliveryEntry e c = c\<lparr>d_m := Metric_Record e (d_m c)\<rparr>"
definition RecordOrderEntry :: "MetricEntry \<Rightarrow> 'f Collector \<Rightarrow> 'f Collector" where
  "RecordOrderEntry e c = c\<lparr>os_m := Metric_Record e (os_m c)\<rparr>"
definition RecordNewOrderEntry :: "MetricEntry \<Rightarrow> 'f Collector \<Rightarrow> 'f Collector" where
  "RecordNewOrderEntry e c = c\<lparr>no_m := Metric_Record e (no_m c)\<rparr>"
definition RecordStockLevelEntry :: "MetricEntry \<Rightarrow> 'f Collector \<Rightarrow> 'f Collector" where
  "RecordStockLevelEntry e c = c\<lparr>sl_m := Metric_Record e (sl_m c)\<rparr>"
definition RecordPaymentEntry :: "MetricEntry \<Rightarrow> 'f Collector \<Rightarrow> 'f Collector" where
  "RecordPaymentEntry e c = c\<lparr>p_m := Metric_Record e (p_m c)\<rparr>"
definition RecordTotalTime :: "u64 \<Rightarrow> 'f Collector \<Rightarrow> 'f Collector" where
  "RecordTotalTime us c = c\<lparr>total_time := us\<rparr>"

text \<open>\<open>setw(w)\<close> with \<open>left\<close>.\<close>

definition FormatCol :: "nat \<Rightarrow> string \<Rightarrow> string" where
  "FormatCol w s = s @ replicate (w - length s) CHR '' ''"

abbreviation show_u64 :: "u64 \<Rightarrow> string" where "show_u64 n \<equiv> show_nat (unat n)"

definition metric_row :: "'f float_ops \<Rightarrow> string \<Rightarrow> 'f Metric \<Rightarrow> string" where
  "metric_row fl nm m = FormatCol 14 nm @ FormatCol 11 (show_u64 (m_totals m)) @ FormatCol 11 (show_u64 (m_commits m)) @
     FormatCol 11 (show_u64 (m_rollbacks m)) @ FormatCol 11 (m_rate_str m) @ FormatCol 11 (f_print fl (f_div fl (avg_la m) (f_of fl 1000))) @ [CHR 0x0A]"

definition Collector_ToString :: "'f float_ops \<Rightarrow> 'f Collector \<Rightarrow> (string \<times> 'f Collector) outcome" where
  "Collector_ToString fl c =
     bnd (Metric_Summary fl (sl_m c)) (\<lambda>sl. bnd (Metric_Summary fl (d_m c)) (\<lambda>d. bnd (Metric_Summary fl (os_m c)) (\<lambda>os.
     bnd (Metric_Summary fl (p_m c)) (\<lambda>p. bnd (Metric_Summary fl (no_m c)) (\<lambda>no.
       Inr (replicate 62 CHR ''='' @ [CHR 0x0A] @
            ''Execution Result after '' @ f_print fl (f_div fl (f_of fl (total_time c)) (f_of fl 1000)) @ ''(ms)'' @ [CHR 0x0A] @
            replicate 62 CHR ''-'' @ [CHR 0x0A] @
            FormatCol 14 ''OP'' @ FormatCol 11 ''Executed'' @ FormatCol 11 ''Committed'' @ FormatCol 11 ''Rollback'' @ FormatCol 11 ''Rate'' @
            FormatCol 11 ''AvgLa(ms)'' @ [CHR 0x0A] @
            metric_row fl ''STOCK_LEVEL'' sl @ metric_row fl ''DELIVERY'' d @ metric_row fl ''ORDER_STATUS'' os @
            metric_row fl ''PAYMENT'' p @ metric_row fl ''NEW_ORDER'' no @
            replicate 62 CHR ''-'' @ [CHR 0x0A] @ FormatCol 14 ''TOTAL'' @
            FormatCol 11 (show_u64 (m_totals sl + m_totals d + m_totals os + m_totals p + m_totals no)),
            c\<lparr>sl_m := sl, d_m := d, os_m := os, p_m := p, no_m := no\<rparr>))))))"

section \<open>Runner and Task\<close>

datatype ContextType = INVALID | STOCK_LEVEL | DELIVERY | ORDER_STATUS | PAYMENT | NEW_ORDER

definition TypeStr :: "ContextType \<Rightarrow> string" where
  "TypeStr t = (case t of DELIVERY \<Rightarrow> ''DELIVERY'' | NEW_ORDER \<Rightarrow> ''NEW_ORDER'' | ORDER_STATUS \<Rightarrow> ''ORDER_STATUS''
     | PAYMENT \<Rightarrow> ''PAYMENT'' | STOCK_LEVEL \<Rightarrow> ''STOCK_LEVEL'' | INVALID \<Rightarrow> ''INVALID'')"

text \<open>The idle drivers, taken and given back at the end.\<close>

type_synonym 'd Runner = "'d list"

definition RegisterDriver :: "'d \<Rightarrow> 'd Runner \<Rightarrow> 'd Runner" where "RegisterDriver d in_idle = in_idle @ [d]"
definition Runner_Use :: "'d Runner \<Rightarrow> ('d \<times> 'd Runner) option" where
  "Runner_Use in_idle = (if in_idle = [] then None else Some (last in_idle, butlast in_idle))"
definition Runner_Release :: "'d \<Rightarrow> 'd Runner \<Rightarrow> 'd Runner" where "Runner_Release d in_idle = in_idle @ [d]"

text \<open>\<open>Task::Run\<close> once a driver is idle; while none is, it keeps asking (\<open>None\<close>). \<open>transact\<close> says whether the driver
  rolled the transaction of this kind back; \<open>time_us\<close> and \<open>now\<close> are the measured time and the clock.\<close>

definition Task_record :: "ContextType \<Rightarrow> MetricEntry \<Rightarrow> 'f Collector \<Rightarrow> 'f Collector" where
  "Task_record ty entry c =
     (if ty = DELIVERY then RecordDeliveryEntry entry c
      else if ty = NEW_ORDER then RecordNewOrderEntry entry c
      else if ty = ORDER_STATUS then RecordOrderEntry entry c
      else if ty = PAYMENT then RecordDeliveryEntry entry c
      else if ty = STOCK_LEVEL then RecordStockLevelEntry entry c
      else c)"

definition Task_Run ::
  "('d \<Rightarrow> ContextType \<Rightarrow> bool) \<Rightarrow> u64 \<Rightarrow> u64 \<Rightarrow> ContextType \<Rightarrow> 'd Runner \<Rightarrow> 'f Collector \<Rightarrow> ('d Runner \<times> 'f Collector) option outcome" where
  "Task_Run transact time_us now ty runner c =
     bnd (guard AssertFailed (ty \<noteq> INVALID)) (\<lambda>_.
       case Runner_Use runner of None \<Rightarrow> Inr None
       | Some (driver, runner) \<Rightarrow>
           let has_rollbacked = transact driver ty;
               entry = \<lparr>exec_time_us = time_us, is_commit = (\<not> has_rollbacked), entry_ts = now\<rparr>
           in Inr (Some (Runner_Release driver runner, Task_record ty entry c)))"

section \<open>Facts\<close>

lemma Summary_loop_counts:
  "m_commits (snd (Summary_loop fl es la m)) = m_commits m + of_nat (length (filter is_commit es)) \<and>
   m_rollbacks (snd (Summary_loop fl es la m)) = m_rollbacks m + of_nat (length (filter (\<lambda>e. \<not> is_commit e) es)) \<and>
   total_commits_time (snd (Summary_loop fl es la m)) = total_commits_time m + sum_list (map exec_time_us (filter is_commit es)) \<and>
   total_rollback_time (snd (Summary_loop fl es la m)) = total_rollback_time m + sum_list (map exec_time_us (filter (\<lambda>e. \<not> is_commit e) es)) \<and>
   m_totals (snd (Summary_loop fl es la m)) = m_totals m \<and> entries (snd (Summary_loop fl es la m)) = entries m \<and>
   last_modify_ts (snd (Summary_loop fl es la m)) = last_modify_ts m \<and> last_summary_ts (snd (Summary_loop fl es la m)) = last_summary_ts m"
  by (induction es arbitrary: la m) (simp_all add: algebra_simps)


lemma Metric_Summary_run:
  assumes "last_summary_ts m < last_modify_ts m"
  shows "\<exists>m'. Metric_Summary fl m = Inr m' \<and> m_totals m' = of_nat (length (entries m)) \<and>
    m_commits m' = of_nat (length (filter is_commit (entries m))) \<and>
    m_rollbacks m' = of_nat (length (filter (\<lambda>e. \<not> is_commit e) (entries m))) \<and>
    total_commits_time m' = sum_list (map exec_time_us (filter is_commit (entries m))) \<and>
    total_rollback_time m' = sum_list (map exec_time_us (filter (\<lambda>e. \<not> is_commit e) (entries m))) \<and>
    entries m' = entries m \<and> last_summary_ts m' = last_modify_ts m \<and> last_modify_ts m' = last_modify_ts m"
proof -
  let ?m = "(Metric_Reset fl m)\<lparr>m_totals := of_nat (length (entries m))\<rparr>"
  obtain la n where n: "Summary_loop fl (entries m) (f_zero fl) ?m = (la, n)" by fastforce
  have c: "m_commits n = of_nat (length (filter is_commit (entries m)))" "m_rollbacks n = of_nat (length (filter (\<lambda>e. \<not> is_commit e) (entries m)))"
    "total_commits_time n = sum_list (map exec_time_us (filter is_commit (entries m)))"
    "total_rollback_time n = sum_list (map exec_time_us (filter (\<lambda>e. \<not> is_commit e) (entries m)))"
    "m_totals n = of_nat (length (entries m))" "entries n = entries m" "last_modify_ts n = last_modify_ts m"
    using Summary_loop_counts [of fl "entries m" "f_zero fl" ?m] unfolding n by (simp_all add: Metric_Reset_def)
  have "length (filter is_commit (entries m)) + length (filter (\<lambda>e. \<not> is_commit e) (entries m)) = length (entries m)"
    by (rule sum_length_filter_compl)
  then have "m_commits n + m_rollbacks n = m_totals n" unfolding c by (metis of_nat_add)
  moreover have "entries ?m = entries m" by (simp add: Metric_Reset_def)
  ultimately have run: "Metric_Summary fl m = Inr
      ((if m_totals n \<noteq> 0
        then let r = f_div fl (f_of fl (m_rollbacks n)) (f_of fl (m_totals n))
             in n\<lparr>m_rate := r, m_rate_str := f_to_string fl (f_mul fl r (f_of fl 100)) @ ''%'', avg_la := f_div fl la (f_of fl (m_totals n))\<rparr>
        else n)\<lparr>last_summary_ts := last_modify_ts n\<rparr>)"
    using assms n by (simp add: Metric_Summary_def Let_def Metric_Reset_def)
  show ?thesis unfolding run using c by (simp add: Let_def)
qed

text \<open>A summary counts what was recorded. When an entry newer than the last summary was recorded, the
  summary does not fail and counts all entries, the committed and the rolled back ones and their times;
  asking again changes nothing. An entry that is not newer than the last one summarised is kept but not
  counted: the summary after it leaves all numbers as they were.\<close>

theorem Metric_Summary_correct:
  assumes "last_summary_ts m < last_modify_ts m"
  shows "\<exists>m'. Metric_Summary fl m = Inr m' \<and> m_totals m' = of_nat (length (entries m)) \<and>
    m_commits m' = of_nat (length (filter is_commit (entries m))) \<and>
    m_rollbacks m' = of_nat (length (filter (\<lambda>e. \<not> is_commit e) (entries m))) \<and>
    total_commits_time m' = sum_list (map exec_time_us (filter is_commit (entries m))) \<and>
    Metric_Summary fl m' = Inr m' \<and>
    (\<forall>e. entry_ts e \<le> last_modify_ts m \<longrightarrow> Metric_Summary fl (Metric_Record e m') = Inr (m'\<lparr>entries := entries m @ [e]\<rparr>))"
proof -
  obtain m' where m': "Metric_Summary fl m = Inr m'" "m_totals m' = of_nat (length (entries m))"
    "m_commits m' = of_nat (length (filter is_commit (entries m)))" "m_rollbacks m' = of_nat (length (filter (\<lambda>e. \<not> is_commit e) (entries m)))"
    "total_commits_time m' = sum_list (map exec_time_us (filter is_commit (entries m)))"
    "entries m' = entries m" "last_summary_ts m' = last_modify_ts m" "last_modify_ts m' = last_modify_ts m"
    using Metric_Summary_run [OF assms] by blast
  have "Metric_Summary fl m' = Inr m'" using m'(7,8) by (simp add: Metric_Summary_def)
  moreover have "Metric_Record e m' = m'\<lparr>entries := entries m @ [e]\<rparr>" if "entry_ts e \<le> last_modify_ts m" for e
    using that m'(6,8) by (simp add: Metric_Record_def Let_def not_less)
  then have "Metric_Summary fl (Metric_Record e m') = Inr (m'\<lparr>entries := entries m @ [e]\<rparr>)" if "entry_ts e \<le> last_modify_ts m" for e
    using that m'(7,8) by (simp add: Metric_Summary_def)
  ultimately show ?thesis using m'(1-5) by blast
qed

definition int_float :: "int float_ops" where
  "int_float = \<lparr>f_zero = 0, f_of = uint, f_add = (+), f_mul = (*), f_div = (div), f_to_string = (\<lambda>x. show_nat (nat x)), f_print = (\<lambda>x. show_nat (nat x))\<rparr>"

theorem Metric_Summary_correct_witness:
  "\<exists>m'. Metric_Summary int_float (Metric_Record \<lparr>exec_time_us = 5, is_commit = False, entry_ts = 9\<rparr>
      (Metric_Record \<lparr>exec_time_us = 4, is_commit = True, entry_ts = 8\<rparr> (Metric_new int_float))) = Inr m' \<and> m_totals m' = 2 \<and> m_commits m' = 1"
  using Metric_Summary_correct [of "Metric_Record \<lparr>exec_time_us = 5, is_commit = False, entry_ts = 9\<rparr>
      (Metric_Record \<lparr>exec_time_us = 4, is_commit = True, entry_ts = 8\<rparr> (Metric_new int_float))" int_float]
  by (auto simp: Metric_Record_def Metric_new_def)

text \<open>Every driver is given back, and a payment is counted as a delivery.\<close>

lemma Task_Run_payment:
  assumes "runner \<noteq> []"
  shows "\<exists>entry. Task_Run transact time_us now PAYMENT runner c = Inr (Some (runner, RecordDeliveryEntry entry c)) \<and>
    p_m (RecordDeliveryEntry entry c) = p_m c \<and> entries (d_m (RecordDeliveryEntry entry c)) = entries (d_m c) @ [entry]"
proof -
  let ?e = "\<lparr>exec_time_us = time_us, is_commit = (\<not> transact (last runner) PAYMENT), entry_ts = now\<rparr>"
  have "Task_Run transact time_us now PAYMENT runner c = Inr (Some (runner, RecordDeliveryEntry ?e c))"
    using assms by (simp add: Task_Run_def Runner_Use_def Runner_Release_def Task_record_def Let_def)
  then show ?thesis by (intro exI [of _ ?e]) (simp add: RecordDeliveryEntry_def Metric_Record_def Let_def)
qed

end
