(* ===== verification/Tp_Factory.thy ===== *)
theory Tp_Factory
  imports Tp_Ids Tp_Metric
begin

text \<open>
  What the benchmark runs (\<open>duckdb_lab/TpccFactory.h\<close>, \<open>TpccFactory.cpp\<close>, \<open>consts.h\<close>): scale and mix of the transactions,
  the mocked arguments and \<open>NextContext\<close>. Random numbers come from a source \<open>rnd\<close>, whose \<open>i\<close>-th draw for given
  bounds is \<open>rnd i a b\<close>; a function that draws takes the number of draws so far and gives it back. The
  time as text is an argument.
\<close>

section \<open>Settings\<close>

definition NUM_ITEMS :: int where "NUM_ITEMS = 100000"
definition DISTRICTS_PER_WAREHOUSE :: int where "DISTRICTS_PER_WAREHOUSE = 10"
definition CUSTOMERS_PER_DISTRICT :: int where "CUSTOMERS_PER_DISTRICT = 3000"
definition INITIAL_NEW_ORDERS_PER_DISTRICT :: int where "INITIAL_NEW_ORDERS_PER_DISTRICT = 900"
definition MIN_CARRIER_ID :: int where "MIN_CARRIER_ID = 1"
definition MAX_CARRIER_ID :: int where "MAX_CARRIER_ID = 10"
definition MIN_OL_CNT :: int where "MIN_OL_CNT = 5"
definition MAX_OL_CNT :: int where "MAX_OL_CNT = 15"
definition MAX_OL_QUANTITY :: int where "MAX_OL_QUANTITY = 10"
definition MIN_STOCK_LEVEL_THRESHOLD :: int where "MIN_STOCK_LEVEL_THRESHOLD = 10"
definition MAX_STOCK_LEVEL_THRESHOLD :: int where "MAX_STOCK_LEVEL_THRESHOLD = 20"
definition MIN_PAYMENT :: int where "MIN_PAYMENT = 1"
definition MAX_PAYMENT :: int where "MAX_PAYMENT = 5000"

record ScaleParameters =
  warehouses :: int
  items :: int
  districts_per_wh :: int
  customers_per_district :: int
  new_orders_per_district :: int
  wh_start :: int
  wh_end :: int

definition ScaleParameters_Build :: "int \<Rightarrow> ScaleParameters outcome" where
  "ScaleParameters_Build scale_factor =
     bnd (guard AssertFailed (scale_factor \<le> 10000 \<and> 0 < scale_factor)) (\<lambda>_.
       Inr \<lparr>warehouses = scale_factor, items = NUM_ITEMS, districts_per_wh = DISTRICTS_PER_WAREHOUSE,
            customers_per_district = CUSTOMERS_PER_DISTRICT, new_orders_per_district = INITIAL_NEW_ORDERS_PER_DISTRICT,
            wh_start = 1, wh_end = 1 + scale_factor - 1\<rparr>)"

record TpccSettings =
  stock_level_p :: int
  delivery_p :: int
  order_status_p :: int
  payment_p :: int
  new_order_p :: int
  sl_p_upper :: int
  d_p_upper :: int
  os_p_upper :: int
  p_p_upper :: int
  sp :: ScaleParameters

definition TpccSettings_new :: "ScaleParameters \<Rightarrow> TpccSettings" where
  "TpccSettings_new s = \<lparr>stock_level_p = 4, delivery_p = 4, order_status_p = 4, payment_p = 0, new_order_p = 88,
     sl_p_upper = 0, d_p_upper = 0, os_p_upper = 0, p_p_upper = 0, sp = s\<rparr>"

definition TpccSettings_Build :: "ScaleParameters option \<Rightarrow> TpccSettings outcome" where
  "TpccSettings_Build s = bnd (case s of None \<Rightarrow> ScaleParameters_Build 1 | Some s \<Rightarrow> Inr s) (\<lambda>s. Inr (TpccSettings_new s))"

text \<open>\<open>IsValid\<close> also sets the upper ends of the ranges of the transactions.\<close>

definition IsValid :: "TpccSettings \<Rightarrow> bool \<times> TpccSettings" where
  "IsValid t =
     (let valid = 0 \<le> stock_level_p t \<and> 0 \<le> delivery_p t \<and> 0 \<le> order_status_p t \<and> 0 \<le> payment_p t \<and> 0 \<le> new_order_p t \<and>
            stock_level_p t + delivery_p t + order_status_p t + payment_p t + new_order_p t = 100
      in (valid, if valid then t\<lparr>sl_p_upper := stock_level_p t, d_p_upper := stock_level_p t + delivery_p t,
            os_p_upper := stock_level_p t + delivery_p t + order_status_p t,
            p_p_upper := stock_level_p t + delivery_p t + order_status_p t + payment_p t\<rparr> else t))"

text \<open>\<open>TpccFactory::Build\<close>: the factory is its settings; a null pointer for settings that are not valid.\<close>

definition TpccFactory_Build :: "TpccSettings option \<Rightarrow> TpccSettings option outcome" where
  "TpccFactory_Build t = bnd (case t of None \<Rightarrow> TpccSettings_Build None | Some t \<Rightarrow> Inr t) (\<lambda>t.
     let (valid, t) = IsValid t in Inr (if valid then Some t else None))"

section \<open>Mocked arguments\<close>

type_synonym random = "nat \<Rightarrow> int \<Rightarrow> int \<Rightarrow> int"

definition draw :: "random \<Rightarrow> int \<Rightarrow> int \<Rightarrow> nat \<Rightarrow> int \<times> nat" where
  "draw rnd a b i = (rnd i a b, i + 1)"

text \<open>\<open>MockPaymentAmount\<close>: the number drawn and the divisor, whose quotient as \<open>float\<close> is the amount. The bounds are
  computed in \<open>float\<close>, exactly up to three places.\<close>

definition MockPaymentAmount :: "random \<Rightarrow> nat \<Rightarrow> nat \<Rightarrow> ((int \<times> int) \<times> nat) outcome" where
  "MockPaymentAmount rnd decimal_places i =
     bnd (guard AssertFailed (0 < decimal_places)) (\<lambda>_.
       let multiplier = 10 ^ decimal_places; (n, i) = draw rnd (MIN_PAYMENT * multiplier) (MAX_PAYMENT * multiplier) i
       in Inr ((n, multiplier), i))"

definition MockWarehouseID :: "random \<Rightarrow> TpccSettings \<Rightarrow> nat \<Rightarrow> int \<times> nat" where
  "MockWarehouseID rnd t i = draw rnd (wh_start (sp t)) (wh_end (sp t)) i"

definition MockDistrictID :: "random \<Rightarrow> TpccSettings \<Rightarrow> nat \<Rightarrow> int \<times> nat" where
  "MockDistrictID rnd t i = draw rnd 1 (districts_per_wh (sp t)) i"

definition produce :: "random \<Rightarrow> RNGenerator \<Rightarrow> IDType \<Rightarrow> int \<Rightarrow> int \<Rightarrow> nat \<Rightarrow> (int \<times> nat) outcome" where
  "produce rnd g type a b i = bnd (Produce (rnd i) (rnd (i + 1)) g type a b) (\<lambda>x. Inr (x, i + 2))"

definition SYLLABLES :: "string list" where
  "SYLLABLES = [''BAR'', ''OUGHT'', ''ABLE'', ''PRI'', ''PRES'', ''ESE'', ''ANTI'', ''CALLY'', ''ATION'', ''EING'']"

definition syllable :: "int \<Rightarrow> string outcome" where
  "syllable i = (if 0 \<le> i \<and> nat i < length SYLLABLES then Inr (SYLLABLES ! nat i) else Inl OutOfBounds)"

definition MockLastName :: "random \<Rightarrow> RNGenerator \<Rightarrow> TpccSettings \<Rightarrow> nat \<Rightarrow> (string \<times> nat) outcome" where
  "MockLastName rnd g t i =
     bnd (produce rnd g LAST_NAME 0 (min (customers_per_district (sp t) - 1) 999) i) (\<lambda>(number, i).
     bnd (syllable (number sdiv 100)) (\<lambda>a. bnd (syllable ((number sdiv 10) smod 10)) (\<lambda>b. bnd (syllable (number smod 10)) (\<lambda>c.
       Inr (a @ b @ c, i)))))"

definition MockCustomerID :: "random \<Rightarrow> RNGenerator \<Rightarrow> TpccSettings \<Rightarrow> nat \<Rightarrow> (int \<times> nat) outcome" where
  "MockCustomerID rnd g t i = produce rnd g CUSTOMER 1 (customers_per_district (sp t)) i"

definition MockItemID :: "random \<Rightarrow> RNGenerator \<Rightarrow> TpccSettings \<Rightarrow> nat \<Rightarrow> (int \<times> nat) outcome" where
  "MockItemID rnd g t i = produce rnd g ITEM 1 (items (sp t)) i"

text \<open>\<open>while (ids.size() >= n)\<close>.\<close>

partial_function (option) MockItemIDS_loop ::
  "random \<Rightarrow> RNGenerator \<Rightarrow> TpccSettings \<Rightarrow> nat \<Rightarrow> int list \<Rightarrow> int set \<Rightarrow> nat \<Rightarrow> (int list \<times> nat) outcome option" where
  "MockItemIDS_loop rnd g t n ids id_set i =
     (if n \<le> length ids
      then (case MockItemID rnd g t i of Inl e \<Rightarrow> Some (Inl e)
            | Inr (x, i) \<Rightarrow>
                if x \<in> id_set then MockItemIDS_loop rnd g t n ids id_set i
                else MockItemIDS_loop rnd g t n (ids @ [x]) (insert x id_set) i)
      else Some (Inr (ids, i)))"

definition MockItemIDS :: "random \<Rightarrow> RNGenerator \<Rightarrow> TpccSettings \<Rightarrow> nat \<Rightarrow> nat \<Rightarrow> (int list \<times> nat) outcome" where
  "MockItemIDS rnd g t n i = (case MockItemIDS_loop rnd g t n [] {} i of None \<Rightarrow> Inl Diverges | Some r \<Rightarrow> r)"


section \<open>Contexts\<close>

record DeliveryContext =
  dl_w_id :: int
  o_carrier_id :: int
  ol_delivery_d :: string

record StockLevelContext =
  sl_w_id :: int
  sl_d_id :: int
  threshold :: int

record OrderStatusContext =
  os_c_id :: int
  os_w_id :: int
  os_d_id :: int
  os_c_last :: string

record PaymentContext =
  py_w_id :: int
  py_d_id :: int
  h_amount :: "int \<times> int"
  c_w_id :: int
  c_d_id :: int
  py_c_id :: int
  py_c_last :: string
  h_date :: string

record NewOrderContext =
  no_w_id :: int
  no_d_id :: int
  no_c_id :: int
  ol_cnt :: int
  o_entry_d :: string
  i_ids :: "int list"
  i_w_ids :: "int list"
  i_qtys :: "int list"
  all_local :: bool

record TpccContext =
  ctx_type :: ContextType
  delivery_ctx :: "DeliveryContext option"
  stock_level_ctx :: "StockLevelContext option"
  order_status_ctx :: "OrderStatusContext option"
  payment_ctx :: "PaymentContext option"
  new_order_ctx :: "NewOrderContext option"
  has_rollbacked :: bool

definition TpccContext_new :: TpccContext where
  "TpccContext_new = \<lparr>ctx_type = INVALID, delivery_ctx = None, stock_level_ctx = None, order_status_ctx = None, payment_ctx = None,
     new_order_ctx = None, has_rollbacked = False\<rparr>"

section \<open>NextContext\<close>

definition NextContext_stock_level :: "random \<Rightarrow> TpccSettings \<Rightarrow> nat \<Rightarrow> TpccContext \<times> nat" where
  "NextContext_stock_level rnd t i =
     (let (w, i) = MockWarehouseID rnd t i; (d, i) = MockDistrictID rnd t i;
          (th, i) = draw rnd MIN_STOCK_LEVEL_THRESHOLD MAX_STOCK_LEVEL_THRESHOLD i
      in (TpccContext_new\<lparr>ctx_type := STOCK_LEVEL, stock_level_ctx := Some \<lparr>sl_w_id = w, sl_d_id = d, threshold = th\<rparr>\<rparr>, i))"

definition NextContext_delivery :: "random \<Rightarrow> string \<Rightarrow> TpccSettings \<Rightarrow> nat \<Rightarrow> TpccContext \<times> nat" where
  "NextContext_delivery rnd now t i =
     (let (ca, i) = draw rnd MIN_CARRIER_ID MAX_CARRIER_ID i; (w, i) = MockWarehouseID rnd t i
      in (TpccContext_new\<lparr>ctx_type := DELIVERY, delivery_ctx := Some \<lparr>dl_w_id = w, o_carrier_id = ca, ol_delivery_d = now\<rparr>\<rparr>, i))"

definition NextContext_order_status :: "random \<Rightarrow> RNGenerator \<Rightarrow> TpccSettings \<Rightarrow> nat \<Rightarrow> (TpccContext \<times> nat) outcome" where
  "NextContext_order_status rnd g t i =
     (let (w, i) = MockWarehouseID rnd t i; (d, i) = MockDistrictID rnd t i; (r, i) = draw rnd 1 60 i
      in bnd (if r \<le> 60 then bnd (MockLastName rnd g t i) (\<lambda>(nm, i). Inr (0, nm, i))
              else bnd (MockCustomerID rnd g t i) (\<lambda>(c, i). Inr (c, '''', i))) (\<lambda>(c, nm, i).
         Inr (TpccContext_new\<lparr>ctx_type := ORDER_STATUS,
                order_status_ctx := Some \<lparr>os_c_id = c, os_w_id = w, os_d_id = d, os_c_last = nm\<rparr>\<rparr>, i)))"

text \<open>The search for another warehouse in a payment draws from the first warehouse to the first warehouse.\<close>

partial_function (option) Payment_other :: "random \<Rightarrow> TpccSettings \<Rightarrow> int \<Rightarrow> nat \<Rightarrow> (int \<times> nat) option" where
  "Payment_other rnd t w i =
     (if rnd i (wh_start (sp t)) (wh_start (sp t)) \<noteq> w then Some (rnd i (wh_start (sp t)) (wh_start (sp t)), i + 1)
      else Payment_other rnd t w (i + 1))"

definition NextContext_payment :: "random \<Rightarrow> string \<Rightarrow> RNGenerator \<Rightarrow> TpccSettings \<Rightarrow> nat \<Rightarrow> (TpccContext \<times> nat) outcome" where
  "NextContext_payment rnd now g t i =
     (let (w, i) = MockWarehouseID rnd t i; (d, i) = MockDistrictID rnd t i in
      bnd (MockPaymentAmount rnd 2 i) (\<lambda>(amount, i).
      bnd (if warehouses (sp t) = 1 then Inr (w, d, i)
           else let (r, i) = draw rnd 1 100 i
                in if r \<le> 85 then Inr (w, d, i)
                   else bnd (of_opt Diverges (Payment_other rnd t w i)) (\<lambda>(cw, i). let (cd, i) = MockDistrictID rnd t i in Inr (cw, cd, i)))
        (\<lambda>(cw, cd, i). let (r, i) = draw rnd 1 100 i in
      bnd (if r \<le> 60 then bnd (MockLastName rnd g t i) (\<lambda>(nm, i). Inr (0, nm, i))
           else bnd (MockCustomerID rnd g t i) (\<lambda>(c, i). Inr (c, '''', i))) (\<lambda>(c, nm, i).
        Inr (TpccContext_new\<lparr>ctx_type := PAYMENT, payment_ctx := Some \<lparr>py_w_id = w, py_d_id = d, h_amount = amount, c_w_id = cw,
               c_d_id = cd, py_c_id = c, py_c_last = nm, h_date = now\<rparr>\<rparr>, i)))))"

partial_function (option) NewOrder_other :: "random \<Rightarrow> TpccSettings \<Rightarrow> int \<Rightarrow> nat \<Rightarrow> (int \<times> nat) option" where
  "NewOrder_other rnd t w i =
     (if fst (MockWarehouseID rnd t i) \<noteq> w then Some (MockWarehouseID rnd t i) else NewOrder_other rnd t w (snd (MockWarehouseID rnd t i)))"

text \<open>The loop over the lines of an order, with the warehouses, the quantities and whether all are local so far.\<close>

fun NewOrder_lines :: "random \<Rightarrow> TpccSettings \<Rightarrow> int \<Rightarrow> nat \<Rightarrow> int list \<Rightarrow> int list \<Rightarrow> bool \<Rightarrow> nat \<Rightarrow> (int list \<times> int list \<times> bool \<times> nat) outcome" where
  "NewOrder_lines rnd t w 0 ws qs loc i = Inr (ws, qs, loc, i)"
| "NewOrder_lines rnd t w (Suc n) ws qs loc i =
     (let (r, i) = draw rnd 1 100 i in
      bnd (if r = 1 \<and> 1 < warehouses (sp t)
           then bnd (of_opt Diverges (NewOrder_other rnd t w i)) (\<lambda>(x, i). Inr (x, False, i))
           else Inr (w, loc, i)) (\<lambda>(x, loc, i).
      let (q, i) = draw rnd 1 MAX_OL_QUANTITY i in NewOrder_lines rnd t w n (ws @ [x]) (qs @ [q]) loc i))"

definition NextContext_new_order :: "random \<Rightarrow> string \<Rightarrow> RNGenerator \<Rightarrow> TpccSettings \<Rightarrow> nat \<Rightarrow> (TpccContext \<times> nat) outcome" where
  "NextContext_new_order rnd now g t i =
     (let (w, i) = MockWarehouseID rnd t i; (d, i) = MockDistrictID rnd t i in
      bnd (MockCustomerID rnd g t i) (\<lambda>(c, i).
      let (cnt, i) = draw rnd MIN_OL_CNT MAX_OL_CNT i in
      bnd (MockItemIDS rnd g t (nat cnt) i) (\<lambda>(ids, i).
      bnd (NewOrder_lines rnd t w (nat cnt) [] [] True i) (\<lambda>(ws, qs, loc, i).
        Inr (TpccContext_new\<lparr>ctx_type := NEW_ORDER, new_order_ctx := Some \<lparr>no_w_id = w, no_d_id = d, no_c_id = c, ol_cnt = cnt,
               o_entry_d = now, i_ids = ids, i_w_ids = ws, i_qtys = qs, all_local = loc\<rparr>\<rparr>, i)))))"

definition NextContext :: "random \<Rightarrow> string \<Rightarrow> RNGenerator \<Rightarrow> TpccSettings \<Rightarrow> nat \<Rightarrow> (TpccContext \<times> nat) outcome" where
  "NextContext rnd now g t i =
     (let (rand_val, i) = draw rnd 1 100 i in
      if rand_val \<le> sl_p_upper t then Inr (NextContext_stock_level rnd t i)
      else if rand_val \<le> d_p_upper t then Inr (NextContext_delivery rnd now t i)
      else if rand_val \<le> os_p_upper t then NextContext_order_status rnd g t i
      else if rand_val \<le> p_p_upper t then NextContext_payment rnd now g t i
      else NextContext_new_order rnd now g t i)"

section \<open>What the factory hands out\<close>

text \<open>The draws of \<open>RandomNumber\<close> lie within the bounds asked for, and so do the constants of the generator.\<close>

definition in_range :: "random \<Rightarrow> bool" where
  "in_range rnd \<longleftrightarrow> (\<forall>i a b. a \<le> b \<longrightarrow> a \<le> rnd i a b \<and> rnd i a b \<le> b)"

definition generator_ok :: "RNGenerator \<Rightarrow> bool" where
  "generator_ok g \<longleftrightarrow> 0 \<le> c_last g \<and> c_last g \<le> 1023 \<and> 0 \<le> c_id g \<and> c_id g \<le> 255 \<and>
     0 \<le> order_line_item_id g \<and> order_line_item_id g \<le> 8191"

lemma RNGenerator_new_ok: "in_range rnd \<Longrightarrow> generator_ok (RNGenerator_new (rnd i) (rnd j) (rnd k))"
  by (simp add: generator_ok_def RNGenerator_new_def in_range_def)

lemma in_rangeD: "in_range rnd \<Longrightarrow> a \<le> b \<Longrightarrow> a \<le> rnd i a b" "in_range rnd \<Longrightarrow> a \<le> b \<Longrightarrow> rnd i a b \<le> b"
  by (simp_all add: in_range_def)

lemma produce_ok:
  assumes "in_range rnd" "generator_ok g" "0 \<le> a" "a \<le> b" "b < 2 ^ 30"
  shows "\<exists>x. produce rnd g type a b i = Inr (x, i + 2) \<and> a \<le> x \<and> x \<le> b"
proof -
  obtain x where "Produce (rnd i) (rnd (i + 1)) g type a b = Inr x" "a \<le> x" "x \<le> b"
    using Produce_range [of a b g "rnd i" "rnd (i + 1)" type] assms unfolding generator_ok_def in_range_def by blast
  then show ?thesis by (simp add: produce_def)
qed

lemma sdiv_nonneg: "0 \<le> k \<Longrightarrow> 0 < l \<Longrightarrow> k sdiv l = k div (l :: int)"
  by (simp add: signed_divide_int_def sgn_if)

lemma syllable_ok: "0 \<le> n \<Longrightarrow> n < 10 \<Longrightarrow> \<exists>s. syllable n = Inr s"
  by (simp add: syllable_def SYLLABLES_def nat_less_iff)

lemma MockLastName_ok:
  assumes "in_range rnd" "generator_ok g" "0 < customers_per_district (sp t)"
  shows "\<exists>nm. MockLastName rnd g t i = Inr (nm, i + 2)"
proof -
  let ?e = "min (customers_per_district (sp t) - 1) 999"
  have e: "0 \<le> ?e" "?e < 2 ^ 30" using assms(3) by (simp_all add: min_def)
  obtain x where x: "produce rnd g LAST_NAME 0 ?e i = Inr (x, i + 2)" "0 \<le> x" "x \<le> ?e"
    using produce_ok [OF assms(1,2) order_refl e] by blast
  have "0 \<le> x div 100" "x div 100 < 10" "0 \<le> x div 10 mod 10" "x div 10 mod 10 < 10" "0 \<le> x mod 10" "x mod 10 < 10"
    using x(2,3) by (auto simp: pos_imp_zdiv_nonneg_iff)
  then obtain a b c where "syllable (x div 100) = Inr a" "syllable (x div 10 mod 10) = Inr b" "syllable (x mod 10) = Inr c"
    using syllable_ok by meson
  then show ?thesis using x(1,2) by (simp add: MockLastName_def sdiv_nonneg smod_nonneg pos_imp_zdiv_nonneg_iff)
qed

lemma MockItemIDS_empty: "0 < n \<Longrightarrow> MockItemIDS rnd g t n i = Inr ([], i)"
  by (simp add: MockItemIDS_def MockItemIDS_loop.simps)

lemma NewOrder_lines_length:
  "NewOrder_lines rnd t w n ws qs loc i = Inr (ws', qs', loc', j) \<Longrightarrow> length ws' = length ws + n \<and> length qs' = length qs + n"
proof (induction n arbitrary: ws qs loc i)
  case (Suc n)
  then show ?case by (fastforce simp: Let_def split_beta bnd_eq_Inr split: if_splits)
qed simp

lemma NewOrder_lines_local:
  assumes "in_range rnd" "warehouses (sp t) = 1"
  shows "\<exists>qs' j. NewOrder_lines rnd t w n ws qs loc i = Inr (ws @ replicate n w, qs @ qs', loc, j) \<and>
    length qs' = n \<and> (\<forall>q \<in> set qs'. 1 \<le> q \<and> q \<le> MAX_OL_QUANTITY)"
proof (induction n arbitrary: ws qs i)
  case (Suc n)
  let ?q = "rnd (i + 1) 1 MAX_OL_QUANTITY"
  have q: "1 \<le> ?q \<and> ?q \<le> MAX_OL_QUANTITY" using in_rangeD [OF assms(1)] by (simp add: MAX_OL_QUANTITY_def)
  obtain qs' j where "NewOrder_lines rnd t w n (ws @ [w]) (qs @ [?q]) loc (i + 2) = Inr ((ws @ [w]) @ replicate n w, (qs @ [?q]) @ qs', loc, j)"
    "length qs' = n" "\<forall>q \<in> set qs'. 1 \<le> q \<and> q \<le> MAX_OL_QUANTITY"
    using Suc.IH by blast
  then have "NewOrder_lines rnd t w (Suc n) ws qs loc i = Inr (ws @ replicate (Suc n) w, qs @ (?q # qs'), loc, j) \<and>
      length (?q # qs') = Suc n \<and> (\<forall>q \<in> set (?q # qs'). 1 \<le> q \<and> q \<le> MAX_OL_QUANTITY)"
    using q assms(2) by (simp add: draw_def)
  then show ?case by blast
qed simp


text \<open>What a context for one warehouse should hold, by its type.\<close>

definition context_ok :: "TpccContext \<Rightarrow> bool" where
  "context_ok c = (case ctx_type c of INVALID \<Rightarrow> False
     | STOCK_LEVEL \<Rightarrow> (case stock_level_ctx c of None \<Rightarrow> False
         | Some x \<Rightarrow> sl_w_id x = 1 \<and> 1 \<le> sl_d_id x \<and> sl_d_id x \<le> 10 \<and> 10 \<le> threshold x \<and> threshold x \<le> 20)
     | DELIVERY \<Rightarrow> (case delivery_ctx c of None \<Rightarrow> False | Some x \<Rightarrow> dl_w_id x = 1 \<and> 1 \<le> o_carrier_id x \<and> o_carrier_id x \<le> 10)
     | ORDER_STATUS \<Rightarrow> (case order_status_ctx c of None \<Rightarrow> False
         | Some x \<Rightarrow> os_w_id x = 1 \<and> 1 \<le> os_d_id x \<and> os_d_id x \<le> 10 \<and> os_c_id x = 0)
     | PAYMENT \<Rightarrow> (case payment_ctx c of None \<Rightarrow> False
         | Some x \<Rightarrow> py_w_id x = 1 \<and> 1 \<le> py_d_id x \<and> py_d_id x \<le> 10 \<and> c_w_id x = 1 \<and> c_d_id x = py_d_id x \<and>
             snd (h_amount x) = 100 \<and> 100 \<le> fst (h_amount x) \<and> fst (h_amount x) \<le> 500000 \<and> 0 \<le> py_c_id x \<and> py_c_id x \<le> 3000)
     | NEW_ORDER \<Rightarrow> (case new_order_ctx c of None \<Rightarrow> False
         | Some x \<Rightarrow> no_w_id x = 1 \<and> 1 \<le> no_d_id x \<and> no_d_id x \<le> 10 \<and> 1 \<le> no_c_id x \<and> no_c_id x \<le> 3000 \<and> 5 \<le> ol_cnt x \<and> ol_cnt x \<le> 15 \<and>
             i_w_ids x = replicate (nat (ol_cnt x)) 1 \<and> length (i_qtys x) = nat (ol_cnt x) \<and>
             list_all (\<lambda>q. 1 \<le> q \<and> q \<le> 10) (i_qtys x) \<and> all_local x))"

lemmas const_defs = MIN_STOCK_LEVEL_THRESHOLD_def MAX_STOCK_LEVEL_THRESHOLD_def MIN_CARRIER_ID_def MAX_CARRIER_ID_def MIN_OL_CNT_def
  MAX_OL_CNT_def MAX_OL_QUANTITY_def MIN_PAYMENT_def MAX_PAYMENT_def
lemmas draws = draw_def MockWarehouseID_def MockDistrictID_def

text \<open>The settings of one warehouse.\<close>

definition one_warehouse :: "TpccSettings \<Rightarrow> bool" where
  "one_warehouse t \<longleftrightarrow> ScaleParameters_Build 1 = Inr (sp t)"

lemma one_warehouseD:
  assumes "one_warehouse t"
  shows "warehouses (sp t) = 1" "wh_start (sp t) = 1" "wh_end (sp t) = 1" "districts_per_wh (sp t) = 10" "customers_per_district (sp t) = 3000"
    "items (sp t) = 100000"
proof -
  have "sp t = \<lparr>warehouses = 1, items = 100000, districts_per_wh = 10, customers_per_district = 3000, new_orders_per_district = 900,
      wh_start = 1, wh_end = 1\<rparr>"
    using assms by (simp add: one_warehouse_def ScaleParameters_Build_def DISTRICTS_PER_WAREHOUSE_def CUSTOMERS_PER_DISTRICT_def
      NUM_ITEMS_def INITIAL_NEW_ORDERS_PER_DISTRICT_def)
  then show "warehouses (sp t) = 1" "wh_start (sp t) = 1" "wh_end (sp t) = 1" "districts_per_wh (sp t) = 10"
    "customers_per_district (sp t) = 3000" "items (sp t) = 100000" by simp_all
qed

lemma draw_one: "in_range rnd \<Longrightarrow> rnd i a a = a"
  using in_rangeD [of rnd a a i] by simp

lemma MockCustomerID_ok:
  assumes "in_range rnd" "generator_ok g" "one_warehouse t"
  shows "\<exists>x. MockCustomerID rnd g t i = Inr (x, i + 2) \<and> 1 \<le> x \<and> x \<le> 3000"
  using produce_ok [OF assms(1,2), of 1 3000 CUSTOMER i] by (simp add: MockCustomerID_def one_warehouseD [OF assms(3)])

lemma MockLastName_one:
  assumes "in_range rnd" "generator_ok g" "one_warehouse t"
  shows "\<exists>nm. MockLastName rnd g t i = Inr (nm, i + 2)"
  using MockLastName_ok [OF assms(1,2), of t i] by (simp add: one_warehouseD [OF assms(3)])

lemma NextContext_stock_level_ok:
  assumes "in_range rnd" "one_warehouse t"
  shows "context_ok (fst (NextContext_stock_level rnd t i)) \<and> ctx_type (fst (NextContext_stock_level rnd t i)) = STOCK_LEVEL"
  using in_rangeD [OF assms(1)] one_warehouseD [OF assms(2)]
  by (simp add: NextContext_stock_level_def draws const_defs context_ok_def draw_one [OF assms(1)])

lemma NextContext_delivery_ok:
  assumes "in_range rnd" "one_warehouse t"
  shows "context_ok (fst (NextContext_delivery rnd now t i)) \<and> ctx_type (fst (NextContext_delivery rnd now t i)) = DELIVERY"
  using in_rangeD [OF assms(1)] one_warehouseD [OF assms(2)]
  by (simp add: NextContext_delivery_def draws const_defs context_ok_def draw_one [OF assms(1)])

lemma NextContext_order_status_ok:
  assumes "in_range rnd" "generator_ok g" "one_warehouse t"
  shows "\<exists>c j. NextContext_order_status rnd g t i = Inr (c, j) \<and> context_ok c \<and> ctx_type c = ORDER_STATUS"
proof -
  obtain nm where "MockLastName rnd g t (i + 3) = Inr (nm, i + 3 + 2)" using MockLastName_one [OF assms] by blast
  then show ?thesis using in_rangeD [OF assms(1)] one_warehouseD [OF assms(3)]
    by (simp add: NextContext_order_status_def draws context_ok_def draw_one [OF assms(1)] eval_nat_numeral)
qed

lemma NextContext_payment_ok:
  assumes "in_range rnd" "generator_ok g" "one_warehouse t"
  shows "\<exists>c j. NextContext_payment rnd now g t i = Inr (c, j) \<and> context_ok c \<and> ctx_type c = PAYMENT"
proof -
  let ?b = "rnd (i + 3) 1 100 \<le> 60"
  obtain nm where nm: "MockLastName rnd g t (i + 4) = Inr (nm, i + 6)"
    using MockLastName_one [OF assms, of "i + 4"] by (auto simp: eval_nat_numeral)
  obtain c where c: "MockCustomerID rnd g t (i + 4) = Inr (c, i + 6)" "1 \<le> c" "c \<le> 3000"
    using MockCustomerID_ok [OF assms, of "i + 4"] by (auto simp: eval_nat_numeral)
  have "NextContext_payment rnd now g t i = Inr (TpccContext_new\<lparr>ctx_type := PAYMENT, payment_ctx := Some \<lparr>py_w_id = 1,
      py_d_id = rnd (i + 1) 1 10, h_amount = (rnd (i + 2) 100 500000, 100), c_w_id = 1, c_d_id = rnd (i + 1) 1 10,
      py_c_id = (if ?b then 0 else c), py_c_last = (if ?b then nm else ''''), h_date = now\<rparr>\<rparr>, i + 6)"
    using nm c(1) one_warehouseD [OF assms(3)]
    by (cases ?b) (simp_all add: NextContext_payment_def MockPaymentAmount_def draws const_defs draw_one [OF assms(1)] eval_nat_numeral)
  then show ?thesis using c(2,3) in_rangeD [OF assms(1)] by (simp add: context_ok_def)
qed

lemma NextContext_new_order_ok:
  assumes "in_range rnd" "generator_ok g" "one_warehouse t"
  shows "\<exists>c j. NextContext_new_order rnd now g t i = Inr (c, j) \<and> context_ok c \<and> ctx_type c = NEW_ORDER"
proof -
  let ?n = "rnd (i + 4) MIN_OL_CNT MAX_OL_CNT"
  have n: "5 \<le> ?n" "?n \<le> 15" using in_rangeD [OF assms(1)] by (simp_all add: const_defs)
  obtain c where c: "MockCustomerID rnd g t (i + 2) = Inr (c, i + 4)" "1 \<le> c" "c \<le> 3000"
    using MockCustomerID_ok [OF assms, of "i + 2"] by (auto simp: eval_nat_numeral)
  obtain qs j where qs: "NewOrder_lines rnd t 1 (nat ?n) [] [] True (i + 5) = Inr (replicate (nat ?n) 1, qs, True, j)"
    "length qs = nat ?n" "\<forall>q \<in> set qs. 1 \<le> q \<and> q \<le> MAX_OL_QUANTITY"
    using NewOrder_lines_local [OF assms(1) one_warehouseD(1) [OF assms(3)], of 1 "nat ?n" "[]" "[]" True "i + 5"] by auto
  have "NextContext_new_order rnd now g t i = Inr (TpccContext_new\<lparr>ctx_type := NEW_ORDER, new_order_ctx := Some \<lparr>no_w_id = 1,
      no_d_id = rnd (i + 1) 1 10, no_c_id = c, ol_cnt = ?n, o_entry_d = now, i_ids = [], i_w_ids = replicate (nat ?n) 1, i_qtys = qs,
      all_local = True\<rparr>\<rparr>, j)"
    using c(1) qs(1) n one_warehouseD [OF assms(3)] MockItemIDS_empty [of "nat ?n" rnd g t "i + 5"]
    by (simp add: NextContext_new_order_def draws draw_one [OF assms(1)] eval_nat_numeral)
  then show ?thesis using n c qs(2,3) in_rangeD [OF assms(1)] by (simp add: context_ok_def list_all_iff const_defs)
qed


lemma TpccFactory_Build_Some:
  assumes "TpccFactory_Build (Some t0) = Inr (Some t)"
  shows "sl_p_upper t = stock_level_p t0" "d_p_upper t = stock_level_p t0 + delivery_p t0"
    "os_p_upper t = stock_level_p t0 + delivery_p t0 + order_status_p t0"
    "p_p_upper t = stock_level_p t0 + delivery_p t0 + order_status_p t0 + payment_p t0" "sp t = sp t0"
  using assms by (auto simp: TpccFactory_Build_def IsValid_def Let_def split: if_splits)



text \<open>New orders carry no items. The loop of \<open>MockItemIDS\<close> runs while there are enough identifiers, not while
  there are too few: whatever the settings, a new order asks for 5 to 15 lines, has that many warehouses and
  quantities, and its list of items is empty.\<close>

theorem new_order_has_no_items:
  assumes "in_range rnd" and "NextContext rnd now g t i = Inr (c, j)" and "new_order_ctx c = Some x"
  shows "i_ids x = [] \<and> 5 \<le> ol_cnt x \<and> ol_cnt x \<le> 15 \<and> length (i_w_ids x) = nat (ol_cnt x) \<and> length (i_qtys x) = nat (ol_cnt x)"
proof -
  have "new_order_ctx (fst (NextContext_stock_level rnd t k)) = None" "new_order_ctx (fst (NextContext_delivery rnd now t k)) = None"
    "NextContext_order_status rnd g t k = Inr (c, j) \<Longrightarrow> new_order_ctx c = None"
    "NextContext_payment rnd now g t k = Inr (c, j) \<Longrightarrow> new_order_ctx c = None" for k
    by (auto simp: NextContext_stock_level_def NextContext_delivery_def NextContext_order_status_def NextContext_payment_def draws
      TpccContext_new_def Let_def bnd_eq_Inr split_beta)
  then have no: "NextContext_new_order rnd now g t (i + 1) = Inr (c, j)"
    using assms(2,3) by (auto simp: NextContext_def draw_def split: if_splits) (metis fst_conv option.distinct(1))+
  then obtain cu k where cu: "MockCustomerID rnd g t (i + 3) = Inr (cu, k)"
    by (auto simp: NextContext_new_order_def draws bnd_eq_Inr eval_nat_numeral)
  define n where "n = rnd k MIN_OL_CNT MAX_OL_CNT"
  have n: "5 \<le> n" "n \<le> 15" using in_rangeD [OF assms(1)] by (simp_all add: const_defs n_def)
  then have "MockItemIDS rnd g t (nat n) (Suc k) = Inr ([], Suc k)" by (intro MockItemIDS_empty) simp
  then show ?thesis using no cu n assms(3) NewOrder_lines_length
    by (fastforce simp: NextContext_new_order_def draws bnd_eq_Inr eval_nat_numeral n_def [symmetric])
qed

theorem new_order_has_no_items_witness:
  "\<exists>c j x. NextContext (\<lambda>i a b. b) '''' \<lparr>c_last = 0, c_id = 0, order_line_item_id = 0\<rparr>
     (TpccSettings_new \<lparr>warehouses = 1, items = 100000, districts_per_wh = 10, customers_per_district = 3000, new_orders_per_district = 900,
        wh_start = 1, wh_end = 1\<rparr>) 0 = Inr (c, j) \<and> new_order_ctx c = Some x \<and> i_ids x = [] \<and> ol_cnt x = 15"
proof -
  let ?t = "TpccSettings_new \<lparr>warehouses = 1, items = 100000, districts_per_wh = 10, customers_per_district = 3000,
    new_orders_per_district = 900, wh_start = 1, wh_end = 1\<rparr>" and ?g = "\<lparr>c_last = 0, c_id = 0, order_line_item_id = 0\<rparr>"
    and ?r = "\<lambda>i a b. b :: int"
  have "in_range ?r" by (simp add: in_range_def)
  moreover have "\<exists>c j x. NextContext ?r '''' ?g ?t 0 = Inr (c, j) \<and> new_order_ctx c = Some x \<and> ol_cnt x = 15"
    by (simp add: NextContext_def NextContext_new_order_def draws const_defs TpccSettings_new_def MockCustomerID_def produce_def Produce_def
      smod_nonneg MockItemIDS_empty eval_nat_numeral)
  ultimately show ?thesis using new_order_has_no_items [of ?r "''''" ?g ?t 0] by blast
qed

text \<open>With more than one warehouse a payment through another one ends only when the payment is not at the first warehouse,
  and then always goes through the first.\<close>

lemma Payment_other_first: "in_range rnd \<Longrightarrow> w \<noteq> wh_start (sp t) \<Longrightarrow> Payment_other rnd t w i = Some (wh_start (sp t), i + 1)"
  by (subst Payment_other.simps) (auto simp: draw_one)

lemma Payment_other_diverges:
  assumes "in_range rnd" shows "Payment_other rnd t (wh_start (sp t)) i = None"
proof -
  have False if "Payment_other rnd t (wh_start (sp t)) i = Some r" for r
    using Payment_other.raw_induct [where P = "\<lambda>rnd t w i r. in_range rnd \<longrightarrow> w \<noteq> wh_start (sp t)", OF _ that] assms
    by (metis draw_one)
  then show ?thesis by (cases "Payment_other rnd t (wh_start (sp t)) i") blast+
qed

end
