(* ===== verification/Tp_Driver.thy ===== *)
theory Tp_Driver
  imports Tp_Sql Tp_Factory
begin

text \<open>
  The transactions of the benchmark (\<open>duckdb_lab/driver.cpp\<close>) and the part of a task that runs one (\<open>Task.cpp\<close>). DuckDB is the
  argument \<open>lib\<close>: a connection answers a query with a result or throws, and commits or rolls back or throws; results and values are
  read through the library and may throw too. An exception ends a transaction until the task catches it. The calls made on the
  connection are recorded, for the statements below. What is written to the console is left out, and so are the locals that nothing
  reads: \<open>total\<close>, \<open>brand_generic\<close> and the text that is built for \<open>C_DATA\<close> before it is set to the empty string.
\<close>

section \<open>The library\<close>

record 'v result =
  qr_success :: bool
  qr_count :: nat
  qr_value :: "nat \<Rightarrow> nat \<Rightarrow> 'v option"
  qr_row :: "nat \<Rightarrow> 'v list option"

record ('c, 'v, 'f) duckdb =
  dk_Query :: "'c \<Rightarrow> string \<Rightarrow> 'v result option \<times> 'c"
  dk_Commit :: "'c \<Rightarrow> bool \<times> 'c"
  dk_Rollback :: "'c \<Rightarrow> bool \<times> 'c"
  as_int :: "'v \<Rightarrow> int option"
  as_string :: "'v \<Rightarrow> string option"
  as_float :: "'v \<Rightarrow> 'f option"
  fl_of_int :: "int \<Rightarrow> 'f"
  fl_add :: "'f \<Rightarrow> 'f \<Rightarrow> 'f"
  fl_sub :: "'f \<Rightarrow> 'f \<Rightarrow> 'f"
  fl_mul :: "'f \<Rightarrow> 'f \<Rightarrow> 'f"
  fl_div :: "'f \<Rightarrow> 'f \<Rightarrow> 'f"
  fl_trunc :: "'f \<Rightarrow> int"
  fl_print :: "'f \<Rightarrow> string"

datatype call = CQuery string | CCommit | CRollback

record 'c session =
  conn :: 'c
  rollbacked :: bool
  calls :: "call list"

text \<open>How a transaction stops before its end: it returns false, an exception leaves it, or it runs into a fault.\<close>

datatype stop = ReturnFalse | Exception | Crash fault

type_synonym ('c, 'a) tx = "'c session \<Rightarrow> (stop + 'a) \<times> 'c session"

definition tx_bind :: "('c, 'a) tx \<Rightarrow> ('a \<Rightarrow> ('c, 'b) tx) \<Rightarrow> ('c, 'b) tx" where
  "tx_bind m f s = (case m s of (Inl e, s) \<Rightarrow> (Inl e, s) | (Inr a, s) \<Rightarrow> f a s)"

definition tx_ret :: "'a \<Rightarrow> ('c, 'a) tx" where "tx_ret a s = (Inr a, s)"

definition tx_stop :: "stop \<Rightarrow> ('c, 'a) tx" where "tx_stop e s = (Inl e, s)"

definition tx_assert :: "bool \<Rightarrow> ('c, unit) tx" where
  "tx_assert b = (if b then tx_ret () else tx_stop (Crash AssertFailed))"

text \<open>Reading through the library; indexing a vector.\<close>

definition tx_get :: "'a option \<Rightarrow> ('c, 'a) tx" where
  "tx_get x = (case x of None \<Rightarrow> tx_stop Exception | Some a \<Rightarrow> tx_ret a)"

definition tx_nth :: "'a list \<Rightarrow> nat \<Rightarrow> ('c, 'a) tx" where
  "tx_nth xs i = (if i < length xs then tx_ret (xs ! i) else tx_stop (Crash OutOfBounds))"

definition Query :: "('c, 'v, 'f) duckdb \<Rightarrow> string \<Rightarrow> ('c, 'v result) tx" where
  "Query lib q s =
     (let (r, c) = dk_Query lib (conn s) q; s = s\<lparr>conn := c, calls := calls s @ [CQuery q]\<rparr>
      in case r of None \<Rightarrow> (Inl Exception, s) | Some r \<Rightarrow> (Inr r, s))"

definition Commit :: "('c, 'v, 'f) duckdb \<Rightarrow> ('c, bool) tx" where
  "Commit lib s =
     (let (ok, c) = dk_Commit lib (conn s); s = s\<lparr>conn := c, calls := calls s @ [CCommit]\<rparr>
      in if ok then (Inr True, s) else (Inl Exception, s))"

section \<open>Rolling back\<close>

definition ForceRollBack :: "('c, 'v, 'f) duckdb \<Rightarrow> ('c, unit) tx" where
  "ForceRollBack lib s =
     (let (ok, c) = dk_Rollback lib (conn s); s = s\<lparr>conn := c, calls := calls s @ [CRollback]\<rparr>
      in if ok then (Inr (), s\<lparr>rollbacked := True\<rparr>) else (Inl Exception, s))"

text \<open>A query followed by \<open>CHECK_ROLLBACK\<close>.\<close>

definition Query_check :: "('c, 'v, 'f) duckdb \<Rightarrow> string \<Rightarrow> ('c, 'v result) tx" where
  "Query_check lib q =
     tx_bind (Query lib q) (\<lambda>r. if qr_success r then tx_ret r
       else tx_bind (ForceRollBack lib) (\<lambda>_. tx_stop ReturnFalse))"

definition START :: string where "START = ''START TRANSACTION''"

section \<open>Delivery\<close>

definition DoDelivery_district :: "('c, 'v, 'f) duckdb \<Rightarrow> DeliveryContext \<Rightarrow> int \<Rightarrow> ('c, unit) tx" where
  "DoDelivery_district lib ctx did =
     tx_bind (Query_check lib (DELIVERY_GetNewOrder did (dl_w_id ctx))) (\<lambda>r1.
     if qr_count r1 = 0 then tx_ret ()
     else tx_bind (tx_get (qr_value r1 0 0)) (\<lambda>no_o_id_val.
       tx_bind (tx_get (as_int lib no_o_id_val)) (\<lambda>no_o_id.
       tx_bind (Query_check lib (DELIVERY_GetCid no_o_id did (dl_w_id ctx))) (\<lambda>r1.
       tx_bind (tx_get (qr_value r1 0 0)) (\<lambda>c_id_val.
       tx_bind (Query_check lib (DELIVERY_SumOLAmount no_o_id did (dl_w_id ctx))) (\<lambda>r1.
       tx_bind (tx_get (qr_value r1 0 0)) (\<lambda>ol_total_val.
       tx_bind (Query_check lib (DELIVERY_DeleteNewOrder did (dl_w_id ctx) no_o_id)) (\<lambda>_.
       tx_bind (Query_check lib (DELIVERY_UpdateOrders (o_carrier_id ctx) no_o_id did (dl_w_id ctx))) (\<lambda>_.
       tx_bind (Query_check lib (DELIVERY_UpdateOrderLine (ol_delivery_d ctx) no_o_id did (dl_w_id ctx))) (\<lambda>_.
       tx_bind (tx_get (as_int lib ol_total_val)) (\<lambda>ol_total.
       tx_bind (tx_get (as_int lib c_id_val)) (\<lambda>cid.
       tx_bind (Query_check lib (DELIVERY_UpdateCustomer ol_total cid did (dl_w_id ctx))) (\<lambda>_. tx_ret ())))))))))))))"

fun DoDelivery_loop :: "('c, 'v, 'f) duckdb \<Rightarrow> DeliveryContext \<Rightarrow> int list \<Rightarrow> ('c, unit) tx" where
  "DoDelivery_loop lib ctx [] = tx_ret ()"
| "DoDelivery_loop lib ctx (did # dids) = tx_bind (DoDelivery_district lib ctx did) (\<lambda>_. DoDelivery_loop lib ctx dids)"

definition DoDelivery :: "('c, 'v, 'f) duckdb \<Rightarrow> TpccContext \<Rightarrow> ('c, bool) tx" where
  "DoDelivery lib context =
     tx_bind (tx_assert (ctx_type context = DELIVERY \<and> delivery_ctx context \<noteq> None)) (\<lambda>_.
     tx_bind (Query lib START) (\<lambda>_.
     tx_bind (DoDelivery_loop lib (the (delivery_ctx context)) [1..DISTRICTS_PER_WAREHOUSE]) (\<lambda>_. Commit lib)))"

section \<open>New order\<close>

fun DoNewOrder_items :: "('c, 'v, 'f) duckdb \<Rightarrow> int list \<Rightarrow> 'v list list \<Rightarrow> ('c, 'v list list) tx" where
  "DoNewOrder_items lib [] its = tx_ret its"
| "DoNewOrder_items lib (i_id # ids) its =
     tx_bind (Query_check lib (NEWORDER_GetItemInfo i_id)) (\<lambda>r1.
     tx_bind (tx_get (qr_row r1 0)) (\<lambda>row. DoNewOrder_items lib ids (its @ [row])))"

definition stock_quantity :: "int \<Rightarrow> int \<Rightarrow> int" where
  "stock_quantity s_quantity ol_quantity =
     (if ol_quantity + 10 \<le> s_quantity then s_quantity - ol_quantity else s_quantity + 91 - ol_quantity)"

text \<open>One line of an order: warehouse, item and quantity at an index, with the row of the item.\<close>

definition DoNewOrder_line :: "('c, 'v, 'f) duckdb \<Rightarrow> NewOrderContext \<Rightarrow> int \<Rightarrow> 'v list list \<Rightarrow> nat \<Rightarrow> ('c, unit) tx" where
  "DoNewOrder_line lib ctx d_next_o_id its i =
     tx_bind (tx_nth (i_ids ctx) i) (\<lambda>ol_i_id.
     tx_bind (tx_nth (i_w_ids ctx) i) (\<lambda>ol_supply_w_id.
     tx_bind (tx_nth (i_qtys ctx) i) (\<lambda>ol_quantity.
     tx_bind (tx_nth its i) (\<lambda>iteminfo.
     tx_bind (tx_nth iteminfo 1) (\<lambda>v. tx_bind (tx_get (as_string lib v)) (\<lambda>i_name.
     tx_bind (tx_nth iteminfo 2) (\<lambda>v. tx_bind (tx_get (as_string lib v)) (\<lambda>i_data.
     tx_bind (tx_nth iteminfo 0) (\<lambda>v. tx_bind (tx_get (as_float lib v)) (\<lambda>i_price.
     tx_bind (Query_check lib (NEWORDER_GetStockInfo (no_d_id ctx) ol_i_id ol_supply_w_id)) (\<lambda>r1.
     tx_bind (tx_get (qr_row r1 0)) (\<lambda>stock_info.
     if stock_info = [] then tx_ret ()
     else
       tx_bind (tx_nth stock_info 0) (\<lambda>v. tx_bind (tx_get (as_int lib v)) (\<lambda>s_quantity.
       tx_bind (tx_nth stock_info 2) (\<lambda>v. tx_bind (tx_get (as_int lib v)) (\<lambda>s_ytd.
       tx_bind (tx_nth stock_info 3) (\<lambda>v. tx_bind (tx_get (as_int lib v)) (\<lambda>s_order_cnt.
       tx_bind (tx_nth stock_info 4) (\<lambda>v. tx_bind (tx_get (as_int lib v)) (\<lambda>s_remote_cnt.
       tx_bind (tx_nth stock_info 1) (\<lambda>v. tx_bind (tx_get (as_string lib v)) (\<lambda>s_data.
       tx_bind (tx_nth stock_info 5) (\<lambda>v. tx_bind (tx_get (as_string lib v)) (\<lambda>s_dist_xx.
       tx_bind (Query_check lib (NEWORDER_UpdateStock (stock_quantity s_quantity ol_quantity) (s_ytd + ol_quantity) (s_order_cnt + 1)
         (if ol_supply_w_id \<noteq> no_w_id ctx then s_remote_cnt + 1 else s_remote_cnt) ol_i_id ol_supply_w_id)) (\<lambda>_.
       tx_bind (Query_check lib (NEWORDER_CreateOrderLine d_next_o_id (no_d_id ctx) (no_w_id ctx) (ol_i_id + 1) ol_i_id ol_supply_w_id
         (o_entry_d ctx) ol_quantity (fl_trunc lib (fl_mul lib (fl_of_int lib ol_quantity) i_price)) s_dist_xx)) (\<lambda>_.
         tx_ret ()))))))))))))))))))))))))))"

fun DoNewOrder_lines :: "('c, 'v, 'f) duckdb \<Rightarrow> NewOrderContext \<Rightarrow> int \<Rightarrow> 'v list list \<Rightarrow> nat list \<Rightarrow> ('c, unit) tx" where
  "DoNewOrder_lines lib ctx d_next_o_id its [] = tx_ret ()"
| "DoNewOrder_lines lib ctx d_next_o_id its (i # is) =
     tx_bind (DoNewOrder_line lib ctx d_next_o_id its i) (\<lambda>_. DoNewOrder_lines lib ctx d_next_o_id its is)"

definition NULL_CARRIER_ID :: int where "NULL_CARRIER_ID = 0"

definition DoNewOrder :: "('c, 'v, 'f) duckdb \<Rightarrow> TpccContext \<Rightarrow> ('c, bool) tx" where
  "DoNewOrder lib context =
     tx_bind (tx_assert (ctx_type context = NEW_ORDER \<and> new_order_ctx context \<noteq> None)) (\<lambda>_.
     let ctx = the (new_order_ctx context) in
     tx_bind (Query_check lib START) (\<lambda>_.
     tx_bind (DoNewOrder_items lib (i_ids ctx) []) (\<lambda>its.
     tx_bind (Query_check lib (NEWORDER_GetWarehouseTaxRate (no_w_id ctx))) (\<lambda>_.
     tx_bind (Query_check lib (NEWORDER_GetDistrict (no_d_id ctx) (no_w_id ctx))) (\<lambda>r1.
     tx_bind (tx_get (qr_value r1 1 0)) (\<lambda>v. tx_bind (tx_get (as_int lib v)) (\<lambda>d_next_o_id.
     tx_bind (Query_check lib (NEWORDER_GetCustomer (no_w_id ctx) (no_d_id ctx) (no_c_id ctx))) (\<lambda>_.
     tx_bind (Query_check lib (NEWORDER_IncrementNextOrderId (d_next_o_id + 1) (no_d_id ctx) (no_w_id ctx))) (\<lambda>_.
     tx_bind (Query_check lib (NEWORDER_CreateOrder d_next_o_id (no_d_id ctx) (no_w_id ctx) (no_c_id ctx) (o_entry_d ctx) NULL_CARRIER_ID
       (int (length (i_ids ctx))) (if all_local ctx then 1 else 0))) (\<lambda>_.
     tx_bind (Query_check lib (NEWORDER_CreateNewOrder d_next_o_id (no_d_id ctx) (no_w_id ctx))) (\<lambda>_.
     tx_bind (DoNewOrder_lines lib ctx d_next_o_id its [0..<length (i_ids ctx)]) (\<lambda>_. Commit lib))))))))))))"

section \<open>Payment\<close>

text \<open>\<open>int((Count() - 1) / 2)\<close>, and the index the library is then asked for: the count is unsigned, the cast keeps 32 bits and the
  argument is unsigned again.\<close>

definition middle :: "nat \<Rightarrow> nat" where
  "middle n = unat (scast (ucast ((word_of_nat n - 1 :: u64) div 2) :: u32) :: u64)"

definition BAD_CREDIT :: string where "BAD_CREDIT = ''BC''"

text \<open>The customer, and its identifier, which is stored in the context when it was asked for by name.\<close>

definition DoPayment_customer :: "('c, 'v, 'f) duckdb \<Rightarrow> PaymentContext \<Rightarrow> ('c, 'v list \<times> int) tx" where
  "DoPayment_customer lib ctx =
     (if py_c_last ctx = ''''
      then tx_bind (Query_check lib (PAYMENT_GetCustomerByCustomerId (py_w_id ctx) (py_d_id ctx) (py_c_id ctx))) (\<lambda>r1.
           tx_bind (tx_get (qr_row r1 0)) (\<lambda>customer. tx_ret (customer, py_c_id ctx)))
      else tx_bind (Query_check lib (PAYMENT_GetCustomerByLastName (py_w_id ctx) (py_d_id ctx) (py_c_last ctx))) (\<lambda>r1.
           tx_bind (tx_get (qr_row r1 (middle (qr_count r1)))) (\<lambda>customer.
           tx_bind (tx_nth customer 0) (\<lambda>v. tx_bind (tx_get (as_int lib v)) (\<lambda>cid. tx_ret (customer, cid))))))"

definition DoPayment :: "('c, 'v, 'f) duckdb \<Rightarrow> TpccContext \<Rightarrow> ('c, bool) tx" where
  "DoPayment lib context =
     tx_bind (tx_assert (ctx_type context = PAYMENT \<and> payment_ctx context \<noteq> None)) (\<lambda>_.
     let ctx = the (payment_ctx context); amount = fl_div lib (fl_of_int lib (fst (h_amount ctx))) (fl_of_int lib (snd (h_amount ctx))) in
     tx_bind (Query_check lib START) (\<lambda>_.
     tx_bind (DoPayment_customer lib ctx) (\<lambda>(customer, cid).
     tx_bind (tx_nth customer 14) (\<lambda>v. tx_bind (tx_get (as_float lib v)) (\<lambda>balance.
     tx_bind (tx_nth customer 15) (\<lambda>v. tx_bind (tx_get (as_float lib v)) (\<lambda>ytd_payment.
     tx_bind (tx_nth customer 16) (\<lambda>v. tx_bind (tx_get (as_int lib v)) (\<lambda>payment_cnt.
     tx_bind (tx_nth customer 17) (\<lambda>v. tx_bind (tx_get (as_string lib v)) (\<lambda>c_data.
     let c_balance = fl_print lib (fl_sub lib balance amount); c_ytd_payment = fl_print lib (fl_add lib ytd_payment amount);
         c_payment_cnt = payment_cnt + 1 in
     tx_bind (Query_check lib (PAYMENT_GetWarehouse (py_w_id ctx))) (\<lambda>r1. tx_bind (tx_get (qr_row r1 0)) (\<lambda>warehouse.
     tx_bind (Query_check lib (PAYMENT_GetDistrict (py_w_id ctx) (py_d_id ctx))) (\<lambda>r1. tx_bind (tx_get (qr_row r1 0)) (\<lambda>district.
     tx_bind (Query_check lib (PAYMENT_UpdateWarehouseBalance (fl_print lib amount) (py_w_id ctx))) (\<lambda>_.
     tx_bind (Query_check lib (PAYMENT_UpdateDistrictBalance (fl_print lib amount) (py_w_id ctx) (py_d_id ctx))) (\<lambda>_.
     tx_bind (tx_nth customer 11) (\<lambda>v. tx_bind (tx_get (as_string lib v)) (\<lambda>credit.
     tx_bind (Query_check lib
       (if credit = BAD_CREDIT then PAYMENT_UpdateBCCustomer c_balance c_ytd_payment c_payment_cnt '''' (c_w_id ctx) (c_d_id ctx) cid
        else PAYMENT_UpdateGCCustomer c_balance c_ytd_payment c_payment_cnt (c_w_id ctx) (c_d_id ctx) cid)) (\<lambda>_.
     tx_bind (tx_nth warehouse 0) (\<lambda>v. tx_bind (tx_get (as_string lib v)) (\<lambda>w_name.
     tx_bind (tx_nth district 0) (\<lambda>v. tx_bind (tx_get (as_string lib v)) (\<lambda>d_name.
     tx_bind (Query_check lib (PAYMENT_InsertHistory cid (c_d_id ctx) (c_w_id ctx) (py_d_id ctx) (py_w_id ctx) (h_date ctx)
       (fl_print lib amount) (w_name @ ''    '' @ d_name))) (\<lambda>_. Commit lib)))))))))))))))))))))))))"

section \<open>Order status and stock level\<close>

definition DoOrderStatus_customer :: "('c, 'v, 'f) duckdb \<Rightarrow> OrderStatusContext \<Rightarrow> ('c, int) tx" where
  "DoOrderStatus_customer lib ctx =
     (if os_c_last ctx = ''''
      then tx_bind (Query_check lib (ORDER_STATUS_GetCustomerByCustomerId (os_w_id ctx) (os_d_id ctx) (os_c_id ctx))) (\<lambda>_. tx_ret (os_c_id ctx))
      else tx_bind (Query_check lib (ORDER_STATUS_GetCustomerByLastName (os_w_id ctx) (os_d_id ctx) (os_c_last ctx))) (\<lambda>r1.
           tx_bind (tx_get (qr_value r1 0 (middle (qr_count r1)))) (\<lambda>v. tx_get (as_int lib v))))"

definition DoOrderStatus :: "('c, 'v, 'f) duckdb \<Rightarrow> TpccContext \<Rightarrow> ('c, bool) tx" where
  "DoOrderStatus lib context =
     tx_bind (tx_assert (ctx_type context = ORDER_STATUS \<and> order_status_ctx context \<noteq> None)) (\<lambda>_.
     let ctx = the (order_status_ctx context) in
     tx_bind (Query_check lib START) (\<lambda>_.
     tx_bind (DoOrderStatus_customer lib ctx) (\<lambda>cid.
     tx_bind (Query_check lib (ORDER_STATUS_GetLastOrder (os_w_id ctx) (os_d_id ctx) cid)) (\<lambda>r1.
     tx_bind (if 0 < qr_count r1
              then tx_bind (tx_get (qr_value r1 0 0)) (\<lambda>v. tx_bind (tx_get (as_int lib v)) (\<lambda>o_id.
                   tx_bind (Query_check lib (ORDER_STATUS_GetOrderLines (os_w_id ctx) (os_d_id ctx) o_id)) (\<lambda>_. tx_ret ())))
              else tx_ret ()) (\<lambda>_. Commit lib)))))"

definition DoStockLevel :: "('c, 'v, 'f) duckdb \<Rightarrow> TpccContext \<Rightarrow> ('c, bool) tx" where
  "DoStockLevel lib context =
     tx_bind (tx_assert (ctx_type context = STOCK_LEVEL \<and> stock_level_ctx context \<noteq> None)) (\<lambda>_.
     let ctx = the (stock_level_ctx context) in
     tx_bind (Query_check lib START) (\<lambda>_.
     tx_bind (Query_check lib (STOCKLEVEL_GetOid (sl_w_id ctx) (sl_d_id ctx))) (\<lambda>r1.
     tx_bind (tx_assert (qr_count r1 \<noteq> 0)) (\<lambda>_.
     tx_bind (tx_get (qr_value r1 0 0)) (\<lambda>v. tx_bind (tx_get (as_int lib v)) (\<lambda>o_id.
     tx_bind (Query_check lib (STOCKLEVEL_GetStockCount (sl_w_id ctx) (sl_d_id ctx) o_id (o_id - 20) (sl_w_id ctx) (threshold ctx))) (\<lambda>_.
       Commit lib)))))))"

section \<open>Running a transaction\<close>

text \<open>The \<open>try\<close> block of \<open>Task::Run\<close>: the transaction of the type of the context; an exception is answered by \<open>ForceRollBack\<close>.\<close>

definition Task_transaction :: "('c, 'v, 'f) duckdb \<Rightarrow> TpccContext \<Rightarrow> ('c, bool) tx" where
  "Task_transaction lib context =
     (case ctx_type context of DELIVERY \<Rightarrow> DoDelivery lib context | NEW_ORDER \<Rightarrow> DoNewOrder lib context
      | ORDER_STATUS \<Rightarrow> DoOrderStatus lib context | PAYMENT \<Rightarrow> DoPayment lib context | STOCK_LEVEL \<Rightarrow> DoStockLevel lib context
      | INVALID \<Rightarrow> tx_ret False)"

definition Task_try :: "('c, 'v, 'f) duckdb \<Rightarrow> TpccContext \<Rightarrow> ('c, unit) tx" where
  "Task_try lib context s =
     (case Task_transaction lib context s of
        (Inl Exception, s) \<Rightarrow> ForceRollBack lib s
      | (Inl (Crash f), s) \<Rightarrow> (Inl (Crash f), s)
      | (_, s) \<Rightarrow> (Inr (), s))"

section \<open>How transactions end\<close>

text \<open>A part of a transaction \<open>proceeds\<close> if all it does to the connection is to send queries, followed by one rollback
  exactly when it makes the transaction return false. It \<open>finishes\<close> if in addition it commits where it gets to its end.\<close>

definition rollback_ok :: "('c, 'v, 'f) duckdb \<Rightarrow> bool" where
  "rollback_ok lib \<longleftrightarrow> (\<forall>c. fst (dk_Rollback lib c))"

definition sent :: "'c session \<Rightarrow> 'c session \<Rightarrow> call list \<Rightarrow> bool" where
  "sent s s' tail \<longleftrightarrow> (\<exists>qs. calls s' = calls s @ map CQuery qs @ tail)"

definition proceeds :: "('c, 'a) tx \<Rightarrow> bool" where
  "proceeds m \<longleftrightarrow> (\<forall>s r s'. m s = (r, s') \<longrightarrow> \<not> rollbacked s \<longrightarrow>
     (if r = Inl ReturnFalse then sent s s' [CRollback] \<and> rollbacked s' else sent s s' [] \<and> \<not> rollbacked s'))"

definition ending :: "stop + 'a \<Rightarrow> bool \<Rightarrow> call list \<Rightarrow> bool" where
  "ending r rolled tail = (case r of
      Inl ReturnFalse \<Rightarrow> tail = [CRollback] \<and> rolled
    | Inl Exception \<Rightarrow> (tail = [] \<or> tail = [CCommit]) \<and> \<not> rolled
    | Inl (Crash f) \<Rightarrow> tail = [] \<and> \<not> rolled
    | Inr a \<Rightarrow> tail = [CCommit] \<and> \<not> rolled)"

definition finishes :: "('c, 'a) tx \<Rightarrow> bool" where
  "finishes m \<longleftrightarrow> (\<forall>s r s'. m s = (r, s') \<longrightarrow> \<not> rollbacked s \<longrightarrow> (\<exists>tail. sent s s' tail \<and> ending r (rollbacked s') tail))"

named_theorems tx_intros \<open>parts of transactions that proceed or finish\<close>

lemma sent_refl [simp]: "sent s s []"
  by (auto simp: sent_def intro: exI [of _ "[]"])

lemma sent_trans: "sent s s1 [] \<Longrightarrow> sent s1 s2 tail \<Longrightarrow> sent s s2 tail"
proof -
  assume "sent s s1 []" "sent s1 s2 tail"
  then obtain qs qs' where "calls s1 = calls s @ map CQuery qs" "calls s2 = calls s1 @ map CQuery qs' @ tail" by (auto simp: sent_def)
  then have "calls s2 = calls s @ map CQuery (qs @ qs') @ tail" by simp
  then show ?thesis unfolding sent_def by blast
qed

lemma proceeds_basic [tx_intros]:
  "proceeds (tx_ret a)" "e \<noteq> ReturnFalse \<Longrightarrow> proceeds (tx_stop e)" "proceeds (tx_assert b)" "proceeds (tx_get x)" "proceeds (tx_nth xs i)"
  by (auto simp: proceeds_def tx_ret_def tx_stop_def tx_assert_def tx_get_def tx_nth_def split: option.splits if_splits)

lemma proceeds_Query [tx_intros]: "proceeds (Query lib q)"
  by (auto simp: proceeds_def Query_def sent_def Let_def split: prod.splits option.splits intro: exI [of _ "[q]"])

lemma proceeds_bind [tx_intros]:
  assumes "proceeds m" and "\<And>a. proceeds (f a)"
  shows "proceeds (tx_bind m f)"
  unfolding proceeds_def
proof (intro allI impI)
  fix s r s'
  assume run: "tx_bind m f s = (r, s')" and fresh: "\<not> rollbacked s"
  obtain r1 s1 where m: "m s = (r1, s1)" by fastforce
  note pm = assms(1) [unfolded proceeds_def, rule_format, OF m fresh]
  show "if r = Inl ReturnFalse then sent s s' [CRollback] \<and> rollbacked s' else sent s s' [] \<and> \<not> rollbacked s'"
  proof (cases r1)
    case (Inl e)
    then show ?thesis using run m pm by (auto simp: tx_bind_def split: if_splits)
  next
    case (Inr a)
    then have f: "f a s1 = (r, s')" and s1: "sent s s1 []" "\<not> rollbacked s1" using run m pm by (simp_all add: tx_bind_def)
    show ?thesis using assms(2) [of a, unfolded proceeds_def, rule_format, OF f s1(2)] sent_trans [OF s1(1)] by (auto split: if_splits)
  qed
qed

lemma proceeds_Query_check [tx_intros]:
  assumes "rollback_ok lib" shows "proceeds (Query_check lib q)"
proof -
  have rb: "ForceRollBack lib s = (Inr (), s\<lparr>conn := snd (dk_Rollback lib (conn s)), calls := calls s @ [CRollback], rollbacked := True\<rparr>)" for s
    using assms by (simp add: rollback_ok_def ForceRollBack_def split_beta)
  show ?thesis
    by (auto simp: proceeds_def Query_check_def tx_bind_def Query_def rb tx_ret_def tx_stop_def sent_def Let_def
      split: prod.splits option.splits if_splits intro: exI [of _ "[q]"])
qed

lemma finishes_Commit [tx_intros]: "finishes (Commit lib)"
  unfolding finishes_def
proof (intro allI impI)
  fix s r s'
  assume "Commit lib s = (r, s')" "\<not> rollbacked s"
  then have "calls s' = calls s @ map CQuery [] @ [CCommit]" "ending r (rollbacked s') [CCommit]"
    by (auto simp: Commit_def Let_def ending_def split: prod.splits if_splits)
  then show "\<exists>tail. sent s s' tail \<and> ending r (rollbacked s') tail" unfolding sent_def by blast
qed

lemma finishes_bind [tx_intros]:
  assumes "proceeds m" and "\<And>a. finishes (f a)"
  shows "finishes (tx_bind m f)"
  unfolding finishes_def
proof (intro allI impI)
  fix s r s'
  assume run: "tx_bind m f s = (r, s')" and fresh: "\<not> rollbacked s"
  obtain r1 s1 where m: "m s = (r1, s1)" by fastforce
  note pm = assms(1) [unfolded proceeds_def, rule_format, OF m fresh]
  show "\<exists>tail. sent s s' tail \<and> ending r (rollbacked s') tail"
  proof (cases r1)
    case (Inl e)
    then show ?thesis using run m pm by (cases e) (auto simp: tx_bind_def ending_def)
  next
    case (Inr a)
    then have f: "f a s1 = (r, s')" and s1: "sent s s1 []" "\<not> rollbacked s1" using run m pm by (simp_all add: tx_bind_def)
    show ?thesis using assms(2) [of a, unfolded finishes_def, rule_format, OF f s1(2)] sent_trans [OF s1(1)] by blast
  qed
qed

lemma proceeds_choice [tx_intros]:
  "(b \<Longrightarrow> proceeds m) \<Longrightarrow> (\<not> b \<Longrightarrow> proceeds n) \<Longrightarrow> proceeds (if b then m else n)"
  "(\<And>x y. proceeds (f x y)) \<Longrightarrow> proceeds (case p of (x, y) \<Rightarrow> f x y)"
  "(\<And>x y. finishes (g x y)) \<Longrightarrow> finishes (case p of (x, y) \<Rightarrow> g x y)"
  by (auto split: prod.splits)

lemma proceeds_parts [tx_intros]:
  assumes "rollback_ok lib"
  shows "proceeds (DoDelivery_loop lib ctx dids)" "proceeds (DoNewOrder_items lib ids its)" "proceeds (DoNewOrder_lines lib no n its is)"
    "proceeds (DoPayment_customer lib py)" "proceeds (DoOrderStatus_customer lib os)"
proof -
  note i = tx_intros proceeds_Query_check [OF assms]
  have "proceeds (DoDelivery_district lib ctx did)" for did unfolding DoDelivery_district_def by (intro i)
  then show "proceeds (DoDelivery_loop lib ctx dids)" by (induction dids) (auto intro: i)
  show "proceeds (DoNewOrder_items lib ids its)" by (induction ids arbitrary: its) (auto intro!: i)
  have "proceeds (DoNewOrder_line lib no n its j)" for j unfolding DoNewOrder_line_def by (intro i)
  then show "proceeds (DoNewOrder_lines lib no n its is)" by (induction "is") (auto intro: i)
  show "proceeds (DoPayment_customer lib py)" unfolding DoPayment_customer_def by (intro i)
  show "proceeds (DoOrderStatus_customer lib os)" unfolding DoOrderStatus_customer_def by (intro i)
qed


text \<open>A transaction opens with its first query.\<close>

lemma Query_check_run:
  assumes "rollback_ok lib" and "Query_check lib q s = (r, s')"
  shows "(r = Inl ReturnFalse \<and> calls s' = calls s @ [CQuery q, CRollback] \<and> rollbacked s') \<or>
    (r = Inl Exception \<or> (\<exists>x. r = Inr x)) \<and> calls s' = calls s @ [CQuery q] \<and> rollbacked s' = rollbacked s"
proof -
  have rb: "ForceRollBack lib s = (Inr (), s\<lparr>conn := snd (dk_Rollback lib (conn s)), calls := calls s @ [CRollback], rollbacked := True\<rparr>)" for s
    using assms(1) by (simp add: rollback_ok_def ForceRollBack_def split_beta)
  show ?thesis using assms(2)
    by (auto simp: Query_check_def tx_bind_def Query_def rb tx_ret_def tx_stop_def Let_def split: prod.splits option.splits if_splits)
qed

definition ended :: "'c session \<Rightarrow> 'c session \<Rightarrow> stop + 'a \<Rightarrow> bool" where
  "ended s s' r \<longleftrightarrow> (\<exists>qs tail. calls s' = calls s @ map CQuery (START # qs) @ tail \<and> ending r (rollbacked s') tail)"

definition opens :: "('c, 'a) tx \<Rightarrow> bool" where
  "opens m \<longleftrightarrow> (\<forall>s r s'. m s = (r, s') \<longrightarrow> \<not> rollbacked s \<longrightarrow> ended s s' r)"

lemma ended_short: "calls s' = calls s @ CQuery START # tail \<Longrightarrow> ending r (rollbacked s') tail \<Longrightarrow> ended s s' r"
  unfolding ended_def by (intro exI [of _ "[]"] exI [of _ tail]) simp

lemma ended_finishes:
  assumes "finishes m" and "m s1 = (r, s')" and "\<not> rollbacked s1" and "calls s1 = calls s @ [CQuery START]"
  shows "ended s s' r"
proof -
  obtain tail qs where "calls s' = calls s1 @ map CQuery qs @ tail" "ending r (rollbacked s') tail"
    using assms(1-3) unfolding finishes_def sent_def by blast
  then show ?thesis using assms(4) unfolding ended_def by (intro exI [of _ qs] exI [of _ tail]) simp
qed

lemma opens_Query_check:
  assumes lib: "rollback_ok lib" and f: "\<And>a. finishes (f a)"
  shows "opens (tx_bind (Query_check lib START) f)"
  unfolding opens_def
proof (intro allI impI)
  fix s r s'
  assume run: "tx_bind (Query_check lib START) f s = (r, s')" and fresh: "\<not> rollbacked s"
  obtain r1 s1 where m: "Query_check lib START s = (r1, s1)" by fastforce
  show "ended s s' r"
  proof (cases r1)
    case (Inl e)
    then have "r = Inl e" "s' = s1" using run m by (simp_all add: tx_bind_def)
    then show ?thesis using Query_check_run [OF lib m] Inl fresh
      by (auto intro: ended_short [of _ _ "[CRollback]"] ended_short [of _ _ "[]"] simp: ending_def)
  next
    case (Inr a)
    then show ?thesis using Query_check_run [OF lib m] fresh run m by (intro ended_finishes [OF f, of a s1]) (auto simp: tx_bind_def)
  qed
qed

lemma opens_Query:
  assumes f: "\<And>a. finishes (f a)"
  shows "opens (tx_bind (Query lib START) f)"
  unfolding opens_def
proof (intro allI impI)
  fix s r s'
  assume run: "tx_bind (Query lib START) f s = (r, s')" and fresh: "\<not> rollbacked s"
  obtain r1 s1 where m: "Query lib START s = (r1, s1)" by fastforce
  have s1: "calls s1 = calls s @ [CQuery START]" "\<not> rollbacked s1" "r1 = Inl Exception \<or> (\<exists>x. r1 = Inr x)"
    using m fresh by (auto simp: Query_def Let_def split: prod.splits option.splits)
  show "ended s s' r"
  proof (cases r1)
    case (Inl e)
    then show ?thesis using run m s1 by (auto simp: tx_bind_def ending_def intro!: ended_short [of _ _ "[]"])
  next
    case (Inr a)
    then show ?thesis using s1 run m by (intro ended_finishes [OF f, of a s1]) (auto simp: tx_bind_def)
  qed
qed

lemma opens_assert: "b \<Longrightarrow> opens (f ()) \<Longrightarrow> opens (tx_bind (tx_assert b) f)"
  by (simp add: opens_def tx_bind_def tx_assert_def tx_ret_def)

definition context_set :: "TpccContext \<Rightarrow> bool" where
  "context_set c = (case ctx_type c of INVALID \<Rightarrow> False | STOCK_LEVEL \<Rightarrow> stock_level_ctx c \<noteq> None | DELIVERY \<Rightarrow> delivery_ctx c \<noteq> None
     | ORDER_STATUS \<Rightarrow> order_status_ctx c \<noteq> None | PAYMENT \<Rightarrow> payment_ctx c \<noteq> None | NEW_ORDER \<Rightarrow> new_order_ctx c \<noteq> None)"

lemma Task_transaction_opens:
  assumes lib: "rollback_ok lib" and c: "context_set context"
  shows "opens (Task_transaction lib context)"
proof -
  note i = opens_assert opens_Query_check [OF lib] opens_Query tx_intros proceeds_Query_check [OF lib] proceeds_parts [OF lib]
  have "ctx_type context = DELIVERY \<and> delivery_ctx context \<noteq> None \<Longrightarrow> opens (DoDelivery lib context)"
    unfolding DoDelivery_def by (intro i)
  moreover have "ctx_type context = NEW_ORDER \<and> new_order_ctx context \<noteq> None \<Longrightarrow> opens (DoNewOrder lib context)"
    unfolding DoNewOrder_def Let_def by (intro i)
  moreover have "ctx_type context = PAYMENT \<and> payment_ctx context \<noteq> None \<Longrightarrow> opens (DoPayment lib context)"
    unfolding DoPayment_def Let_def by (intro i)
  moreover have "ctx_type context = ORDER_STATUS \<and> order_status_ctx context \<noteq> None \<Longrightarrow> opens (DoOrderStatus lib context)"
    unfolding DoOrderStatus_def Let_def by (intro i)
  moreover have "ctx_type context = STOCK_LEVEL \<and> stock_level_ctx context \<noteq> None \<Longrightarrow> opens (DoStockLevel lib context)"
    unfolding DoStockLevel_def Let_def by (intro i)
  ultimately show ?thesis using c by (cases "ctx_type context") (simp_all add: Task_transaction_def context_set_def)
qed



text \<open>A database that answers the first queries and then fails every one.\<close>

definition failing_db :: "nat \<Rightarrow> (nat, nat, int) duckdb" where
  "failing_db n = \<lparr>
     dk_Query = (\<lambda>c q. (Some \<lparr>qr_success = (c < n), qr_count = 1, qr_value = (\<lambda>i j. Some 7), qr_row = (\<lambda>i. Some (replicate 18 7))\<rparr>, c + 1)),
     dk_Commit = (\<lambda>c. (True, c)), dk_Rollback = (\<lambda>c. (True, c)), as_int = (\<lambda>v. Some (int v)), as_string = (\<lambda>v. Some ''x''),
     as_float = (\<lambda>v. Some (int v)), fl_of_int = id, fl_add = (+), fl_sub = (-), fl_mul = (*), fl_div = (div), fl_trunc = id, fl_print = show_int\<rparr>"


section \<open>New orders\<close>

lemma tx_bind_Inr: "tx_bind m f s = (Inr a, s') \<longleftrightarrow> (\<exists>b s1. m s = (Inr b, s1) \<and> f b s1 = (Inr a, s'))"
  by (auto simp: tx_bind_def split: prod.splits sum.splits)

lemma Query_check_Inr: "Query_check lib q s = (Inr r, s') \<Longrightarrow> calls s' = calls s @ [CQuery q]"
  by (auto simp: Query_check_def tx_bind_Inr Query_def tx_ret_def tx_stop_def Let_def split: prod.splits option.splits if_splits)

lemma Commit_Inr: "Commit lib s = (Inr r, s') \<Longrightarrow> calls s' = calls s @ [CCommit]"
  by (auto simp: Commit_def Let_def split: prod.splits if_splits)

lemma tx_same: "tx_get x s = (Inr r, s') \<longleftrightarrow> x = Some r \<and> s' = s" "tx_assert b s = (Inr u, s') \<longleftrightarrow> b \<and> s' = s" "tx_ret a s = (r', s') \<longleftrightarrow> r' = Inr a \<and> s' = s"
  by (auto simp: tx_get_def tx_stop_def tx_ret_def tx_assert_def split: option.splits)

lemma DoNewOrder_empty:
  assumes "DoNewOrder lib c s = (Inr b, s')" and "new_order_ctx c = Some x" and "i_ids x = []"
  shows "\<exists>o_id. calls s' = calls s @ map CQuery
     [START, NEWORDER_GetWarehouseTaxRate (no_w_id x), NEWORDER_GetDistrict (no_d_id x) (no_w_id x),
      NEWORDER_GetCustomer (no_w_id x) (no_d_id x) (no_c_id x), NEWORDER_IncrementNextOrderId (o_id + 1) (no_d_id x) (no_w_id x),
      NEWORDER_CreateOrder o_id (no_d_id x) (no_w_id x) (no_c_id x) (o_entry_d x) NULL_CARRIER_ID 0 (if all_local x then 1 else 0),
      NEWORDER_CreateNewOrder o_id (no_d_id x) (no_w_id x)] @ [CCommit]"
  using assms by (auto simp: DoNewOrder_def Let_def tx_bind_Inr tx_same dest!: Query_check_Inr Commit_Inr)

text \<open>A new order is written without lines. When the database accepts a new order that the factory made, what was sent to it is
  exactly: the start, three questions about the warehouse, the district and the customer, the next order number, an order with
  0 lines, its entry in \<open>NEW_ORDER\<close>, and the commit. The context asked for 5 to 15 lines.\<close>

theorem new_order_writes_no_lines:
  assumes "in_range rnd" and "NextContext rnd now g t i = Inr (c, j)" and "DoNewOrder lib c s = (Inr b, s')"
  shows "\<exists>x o_id. new_order_ctx c = Some x \<and> 5 \<le> ol_cnt x \<and> calls s' = calls s @ map CQuery
     [START, NEWORDER_GetWarehouseTaxRate (no_w_id x), NEWORDER_GetDistrict (no_d_id x) (no_w_id x),
      NEWORDER_GetCustomer (no_w_id x) (no_d_id x) (no_c_id x), NEWORDER_IncrementNextOrderId (o_id + 1) (no_d_id x) (no_w_id x),
      NEWORDER_CreateOrder o_id (no_d_id x) (no_w_id x) (no_c_id x) (o_entry_d x) NULL_CARRIER_ID 0 (if all_local x then 1 else 0),
      NEWORDER_CreateNewOrder o_id (no_d_id x) (no_w_id x)] @ [CCommit]"
proof -
  have "new_order_ctx c \<noteq> None" using assms(3) by (auto simp: DoNewOrder_def tx_bind_Inr tx_same)
  then obtain x where x: "new_order_ctx c = Some x" by blast
  note no = new_order_has_no_items [OF assms(1,2) x]
  show ?thesis using DoNewOrder_empty [OF assms(3) x] no x by blast
qed

theorem new_order_writes_no_lines_witness:
  "\<exists>c j s'. NextContext (\<lambda>i a b. b) '''' \<lparr>c_last = 0, c_id = 0, order_line_item_id = 0\<rparr>
     (TpccSettings_new \<lparr>warehouses = 1, items = 100000, districts_per_wh = 10, customers_per_district = 3000, new_orders_per_district = 900,
        wh_start = 1, wh_end = 1\<rparr>) 0 = Inr (c, j) \<and>
     DoNewOrder (failing_db 100) c \<lparr>conn = 0, rollbacked = False, calls = []\<rparr> = (Inr True, s') \<and> length (calls s') = 8"
proof -
  let ?t = "TpccSettings_new \<lparr>warehouses = 1, items = 100000, districts_per_wh = 10, customers_per_district = 3000,
    new_orders_per_district = 900, wh_start = 1, wh_end = 1\<rparr>" and ?g = "\<lparr>c_last = 0, c_id = 0, order_line_item_id = 0\<rparr>"
    and ?r = "\<lambda>i a b. b :: int" and ?s = "\<lparr>conn = 0, rollbacked = False, calls = []\<rparr> :: nat session"
  have "in_range ?r" by (simp add: in_range_def)
  moreover obtain c j x where c: "NextContext ?r '''' ?g ?t 0 = Inr (c, j)" "ctx_type c = NEW_ORDER" "new_order_ctx c = Some x" "i_ids x = []"
    by (simp add: NextContext_def NextContext_new_order_def draws const_defs TpccSettings_new_def MockCustomerID_def produce_def Produce_def
      smod_nonneg MockItemIDS_empty eval_nat_numeral)
  moreover obtain s' where s': "DoNewOrder (failing_db 100) c ?s = (Inr True, s')"
    using c(2-4) by (simp add: DoNewOrder_def tx_bind_def tx_assert_def tx_ret_def tx_get_def Query_check_def Query_def Commit_def failing_db_def Let_def)
  ultimately show ?thesis using new_order_writes_no_lines [of ?r "''''" ?g ?t 0 c j "failing_db 100" ?s True s'] by auto
qed

section \<open>Numbers\<close>

text \<open>The stock never leaves 10 to 100 through an order of 1 to 10 pieces.\<close>

lemma stock_quantity_range:
  "10 \<le> s \<Longrightarrow> s \<le> 100 \<Longrightarrow> 1 \<le> q \<Longrightarrow> q \<le> 10 \<Longrightarrow> 10 \<le> stock_quantity s q \<and> stock_quantity s q \<le> 100"
  by (auto simp: stock_quantity_def)

text \<open>The row in the middle; with no row the index is the largest number.\<close>

lemma middle_0: "middle 0 = 2 ^ 64 - 1"
  by (simp add: middle_def unsigned_minus_1_eq_mask mask_eq_exp_minus_1)

lemma middle_row:
  assumes "0 < n" and "n < 2 ^ 32"
  shows "middle n = (n - 1) div 2"
proof -
  obtain k where k: "n = Suc k" using assms(1) by (cases n) auto
  define m where "m = k div 2"
  have m: "m < 2 ^ 31" using assms k by (simp add: m_def)
  have "(word_of_nat n - 1 :: u64) = word_of_nat k" by (simp add: k)
  moreover have "unat (word_of_nat k :: u64) = k" using assms k by (simp add: unat_of_nat)
  ultimately have "unat ((word_of_nat n - 1 :: u64) div 2) = m" by (simp add: unat_div m_def)
  then have "(word_of_nat n - 1 :: u64) div 2 = word_of_nat m" by (metis of_nat_unat ucast_id)
  moreover have "(ucast (word_of_nat m :: u64) :: u32) = word_of_nat m"
    using m by (simp add: word_unat_eq_iff unat_of_nat unsigned_ucast_eq take_bit_eq_mod)
  moreover have "sint (word_of_nat m :: u32) = int m" 
    using m by (simp add: sint_uint unsigned_of_nat take_bit_nat_eq_self signed_take_bit_int_eq_self)
  moreover have "(scast (word_of_nat m :: u32) :: u64) = word_of_int (sint (word_of_nat m :: u32))" by simp
  ultimately have "middle n = unat (word_of_int (int m) :: u64)" by (simp only: middle_def)
  then show ?thesis using m by (simp add: m_def unat_of_nat k)
qed

text \<open>The zero is put after the number of the district: 1 gives \<open>S_DIST_10\<close>, the column of district 10.\<close>

lemma GetStockInfo_column: "1 \<le> d \<Longrightarrow> d \<le> 9 \<Longrightarrow> setw_left 2 CHR ''0'' (show_int d) = show_int (10 * d)"
proof -
  assume "1 \<le> d" "d \<le> 9"
  then have "d \<in> {1, 2, 3, 4, 5, 6, 7, 8, 9}" by auto
  then show ?thesis by (elim insertE) (simp_all add: setw_left_def show_int_def show_nat.simps digit_char_def)
qed

end
