(* ===== verification/Sv_Store.thy ===== *)
theory Sv_Store
  imports Rk_Store Db_Tokener
begin

text \<open>
  The table service \<open>rocksdb_service\<close>: the cache and the store of \<open>rocksdb_impl.h\<close> and \<open>rocksdb_impl.cpp\<close>, \<open>read_all\<close> of
  \<open>rocksdb_util.cpp\<close>, the front end \<open>database.cpp\<close>, and the handler of \<open>server.cpp\<close>. The key-value store is the argument \<open>ops\<close>, as in
  the document store. Text written to \<open>std::cout\<close> is a result; the transport (gRPC) is left out. A request carries a name, its
  other field is never read.
\<close>

section \<open>DBCache\<close>

record Sv_Cache =
  sv_tid :: "u64 option" \<comment> \<open>nothing before the first \<open>SetTid\<close>\<close>
  sv_segmap :: "(u64 \<times> u64) list"

definition Sv_Cache_new :: Sv_Cache where "Sv_Cache_new = \<lparr>sv_tid = None, sv_segmap = []\<rparr>"

definition Sv_GetTid :: "Sv_Cache \<Rightarrow> u64 outcome" where "Sv_GetTid c = of_opt Uninitialised (sv_tid c)"

definition Sv_GetAndIncTid :: "Sv_Cache \<Rightarrow> (u64 \<times> Sv_Cache) outcome" where
  "Sv_GetAndIncTid c = bnd (Sv_GetTid c) (\<lambda>t. Inr (t, c\<lparr>sv_tid := Some (t + 1)\<rparr>))"

definition Sv_SetTid :: "u64 \<Rightarrow> Sv_Cache \<Rightarrow> Sv_Cache" where "Sv_SetTid t c = c\<lparr>sv_tid := Some t\<rparr>"

definition Sv_UpdateSegMap :: "u64 \<Rightarrow> u64 \<Rightarrow> Sv_Cache \<Rightarrow> Sv_Cache" where
  "Sv_UpdateSegMap t sid c = c\<lparr>sv_segmap := map_put t sid (sv_segmap c)\<rparr>"

definition Sv_GetSegId :: "u64 \<Rightarrow> Sv_Cache \<Rightarrow> u64 option" where "Sv_GetSegId t c = map_of (sv_segmap c) t"

definition Sv_GetAndIncSegId :: "u64 \<Rightarrow> Sv_Cache \<Rightarrow> u64 option \<times> Sv_Cache" where
  "Sv_GetAndIncSegId t c = (case map_of (sv_segmap c) t of None \<Rightarrow> (None, c)
     | Some sid \<Rightarrow> (Some sid, c\<lparr>sv_segmap := map_put t (sid + 1) (sv_segmap c)\<rparr>))"

section \<open>RocksDBImpl\<close>

definition Sv_SequenceKey :: key where "Sv_SequenceKey = str ''TSK''"
definition Sv_TablePrefix :: string where "Sv_TablePrefix = ''T:''"
definition Sv_CurrentSegmentPrefix :: string where "Sv_CurrentSegmentPrefix = ''TS:''"

definition Sv_TableKey :: "string \<Rightarrow> key" where "Sv_TableKey n = str (Sv_TablePrefix @ n)"

record 'db Sv_Impl =
  sv_db :: 'db
  sv_cache :: Sv_Cache

abbreviation sv_show :: "u64 \<Rightarrow> string" where "sv_show n \<equiv> show_nat (unat n)"
abbreviation sv_nl :: string where "sv_nl \<equiv> [CHR 0x0A]"

definition Sv_read_all :: "'db rocks \<Rightarrow> 'db \<Rightarrow> string" where
  "Sv_read_all ops db =
     (let kvs = db_Scan ops None None db
      in concat (map (\<lambda>(k, v). ''('' @ map char_of_byte k @ '','' @ map char_of_byte v @ '')'' @ sv_nl) kvs) @
         ''Found '' @ show_nat (length kvs) @ '' KVs'' @ sv_nl)"

text \<open>\<open>Init\<close> reads the sequence number as eight bytes in the byte order of the machine, whatever the length of the value.\<close>

definition Sv_Init :: "'db rocks \<Rightarrow> 'db Sv_Impl \<Rightarrow> (string \<times> 'db Sv_Impl) outcome" where
  "Sv_Init ops st =
     (let (s, db_seq_id) = db_Get ops (sv_db st) Sv_SequenceKey in
      if s = R_NotFound then
        (let (s, db) = db_Write ops [WPut Sv_SequenceKey (le_bytes 8 0)] (sv_db st) in
         bnd (guard AssertFailed (s = R_OK)) (\<lambda>_. Inr (''Init DB first'' @ sv_nl, \<lparr>sv_db = db, sv_cache = Sv_SetTid 0 (sv_cache st)\<rparr>)))
      else bnd (guard AssertFailed (s = R_OK)) (\<lambda>_.
           bnd (guard OutOfBounds (8 \<le> length db_seq_id)) (\<lambda>_.
             let tid = word_of_nat (bytes_val (take 8 db_seq_id)) in
             Inr (''Latest TID='' @ sv_show tid @ sv_nl @ Sv_read_all ops (sv_db st), st\<lparr>sv_cache := Sv_SetTid tid (sv_cache st)\<rparr>))))"

definition Sv_Impl_new :: "'db rocks \<Rightarrow> 'db \<Rightarrow> (string \<times> 'db Sv_Impl) outcome" where
  "Sv_Impl_new ops db = Sv_Init ops \<lparr>sv_db = db, sv_cache = Sv_Cache_new\<rparr>"

definition Sv_table_batch :: "string \<Rightarrow> u64 \<Rightarrow> WriteOp list" where
  "Sv_table_batch n tid =
     [WPut Sv_SequenceKey (str (sv_show (tid + 1))), WPut (Sv_TableKey n) (str (sv_show tid)),
      WPut (str (Sv_CurrentSegmentPrefix @ sv_show tid)) (str (sv_show tid @ '',0''))]"

definition Sv_CreateTable_new :: "'db rocks \<Rightarrow> string \<Rightarrow> 'db Sv_Impl \<Rightarrow> (string \<times> 'db Sv_Impl) outcome" where
  "Sv_CreateTable_new ops n st =
     bnd (Sv_GetTid (sv_cache st)) (\<lambda>tid.
       let (s, db) = db_Write ops (Sv_table_batch n tid) (sv_db st) in
       bnd (guard AssertFailed (s = R_OK)) (\<lambda>_.
         let c = Sv_UpdateSegMap tid 0 (sv_cache st) in
         bnd (of_opt AssertFailed (Sv_GetSegId tid c)) (\<lambda>sid.
           Inr (''tid='' @ sv_show tid @ sv_nl @ ''segid='' @ sv_show sid @ sv_nl @ Sv_read_all ops db,
             \<lparr>sv_db = db, sv_cache = Sv_SetTid (tid + 1) c\<rparr>))))"

text \<open>The schema is not used.\<close>

definition Sv_CreateTable :: "'db rocks \<Rightarrow> string \<Rightarrow> 'db Sv_Impl \<Rightarrow> (RStatus \<times> string \<times> 'db Sv_Impl) outcome" where
  "Sv_CreateTable ops n st =
     (let table_key = Sv_TableKey n; out = ''RocksDBImpl::CreateTable: '' @ map char_of_byte table_key @ sv_nl;
          (s, table_key_value) = db_Get ops (sv_db st) table_key in
      if s = R_NotFound then bnd (Sv_CreateTable_new ops n st) (\<lambda>(o2, st). Inr (R_OK, out @ o2, st))
      else bnd (guard AssertFailed (s = R_OK)) (\<lambda>_. Inr (R_OK, out, st)))"

definition Sv_MyDB_CreateTable :: "'db rocks \<Rightarrow> string \<Rightarrow> 'db Sv_Impl \<Rightarrow> (RStatus \<times> string \<times> 'db Sv_Impl) outcome" where
  "Sv_MyDB_CreateTable ops n impl = Sv_CreateTable ops n impl"

section \<open>The service\<close>

text \<open>\<open>ID\<close> is a static \<open>int\<close> of the process.\<close>

record 'db Sv_Service =
  sv_impl :: "'db Sv_Impl"
  sv_ID :: "32 word"

record Sv_Table =
  resp_id :: int
  resp_name :: string

definition Sv_Service_new :: "'db rocks \<Rightarrow> 'db \<Rightarrow> (string \<times> 'db Sv_Service) outcome" where
  "Sv_Service_new ops db = bnd (Sv_Impl_new ops db) (\<lambda>(out, impl). Inr (out, \<lparr>sv_impl = impl, sv_ID = 0\<rparr>))"

definition Sv_Service_CreateTable :: "'db rocks \<Rightarrow> string \<Rightarrow> 'db Sv_Service \<Rightarrow> (Sv_Table \<times> string \<times> 'db Sv_Service) outcome" where
  "Sv_Service_CreateTable ops n svc =
     bnd (Sv_MyDB_CreateTable ops n (sv_impl svc)) (\<lambda>(s, out, impl).
       Inr (\<lparr>resp_id = sint (sv_ID svc), resp_name = n\<rparr>, out, \<lparr>sv_impl = impl, sv_ID = sv_ID svc + 1\<rparr>))"

text \<open>Requests one after another.\<close>

fun Sv_requests :: "'db rocks \<Rightarrow> string list \<Rightarrow> 'db Sv_Service \<Rightarrow> (Sv_Table list \<times> 'db Sv_Service) outcome" where
  "Sv_requests ops [] svc = Inr ([], svc)"
| "Sv_requests ops (n # ns) svc =
     bnd (Sv_Service_CreateTable ops n svc) (\<lambda>(r, out, svc). bnd (Sv_requests ops ns svc) (\<lambda>(rs, svc). Inr (r # rs, svc)))"

section \<open>The invariant\<close>

lemma show_nat_inj: "show_nat m = show_nat n \<longleftrightarrow> m = n"
  using dec_val_show_nat by metis

lemma str_inj: "str a = str b \<longleftrightarrow> a = b"
proof -
  have "inj byte_of_char" by (rule inj_on_inverseI [of _ char_of_byte]) simp
  then show ?thesis by (simp add: inj_map_eq_map)
qed

lemma show_nat_length: "n < 10 ^ k \<Longrightarrow> 0 < k \<Longrightarrow> length (show_nat n) \<le> k"
proof (induction k arbitrary: n)
  case (Suc k)
  show ?case
  proof (cases "n < 10")
    case False
    then have "n div 10 < 10 ^ k" "0 < k" using Suc(2) by (auto simp: less_mult_imp_div_less mult.commute intro: gr0I)
    then have "length (show_nat (n div 10)) \<le> k" using Suc(1) by blast
    then show ?thesis using False by (subst show_nat.simps) simp
  qed (subst show_nat.simps, simp)
qed simp

definition add_table :: "string \<Rightarrow> string list \<Rightarrow> string list" where
  "add_table n ts = (if n \<in> set ts then ts else ts @ [n])"

text \<open>The names in the order in which they were first asked for.\<close>

definition tables_of :: "string list \<Rightarrow> string list" where "tables_of ns = fold add_table ns []"

definition sv_inv :: "(key \<rightharpoonup> byte list) \<Rightarrow> Sv_Cache \<Rightarrow> string list \<Rightarrow> bool" where
  "sv_inv v c ts \<longleftrightarrow> distinct ts \<and> sv_tid c = Some (word_of_nat (length ts)) \<and> ordered (sv_segmap c) \<and>
     v Sv_SequenceKey = Some (if ts = [] then le_bytes 8 0 else str (show_nat (length ts))) \<and>
     (\<forall>n. n \<notin> set ts \<longrightarrow> v (Sv_TableKey n) = None) \<and>
     (\<forall>i < length ts. v (Sv_TableKey (ts ! i)) = Some (str (show_nat i)) \<and>
        v (str (Sv_CurrentSegmentPrefix @ show_nat i)) = Some (str (show_nat i @ '',0'')) \<and> map_of (sv_segmap c) (word_of_nat i) = Some 0)"

lemmas sv_keys = Sv_SequenceKey_def Sv_TableKey_def Sv_TablePrefix_def Sv_CurrentSegmentPrefix_def

lemma sv_key_neqs:
  "Sv_SequenceKey \<noteq> Sv_TableKey n" "Sv_SequenceKey \<noteq> str (Sv_CurrentSegmentPrefix @ s)" "Sv_TableKey n \<noteq> str (Sv_CurrentSegmentPrefix @ s)"
  "Sv_TableKey m = Sv_TableKey n \<longleftrightarrow> m = n" "str (Sv_CurrentSegmentPrefix @ s) = str (Sv_CurrentSegmentPrefix @ t) \<longleftrightarrow> s = t"
  unfolding sv_keys str_inj by simp_all


lemma u64_nat: "i < 2 ^ 64 \<Longrightarrow> unat (word_of_nat i :: u64) = i"
  by (simp add: unat_of_nat)

lemma sv_inv_add:
  assumes inv: "sv_inv v c ts" and new: "n \<notin> set ts" and len: "Suc (length ts) < 2 ^ 64"
  defines "t \<equiv> word_of_nat (length ts) :: u64"
  shows "sv_inv (apply_batch (Sv_table_batch n t) v) (Sv_SetTid (t + 1) (Sv_UpdateSegMap t 0 c)) (ts @ [n])"
proof -
  have t: "unat t = length ts" "t + 1 = word_of_nat (Suc (length ts))" using len by (simp_all add: t_def u64_nat)
  then have t1: "unat (t + 1) = Suc (length ts)" using len by (simp only: u64_nat)
  have wi: "(word_of_nat i :: u64) \<noteq> t" if "i < length ts" for i
    using that len t(1) u64_nat [of i] by auto
  have v: "apply_batch (Sv_table_batch n t) v = v(Sv_SequenceKey \<mapsto> str (show_nat (Suc (length ts))), Sv_TableKey n \<mapsto> str (show_nat (length ts)),
      str (Sv_CurrentSegmentPrefix @ show_nat (length ts)) \<mapsto> str (show_nat (length ts) @ '',0''))"
    unfolding Sv_table_batch_def t(1) t1 by (simp add: apply_batch_def apply_op_def)
  have old: "v (Sv_TableKey (ts ! i)) = Some (str (show_nat i))" "v (str (Sv_CurrentSegmentPrefix @ show_nat i)) = Some (str (show_nat i @ '',0''))"
    "map_of (sv_segmap c) (word_of_nat i) = Some 0" "ts ! i \<noteq> n" if "i < length ts" for i
    using inv that new by (auto simp: sv_inv_def simp del: map_append)
  have seg: "ordered (sv_segmap c)" "distinct ts" "\<forall>m. m \<notin> set ts \<longrightarrow> v (Sv_TableKey m) = None" using inv by (simp_all add: sv_inv_def)
  note neq = sv_key_neqs sv_key_neqs(1-3) [symmetric]
  show ?thesis unfolding sv_inv_def v
  proof (intro conjI allI impI)
    fix i
    assume "i < length (ts @ [n])"
    then have i: "i < length ts \<or> i = length ts" by auto
    show "(v(Sv_SequenceKey \<mapsto> str (show_nat (Suc (length ts))), Sv_TableKey n \<mapsto> str (show_nat (length ts)),
      str (Sv_CurrentSegmentPrefix @ show_nat (length ts)) \<mapsto> str (show_nat (length ts) @ '',0''))) (Sv_TableKey ((ts @ [n]) ! i)) = Some (str (show_nat i))"
      using i by (elim disjE) (simp_all add: nth_append neq(1-4) neq(6-8) old(1,4) del: map_append)
    show "(v(Sv_SequenceKey \<mapsto> str (show_nat (Suc (length ts))), Sv_TableKey n \<mapsto> str (show_nat (length ts)),
      str (Sv_CurrentSegmentPrefix @ show_nat (length ts)) \<mapsto> str (show_nat (length ts) @ '',0''))) (str (Sv_CurrentSegmentPrefix @ show_nat i)) =
        Some (str (show_nat i @ '',0''))"
      using i by (elim disjE) (simp_all add: neq show_nat_inj old(2) del: map_append)
    show "map_of (sv_segmap (Sv_SetTid (t + 1) (Sv_UpdateSegMap t 0 c))) (word_of_nat i) = Some 0"
      using i old(3) wi seg(1) by (auto simp: Sv_SetTid_def Sv_UpdateSegMap_def map_of_map_put t_def)
  qed (use seg new t(2) in \<open>auto simp: Sv_SetTid_def Sv_UpdateSegMap_def ordered_map_put neq simp del: map_append\<close>)
qed

lemma Sv_CreateTable_step:
  assumes laws: "kv_laws ops view" and inv: "sv_inv (view (sv_db st)) (sv_cache st) ts" and len: "Suc (length ts) < 2 ^ 64"
  obtains out st' where "Sv_CreateTable ops n st = Inr (R_OK, out, st')" and "sv_inv (view (sv_db st')) (sv_cache st') (add_table n ts)"
proof (cases "n \<in> set ts")
  case True
  then obtain x where "view (sv_db st) (Sv_TableKey n) = Some x" using inv by (auto simp: sv_inv_def in_set_conv_nth)
  then have "db_Get ops (sv_db st) (Sv_TableKey n) = (R_OK, x)" by (rule kv_lawsD(1) [OF laws])
  then have "\<exists>out. Sv_CreateTable ops n st = Inr (R_OK, out, st)" by (simp add: Sv_CreateTable_def Let_def)
  then show thesis using that inv True by (auto simp: add_table_def)
next
  case False
  let ?t = "word_of_nat (length ts) :: u64"
  have "view (sv_db st) (Sv_TableKey n) = None" using inv False by (simp add: sv_inv_def)
  then obtain x where get: "db_Get ops (sv_db st) (Sv_TableKey n) = (R_NotFound, x)" using kv_lawsD(2) [OF laws] by blast
  obtain db where db: "db_Write ops (Sv_table_batch n ?t) (sv_db st) = (R_OK, db)" "view db = apply_batch (Sv_table_batch n ?t) (view (sv_db st))"
    using kv_lawsD(3) [OF laws] by blast
  have tid: "sv_tid (sv_cache st) = Some ?t" "ordered (sv_segmap (sv_cache st))" using inv by (simp_all add: sv_inv_def)
  have "\<exists>out. Sv_CreateTable ops n st = Inr (R_OK, out, \<lparr>sv_db = db, sv_cache = Sv_SetTid (?t + 1) (Sv_UpdateSegMap ?t 0 (sv_cache st))\<rparr>)"
    using tid by (simp add: Sv_CreateTable_def Sv_CreateTable_new_def Sv_GetTid_def Sv_GetSegId_def Sv_UpdateSegMap_def map_of_map_put get db(1) Let_def)
  then show thesis using that sv_inv_add [OF inv False len] False by (auto simp: add_table_def db(2))
qed


section \<open>A run of the service\<close>

definition Sv_responses :: "nat \<Rightarrow> string list \<Rightarrow> Sv_Table list" where
  "Sv_responses k ns = map (\<lambda>(i, n). \<lparr>resp_id = int i, resp_name = n\<rparr>) (zip [k..<k + length ns] ns)"

lemma Sv_responses_Cons: "Sv_responses k (n # ns) = \<lparr>resp_id = int k, resp_name = n\<rparr> # Sv_responses (Suc k) ns"
  by (simp add: Sv_responses_def upt_conv_Cons del: upt_Suc)

lemma sint_small: "k < 2 ^ 31 \<Longrightarrow> sint (word_of_nat k :: 32 word) = int k"
  by (simp add: sint_uint uint_nat unat_of_nat signed_take_bit_int_eq_self take_bit_int_eq_self)

lemma length_add_table: "length (add_table n ts) \<le> Suc (length ts)" by (simp add: add_table_def)

lemma Sv_requests_inv:
  assumes laws: "kv_laws ops view"
  shows "sv_inv (view (sv_db (sv_impl svc))) (sv_cache (sv_impl svc)) ts \<Longrightarrow> length ts + length ns < 2 ^ 64 \<Longrightarrow> sv_ID svc = word_of_nat k \<Longrightarrow>
    k + length ns \<le> 2 ^ 31 \<Longrightarrow>
    \<exists>svc'. Sv_requests ops ns svc = Inr (Sv_responses k ns, svc') \<and>
      sv_inv (view (sv_db (sv_impl svc'))) (sv_cache (sv_impl svc')) (fold add_table ns ts)"
proof (induction ns arbitrary: svc ts k)
  case (Cons n ns)
  have len: "Suc (length ts) < 2 ^ 64" using Cons.prems(2) by simp
  obtain out st where st: "Sv_CreateTable ops n (sv_impl svc) = Inr (R_OK, out, st)" "sv_inv (view (sv_db st)) (sv_cache st) (add_table n ts)"
    using Sv_CreateTable_step [where view = view, OF laws Cons.prems(1) len] by blast
  let ?svc = "\<lparr>sv_impl = st, sv_ID = sv_ID svc + 1\<rparr>"
  have call: "Sv_Service_CreateTable ops n svc = Inr (\<lparr>resp_id = int k, resp_name = n\<rparr>, out, ?svc)"
    using st(1) Cons.prems(3,4) by (simp add: Sv_Service_CreateTable_def Sv_MyDB_CreateTable_def sint_small)
  have "\<exists>svc'. Sv_requests ops ns ?svc = Inr (Sv_responses (Suc k) ns, svc') \<and>
      sv_inv (view (sv_db (sv_impl svc'))) (sv_cache (sv_impl svc')) (fold add_table ns (add_table n ts))"
    using Cons.prems length_add_table [of n ts] st(2) by (intro Cons.IH) simp_all
  then show ?case using call by (auto simp: Sv_responses_Cons)
qed (simp add: Sv_responses_def)

lemma Sv_Service_fresh:
  assumes laws: "kv_laws ops view" and empty: "view db = Map.empty"
  obtains out svc where "Sv_Service_new ops db = Inr (out, svc)" and "sv_inv (view (sv_db (sv_impl svc))) (sv_cache (sv_impl svc)) []" and "sv_ID svc = 0"
proof -
  obtain x where get: "db_Get ops db Sv_SequenceKey = (R_NotFound, x)" using kv_lawsD(2) [OF laws, of db] empty by metis
  obtain db' where db: "db_Write ops [WPut Sv_SequenceKey (le_bytes 8 0)] db = (R_OK, db')" "view db' = [Sv_SequenceKey \<mapsto> le_bytes 8 0]"
    using kv_lawsD(3) [OF laws, of "[WPut Sv_SequenceKey (le_bytes 8 0)]" db] empty by (auto simp: apply_batch_def apply_op_def)
  let ?svc = "\<lparr>sv_impl = \<lparr>sv_db = db', sv_cache = Sv_SetTid 0 Sv_Cache_new\<rparr>, sv_ID = 0\<rparr>"
  have "Sv_Service_new ops db = Inr (''Init DB first'' @ sv_nl, ?svc)"
    by (simp add: Sv_Service_new_def Sv_Impl_new_def Sv_Init_def get db(1))
  moreover have "sv_inv (view db') (Sv_SetTid 0 Sv_Cache_new) []"
    using sv_key_neqs(1) [symmetric] by (simp add: sv_inv_def db(2) Sv_SetTid_def Sv_Cache_new_def)
  ultimately show thesis using that by simp
qed

text \<open>What the service answers and what it stores. Started on an empty store, the service answers the requests for the names in
  turn with the identifiers 0, 1, 2, ..., one for each request. On disk and in the cache there is one table for each different
  name, numbered in the order of the first requests, and its current segment is its own number on disk but 0 in the cache.\<close>

theorem Service_CreateTable_ids:
  assumes "kv_laws ops view" and "view db = Map.empty" and "length ns \<le> 2 ^ 31"
  shows "\<exists>out svc svc'. Sv_Service_new ops db = Inr (out, svc) \<and> Sv_requests ops ns svc = Inr (Sv_responses 0 ns, svc') \<and>
    (\<forall>i < length (tables_of ns).
       view (sv_db (sv_impl svc')) (Sv_TableKey (tables_of ns ! i)) = Some (str (show_nat i)) \<and>
       view (sv_db (sv_impl svc')) (str (Sv_CurrentSegmentPrefix @ show_nat i)) = Some (str (show_nat i @ '',0'')) \<and>
       Sv_GetSegId (word_of_nat i) (sv_cache (sv_impl svc')) = Some 0)"
proof -
  obtain out svc where svc: "Sv_Service_new ops db = Inr (out, svc)" "sv_inv (view (sv_db (sv_impl svc))) (sv_cache (sv_impl svc)) []" "sv_ID svc = 0"
    using Sv_Service_fresh [where view = view and db = db, OF assms(1,2)] by blast
  obtain svc' where "Sv_requests ops ns svc = Inr (Sv_responses 0 ns, svc')"
    "sv_inv (view (sv_db (sv_impl svc'))) (sv_cache (sv_impl svc')) (tables_of ns)"
    using Sv_requests_inv [where view = view and svc = svc, OF assms(1) svc(2), of ns 0] svc(3) assms(3) by (auto simp: tables_of_def)
  then show ?thesis using svc(1) unfolding sv_inv_def Sv_GetSegId_def by blast
qed

theorem Service_CreateTable_ids_witness:
  "\<exists>out svc svc'. Sv_Service_new list_store [] = Inr (out, svc) \<and>
     Sv_requests list_store [''a'', ''b'', ''a''] svc =
       Inr ([\<lparr>resp_id = 0, resp_name = ''a''\<rparr>, \<lparr>resp_id = 1, resp_name = ''b''\<rparr>, \<lparr>resp_id = 2, resp_name = ''a''\<rparr>], svc') \<and>
     map_of (sv_db (sv_impl svc')) (Sv_TableKey ''a'') = Some (str ''0'') \<and>
     map_of (sv_db (sv_impl svc')) (str ''TS:1'') = Some (str ''1,0'') \<and> Sv_GetSegId 1 (sv_cache (sv_impl svc')) = Some 0"
proof -
  have t: "tables_of [''a'', ''b'', ''a''] = [''a'', ''b'']" by (simp add: tables_of_def add_table_def)
  have r: "Sv_responses 0 [''a'', ''b'', ''a''] = [\<lparr>resp_id = 0, resp_name = ''a''\<rparr>, \<lparr>resp_id = 1, resp_name = ''b''\<rparr>, \<lparr>resp_id = 2, resp_name = ''a''\<rparr>]"
    by (simp add: Sv_responses_Cons) (simp add: Sv_responses_def)
  have s: "show_nat 0 = ''0''" "show_nat 1 = ''1''" by (simp_all add: show_nat.simps digit_char_def)
  obtain out svc svc' where "Sv_Service_new list_store [] = Inr (out, svc)"
    "Sv_requests list_store [''a'', ''b'', ''a''] svc = Inr (Sv_responses 0 [''a'', ''b'', ''a''], svc')" and
    tabs: "\<forall>i < length [''a'', ''b'']. map_of (sv_db (sv_impl svc')) (Sv_TableKey ([''a'', ''b''] ! i)) = Some (str (show_nat i)) \<and>
       map_of (sv_db (sv_impl svc')) (str (Sv_CurrentSegmentPrefix @ show_nat i)) = Some (str (show_nat i @ '',0'')) \<and>
       Sv_GetSegId (word_of_nat i) (sv_cache (sv_impl svc')) = Some 0"
    using Service_CreateTable_ids [OF list_store_laws, of "[]" "[''a'', ''b'', ''a'']"] unfolding t by auto
  moreover have "map_of (sv_db (sv_impl svc')) (Sv_TableKey ''a'') = Some (str ''0'')" using tabs s(1) by force
  moreover have "map_of (sv_db (sv_impl svc')) (str ''TS:1'') = Some (str ''1,0'')" "Sv_GetSegId 1 (sv_cache (sv_impl svc')) = Some 0"
    using tabs [rule_format, of 1] s(2) by (simp_all add: Sv_CurrentSegmentPrefix_def)
  ultimately show ?thesis using r by simp
qed

text \<open>The service cannot be started again once it has created a table. Creating a table writes the next number as text, and
  starting reads eight bytes: as long as there are fewer than ten million tables, they are not there.\<close>

theorem Service_restart_fails:
  assumes "kv_laws ops view" and "view db = Map.empty" and "ns \<noteq> []" and "length ns < 10 ^ 7"
    and "Sv_Service_new ops db = Inr (out, svc)" and "Sv_requests ops ns svc = Inr (rs, svc')"
  shows "Sv_Service_new ops (sv_db (sv_impl svc')) = Inl OutOfBounds"
proof -
  let ?db = "sv_db (sv_impl svc')"
  have svc: "sv_inv (view (sv_db (sv_impl svc))) (sv_cache (sv_impl svc)) []" "sv_ID svc = 0"
    using Sv_Service_fresh [where view = view and db = db, OF assms(1,2)] assms(5) by auto
  have inv: "sv_inv (view ?db) (sv_cache (sv_impl svc')) (tables_of ns)"
    using Sv_requests_inv [where view = view and svc = svc, OF assms(1) svc(1), of ns 0] svc(2) assms(4,6) by (auto simp: tables_of_def)
  have len: "length (fold add_table ns ts) \<le> length ts + length ns" for ts
  proof (induction ns arbitrary: ts)
    case (Cons n ns)
    have "length (fold add_table ns (add_table n ts)) \<le> length (add_table n ts) + length ns" by (rule Cons)
    then show ?case using length_add_table [of n ts] by simp
  qed simp
  have ne: "fold add_table ns ts \<noteq> []" if "ts \<noteq> []" for ts
    using that by (induction ns arbitrary: ts) (auto simp: add_table_def)
  have "tables_of ns \<noteq> []" using assms(3) ne [of "add_table (hd ns) []"] by (cases ns) (auto simp: tables_of_def add_table_def)
  then have "view ?db Sv_SequenceKey = Some (str (show_nat (length (tables_of ns))))" using inv by (simp add: sv_inv_def)
  then have "db_Get ops ?db Sv_SequenceKey = (R_OK, str (show_nat (length (tables_of ns))))" by (rule kv_lawsD(1) [OF assms(1)])
  moreover have "length (show_nat (length (tables_of ns))) \<le> 7"
    using len [of "[]"] assms(4) by (intro show_nat_length) (simp_all add: tables_of_def)
  ultimately show ?thesis by (simp add: Sv_Service_new_def Sv_Impl_new_def Sv_Init_def)
qed

theorem Service_restart_fails_witness:
  "\<exists>out svc svc'. Sv_Service_new list_store [] = Inr (out, svc) \<and> Sv_requests list_store [''a''] svc = Inr (Sv_responses 0 [''a''], svc') \<and>
     Sv_Service_new list_store (sv_db (sv_impl svc')) = Inl OutOfBounds"
proof -
  obtain out svc where svc: "Sv_Service_new list_store [] = Inr (out, svc)" "sv_inv (map_of (sv_db (sv_impl svc))) (sv_cache (sv_impl svc)) []" "sv_ID svc = 0"
    using Sv_Service_fresh [where view = map_of and db = "[]", OF list_store_laws] by auto
  obtain svc' where r: "Sv_requests list_store [''a''] svc = Inr (Sv_responses 0 [''a''], svc')"
    using Sv_requests_inv [where view = map_of and svc = svc, OF list_store_laws svc(2), of "[''a'']" 0] svc(3) by auto
  have "Sv_Service_new list_store (sv_db (sv_impl svc')) = Inl OutOfBounds"
    by (rule Service_restart_fails [OF list_store_laws _ _ _ svc(1) r]) simp_all
  then show ?thesis using svc(1) r by blast
qed

end
