(* ===== verification/Lv_Doc.thy ===== *)
theory Lv_Doc
  imports Rk_Doc
begin

text \<open>
  The earlier documents of \<open>leveldb_lab\<close> (\<open>doc.h\<close>, \<open>doc.cpp\<close>), which \<open>rocksdb_service\<close> holds a copy of. Their fields are those of \<open>rocksdb_lab\<close> without
  the serialisation, so the field types of \<open>Rk_Fields\<close> are used. A schema has no numbering of its fields yet. The
  theorem at the end relates the two versions: any sequence of calls on a schema and on a document of it ends in
  the same way in both, up to the numbering.
\<close>

section \<open>DocSchema\<close>

record Lv_DocSchema =
  lv_fields_schema :: "(string \<times> nat \<times> nat) list"
  lv_long_fields :: "long NumericField list"
  lv_float_fields :: "float32 NumericField list"
  lv_string_fields :: "string LengthField list"
  lv_float_vector_fields :: "float32 list LengthField list"
  lv_fixed :: bool

definition Lv_default :: Lv_DocSchema where
  "Lv_default = \<lparr>lv_fields_schema = [], lv_long_fields = [], lv_float_fields = [], lv_string_fields = [], lv_float_vector_fields = [],
     lv_fixed = False\<rparr>"

text \<open>The move constructor has no initialiser for the vector fields.\<close>

definition Lv_move :: "Lv_DocSchema \<Rightarrow> Lv_DocSchema \<times> Lv_DocSchema" where
  "Lv_move other = (other\<lparr>lv_float_vector_fields := []\<rparr>,
     other\<lparr>lv_fields_schema := [], lv_long_fields := [], lv_float_fields := [], lv_string_fields := []\<rparr>)"

definition Lv_HasBuilt :: "Lv_DocSchema \<Rightarrow> bool" where "Lv_HasBuilt s = lv_fixed s"

definition Lv_Build :: "Lv_DocSchema \<Rightarrow> bool \<times> Lv_DocSchema" where "Lv_Build s = (True, s\<lparr>lv_fixed := True\<rparr>)"

definition Lv_PreAddCheck :: "string \<Rightarrow> Lv_DocSchema \<Rightarrow> bool" where
  "Lv_PreAddCheck n s \<longleftrightarrow> \<not> Lv_HasBuilt s \<and> map_of (lv_fields_schema s) n = None"

definition Lv_AddLongField :: "long NumericField \<Rightarrow> Lv_DocSchema \<Rightarrow> Lv_DocSchema" where
  "Lv_AddLongField f s =
     (if \<not> Lv_PreAddCheck (name (nf f)) s then s
      else let offset = length (lv_long_fields s); s = s\<lparr>lv_long_fields := lv_long_fields s @ [f]\<rparr>
           in s\<lparr>lv_fields_schema := map_put (name (nf f)) (LongFieldIdx, offset) (lv_fields_schema s)\<rparr>)"

definition Lv_AddFloatField :: "float32 NumericField \<Rightarrow> Lv_DocSchema \<Rightarrow> Lv_DocSchema" where
  "Lv_AddFloatField f s =
     (if \<not> Lv_PreAddCheck (name (nf f)) s then s
      else let offset = length (lv_float_fields s); s = s\<lparr>lv_float_fields := lv_float_fields s @ [f]\<rparr>
           in s\<lparr>lv_fields_schema := map_put (name (nf f)) (FloatFieldIdx, offset) (lv_fields_schema s)\<rparr>)"

definition Lv_AddStringField :: "string LengthField \<Rightarrow> Lv_DocSchema \<Rightarrow> Lv_DocSchema" where
  "Lv_AddStringField f s =
     (if \<not> Lv_PreAddCheck (name (lf f)) s then s
      else let offset = length (lv_string_fields s); s = s\<lparr>lv_string_fields := lv_string_fields s @ [f]\<rparr>
           in s\<lparr>lv_fields_schema := map_put (name (lf f)) (StringFieldIdx, offset) (lv_fields_schema s)\<rparr>)"

definition Lv_AddFloatVectorField :: "float32 list LengthField \<Rightarrow> Lv_DocSchema \<Rightarrow> Lv_DocSchema" where
  "Lv_AddFloatVectorField f s =
     (if \<not> Lv_PreAddCheck (name (lf f)) s then s
      else let offset = length (lv_float_vector_fields s); s = s\<lparr>lv_float_vector_fields := lv_float_vector_fields s @ [f]\<rparr>
           in s\<lparr>lv_fields_schema := map_put (name (lf f)) (FloatVectorFieldIdx, offset) (lv_fields_schema s)\<rparr>)"

text \<open>The overloads taking an rvalue: the map entry is written before the field is moved.\<close>

definition Lv_AddLongField_rvalue :: "long NumericField \<Rightarrow> Lv_DocSchema \<Rightarrow> Lv_DocSchema" where
  "Lv_AddLongField_rvalue f s =
     (if \<not> Lv_PreAddCheck (name (nf f)) s then s
      else let s = s\<lparr>lv_fields_schema := map_put (name (nf f)) (LongFieldIdx, length (lv_long_fields s)) (lv_fields_schema s)\<rparr>
           in s\<lparr>lv_long_fields := lv_long_fields s @ [f]\<rparr>)"

definition Lv_AddFloatField_rvalue :: "float32 NumericField \<Rightarrow> Lv_DocSchema \<Rightarrow> Lv_DocSchema" where
  "Lv_AddFloatField_rvalue f s =
     (if \<not> Lv_PreAddCheck (name (nf f)) s then s
      else let s = s\<lparr>lv_fields_schema := map_put (name (nf f)) (FloatFieldIdx, length (lv_float_fields s)) (lv_fields_schema s)\<rparr>
           in s\<lparr>lv_float_fields := lv_float_fields s @ [f]\<rparr>)"

definition Lv_AddStringField_rvalue :: "string LengthField \<Rightarrow> Lv_DocSchema \<Rightarrow> Lv_DocSchema" where
  "Lv_AddStringField_rvalue f s =
     (if \<not> Lv_PreAddCheck (name (lf f)) s then s
      else let s = s\<lparr>lv_fields_schema := map_put (name (lf f)) (StringFieldIdx, length (lv_string_fields s)) (lv_fields_schema s)\<rparr>
           in s\<lparr>lv_string_fields := lv_string_fields s @ [f]\<rparr>)"

definition Lv_AddFloatVectorField_rvalue :: "float32 list LengthField \<Rightarrow> Lv_DocSchema \<Rightarrow> Lv_DocSchema" where
  "Lv_AddFloatVectorField_rvalue f s =
     (if \<not> Lv_PreAddCheck (name (lf f)) s then s
      else let s = s\<lparr>lv_fields_schema := map_put (name (lf f)) (FloatVectorFieldIdx, length (lv_float_vector_fields s)) (lv_fields_schema s)\<rparr>
           in s\<lparr>lv_float_vector_fields := lv_float_vector_fields s @ [f]\<rparr>)"

definition Lv_AddLongFieldValue :: "string \<Rightarrow> long \<Rightarrow> Lv_DocSchema \<Rightarrow> Lv_DocSchema outcome" where
  "Lv_AddLongFieldValue n v s =
     (let f = LongField_new n; f = f\<lparr>nf := snd (SetValue v (nf f))\<rparr>
      in bnd (NumericField_Build f) (\<lambda>f. Inr (Lv_AddLongField_rvalue f s)))"

definition Lv_AddFloatFieldValue :: "string \<Rightarrow> float32 \<Rightarrow> Lv_DocSchema \<Rightarrow> Lv_DocSchema outcome" where
  "Lv_AddFloatFieldValue n v s =
     (let f = FloatField_new n; f = f\<lparr>nf := snd (SetValue v (nf f))\<rparr>
      in bnd (NumericField_Build f) (\<lambda>f. Inr (Lv_AddFloatField_rvalue f s)))"

definition Lv_AddStringFieldValue :: "string \<Rightarrow> string \<Rightarrow> Lv_DocSchema \<Rightarrow> Lv_DocSchema outcome" where
  "Lv_AddStringFieldValue n v s =
     (let f = StringField_new n; f = f\<lparr>lf := snd (SetValue v (lf f))\<rparr>
      in bnd (LengthField_Build f) (\<lambda>f. Inr (Lv_AddStringField_rvalue f s)))"

definition Lv_AddFloatVectorFieldValue :: "string \<Rightarrow> float32 list \<Rightarrow> Lv_DocSchema \<Rightarrow> Lv_DocSchema outcome" where
  "Lv_AddFloatVectorFieldValue n v s =
     (let f = FloatVectorField_new n; f = f\<lparr>lf := snd (SetValue v (lf f))\<rparr>
      in bnd (LengthField_Build f) (\<lambda>f. Inr (Lv_AddFloatVectorField_rvalue f s)))"

definition Lv_DocSchema_new :: "long NumericField \<Rightarrow> Lv_DocSchema outcome" where
  "Lv_DocSchema_new pk = bnd (guard AssertFailed (name (nf pk) = PrimaryKeyName)) (\<lambda>_. Inr (Lv_AddLongField pk Lv_default))"

definition Lv_GetPK :: "Lv_DocSchema \<Rightarrow> long NumericField outcome" where
  "Lv_GetPK s = (if PrimaryKeyIdx < length (lv_long_fields s) then Inr (lv_long_fields s ! PrimaryKeyIdx) else Inl OutOfBounds)"

definition Lv_Dump_field :: "string \<times> nat \<times> nat \<Rightarrow> string" where
  "Lv_Dump_field kv = (case kv of (n, idx, off) \<Rightarrow>
     n @ '' '' @
     (if idx = LongFieldIdx then ''LongField '' else if idx = FloatFieldIdx then ''FloatField ''
      else if idx = StringFieldIdx then ''StringField '' else if idx = FloatVectorFieldIdx then ''FloatVectorField '' else '''') @
     (if idx = LongFieldIdx \<and> off = 0 then ''PK '' else '''') @ [CHR 0x0A])"

definition Lv_Dump :: "Lv_DocSchema \<Rightarrow> string" where
  "Lv_Dump s = ''DocSchema: '' @ (if Lv_HasBuilt s then ''[Built]'' else ''[BUILDING]'') @ [CHR 0x0A] @
     concat (map Lv_Dump_field (lv_fields_schema s))"

section \<open>Doc\<close>

record Lv_Doc =
  lv_base :: Lv_DocSchema
  lv_schema :: Lv_DocSchema

definition Lv_Doc_new :: "long NumericField \<Rightarrow> Lv_DocSchema \<Rightarrow> Lv_Doc outcome" where
  "Lv_Doc_new pk schema =
     bnd (Lv_DocSchema_new pk) (\<lambda>b.
     bnd (guard AssertFailed (HasBuilt (nf pk))) (\<lambda>_.
     bnd (guard AssertFailed (Lv_HasBuilt schema)) (\<lambda>_. Inr \<lparr>lv_base = b, lv_schema = schema\<rparr>)))"

definition Lv_Doc_Build :: "Lv_Doc \<Rightarrow> bool \<times> Lv_Doc" where
  "Lv_Doc_Build d =
     (if length (lv_fields_schema (lv_base d)) \<noteq> length (lv_fields_schema (lv_schema d)) then (False, d)
      else let (b, s) = Lv_Build (lv_base d) in (b, d\<lparr>lv_base := s\<rparr>))"

definition Lv_Doc_check :: "'v TypedField \<Rightarrow> Lv_Doc \<Rightarrow> unit outcome" where
  "Lv_Doc_check f d = bnd (guard AssertFailed (HasBuilt f)) (\<lambda>_.
     guard AssertFailed (map_of (lv_fields_schema (lv_schema d)) (name f) \<noteq> None))"

definition Lv_Doc_AddLongField :: "long NumericField \<Rightarrow> Lv_Doc \<Rightarrow> Lv_Doc outcome" where
  "Lv_Doc_AddLongField f d = bnd (Lv_Doc_check (nf f) d) (\<lambda>_. Inr (d\<lparr>lv_base := Lv_AddLongField f (lv_base d)\<rparr>))"

definition Lv_Doc_AddFloatField :: "float32 NumericField \<Rightarrow> Lv_Doc \<Rightarrow> Lv_Doc outcome" where
  "Lv_Doc_AddFloatField f d = bnd (Lv_Doc_check (nf f) d) (\<lambda>_. Inr (d\<lparr>lv_base := Lv_AddFloatField f (lv_base d)\<rparr>))"

definition Lv_Doc_AddStringField :: "string LengthField \<Rightarrow> Lv_Doc \<Rightarrow> Lv_Doc outcome" where
  "Lv_Doc_AddStringField f d = bnd (Lv_Doc_check (lf f) d) (\<lambda>_. Inr (d\<lparr>lv_base := Lv_AddStringField f (lv_base d)\<rparr>))"

definition Lv_Doc_AddFloatVectorField :: "float32 list LengthField \<Rightarrow> Lv_Doc \<Rightarrow> Lv_Doc outcome" where
  "Lv_Doc_AddFloatVectorField f d = bnd (Lv_Doc_check (lf f) d) (\<lambda>_. Inr (d\<lparr>lv_base := Lv_AddFloatVectorField f (lv_base d)\<rparr>))"


section \<open>The two versions\<close>

definition lv_abs :: "DocSchema \<Rightarrow> Lv_DocSchema" where
  "lv_abs s = \<lparr>lv_fields_schema = fields_schema s, lv_long_fields = long_fields s, lv_float_fields = float_fields s,
     lv_string_fields = string_fields s, lv_float_vector_fields = float_vector_fields s, lv_fixed = ds_fixed s\<rparr>"

definition lv_abs_doc :: "Doc \<Rightarrow> Lv_Doc" where "lv_abs_doc d = \<lparr>lv_base = lv_abs (doc_base d), lv_schema = lv_abs (doc_schema d)\<rparr>"

datatype field_call = CallLong "long NumericField" | CallFloat "float32 NumericField" | CallString "string LengthField"
  | CallVector "float32 list LengthField" | CallLongValue string long | CallFloatValue string float32 | CallStringValue string string
  | CallVectorValue string "float32 list" | CallBuild

fun schema_call :: "field_call \<Rightarrow> DocSchema \<Rightarrow> DocSchema outcome" where
  "schema_call (CallLong f) s = Inr (AddLongField f s)"
| "schema_call (CallFloat f) s = Inr (AddFloatField f s)"
| "schema_call (CallString f) s = Inr (AddStringField f s)"
| "schema_call (CallVector f) s = Inr (AddFloatVectorField f s)"
| "schema_call (CallLongValue n v) s = AddLongFieldValue n v s"
| "schema_call (CallFloatValue n v) s = AddFloatFieldValue n v s"
| "schema_call (CallStringValue n v) s = AddStringFieldValue n v s"
| "schema_call (CallVectorValue n v) s = AddFloatVectorFieldValue n v s"
| "schema_call CallBuild s = bnd (DocSchema_Build s) (\<lambda>(b, s). Inr s)"

fun lv_schema_call :: "field_call \<Rightarrow> Lv_DocSchema \<Rightarrow> Lv_DocSchema outcome" where
  "lv_schema_call (CallLong f) s = Inr (Lv_AddLongField f s)"
| "lv_schema_call (CallFloat f) s = Inr (Lv_AddFloatField f s)"
| "lv_schema_call (CallString f) s = Inr (Lv_AddStringField f s)"
| "lv_schema_call (CallVector f) s = Inr (Lv_AddFloatVectorField f s)"
| "lv_schema_call (CallLongValue n v) s = Lv_AddLongFieldValue n v s"
| "lv_schema_call (CallFloatValue n v) s = Lv_AddFloatFieldValue n v s"
| "lv_schema_call (CallStringValue n v) s = Lv_AddStringFieldValue n v s"
| "lv_schema_call (CallVectorValue n v) s = Lv_AddFloatVectorFieldValue n v s"
| "lv_schema_call CallBuild s = Inr (snd (Lv_Build s))"

text \<open>On a document, the calls that add a field check it first; the inherited calls that add a value do not.\<close>

fun doc_call :: "field_call \<Rightarrow> Doc \<Rightarrow> Doc outcome" where
  "doc_call (CallLong f) d = Doc_AddLongField f d"
| "doc_call (CallFloat f) d = Doc_AddFloatField f d"
| "doc_call (CallString f) d = Doc_AddStringField f d"
| "doc_call (CallVector f) d = Doc_AddFloatVectorField f d"
| "doc_call CallBuild d = bnd (Doc_Build d) (\<lambda>(b, d). Inr d)"
| "doc_call c d = bnd (schema_call c (doc_base d)) (\<lambda>s. Inr (d\<lparr>doc_base := s\<rparr>))"

fun lv_doc_call :: "field_call \<Rightarrow> Lv_Doc \<Rightarrow> Lv_Doc outcome" where
  "lv_doc_call (CallLong f) d = Lv_Doc_AddLongField f d"
| "lv_doc_call (CallFloat f) d = Lv_Doc_AddFloatField f d"
| "lv_doc_call (CallString f) d = Lv_Doc_AddStringField f d"
| "lv_doc_call (CallVector f) d = Lv_Doc_AddFloatVectorField f d"
| "lv_doc_call CallBuild d = Inr (snd (Lv_Doc_Build d))"
| "lv_doc_call c d = bnd (lv_schema_call c (lv_base d)) (\<lambda>s. Inr (d\<lparr>lv_base := s\<rparr>))"

fun calls :: "('c \<Rightarrow> 's \<Rightarrow> 's outcome) \<Rightarrow> 'c list \<Rightarrow> 's \<Rightarrow> 's outcome" where
  "calls f [] s = Inr s"
| "calls f (c # cs) s = bnd (f c s) (calls f cs)"

text \<open>The kinds of a schema are the four there are, so that building it succeeds.\<close>

definition known_kinds :: "(string \<times> nat \<times> nat) list \<Rightarrow> bool" where
  "known_kinds m \<longleftrightarrow> (\<forall>kv \<in> set m. field_type_of (fst (snd kv)) \<noteq> None)"

definition kinds_ok :: "DocSchema \<Rightarrow> bool" where "kinds_ok s \<longleftrightarrow> known_kinds (fields_schema s)"

lemma set_map_put: "set (map_put k v m) \<subseteq> insert (k, v) (set m)"
  by (induction k v m rule: map_put.induct) auto

lemma kinds_put:
  assumes "known_kinds m"
  shows "known_kinds (map_put n (LongFieldIdx, off) m)" "known_kinds (map_put n (FloatFieldIdx, off) m)"
    "known_kinds (map_put n (StringFieldIdx, off) m)" "known_kinds (map_put n (FloatVectorFieldIdx, off) m)"
proof -
  have "known_kinds (map_put n (i, off) m)" if "field_type_of i \<noteq> None" for i
    using assms that set_map_put [of n "(i, off)" m] unfolding known_kinds_def by force
  then show "known_kinds (map_put n (LongFieldIdx, off) m)" "known_kinds (map_put n (FloatFieldIdx, off) m)"
    "known_kinds (map_put n (StringFieldIdx, off) m)" "known_kinds (map_put n (FloatVectorFieldIdx, off) m)"
    by (simp_all add: field_type_of_def field_idx)
qed

lemma lv_Build_loop_ok:
  "known_kinds kvs \<Longrightarrow>
    \<exists>s'. Build_loop kvs i s = Inr s' \<and> lv_abs s' = lv_abs s \<and> fields_schema s' = fields_schema s"
proof (induction kvs arbitrary: i s)
  case (Cons kv kvs)
  obtain n idx off where kv: "kv = (n, idx, off)" by (cases kv)
  then obtain ty where "field_type_of idx = Some ty" using Cons.prems by (auto simp: known_kinds_def)
  moreover have "known_kinds kvs" using Cons.prems by (simp add: known_kinds_def)
  ultimately show ?case using Cons.IH [of "i + 1" "s\<lparr>fields_name_id := map_put n i (fields_name_id s),
         fields_id_type := fields_id_type s @ [ty], fields_id_name := fields_id_name s @ [n]\<rparr>"] kv by (simp add: lv_abs_def)
qed simp

lemma lv_Build_ok:
  assumes "kinds_ok s"
  obtains s' where "DocSchema_Build s = Inr (True, s')" and "lv_abs s' = snd (Lv_Build (lv_abs s))" and "kinds_ok s'"
proof -
  obtain s1 where "Build_loop (fields_schema s) 0 (s\<lparr>fields_name_id := [], fields_id_name := []\<rparr>) = Inr s1" "lv_abs s1 = lv_abs s" "fields_schema s1 = fields_schema s"
    using lv_Build_loop_ok [of "fields_schema s" 0 "s\<lparr>fields_name_id := [], fields_id_name := []\<rparr>"] assms by (auto simp: kinds_ok_def lv_abs_def)
  then show thesis using that assms by (cases "ds_fixed s") (auto simp: DocSchema_Build_def Lv_Build_def lv_abs_def kinds_ok_def)
qed

lemmas lv_add_defs = AddLongField_def AddFloatField_def AddStringField_def AddFloatVectorField_def AddLongField_rvalue_def AddFloatField_rvalue_def
  AddStringField_rvalue_def AddFloatVectorField_rvalue_def Lv_AddLongField_def Lv_AddFloatField_def Lv_AddStringField_def Lv_AddFloatVectorField_def
  Lv_AddLongField_rvalue_def Lv_AddFloatField_rvalue_def Lv_AddStringField_rvalue_def Lv_AddFloatVectorField_rvalue_def

lemma lv_PreAddCheck: "Lv_PreAddCheck n (lv_abs s) = PreAddCheck n s"
  by (simp add: Lv_PreAddCheck_def PreAddCheck_def Lv_HasBuilt_def DocSchema_HasBuilt_def lv_abs_def)

lemma lv_adds:
  "Lv_AddLongField f (lv_abs s) = lv_abs (AddLongField f s)" "Lv_AddFloatField g (lv_abs s) = lv_abs (AddFloatField g s)"
  "Lv_AddStringField h (lv_abs s) = lv_abs (AddStringField h s)" "Lv_AddFloatVectorField k (lv_abs s) = lv_abs (AddFloatVectorField k s)"
  "Lv_AddLongField_rvalue f (lv_abs s) = lv_abs (AddLongField_rvalue f s)" "Lv_AddFloatField_rvalue g (lv_abs s) = lv_abs (AddFloatField_rvalue g s)"
  "Lv_AddStringField_rvalue h (lv_abs s) = lv_abs (AddStringField_rvalue h s)"
  "Lv_AddFloatVectorField_rvalue k (lv_abs s) = lv_abs (AddFloatVectorField_rvalue k s)"
  unfolding lv_add_defs lv_PreAddCheck by (simp_all add: lv_abs_def Let_def)

lemma kinds_adds:
  assumes "kinds_ok s"
  shows "kinds_ok (AddLongField f s)" "kinds_ok (AddFloatField g s)" "kinds_ok (AddStringField h s)" "kinds_ok (AddFloatVectorField k s)"
    "kinds_ok (AddLongField_rvalue f s)" "kinds_ok (AddFloatField_rvalue g s)" "kinds_ok (AddStringField_rvalue h s)" "kinds_ok (AddFloatVectorField_rvalue k s)"
  using assms unfolding kinds_ok_def lv_add_defs by (simp_all add: Let_def kinds_put)


lemma schema_call_same:
  assumes "kinds_ok s"
  shows "lv_schema_call c (lv_abs s) = bnd (schema_call c s) (\<lambda>s. Inr (lv_abs s))"
    and "schema_call c s = Inr s' \<Longrightarrow> kinds_ok s'"
proof -
  show "lv_schema_call c (lv_abs s) = bnd (schema_call c s) (\<lambda>s. Inr (lv_abs s))"
  proof (cases c)
    case CallBuild
    then show ?thesis using lv_Build_ok [OF assms] by (metis bnd_Inr case_prod_conv lv_schema_call.simps(9) schema_call.simps(9))
  qed (simp_all add: lv_adds AddLongFieldValue_def Lv_AddLongFieldValue_def AddFloatFieldValue_def Lv_AddFloatFieldValue_def
      AddStringFieldValue_def Lv_AddStringFieldValue_def AddFloatVectorFieldValue_def Lv_AddFloatVectorFieldValue_def Let_def bnd_assoc)
  show "kinds_ok s'" if "schema_call c s = Inr s'"
  proof (cases c)
    case CallBuild
    then show ?thesis using that lv_Build_ok [OF assms] by (metis bnd_Inr case_prod_conv schema_call.simps(9) sum.inject(2))
  qed (use that kinds_adds [OF assms] in \<open>auto simp: AddLongFieldValue_def AddFloatFieldValue_def
      AddStringFieldValue_def AddFloatVectorFieldValue_def Let_def bnd_eq_Inr\<close>)
qed

lemma doc_check_same: "Lv_Doc_check f (lv_abs_doc d) = Doc_check f d"
  by (simp add: Lv_Doc_check_def Doc_check_def lv_abs_doc_def lv_abs_def)

lemma doc_call_same:
  assumes "kinds_ok (doc_base d)"
  shows "lv_doc_call c (lv_abs_doc d) = bnd (doc_call c d) (\<lambda>d. Inr (lv_abs_doc d))"
    and "doc_call c d = Inr d' \<Longrightarrow> kinds_ok (doc_base d')"
proof -
  note same = schema_call_same [OF assms]
  obtain s' where b: "DocSchema_Build (doc_base d) = Inr (True, s')" "lv_abs s' = snd (Lv_Build (lv_abs (doc_base d)))" "kinds_ok s'"
    using lv_Build_ok [OF assms] by metis
  show "lv_doc_call c (lv_abs_doc d) = bnd (doc_call c d) (\<lambda>d. Inr (lv_abs_doc d))"
  proof (cases c)
    case CallBuild
    have "length (lv_fields_schema (lv_abs s)) = length (fields_schema s)" for s by (simp add: lv_abs_def)
    then show ?thesis using CallBuild b(1,2) by (simp add: lv_abs_doc_def Lv_Doc_Build_def Doc_Build_def split_beta)
  qed (use same(1) [of c] in \<open>simp_all add: Lv_Doc_AddLongField_def Doc_AddLongField_def Lv_Doc_AddFloatField_def Doc_AddFloatField_def
      Lv_Doc_AddStringField_def Doc_AddStringField_def Lv_Doc_AddFloatVectorField_def Doc_AddFloatVectorField_def doc_check_same
      bnd_assoc lv_abs_doc_def lv_adds doc_check_same [unfolded lv_abs_doc_def]\<close>)
  show "kinds_ok (doc_base d')" if "doc_call c d = Inr d'"
  proof (cases c)
    case CallBuild
    then show ?thesis using that b assms by (auto simp: Doc_Build_def split: if_splits)
  qed (use that same(2) [of c] kinds_adds [OF assms] in \<open>auto simp: Doc_AddLongField_def Doc_AddFloatField_def Doc_AddStringField_def
      Doc_AddFloatVectorField_def bnd_eq_Inr\<close>)
qed

text \<open>Two versions of an object whose calls agree under an abstraction, as long as the later one is in order: then sequences of calls agree.\<close>

locale call_simulation =
  fixes ok :: "'s \<Rightarrow> bool" and abst :: "'s \<Rightarrow> 't" and later :: "'c \<Rightarrow> 's \<Rightarrow> 's outcome" and earlier :: "'c \<Rightarrow> 't \<Rightarrow> 't outcome"
  assumes call: "ok s \<Longrightarrow> earlier c (abst s) = bnd (later c s) (\<lambda>s. Inr (abst s))"
    and keeps: "ok s \<Longrightarrow> later c s = Inr s' \<Longrightarrow> ok s'"
begin

lemma calls_agree: "ok s \<Longrightarrow> calls earlier cs (abst s) = bnd (calls later cs s) (\<lambda>s. Inr (abst s))"
proof (induction cs arbitrary: s)
  case (Cons c cs)
  show ?case
  proof (cases "later c s")
    case (Inr s')
    then have "calls earlier cs (abst s') = bnd (calls later cs s') (\<lambda>s. Inr (abst s))" using Cons keeps by blast
    then show ?thesis using Inr call [OF Cons.prems, of c] by simp
  qed (use call [OF Cons.prems, of c] in simp)
qed simp

end

interpretation schema_sim: call_simulation kinds_ok lv_abs schema_call lv_schema_call
  by unfold_locales (use schema_call_same in blast)+

interpretation doc_sim: call_simulation "\<lambda>d. kinds_ok (doc_base d)" lv_abs_doc doc_call lv_doc_call
  by unfold_locales (use doc_call_same in blast)+

lemma kinds_new: "DocSchema_new k = Inr s \<Longrightarrow> kinds_ok s"
proof -
  have "kinds_ok DocSchema_default" by (simp add: kinds_ok_def known_kinds_def DocSchema_default_def)
  then show "DocSchema_new k = Inr s \<Longrightarrow> kinds_ok s" using kinds_adds(1) by (auto simp: DocSchema_new_def bnd_eq_Inr)
qed

lemma schema_new_same: "Lv_DocSchema_new k = bnd (DocSchema_new k) (\<lambda>s. Inr (lv_abs s))"
proof -
  have "lv_abs DocSchema_default = Lv_default" by (simp add: lv_abs_def DocSchema_default_def Lv_default_def)
  then show ?thesis unfolding Lv_DocSchema_new_def DocSchema_new_def bnd_assoc by (metis bnd_Inr lv_adds(1))
qed

lemma doc_new_same: "Lv_Doc_new pk (lv_abs s) = bnd (Doc_new pk s) (\<lambda>d. Inr (lv_abs_doc d))"
  by (simp add: Lv_Doc_new_def Doc_new_def schema_new_same bnd_assoc lv_abs_doc_def Lv_HasBuilt_def DocSchema_HasBuilt_def)
    (simp add: lv_abs_def)

text \<open>A built schema is printed alike by both versions; one that is not built yet only by the earlier one.\<close>

lemma Dump_loop_same:
  "\<forall>kv \<in> set kvs. GetFieldId (fst kv) s \<noteq> None \<Longrightarrow> Iterate_loop Dump_Handle s kvs out = Inr (out @ concat (map Lv_Dump_field kvs))"
proof (induction kvs arbitrary: out)
  case (Cons kv kvs)
  obtain n idx off where kv: "kv = (n, idx, off)" by (cases kv)
  then obtain i where "GetFieldId n s = Some i" using Cons.prems by auto
  then show ?case using Cons kv by (simp add: Dump_Handle_def Lv_Dump_field_def)
qed simp

lemma Dump_same:
  assumes "DocSchema_HasBuilt s" and "\<forall>kv \<in> set (fields_schema s). GetFieldId (fst kv) s \<noteq> None"
  shows "DocSchema_Dump s = Inr (Lv_Dump (lv_abs s))"
  using assms Dump_loop_same [OF assms(2)]
  by (simp add: DocSchema_Dump_def Iterate_def Dump_PreHandle_def Lv_Dump_def Lv_HasBuilt_def DocSchema_HasBuilt_def lv_abs_def)

lemma Dump_building: "\<not> DocSchema_HasBuilt s \<Longrightarrow> DocSchema_Dump s = Inr ''''"
  by (simp add: DocSchema_Dump_def Iterate_def)

text \<open>C25. The two versions of schemas and documents do the same. Make a schema, run any calls on it, make a document of it and run any calls on
  that: the earlier version stops with the same fault as the later one, or ends in the later one's document without the
  numbering of the fields.\<close>

theorem Lv_Doc_same:
  "bnd (Lv_DocSchema_new k) (\<lambda>s. bnd (calls lv_schema_call cs s) (\<lambda>s. bnd (Lv_Doc_new pk s) (calls lv_doc_call ds))) =
   bnd (DocSchema_new k) (\<lambda>s. bnd (calls schema_call cs s) (\<lambda>s. bnd (Doc_new pk s) (\<lambda>d. bnd (calls doc_call ds d) (\<lambda>d. Inr (lv_abs_doc d)))))"
proof (cases "DocSchema_new k")
  case (Inr s)
  have s: "calls lv_schema_call cs (lv_abs s) = bnd (calls schema_call cs s) (\<lambda>s. Inr (lv_abs s))"
    by (rule schema_sim.calls_agree) (rule kinds_new [OF Inr])
  have "bnd (Lv_Doc_new pk (lv_abs s)) (calls lv_doc_call ds) = bnd (Doc_new pk s) (\<lambda>d. bnd (calls doc_call ds d) (\<lambda>d. Inr (lv_abs_doc d)))" for s
  proof (cases "Doc_new pk s")
    case (Inr d)
    then have "kinds_ok (doc_base d)" using kinds_new by (auto simp: Doc_new_def bnd_eq_Inr)
    then show ?thesis using Inr doc_sim.calls_agree by (simp add: doc_new_same)
  qed (simp add: doc_new_same)
  then show ?thesis using Inr s by (simp add: schema_new_same bnd_assoc)
qed (simp add: schema_new_same)

end
