(* ===== verification/Ad_Doc.thy ===== *)
theory Ad_Doc
  imports Rk_Fields Ordered_Map
begin

text \<open>
  The second version of fields, schemas and documents (\<open>rocksdb_lab/advanced_fields.h\<close>, \<open>advanced_doc.h\<close>), which numbers the fields of a
  schema in the order they are added. A field does not change once it is made, so the shared pointers are values. Each
  operation holds the lock of its object, so it is one step. How a \<open>float\<close> is printed is an argument.
\<close>

section \<open>Fields\<close>

text \<open>The class of a field: \<open>FieldT\<close> itself, \<open>StringFieldT\<close>, and \<open>NumericFieldT\<close> with each of its traits.\<close>

datatype ad_class = AField | AString | AFloat | ALong | AInt

record ad_field =
  ad_class_of :: ad_class
  ad_name :: string
  ad_value :: "byte list"

fun Ad_TypeValue :: "ad_class \<Rightarrow> u8" where
  "Ad_TypeValue AField = 0"
| "Ad_TypeValue AString = 1"
| "Ad_TypeValue AFloat = 2"
| "Ad_TypeValue ALong = 3"
| "Ad_TypeValue AInt = 4"

fun Ad_TypeName :: "ad_class \<Rightarrow> string" where
  "Ad_TypeName AField = ''InvalidType''"
| "Ad_TypeName AString = ''string''"
| "Ad_TypeName AFloat = ''float''"
| "Ad_TypeName ALong = ''long''"
| "Ad_TypeName AInt = ''int''"

definition Ad_TVale :: "ad_field \<Rightarrow> u8" where "Ad_TVale f = Ad_TypeValue (ad_class_of f)"
definition Ad_TName :: "ad_field \<Rightarrow> string" where "Ad_TName f = Ad_TypeName (ad_class_of f)"

text \<open>\<open>sizeof(ValueT)\<close>.\<close>

fun ad_width :: "ad_class \<Rightarrow> nat" where
  "ad_width AFloat = 4"
| "ad_width ALong = 8"
| "ad_width AInt = 4"
| "ad_width _ = 0"

definition ad_numeric :: "ad_class \<Rightarrow> bool" where "ad_numeric k \<longleftrightarrow> k = AFloat \<or> k = ALong \<or> k = AInt"

definition Ad_Field_new :: "ad_class \<Rightarrow> string \<Rightarrow> ad_field" where "Ad_Field_new k n = \<lparr>ad_class_of = k, ad_name = n, ad_value = []\<rparr>"

definition Ad_StringField_value :: "string \<Rightarrow> string \<Rightarrow> ad_field" where
  "Ad_StringField_value n v = (Ad_Field_new AString n)\<lparr>ad_value := map byte_of_char v\<rparr>"

text \<open>The value as the unsigned number its bytes stand for.\<close>

definition Ad_NumericField_value :: "ad_class \<Rightarrow> string \<Rightarrow> nat \<Rightarrow> ad_field" where
  "Ad_NumericField_value k n v = (Ad_Field_new k n)\<lparr>ad_value := Serialize_num (ad_width k) v []\<rparr>"

definition Ad_CodeSize :: "ad_field \<Rightarrow> nat" where
  "Ad_CodeSize f = (if ad_numeric (ad_class_of f) then ad_width (ad_class_of f) else length (ad_value f))"

definition ad_show_value :: "(float32 \<Rightarrow> string) \<Rightarrow> ad_class \<Rightarrow> nat \<Rightarrow> string" where
  "ad_show_value show_float k v = (case k of AFloat \<Rightarrow> show_float (word_of_nat v)
     | ALong \<Rightarrow> show_integer (sint (word_of_nat v :: 64 word)) | _ \<Rightarrow> show_integer (sint (word_of_nat v :: 32 word)))"

definition Ad_Field_ToPrintableString :: "(float32 \<Rightarrow> string) \<Rightarrow> ad_field \<Rightarrow> string outcome" where
  "Ad_Field_ToPrintableString show_float f =
     (if ad_numeric (ad_class_of f)
      then bnd (Deserialize_num (ad_width (ad_class_of f)) (ad_value f)) (\<lambda>v.
             Inr (''<'' @ Ad_TName f @ '' '' @ ad_name f @ '':'' @ ad_show_value show_float (ad_class_of f) v @ ''>''))
      else Inr (''<'' @ Ad_TName f @ '' '' @ ad_name f @ '':'' @ map char_of_byte (ad_value f) @ ''>''))"

text \<open>The name is written in full, its length in one byte; \<open>has_val\<close> makes no difference.\<close>

definition Ad_Field_Serialize :: "ad_field \<Rightarrow> byte list \<Rightarrow> byte list" where
  "Ad_Field_Serialize f serialized =
     (let serialized = Serialize_num 1 (unat (Ad_TVale f)) serialized;
          size = (word_of_nat (length (ad_name f)) :: u8);
          serialized = Serialize_num 1 (unat size) serialized
      in serialized @ map byte_of_char (ad_name f))"

definition ad_class_for :: "u8 \<Rightarrow> ad_class option" where
  "ad_class_for t =
     (if t = Ad_TypeValue AFloat then Some AFloat else if t = Ad_TypeValue ALong then Some ALong
      else if t = Ad_TypeValue AInt then Some AInt else if t = Ad_TypeValue AString then Some AString else None)"

definition Ad_Field_Deserialize :: "byte list \<Rightarrow> (ad_field option \<times> nat) outcome" where
  "Ad_Field_Deserialize source =
     bnd (Deserialize_num 1 source) (\<lambda>field_type.
     bnd (Deserialize_num 1 (drop 1 source)) (\<lambda>name_size.
     bnd (guard OutOfBounds (2 + name_size \<le> length source)) (\<lambda>_.
       let field_name = map char_of_byte (take name_size (drop 2 source))
       in Inr (map_option (\<lambda>k. Ad_Field_new k field_name) (ad_class_for (word_of_nat field_type)), 2 + name_size))))"

section \<open>BaseDocT\<close>

record ad_doc =
  fname_field :: "(string \<times> ad_field) list"
  fid_field :: "ad_field list"
  fname_fid :: "(string \<times> u8) list"

definition Ad_empty :: ad_doc where "Ad_empty = \<lparr>fname_field = [], fid_field = [], fname_fid = []\<rparr>"

definition Ad_AddField :: "ad_field \<Rightarrow> ad_doc \<Rightarrow> ad_doc" where
  "Ad_AddField f d =
     (case map_of (fname_fid d) (ad_name f) of
        None \<Rightarrow> let fid = word_of_nat (length (fid_field d)) in
          d\<lparr>fname_fid := map_put (ad_name f) fid (fname_fid d), fid_field := fid_field d @ [f],
            fname_field := map_put (ad_name f) f (fname_field d)\<rparr>
      | Some fid \<Rightarrow> d\<lparr>fid_field := (fid_field d)[unat fid := f], fname_field := map_put (ad_name f) f (fname_field d)\<rparr>)"

definition Ad_GetField_name :: "string \<Rightarrow> ad_doc \<Rightarrow> ad_field option" where "Ad_GetField_name n d = map_of (fname_field d) n"

definition Ad_GetField_id :: "u8 \<Rightarrow> ad_doc \<Rightarrow> ad_field option" where
  "Ad_GetField_id fid d = (if length (fid_field d) \<le> unat fid then None else Some (fid_field d ! unat fid))"

definition Ad_GetPK :: "ad_doc \<Rightarrow> ad_field option" where "Ad_GetPK d = Ad_GetField_id 0 d"

definition Ad_GetFieldId :: "string \<Rightarrow> ad_doc \<Rightarrow> u8 option" where "Ad_GetFieldId n d = map_of (fname_fid d) n"

section \<open>DocSchemaT\<close>

fun Ad_print_fields :: "(float32 \<Rightarrow> string) \<Rightarrow> nat \<Rightarrow> ad_field list \<Rightarrow> string outcome" where
  "Ad_print_fields show_float i [] = Inr ''''"
| "Ad_print_fields show_float i (f # fs) =
     bnd (Ad_Field_ToPrintableString show_float f) (\<lambda>s.
     bnd (Ad_print_fields show_float (i + 1) fs) (\<lambda>r. Inr (''  '' @ show_nat i @ '': '' @ s @ [CHR 0x0A] @ r)))"

definition Ad_Schema_ToPrintableString :: "(float32 \<Rightarrow> string) \<Rightarrow> ad_doc \<Rightarrow> string outcome" where
  "Ad_Schema_ToPrintableString show_float d =
     bnd (Ad_print_fields show_float 0 (fid_field d)) (\<lambda>s. Inr (''<DocSchema '' @ [CHR 0x0A] @ s @ ''>''))"

text \<open>The counter of \<open>Serialize\<close> is a byte that is compared with the number of fields.\<close>

partial_function (option) Ad_Serialize_loop :: "ad_field list \<Rightarrow> u8 \<Rightarrow> byte list \<Rightarrow> byte list option" where
  "Ad_Serialize_loop fs fid serialized =
     (if unat fid < length fs
      then Ad_Serialize_loop fs (fid + 1) (Ad_Field_Serialize (fs ! unat fid) (Serialize_num 1 (unat fid) serialized))
      else Some serialized)"

definition Ad_Schema_Serialize :: "ad_doc \<Rightarrow> byte list \<Rightarrow> byte list outcome" where
  "Ad_Schema_Serialize d serialized =
     (let fields_num = (word_of_nat (length (fid_field d)) :: u8)
      in of_opt Diverges (Ad_Serialize_loop (fid_field d) 0 (Serialize_num 1 (unat fields_num) serialized)))"

fun Ad_Deserialize_loop :: "nat \<Rightarrow> byte list \<Rightarrow> ad_doc \<Rightarrow> ad_doc outcome" where
  "Ad_Deserialize_loop 0 data schema = Inr schema"
| "Ad_Deserialize_loop (Suc n) data schema =
     bnd (Deserialize_num 1 data) (\<lambda>field_id.
     bnd (Ad_Field_Deserialize (drop 1 data)) (\<lambda>(field, consumed).
     bnd (of_opt AssertFailed field) (\<lambda>field.
       Ad_Deserialize_loop n (drop consumed (drop 1 data)) (Ad_AddField field schema))))"

definition Ad_Schema_Deserialize :: "byte list \<Rightarrow> ad_doc \<Rightarrow> ad_doc outcome" where
  "Ad_Schema_Deserialize data schema =
     bnd (Deserialize_num 1 data) (\<lambda>fields_num. Ad_Deserialize_loop fields_num (drop 1 data) schema)"

section \<open>DocT\<close>

record ad_document =
  ad_base :: ad_doc
  ad_schema :: ad_doc

definition Ad_Doc_new :: "ad_doc \<Rightarrow> ad_document" where "Ad_Doc_new schema = \<lparr>ad_base = Ad_empty, ad_schema = schema\<rparr>"

definition Ad_Doc_AddField :: "ad_field \<Rightarrow> ad_document \<Rightarrow> bool \<times> ad_document" where
  "Ad_Doc_AddField f d =
     (if Ad_GetField_name (ad_name f) (ad_schema d) = None then (False, d) else (True, d\<lparr>ad_base := Ad_AddField f (ad_base d)\<rparr>))"


section \<open>The invariant\<close>

definition ad_names :: "ad_doc \<Rightarrow> string list" where "ad_names d = map ad_name (fid_field d)"

definition ad_inv :: "ad_doc \<Rightarrow> bool" where
  "ad_inv d \<longleftrightarrow> distinct (ad_names d) \<and> length (fid_field d) \<le> 256 \<and> ordered (fname_fid d) \<and> ordered (fname_field d) \<and>
     (\<forall>n. n \<notin> set (ad_names d) \<longrightarrow> map_of (fname_fid d) n = None \<and> map_of (fname_field d) n = None) \<and>
     (\<forall>i < length (fid_field d). map_of (fname_fid d) (ad_name (fid_field d ! i)) = Some (word_of_nat i) \<and>
        map_of (fname_field d) (ad_name (fid_field d ! i)) = Some (fid_field d ! i))"

lemma ad_inv_empty: "ad_inv Ad_empty" by (simp add: ad_inv_def Ad_empty_def ad_names_def)

lemma u8_nat: "i < 256 \<Longrightarrow> unat (word_of_nat i :: u8) = i"
  by (simp add: unat_of_nat)

lemma ad_known:
  assumes "ad_inv d" and "n \<in> set (ad_names d)"
  obtains i where "i < length (fid_field d)" and "ad_name (fid_field d ! i) = n" and "map_of (fname_fid d) n = Some (word_of_nat i)"
    and "unat (word_of_nat i :: u8) = i" and "map_of (fname_field d) n = Some (fid_field d ! i)"
proof -
  obtain i where i: "i < length (fid_field d)" "ad_name (fid_field d ! i) = n" using assms(2) by (auto simp: ad_names_def in_set_conv_nth)
  then show thesis using that [of i] assms(1) u8_nat [of i] by (auto simp: ad_inv_def)
qed

text \<open>A new name takes the next number, a known one keeps its number.\<close>

lemma AddField_new:
  assumes "ad_inv d" and "ad_name f \<notin> set (ad_names d)"
  shows "fid_field (Ad_AddField f d) = fid_field d @ [f]" and "length (fid_field d) < 256 \<Longrightarrow> ad_inv (Ad_AddField f d)"
proof -
  have none: "map_of (fname_fid d) (ad_name f) = None" using assms by (simp add: ad_inv_def)
  then show fid: "fid_field (Ad_AddField f d) = fid_field d @ [f]" by (simp add: Ad_AddField_def Let_def)
  assume "length (fid_field d) < 256"
  moreover have "\<forall>i < length (fid_field d). ad_name (fid_field d ! i) \<noteq> ad_name f"
    using assms(2) by (metis ad_names_def image_eqI list.set_map nth_mem)
  ultimately show "ad_inv (Ad_AddField f d)" using assms none unfolding ad_inv_def
    by (auto simp: fid ad_names_def Ad_AddField_def Let_def ordered_map_put map_of_map_put nth_append less_Suc_eq)
qed

lemma AddField_known:
  assumes inv: "ad_inv d" and n: "ad_name f \<in> set (ad_names d)"
  shows "ad_inv (Ad_AddField f d)" and "ad_names (Ad_AddField f d) = ad_names d"
proof -
  obtain i where i: "i < length (fid_field d)" "ad_name (fid_field d ! i) = ad_name f" "map_of (fname_fid d) (ad_name f) = Some (word_of_nat i)"
    "unat (word_of_nat i :: u8) = i" using ad_known [OF inv n] by metis
  have add: "Ad_AddField f d = d\<lparr>fid_field := (fid_field d)[i := f], fname_field := map_put (ad_name f) f (fname_field d)\<rparr>"
    by (simp only: Ad_AddField_def i(3,4) option.case)
  have nm: "ad_name ((fid_field d)[i := f] ! j) = ad_name (fid_field d ! j)" if "j < length (fid_field d)" for j
    using that i(1,2) by (auto simp: nth_list_update)
  show names: "ad_names (Ad_AddField f d) = ad_names d" using nm by (simp add: add ad_names_def list_eq_iff_nth_eq)
  have dis: "distinct (map ad_name (fid_field d))" using inv by (simp add: ad_inv_def ad_names_def)
  have "ad_name (fid_field d ! j) = ad_name f \<longleftrightarrow> j = i" if "j < length (fid_field d)" for j
    using nth_eq_iff_index_eq [OF dis, of j i] that i(1,2) by simp
  then show "ad_inv (Ad_AddField f d)" using inv n nm i(1) names unfolding ad_inv_def
    by (simp add: add ordered_map_put map_of_map_put nth_list_update)
qed

lemma AddField_names: "ad_inv d \<Longrightarrow> set (ad_names (Ad_AddField f d)) = insert (ad_name f) (set (ad_names d))"
  using AddField_new(1) [of d f] AddField_known(2) [of d f] by (cases "ad_name f \<in> set (ad_names d)") (auto simp: ad_names_def)

lemma AddField_lookup: "ad_inv d \<Longrightarrow> Ad_GetField_name n (Ad_AddField f d) = (if n = ad_name f then Some f else Ad_GetField_name n d)"
  by (auto simp: Ad_AddField_def Ad_GetField_name_def Let_def map_of_map_put ad_inv_def split: option.splits)

lemma AddField_inv:
  assumes "ad_inv d" and "card (insert (ad_name f) (set (ad_names d))) \<le> 256"
  shows "ad_inv (Ad_AddField f d)"
proof (cases "ad_name f \<in> set (ad_names d)")
  case False
  have "card (set (ad_names d)) = length (fid_field d)" using assms(1) distinct_card [of "ad_names d"] by (simp add: ad_inv_def ad_names_def)
  then have "length (fid_field d) < 256" using assms(2) False by simp
  then show ?thesis by (rule AddField_new(2) [OF assms(1) False])
qed (use AddField_known assms(1) in blast)

lemma AddFields_inv:
  "ad_inv d \<Longrightarrow> card (ad_name ` set fs \<union> set (ad_names d)) \<le> 256 \<Longrightarrow>
   ad_inv (fold Ad_AddField fs d) \<and> set (ad_names (fold Ad_AddField fs d)) = ad_name ` set fs \<union> set (ad_names d) \<and>
   (\<forall>n. Ad_GetField_name n (fold Ad_AddField fs d) = (case map_of (rev (map (\<lambda>f. (ad_name f, f)) fs)) n of None \<Rightarrow> Ad_GetField_name n d | Some f \<Rightarrow> Some f))"
proof (induction fs arbitrary: d)
  case (Cons f fs)
  let ?d = "Ad_AddField f d"
  have "card (insert (ad_name f) (set (ad_names d))) \<le> card (ad_name ` set (f # fs) \<union> set (ad_names d))" by (intro card_mono) auto
  then have inv: "ad_inv ?d" using Cons.prems by (intro AddField_inv) simp_all
  have names: "ad_name ` set fs \<union> set (ad_names ?d) = ad_name ` set (f # fs) \<union> set (ad_names d)" using AddField_names [OF Cons.prems(1), of f] by auto
  note IH = Cons.IH [OF inv, unfolded names, OF Cons.prems(2)]
  show ?case using IH AddField_lookup [OF Cons.prems(1), of _ f] by (auto simp: map_add_def split: option.splits)
qed simp


text \<open>Looking fields up. After any fields have been added under at most 256 different names, looking up a name gives the last field added
  under it, the number of the name leads to the same field, and a name nothing was added under has neither.\<close>

theorem Ad_AddField_lookup:
  assumes "card (ad_name ` set fs) \<le> 256"
  shows "Ad_GetField_name n (fold Ad_AddField fs Ad_empty) = map_of (rev (map (\<lambda>f. (ad_name f, f)) fs)) n \<and>
    Ad_GetField_name n (fold Ad_AddField fs Ad_empty) =
      Option.bind (Ad_GetFieldId n (fold Ad_AddField fs Ad_empty)) (\<lambda>i. Ad_GetField_id i (fold Ad_AddField fs Ad_empty))"
proof -
  let ?d = "fold Ad_AddField fs Ad_empty"
  have e: "set (ad_names Ad_empty) = {}" "Ad_GetField_name n Ad_empty = None" for n by (simp_all add: ad_names_def Ad_empty_def Ad_GetField_name_def)
  have d: "ad_inv ?d" "Ad_GetField_name n ?d = map_of (rev (map (\<lambda>f. (ad_name f, f)) fs)) n"
    using AddFields_inv [OF ad_inv_empty, of fs] assms e by (auto split: option.splits)
  have "Ad_GetField_name n ?d = Option.bind (Ad_GetFieldId n ?d) (\<lambda>i. Ad_GetField_id i ?d)"
  proof (cases "n \<in> set (ad_names ?d)")
    case True
    show ?thesis by (rule ad_known [OF d(1) True]) (simp add: Ad_GetField_name_def Ad_GetFieldId_def Ad_GetField_id_def)
  next
    case False
    then show ?thesis using d(1) by (simp add: ad_inv_def Ad_GetField_name_def Ad_GetFieldId_def)
  qed
  then show ?thesis using d(2) by blast
qed

theorem Ad_AddField_lookup_witness:
  "Ad_GetField_name ''a'' (fold Ad_AddField [Ad_Field_new AInt ''a'', Ad_Field_new AString ''b'', Ad_Field_new ALong ''a''] Ad_empty) = Some (Ad_Field_new ALong ''a'')"
  using Ad_AddField_lookup [of "[Ad_Field_new AInt ''a'', Ad_Field_new AString ''b'', Ad_Field_new ALong ''a'']" "''a''"] by (simp add: Ad_Field_new_def card_insert_if)

section \<open>Writing and reading a schema\<close>

text \<open>What a schema is written as.\<close>

fun ad_enc :: "nat \<Rightarrow> ad_field list \<Rightarrow> byte list" where
  "ad_enc i [] = []"
| "ad_enc i (f # fs) =
     word_of_nat i # Ad_TVale f # word_of_nat (length (ad_name f)) # map byte_of_char (ad_name f) @ ad_enc (Suc i) fs"

lemma Serialize_u8: "Serialize_num 1 (unat (b :: u8)) data = data @ [b]"
  using unat_byte by (simp add: Serialize_num_bytes)

lemma Deserialize_u8: "Deserialize_num 1 (b # bs) = Inr (unat b)"
  by (simp add: Deserialize_num_def SwapEndian_def)

lemma Serialize_loop_enc:
  "length fs < 256 \<Longrightarrow> i \<le> length fs \<Longrightarrow> Ad_Serialize_loop fs (word_of_nat i) data = Some (data @ ad_enc i (drop i fs))"
proof (induction "length fs - i" arbitrary: i data)
  case 0
  then show ?case using u8_nat [of i] by (subst Ad_Serialize_loop.simps) simp
next
  case (Suc k)
  then have i: "i < length fs" "i < 256" by auto
  then have u: "unat (word_of_nat i :: u8) = i" by (intro u8_nat)
  have "drop i fs = fs ! i # drop (Suc i) fs" using i(1) by (simp add: Cons_nth_drop_Suc)
  moreover have "(word_of_nat i :: u8) + 1 = word_of_nat (Suc i)" by simp
  moreover have "Ad_Serialize_loop fs (word_of_nat (Suc i)) (data @ ad_enc i [fs ! i]) = Some ((data @ ad_enc i [fs ! i]) @ ad_enc (Suc i) (drop (Suc i) fs))"
    using Suc i by (intro Suc.hyps(1)) auto
  moreover have "Ad_Field_Serialize (fs ! i) (Serialize_num 1 (unat (word_of_nat i :: u8)) data) = data @ ad_enc i [fs ! i]"
    unfolding Ad_Field_Serialize_def Let_def Serialize_u8 by simp
  ultimately show ?case using i(1) u by (subst Ad_Serialize_loop.simps) (simp add: add.commute)
qed

lemma Serialize_loop_diverges:
  assumes "256 \<le> length fs"
  shows "Ad_Serialize_loop fs fid data = None"
proof -
  have "length fs < 256" if "Ad_Serialize_loop fs fid data = Some r" for r
  proof (rule Ad_Serialize_loop.raw_induct [where P = "\<lambda>fs fid data r. length fs < 256", OF _ that])
    show "length fs < 256" if "\<And>fs fid data r. loop fs fid data = Some r \<Longrightarrow> length fs < 256"
      "(if unat fid < length fs then loop fs (fid + 1) (Ad_Field_Serialize (fs ! unat fid) (Serialize_num 1 (unat fid) data)) else Some data) = Some r"
      for loop :: "ad_field list \<Rightarrow> u8 \<Rightarrow> byte list \<Rightarrow> byte list option" and fs fid data r
    proof (cases "unat fid < length fs")
      case True
      then show ?thesis using that by (metis (full_types))
    qed (use byte_less [of fid] in simp)
  qed
  then show ?thesis using assms by (cases "Ad_Serialize_loop fs fid data") force+
qed

text \<open>Writing a schema returns exactly when it has fewer than 256 fields: with 256 or more, the one-byte counter of the loop wraps around
  below the number of fields for ever.\<close>

theorem Ad_Serialize_returns: "(\<exists>data. Ad_Schema_Serialize d serialized = Inr data) \<longleftrightarrow> length (fid_field d) < 256"
proof (cases "length (fid_field d) < 256")
  case True
  then show ?thesis using Serialize_loop_enc [of "fid_field d" 0] by (simp add: Ad_Schema_Serialize_def Let_def)
qed (simp add: Ad_Schema_Serialize_def Let_def Serialize_loop_diverges)


text \<open>A field read back has its class and name but no value.\<close>

definition ad_bare :: "ad_field \<Rightarrow> ad_field" where "ad_bare f = Ad_Field_new (ad_class_of f) (ad_name f)"

definition ad_writable :: "ad_field \<Rightarrow> bool" where "ad_writable f \<longleftrightarrow> ad_class_of f \<noteq> AField \<and> length (ad_name f) < 256"

lemma ad_class_for_TVale: "ad_class_of f \<noteq> AField \<Longrightarrow> ad_class_for (Ad_TVale f) = Some (ad_class_of f)"
  by (cases "ad_class_of f") (simp_all add: ad_class_for_def Ad_TVale_def)

lemma Field_Deserialize_enc:
  assumes "ad_writable f"
  shows "Ad_Field_Deserialize (Ad_TVale f # word_of_nat (length (ad_name f)) # map byte_of_char (ad_name f) @ rest) =
    Inr (Some (ad_bare f), 2 + length (ad_name f))"
  using assms u8_nat [of "length (ad_name f)"] ad_class_for_TVale [of f]
  by (simp add: Ad_Field_Deserialize_def ad_writable_def Deserialize_u8 [unfolded One_nat_def] ad_bare_def map_idI)

lemma Ad_Deserialize_loop_enc:
  "\<forall>f \<in> set fs. ad_writable f \<Longrightarrow> Ad_Deserialize_loop (length fs) (ad_enc i fs @ rest) s = Inr (fold Ad_AddField (map ad_bare fs) s)"
proof (induction fs arbitrary: i s)
  case (Cons f fs)
  have "Ad_Field_Deserialize (drop 1 (ad_enc i (f # fs) @ rest)) = Inr (Some (ad_bare f), 2 + length (ad_name f))"
    using Field_Deserialize_enc [of f "ad_enc (Suc i) fs @ rest"] Cons.prems by simp
  then show ?case using Cons by (simp add: Deserialize_u8 [unfolded One_nat_def])
qed simp

lemma AddFields_distinct:
  "ad_inv d \<Longrightarrow> distinct (ad_names d @ map ad_name fs) \<Longrightarrow> length (fid_field d) + length fs \<le> 256 \<Longrightarrow>
   fid_field (fold Ad_AddField fs d) = fid_field d @ fs \<and> ad_inv (fold Ad_AddField fs d)"
proof (induction fs arbitrary: d)
  case (Cons f fs)
  have f: "ad_name f \<notin> set (ad_names d)" "length (fid_field d) < 256" using Cons.prems by auto
  note new = AddField_new [OF Cons.prems(1) f(1)]
  have "distinct (ad_names (Ad_AddField f d) @ map ad_name fs)" using Cons.prems(2) by (simp add: ad_names_def new(1))
  then show ?case using Cons.IH [OF new(2) [OF f(2)]] Cons.prems(3) new(1) by simp
qed simp

lemma ad_ids:
  assumes "ad_inv d" and "ad_inv d'" and "ad_names d = ad_names d'"
  shows "Ad_GetFieldId n d = Ad_GetFieldId n d'"
proof (cases "n \<in> set (ad_names d)")
  case True
  obtain i where i: "i < length (fid_field d)" "ad_name (fid_field d ! i) = n" "map_of (fname_fid d) n = Some (word_of_nat i)"
    using ad_known [OF assms(1) True] by metis
  have "ad_names d ! i = ad_names d' ! i" "length (fid_field d) = length (fid_field d')"
    using assms(3) by (simp_all add: ad_names_def) (metis length_map)
  then have "ad_name (fid_field d' ! i) = n" "i < length (fid_field d')" using i by (simp_all add: ad_names_def)
  then have "map_of (fname_fid d') n = Some (word_of_nat i)" using assms(2) by (auto simp: ad_inv_def)
  then show ?thesis using i(3) by (simp add: Ad_GetFieldId_def)
qed (use assms in \<open>simp add: ad_inv_def Ad_GetFieldId_def\<close>)

text \<open>C26. A schema survives being written and read. For a schema built by adding fields, with fewer than 256 names of fewer than 256 characters,
  reading what was written into an empty schema gives the same fields in the same order, without their values, and every
  name keeps its number.\<close>

theorem Ad_schema_roundtrip:
  assumes "d = fold Ad_AddField fs Ad_empty" and "card (ad_name ` set fs) < 256" and "\<forall>f \<in> set (fid_field d). ad_writable f"
  shows "\<exists>data d'. Ad_Schema_Serialize d [] = Inr data \<and> Ad_Schema_Deserialize data Ad_empty = Inr d' \<and>
    fid_field d' = map ad_bare (fid_field d) \<and> (\<forall>n. Ad_GetFieldId n d' = Ad_GetFieldId n d)"
proof -
  let ?gs = "fid_field d"
  have e: "ad_names Ad_empty = []" "fid_field Ad_empty = []" by (simp_all add: ad_names_def Ad_empty_def)
  have inv: "ad_inv d" "set (ad_names d) = ad_name ` set fs" using AddFields_inv [OF ad_inv_empty, of fs] assms(1,2) e by auto
  have bare: "map ad_name (map ad_bare ?gs) = ad_names d" by (simp add: ad_names_def ad_bare_def Ad_Field_new_def)
  have len: "length ?gs < 256" using distinct_card [of "ad_names d"] inv assms(2) by (simp add: ad_inv_def) (simp add: ad_names_def)
  then have u: "unat (word_of_nat (length ?gs) :: u8) = length ?gs" by (intro u8_nat)
  have dis: "distinct (ad_names d)" using inv(1) by (simp add: ad_inv_def)
  let ?data = "word_of_nat (length ?gs) # ad_enc 0 ?gs" and ?d = "fold Ad_AddField (map ad_bare ?gs) Ad_empty"
  have "Ad_Schema_Serialize d [] = Inr ?data"
    using Serialize_loop_enc [OF len, of 0] unfolding Ad_Schema_Serialize_def Let_def Serialize_u8 by simp
  moreover have "Ad_Schema_Deserialize ?data Ad_empty = Inr ?d"
    using Ad_Deserialize_loop_enc [OF assms(3), of 0 "[]" Ad_empty] u by (simp add: Ad_Schema_Deserialize_def Deserialize_u8 [unfolded One_nat_def])
  moreover have d: "fid_field ?d = map ad_bare ?gs" "ad_inv ?d"
    using AddFields_distinct [OF ad_inv_empty, of "map ad_bare ?gs"] len dis e bare by (simp_all del: map_map)
  moreover have "Ad_GetFieldId n ?d = Ad_GetFieldId n d" for n by (rule ad_ids [OF d(2) inv(1)]) (simp only: ad_names_def d(1) bare [unfolded ad_names_def])
  ultimately show ?thesis by blast
qed

theorem Ad_schema_roundtrip_witness:
  "\<exists>data d'. Ad_Schema_Serialize (fold Ad_AddField [Ad_StringField_value ''f2'' ''hello'', Ad_NumericField_value ALong ''f3'' 10000] Ad_empty) [] = Inr data \<and>
     Ad_Schema_Deserialize data Ad_empty = Inr d' \<and> fid_field d' = [Ad_Field_new AString ''f2'', Ad_Field_new ALong ''f3''] \<and>
     Ad_GetFieldId ''f3'' d' = Some 1"
proof -
  let ?d = "fold Ad_AddField [Ad_StringField_value ''f2'' ''hello'', Ad_NumericField_value ALong ''f3'' 10000] Ad_empty"
  have fs: "fid_field ?d = [Ad_StringField_value ''f2'' ''hello'', Ad_NumericField_value ALong ''f3'' 10000]"
    by (simp add: Ad_AddField_def Ad_empty_def Ad_StringField_value_def Ad_NumericField_value_def Ad_Field_new_def)
  have id: "Ad_GetFieldId ''f3'' ?d = Some 1"
    by (simp add: Ad_AddField_def Ad_empty_def Ad_StringField_value_def Ad_NumericField_value_def Ad_Field_new_def Ad_GetFieldId_def less_list_code)
  have bare: "map ad_bare (fid_field ?d) = [Ad_Field_new AString ''f2'', Ad_Field_new ALong ''f3'']"
    unfolding fs by (simp add: ad_bare_def Ad_StringField_value_def Ad_NumericField_value_def Ad_Field_new_def)
  have w: "\<forall>f \<in> set (fid_field ?d). ad_writable f"
    unfolding fs by (simp add: ad_writable_def Ad_StringField_value_def Ad_NumericField_value_def Ad_Field_new_def)
  have "card (ad_name ` set [Ad_StringField_value ''f2'' ''hello'', Ad_NumericField_value ALong ''f3'' 10000]) < 256" by (simp add: card_insert_if)
  then show ?thesis using Ad_schema_roundtrip [OF refl _ w] id unfolding bare by metis
qed

text \<open>Printing a schema that was read reads outside the empty value of its first numeric field.\<close>

lemma print_bare:
  "(\<exists>f \<in> set fs. ad_numeric (ad_class_of f)) \<Longrightarrow> Ad_print_fields show_float i (map ad_bare fs) = Inl OutOfBounds"
proof (induction fs arbitrary: i)
  case (Cons f fs)
  show ?case
  proof (cases "ad_numeric (ad_class_of f)")
    case True
    then show ?thesis by (auto simp: Ad_Field_ToPrintableString_def ad_bare_def Ad_Field_new_def ad_numeric_def Deserialize_num_def)
  next
    case False
    then show ?thesis using Cons by (auto simp: Ad_Field_ToPrintableString_def ad_bare_def Ad_Field_new_def)
  qed
qed simp

end
