(* ===== verification/Hm_Lexer.thy ===== *)
theory Hm_Lexer
  imports Complex_Main Prelude
begin

text \<open>
  The lexer of \<open>home_lab\<close> (\<open>lexer.h\<close>, \<open>lexer.cpp\<close>) and the loop of \<open>main.cpp\<close> that collects its tokens. The standard input is a list
  of characters. The state of the lexer is the static variable \<open>last_char\<close>, where \<open>None\<close> is \<open>EOF\<close>, together with the input
  that is still to be read. \<open>isspace\<close>, \<open>isalpha\<close> and \<open>isdigit\<close> are those of the C locale. A number is kept as
  the rational its text stands for, handed to the argument \<open>rnd\<close>, the rounding to \<open>double\<close>. The lines that \<open>LOGD\<close> prints while
  reading are left out.
\<close>

section \<open>Tokens\<close>

datatype 'd Token = UndefToken | EOFToken | DefToken | ExternToken | IDToken string | NumToken 'd

fun Token_type :: "'d Token \<Rightarrow> int" where
  "Token_type UndefToken = 0"
| "Token_type EOFToken = -1"
| "Token_type DefToken = -2"
| "Token_type ExternToken = -3"
| "Token_type (IDToken n) = -4"
| "Token_type (NumToken v) = -5"

definition TokenStrMap :: "(int \<times> string) list" where
  "TokenStrMap = [(0, ''TOK_UNDEF''), (-4, ''TOK_ID''), (-2, ''TOK_DEF''), (-1, ''TOK_EOF''), (-5, ''TOK_NUM''), (-3, ''TOK_EXTERN'')]"

datatype exn = runtime_error string | out_of_range

fun NumValue :: "'d Token \<Rightarrow> exn + 'd" where
  "NumValue (NumToken v) = Inr v"
| "NumValue _ = Inl (runtime_error ''NumValue should not be used'')"

fun NameValue :: "'d Token \<Rightarrow> exn + string" where
  "NameValue (IDToken n) = Inr n"
| "NameValue _ = Inl (runtime_error ''NameValue should not be used'')"

definition Token_ToString :: "'d Token \<Rightarrow> exn + string" where
  "Token_ToString t = of_opt out_of_range (map_of TokenStrMap (Token_type t))"

text \<open>How a \<open>double\<close> is printed is the argument \<open>show_double\<close>.\<close>

definition IDToken_ToString :: "'d Token \<Rightarrow> exn + string" where
  "IDToken_ToString t = bnd (Token_ToString t) (\<lambda>s. bnd (NameValue t) (\<lambda>n. Inr (s @ '': NameValue='' @ n)))"

definition NumToken_ToString :: "('d \<Rightarrow> string) \<Rightarrow> 'd Token \<Rightarrow> exn + string" where
  "NumToken_ToString show_double t = bnd (Token_ToString t) (\<lambda>s. bnd (NumValue t) (\<lambda>v. Inr (s @ '': NumValue='' @ show_double v)))"

definition ToString :: "('d \<Rightarrow> string) \<Rightarrow> 'd Token \<Rightarrow> exn + string" where
  "ToString show_double t = (case t of IDToken _ \<Rightarrow> IDToken_ToString t | NumToken _ \<Rightarrow> NumToken_ToString show_double t | _ \<Rightarrow> Token_ToString t)"

definition Valid :: "'d Token \<Rightarrow> bool" where "Valid t \<longleftrightarrow> Token_type t \<noteq> 0"

definition End_tok :: "'d Token \<Rightarrow> bool" where "End_tok t \<longleftrightarrow> Token_type t = -1"

section \<open>Characters and numbers\<close>

definition isspace :: "char \<Rightarrow> bool" where
  "isspace c \<longleftrightarrow> c \<in> {CHR '' '', CHR 0x09, CHR 0x0A, CHR 0x0B, CHR 0x0C, CHR 0x0D}"

definition code :: "char \<Rightarrow> nat" where "code c = of_char c"

definition isdigit :: "char \<Rightarrow> bool" where "isdigit c \<longleftrightarrow> 48 \<le> code c \<and> code c \<le> 57"

definition isalpha :: "char \<Rightarrow> bool" where
  "isalpha c \<longleftrightarrow> 65 \<le> code c \<and> code c \<le> 90 \<or> 97 \<le> code c \<and> code c \<le> 122"

definition isalnum :: "char \<Rightarrow> bool" where "isalnum c \<longleftrightarrow> isalpha c \<or> isdigit c"

definition isnum :: "char \<Rightarrow> bool" where "isnum c \<longleftrightarrow> isdigit c \<or> c = CHR ''.''"

definition digits_val :: "string \<Rightarrow> nat" where
  "digits_val ds = foldl (\<lambda>n c. 10 * n + (code c - 48)) 0 ds"

text \<open>\<open>strtod\<close> on a text of digits and dots: the longest start of the form digits, dot, digits counts; with no digit at all the result
  is 0.\<close>

definition strtod :: "(rat \<Rightarrow> 'd) \<Rightarrow> string \<Rightarrow> 'd" where
  "strtod rnd s =
     (let i = takeWhile isdigit s; r = dropWhile isdigit s;
          f = (case r of [] \<Rightarrow> [] | c # r \<Rightarrow> if c = CHR ''.'' then takeWhile isdigit r else [])
      in rnd (of_nat (digits_val i) + of_nat (digits_val f) / 10 ^ length f))"

section \<open>gettok\<close>

type_synonym lex = "char option \<times> string"

fun getchar :: "string \<Rightarrow> lex" where
  "getchar [] = (None, [])"
| "getchar (c # cs) = (Some c, cs)"

definition END :: char where "END = CHR 0x60"

text \<open>The loops of \<open>gettok\<close>: over white space, over the rest of a name, over the rest of a number, and over a comment.\<close>

fun skip_space :: "char option \<Rightarrow> string \<Rightarrow> lex" where
  "skip_space None cs = (None, cs)"
| "skip_space (Some c) [] = (if isspace c then (None, []) else (Some c, []))"
| "skip_space (Some c) (d # cs) = (if isspace c then skip_space (Some d) cs else (Some c, d # cs))"

fun id_loop :: "string \<Rightarrow> string \<Rightarrow> string \<times> lex" where
  "id_loop idstr [] = (idstr, (None, []))"
| "id_loop idstr (c # cs) = (if isalnum c then id_loop (idstr @ [c]) cs else (idstr, (Some c, cs)))"

fun num_loop :: "string \<Rightarrow> char \<Rightarrow> string \<Rightarrow> string \<times> lex" where
  "num_loop num_str c [] = (num_str @ [c], (None, []))"
| "num_loop num_str c (d # cs) = (if isnum d then num_loop (num_str @ [c]) d cs else (num_str @ [c], (Some d, cs)))"

fun comment_loop :: "string \<Rightarrow> lex" where
  "comment_loop [] = (None, [])"
| "comment_loop (c # cs) = (if c = CHR 0x0A \<or> c = CHR 0x0D \<or> c = END then (Some c, cs) else comment_loop cs)"

lemma skip_space_length: "skip_space l cs = (l', cs') \<Longrightarrow> length cs' \<le> length cs"
  by (induction l cs rule: skip_space.induct) (auto split: if_splits)

lemma comment_loop_length: "comment_loop cs = (Some c, cs') \<Longrightarrow> length cs' < length cs"
  by (induction cs rule: comment_loop.induct) (auto split: if_splits)

definition id_token :: "string \<Rightarrow> 'd Token" where
  "id_token idstr = (if idstr = ''def'' then DefToken else if idstr = ''extern'' then ExternToken else IDToken idstr)"

function gettok :: "(rat \<Rightarrow> 'd) \<Rightarrow> char option \<Rightarrow> string \<Rightarrow> 'd Token \<times> lex" where
  "gettok rnd last_char cs =
     (case skip_space last_char cs of
        (None, cs) \<Rightarrow> (EOFToken, (None, cs))
      | (Some c, cs) \<Rightarrow>
          if isalpha c then let (idstr, l) = id_loop [c] cs in (id_token idstr, l)
          else if isdigit c \<or> c = CHR ''.'' then let (num_str, l) = num_loop [] c cs in (NumToken (strtod rnd num_str), l)
          else if c = CHR ''#'' then
            (case comment_loop cs of
               (None, cs) \<Rightarrow> (EOFToken, (None, cs))
             | (Some d, cs) \<Rightarrow> if d \<noteq> END then gettok rnd (Some d) cs else (EOFToken, (Some d, cs)))
          else if c = END then (EOFToken, (Some c, cs))
          else (UndefToken, (Some c, cs)))"
  by pat_completeness auto
termination
proof (relation "measure (\<lambda>(rnd, l, cs). length cs)")
  fix rnd :: "rat \<Rightarrow> 'd" and l cs k ds c m es e
  assume "(k, ds) = skip_space l cs" and "(m, es) = comment_loop ds" and "m = Some e"
  then have "length es < length ds" "length ds \<le> length cs" using comment_loop_length [of ds e es] skip_space_length [of l cs k ds] by simp_all
  then show "((rnd, Some e, es), (rnd, l, cs)) \<in> measure (\<lambda>(rnd, l, cs). length cs)" by simp
qed simp

declare gettok.simps [simp del]


section \<open>The loop of main\<close>

definition lex_size :: "lex \<Rightarrow> nat" where
  "lex_size l = length (snd l) + (case fst l of None \<Rightarrow> 0 | Some _ \<Rightarrow> 1)"

lemma skip_space_size: "lex_size (skip_space l cs) \<le> lex_size (l, cs)"
  by (induction l cs rule: skip_space.induct) (auto simp: lex_size_def)

lemma id_loop_size: "lex_size (snd (id_loop s cs)) \<le> length cs"
  by (induction s cs rule: id_loop.induct) (auto simp: lex_size_def)

lemma num_loop_size: "lex_size (snd (num_loop s c cs)) \<le> length cs"
  by (induction s c cs rule: num_loop.induct) (auto simp: lex_size_def)

lemma comment_loop_size: "lex_size (comment_loop cs) \<le> length cs"
  by (induction cs rule: comment_loop.induct) (auto simp: lex_size_def)

text \<open>A token other than the end and the undefined one takes something of the input.\<close>

lemma gettok_consumes:
  "gettok rnd l cs = (t, l') \<Longrightarrow> Valid t \<Longrightarrow> \<not> End_tok t \<Longrightarrow> lex_size l' < lex_size (l, cs)"
proof (induction rnd l cs arbitrary: t l' rule: gettok.induct)
  case (1 rnd l cs)
  obtain k ds where k: "skip_space l cs = (k, ds)" by fastforce
  have le: "lex_size (k, ds) \<le> lex_size (l, cs)" using skip_space_size [of l cs] k by simp
  show ?case
  proof (cases k)
    case None
    then show ?thesis using 1(2-4) k by (subst (asm) gettok.simps) (simp add: End_tok_def)
  next
    case (Some c)
    then have c: "length ds < lex_size (l, cs)" using le by (simp add: lex_size_def)
    consider "isalpha c" | "\<not> isalpha c" "isdigit c \<or> c = CHR ''.''" | "\<not> isalpha c" "\<not> isdigit c" "c = CHR ''#''"
      | "\<not> isalpha c" "\<not> (isdigit c \<or> c = CHR ''.'')" "c \<noteq> CHR ''#''" by auto
    then show ?thesis
    proof cases
      case 1
      then show ?thesis using "1.prems"(1) k Some c id_loop_size [of "[c]" ds]
        by (subst (asm) gettok.simps) (simp add: split_beta)
    next
      case 2
      then show ?thesis using "1.prems"(1) k Some c num_loop_size [of "[]" c ds]
        by (subst (asm) gettok.simps) (auto simp: split_beta)
    next
      case 3
      show ?thesis
      proof (cases "comment_loop ds")
        case (Pair m es)
        then have m: "lex_size (m, es) \<le> length ds" using comment_loop_size [of ds] by simp
        show ?thesis
        proof (cases "m = None \<or> m = Some END")
          case True
          then show ?thesis using "1.prems" k Some 3 Pair by (subst (asm) gettok.simps) (auto simp: End_tok_def)
        next
          case False
          then obtain e where e: "m = Some e" "e \<noteq> END" by auto
          have "gettok rnd (Some e) es = (t, l')" using "1.prems"(1) k Some 3 Pair e by (subst (asm) gettok.simps) simp
          then have "lex_size l' < lex_size (Some e, es)"
            using "1.IH" [OF k [symmetric] Some 3(1) _ 3(3) Pair [symmetric] e] 3 "1.prems"(2,3) by simp
          then show ?thesis using m e c by simp
        qed
      qed
    next
      case 4
      then show ?thesis using "1.prems" k Some by (subst (asm) gettok.simps) (auto simp: End_tok_def Valid_def split: if_splits)
    qed
  qed
qed

function collect_tokens :: "(rat \<Rightarrow> 'd) \<Rightarrow> char option \<Rightarrow> string \<Rightarrow> 'd Token list \<Rightarrow> 'd Token list" where
  "collect_tokens rnd last_char cs tokens =
     (case gettok rnd last_char cs of (t, (last_char, cs)) \<Rightarrow>
        if Valid t \<and> \<not> End_tok t then collect_tokens rnd last_char cs (tokens @ [t]) else tokens)"
  by pat_completeness auto
termination
  by (relation "measure (\<lambda>(rnd, l, cs, ts). lex_size (l, cs))") (auto dest: gettok_consumes [OF sym])

declare collect_tokens.simps [simp del]

definition main_tokens :: "(rat \<Rightarrow> 'd) \<Rightarrow> string \<Rightarrow> 'd Token list" where
  "main_tokens rnd input = collect_tokens rnd (Some (CHR '' '')) input []"

text \<open>The lines \<open>main\<close> logs at its end.\<close>

definition main_lines :: "(rat \<Rightarrow> 'd) \<Rightarrow> ('d \<Rightarrow> string) \<Rightarrow> string \<Rightarrow> (exn + string) list" where
  "main_lines rnd show_double input = map (ToString show_double) (main_tokens rnd input)"


section \<open>What the lexer reads\<close>

text \<open>The text before the lexer, its next character included.\<close>

definition gettok_at :: "(rat \<Rightarrow> 'd) \<Rightarrow> string \<Rightarrow> 'd Token \<times> lex" where
  "gettok_at rnd p = gettok rnd (fst (getchar p)) (snd (getchar p))"

text \<open>A lexeme is a name or a number; between lexemes there are blanks and comments.\<close>

definition is_name :: "string \<Rightarrow> bool" where
  "is_name s \<longleftrightarrow> (case s of [] \<Rightarrow> False | c # cs \<Rightarrow> isalpha c \<and> list_all isalnum cs)"

definition is_number :: "string \<Rightarrow> bool" where "is_number s \<longleftrightarrow> s \<noteq> [] \<and> list_all isnum s"

definition lexeme_token :: "(rat \<Rightarrow> 'd) \<Rightarrow> string \<Rightarrow> 'd Token" where
  "lexeme_token rnd s = (if is_name s then id_token s else NumToken (strtod rnd s))"

datatype gap = Blank char | Comment string char

fun gap_text :: "gap \<Rightarrow> string" where
  "gap_text (Blank c) = [c]"
| "gap_text (Comment t e) = CHR ''#'' # t @ [e]"

fun gap_ok :: "gap \<Rightarrow> bool" where
  "gap_ok (Blank c) = isspace c"
| "gap_ok (Comment t e) = ((e = CHR 0x0A \<or> e = CHR 0x0D) \<and> CHR 0x0A \<notin> set t \<and> CHR 0x0D \<notin> set t \<and> END \<notin> set t)"

definition gaps_text :: "gap list \<Rightarrow> string" where "gaps_text gs = concat (map gap_text gs)"

text \<open>Whether the character after a lexeme would still belong to it.\<close>

definition joins :: "string \<Rightarrow> string \<Rightarrow> bool" where
  "joins s p \<longleftrightarrow> p \<noteq> [] \<and> (if is_name s then isalnum (hd p) else isnum (hd p))"

fun program_text :: "(string \<times> gap list) list \<Rightarrow> string" where
  "program_text [] = []"
| "program_text ((s, gs) # ps) = s @ gaps_text gs @ program_text ps"

fun program_ok :: "(string \<times> gap list) list \<Rightarrow> bool" where
  "program_ok [] = True"
| "program_ok ((s, gs) # ps) = ((is_name s \<or> is_number s) \<and> list_all gap_ok gs \<and> (gs = [] \<longrightarrow> \<not> joins s (program_text ps)) \<and> program_ok ps)"

text \<open>Where the lexer stops: at the end, at the end mark, and before a character it does not know.\<close>

definition stops :: "string \<Rightarrow> bool" where
  "stops p \<longleftrightarrow> (case p of [] \<Rightarrow> True | c # _ \<Rightarrow> \<not> isspace c \<and> \<not> isalnum c \<and> c \<noteq> CHR ''.'' \<and> c \<noteq> CHR ''#'')"

lemma isspace_not: "isspace c \<Longrightarrow> \<not> isalnum c \<and> \<not> isnum c \<and> c \<noteq> CHR ''#'' \<and> c \<noteq> END"
  by (auto simp: isspace_def isalnum_def isalpha_def isdigit_def isnum_def code_def END_def)

lemma isalpha_not: "isalpha c \<Longrightarrow> \<not> isspace c \<and> \<not> isnum c \<and> c \<noteq> CHR ''#''"
  by (auto simp: isspace_def isalpha_def isdigit_def isnum_def code_def)

lemma isnum_not: "isnum c \<Longrightarrow> \<not> isspace c \<and> \<not> isalpha c \<and> c \<noteq> CHR ''#''"
  by (auto simp: isspace_def isalpha_def isdigit_def isnum_def code_def)

lemma hash_not: "\<not> isspace (CHR ''#'')" "\<not> isalnum (CHR ''#'')" "\<not> isnum (CHR ''#'')" "\<not> isalpha (CHR ''#'')" "\<not> isdigit (CHR ''#'')"
  by (simp_all add: isspace_def isalnum_def isalpha_def isdigit_def isnum_def code_def)

lemma skip_space_blank: "isspace c \<Longrightarrow> skip_space (Some c) p = skip_space (fst (getchar p)) (snd (getchar p))"
  by (cases p) simp_all

lemma skip_space_stays: "\<not> isspace c \<Longrightarrow> skip_space (Some c) p = (Some c, p)"
  by (cases p) simp_all

lemma gettok_blank: "isspace c \<Longrightarrow> gettok_at rnd (c # p) = gettok_at rnd p"
  unfolding gettok_at_def by (subst gettok.simps, subst (2) gettok.simps) (simp add: skip_space_blank)

lemma comment_loop_to:
  "CHR 0x0A \<notin> set t \<Longrightarrow> CHR 0x0D \<notin> set t \<Longrightarrow> END \<notin> set t \<Longrightarrow> e = CHR 0x0A \<or> e = CHR 0x0D \<Longrightarrow> comment_loop (t @ e # p) = (Some e, p)"
  by (induction t) auto

lemma gettok_gap:
  assumes "gap_ok g"
  shows "gettok_at rnd (gap_text g @ p) = gettok_at rnd p"
proof (cases g)
  case (Comment t e)
  then have e: "comment_loop (t @ e # p) = (Some e, p)" "e \<noteq> END" "isspace e"
    using assms comment_loop_to by (auto simp: END_def isspace_def)
  have "gettok_at rnd (CHR ''#'' # t @ e # p) = gettok_at rnd (e # p)"
    unfolding gettok_at_def by (subst gettok.simps) (simp add: skip_space_stays hash_not e)
  then show ?thesis using gettok_blank [OF e(3)] Comment by simp
qed (use assms gettok_blank in simp)

lemma gettok_gaps: "list_all gap_ok gs \<Longrightarrow> gettok_at rnd (gaps_text gs @ p) = gettok_at rnd p"
  by (induction gs) (simp_all add: gaps_text_def gettok_gap)

lemma id_loop_takes: "list_all isalnum cs \<Longrightarrow> p = [] \<or> \<not> isalnum (hd p) \<Longrightarrow> id_loop s (cs @ p) = (s @ cs, getchar p)"
  by (induction cs arbitrary: s) (cases p; simp)+

lemma num_loop_takes: "list_all isnum cs \<Longrightarrow> p = [] \<or> \<not> isnum (hd p) \<Longrightarrow> num_loop s c (cs @ p) = (s @ c # cs, getchar p)"
  by (induction cs arbitrary: s c) (cases p; simp)+

lemma name_not_number: "is_number s \<Longrightarrow> \<not> is_name s"
  using isalpha_not by (auto simp: is_name_def is_number_def split: list.splits)

lemma gettok_lexeme:
  assumes "is_name s \<or> is_number s" and "\<not> joins s p"
  shows "gettok_at rnd (s @ p) = (lexeme_token rnd s, getchar p)"
proof (cases "is_name s")
  case True
  then obtain c cs where s: "s = c # cs" "isalpha c" "list_all isalnum cs" by (auto simp: is_name_def split: list.splits)
  have "id_loop [c] (cs @ p) = (s, getchar p)" using id_loop_takes [OF s(3), of p "[c]"] assms(2) True s(1) by (auto simp: joins_def)
  then show ?thesis using s isalpha_not [OF s(2)] True unfolding gettok_at_def
    by (subst gettok.simps) (simp add: skip_space_stays lexeme_token_def)
next
  case False
  then obtain c cs where s: "s = c # cs" "isnum c" "list_all isnum cs" using assms(1) by (cases s) (auto simp: is_number_def)
  have "num_loop [] c (cs @ p) = (s, getchar p)" using num_loop_takes [OF s(3), of p "[]" c] assms(2) False s(1) by (auto simp: joins_def)
  then show ?thesis using s isnum_not [OF s(2)] False unfolding gettok_at_def
    by (subst gettok.simps) (simp add: skip_space_stays lexeme_token_def isnum_def)
qed

lemma gettok_stops:
  assumes "stops p"
  obtains t where "gettok_at rnd p = (t, getchar p)" and "\<not> (Valid t \<and> \<not> End_tok t)"
proof (cases p)
  case Nil
  then have "gettok_at rnd p = (EOFToken, getchar p)" unfolding gettok_at_def by (subst gettok.simps) simp
  then show thesis by (rule that) (simp add: End_tok_def)
next
  case (Cons c cs)
  then have "\<not> isspace c" "\<not> isalpha c" "\<not> (isdigit c \<or> c = CHR ''.'')" "c \<noteq> CHR ''#''" using assms by (auto simp: stops_def isalnum_def)
  then have "gettok_at rnd p = (if c = END then EOFToken else UndefToken, getchar p)"
    using Cons unfolding gettok_at_def by (subst gettok.simps) (simp add: skip_space_stays)
  then show thesis by (rule that) (simp add: Valid_def End_tok_def)
qed


lemma collect_tokens_at:
  "collect_tokens rnd (fst (getchar p)) (snd (getchar p)) ts =
     (case gettok_at rnd p of (t, l) \<Rightarrow> if Valid t \<and> \<not> End_tok t then collect_tokens rnd (fst l) (snd l) (ts @ [t]) else ts)"
  by (subst collect_tokens.simps) (auto simp: gettok_at_def split: prod.splits)

lemma lexeme_token_goes_on: "Valid (lexeme_token rnd s) \<and> \<not> End_tok (lexeme_token rnd s)"
  by (simp add: lexeme_token_def id_token_def Valid_def End_tok_def)

lemma joins_append:
  assumes "\<not> joins s q" and "stops r"
  shows "\<not> joins s (q @ r)"
  using assms by (cases q) (auto simp: joins_def stops_def isnum_def isalnum_def split: list.splits)

lemma joins_gap:
  assumes "gs \<noteq> []" and "list_all gap_ok gs"
  shows "\<not> joins s (gaps_text gs @ q)"
  using assms isspace_not hash_not by (cases gs; cases "hd gs") (auto simp: joins_def gaps_text_def)

lemma collect_tokens_program:
  assumes "program_ok ps" and "list_all gap_ok gs" and "stops r"
  shows "collect_tokens rnd (fst (getchar (gaps_text gs @ program_text ps @ r))) (snd (getchar (gaps_text gs @ program_text ps @ r))) ts =
    ts @ map (lexeme_token rnd \<circ> fst) ps"
  using assms(1,2)
proof (induction ps arbitrary: gs ts)
  case Nil
  obtain t where "gettok_at rnd r = (t, getchar r)" "\<not> (Valid t \<and> \<not> End_tok t)" using gettok_stops [OF assms(3)] by blast
  then show ?case unfolding collect_tokens_at using gettok_gaps [OF Nil(2), of rnd] by auto
next
  case (Cons sg ps)
  obtain s hs where sg: "sg = (s, hs)" by fastforce
  let ?q = "gaps_text hs @ program_text ps @ r"
  have ok: "is_name s \<or> is_number s" "list_all gap_ok hs" "hs = [] \<longrightarrow> \<not> joins s (program_text ps)" "program_ok ps" using Cons.prems sg by auto
  have "\<not> joins s ?q" using ok joins_gap [of hs s] joins_append [OF _ assms(3)] by (cases "hs = []") (auto simp: gaps_text_def)
  then have "gettok_at rnd (gaps_text gs @ program_text (sg # ps) @ r) = (lexeme_token rnd s, getchar ?q)"
    using gettok_gaps [OF Cons.prems(2), of rnd] gettok_lexeme [OF ok(1), of _ rnd] sg by simp
  then show ?case unfolding collect_tokens_at using lexeme_token_goes_on [of rnd s] Cons.IH [OF ok(4,2), of "ts @ [lexeme_token rnd s]"] sg by simp
qed

text \<open>C39. The tokens of a program. For a text of names and numbers with blanks and comments between them, where no lexeme runs into the next one,
  \<open>main\<close> collects one token for each lexeme, in order, and stops at the end of the text, at the end mark, or before the first character
  that begins no lexeme, whatever follows it.\<close>

theorem main_tokens_correct:
  assumes "program_ok ps" and "list_all gap_ok gs" and "stops rest"
  shows "main_tokens rnd (gaps_text gs @ program_text ps @ rest) = map (lexeme_token rnd \<circ> fst) ps"
proof -
  have "isspace (CHR '' '')" by (simp add: isspace_def)
  then have "gettok_at rnd (CHR '' '' # p) = gettok_at rnd p" for p by (rule gettok_blank)
  then have "main_tokens rnd p = collect_tokens rnd (fst (getchar p)) (snd (getchar p)) []" for p
    unfolding main_tokens_def using collect_tokens_at [of rnd "CHR '' '' # p" "[]"] collect_tokens_at [of rnd p "[]"] by simp
  then show ?thesis using collect_tokens_program [OF assms, of rnd "[]"] by simp
qed


theorem main_tokens_correct_witness:
  "main_tokens id (''def f1#c'' @ [CHR 0x0A] @ ''.5x+y'') = [DefToken, IDToken ''f1'', NumToken (1 / 2), IDToken ''x'']"
proof -
  let ?ps = "[(''def'', [Blank (CHR '' '')]), (''f1'', [Comment ''c'' (CHR 0x0A)]), (''.5'', []), (''x'', [])]"
  have "program_ok ?ps" by code_simp
  moreover have "stops ''+y''" by code_simp
  ultimately have "main_tokens id (gaps_text [] @ program_text ?ps @ ''+y'') = map (lexeme_token id \<circ> fst) ?ps"
    by (intro main_tokens_correct) simp_all
  moreover have "map (lexeme_token (id :: rat \<Rightarrow> rat) \<circ> fst) ?ps = [DefToken, IDToken ''f1'', NumToken (1 / 2), IDToken ''x'']" by code_simp
  moreover have "gaps_text [] @ program_text ?ps @ ''+y'' = ''def f1#c'' @ [CHR 0x0A] @ ''.5x+y''" by (simp add: gaps_text_def)
  ultimately show ?thesis by (simp add: gaps_text_def)
qed


text \<open>A character that begins no lexeme is never taken: from then on every call returns the undefined token.\<close>

lemma gettok_undef:
  assumes "gettok rnd l cs = (UndefToken, l')"
  shows "\<exists>c ds. l' = (Some c, ds) \<and> \<not> isspace c \<and> \<not> isalnum c \<and> c \<noteq> CHR ''.'' \<and> c \<noteq> CHR ''#'' \<and> c \<noteq> END"
  using assms
proof (induction rnd l cs rule: gettok.induct)
  case (1 rnd l cs)
  obtain k ds where k: "skip_space l cs = (k, ds)" by fastforce
  have sp: "\<not> isspace c" if "k = Some c" for c using k that by (induction l cs rule: skip_space.induct) (auto split: if_splits)
  have no_id: "id_token s \<noteq> UndefToken" for s by (simp add: id_token_def)
  obtain c where c: "k = Some c" using 1(2) k by (cases k) (auto simp: gettok.simps [of rnd l cs])
  have al: "\<not> isalpha c" and nu: "\<not> (isdigit c \<or> c = CHR ''.'')"
    using 1(2) k c no_id by (auto simp: gettok.simps [of rnd l cs] split: if_splits prod.splits)
  show ?case
  proof (cases "c = CHR ''#''")
    case True
    obtain m es where m: "comment_loop ds = (m, es)" by fastforce
    obtain e where e: "m = Some e" "e \<noteq> END" "gettok rnd (Some e) es = (UndefToken, l')"
      using 1(2) k c m True hash_not by (auto simp: gettok.simps [of rnd l cs] split: option.splits if_splits)
    then show ?thesis using "1.IH" [OF k [symmetric] c al nu True m [symmetric]] by blast
  next
    case False
    then have "l' = (Some c, ds)" "c \<noteq> END" using 1(2) k c al nu by (simp_all add: gettok.simps [of rnd l cs] split: if_splits)
    then show ?thesis using False al nu sp [OF c] by (simp add: isalnum_def)
  qed
qed

lemma gettok_stuck:
  assumes "gettok rnd l cs = (UndefToken, l')"
  shows "gettok rnd (fst l') (snd l') = (UndefToken, l')"
  using gettok_undef [OF assms] by (subst gettok.simps) (auto simp: skip_space_stays isalnum_def)

text \<open>Printing the tokens raises no exception.\<close>

lemma ToString_ok: "\<exists>s. ToString show_double t = Inr s"
  by (cases t) (simp_all add: ToString_def IDToken_ToString_def NumToken_ToString_def Token_ToString_def TokenStrMap_def)

end
