(* ===== verification/Steps.thy ===== *)
theory Steps
  imports Main
begin

text \<open>
  State machines given by an executable step function: \<open>act a s\<close> is the state after action \<open>a\<close>, \<open>None\<close> where
  the action is not enabled. Reachable states are an inductive predicate; an invariant and a measure that
  the steps respect are locales, interpreted on every machine of the development that is written this way.
\<close>

inductive reach :: "('a \<Rightarrow> 's \<Rightarrow> 's option) \<Rightarrow> 's \<Rightarrow> 's \<Rightarrow> bool" for act s0 where
  reach_refl: "reach act s0 s0"
| reach_step: "reach act s0 s \<Longrightarrow> act a s = Some s' \<Longrightarrow> reach act s0 s'"

fun run_acts :: "('a \<Rightarrow> 's \<Rightarrow> 's option) \<Rightarrow> 'a list \<Rightarrow> 's \<Rightarrow> 's option" where
  "run_acts act [] s = Some s"
| "run_acts act (a # as) s = Option.bind (act a s) (run_acts act as)"

lemma run_acts_append: "run_acts act (xs @ ys) s = Option.bind (run_acts act xs s) (run_acts act ys)"
  by (induction xs arbitrary: s) (auto split: bind_splits)

lemma reach_run_acts: "reach act s0 s \<Longrightarrow> run_acts act as s = Some s' \<Longrightarrow> reach act s0 s'"
  by (induction as arbitrary: s) (auto split: bind_splits intro: reach_step)

lemmas run_acts_reach = reach_run_acts [OF reach_refl]

lemma reach_iff_run_acts: "reach act s0 s \<longleftrightarrow> (\<exists>as. run_acts act as s0 = Some s)"
proof
  assume "reach act s0 s"
  then show "\<exists>as. run_acts act as s0 = Some s"
  proof induction
    case reach_refl
    have "run_acts act [] s0 = Some s0" by simp
    then show ?case ..
  next
    case (reach_step s a s')
    then obtain as where "run_acts act as s0 = Some s" by blast
    then have "run_acts act (as @ [a]) s0 = Some s'" using reach_step.hyps(2) by (simp add: run_acts_append)
    then show ?case ..
  qed
qed (auto intro: run_acts_reach)

text \<open>A property that holds at the start and that every action keeps holds in all reachable states.\<close>

locale step_invariant =
  fixes act :: "'a \<Rightarrow> 's \<Rightarrow> 's option" and inv :: "'s \<Rightarrow> bool"
  assumes inv_act: "inv s \<Longrightarrow> act a s = Some s' \<Longrightarrow> inv s'"
begin

lemma inv_reach: "reach act s0 s \<Longrightarrow> inv s0 \<Longrightarrow> inv s"
  by (induction rule: reach.induct) (auto intro: inv_act)

lemma inv_run_acts: "run_acts act as s = Some s' \<Longrightarrow> inv s \<Longrightarrow> inv s'"
  using inv_reach run_acts_reach by fast

end

text \<open>Within an invariant every action lowers the measure: no run is longer than the measure of its first state.\<close>

locale step_measure = step_invariant +
  fixes weight :: "'s \<Rightarrow> nat"
  assumes weight_act: "inv s \<Longrightarrow> act a s = Some s' \<Longrightarrow> weight s' < weight s"
begin

lemma run_bounded: "inv s \<Longrightarrow> run_acts act as s = Some s' \<Longrightarrow> length as + weight s' \<le> weight s"
proof (induction as arbitrary: s)
  case (Cons a as)
  then obtain s1 where s1: "act a s = Some s1" "run_acts act as s1 = Some s'" by (auto split: bind_splits)
  then have "length as + weight s' \<le> weight s1" using Cons.IH Cons.prems inv_act by blast
  then show ?case using weight_act Cons.prems(1) s1(1) by fastforce
qed simp

end

text \<open>An invariant that also speaks of the actions so far.\<close>

locale step_history =
  fixes act :: "'a \<Rightarrow> 's \<Rightarrow> 's option" and inv :: "'a list \<Rightarrow> 's \<Rightarrow> bool"
  assumes inv_act: "inv as s \<Longrightarrow> act a s = Some s' \<Longrightarrow> inv (as @ [a]) s'"
begin

lemma inv_run_acts: "run_acts act bs s = Some s' \<Longrightarrow> inv as s \<Longrightarrow> inv (as @ bs) s'"
proof (induction bs arbitrary: as s)
  case (Cons b bs)
  then obtain s1 where "act b s = Some s1" "run_acts act bs s1 = Some s'" by (auto split: bind_splits)
  then show ?case using Cons.IH [of s1 "as @ [b]"] inv_act [OF Cons.prems(2)] by simp
qed simp

end

end
