(* ===== verification/As_Pool.thy ===== *)
theory As_Pool
  imports Prelude Steps
begin

text \<open>
  The thread pool of \<open>asio_lab/main.cpp\<close>: a queue of at most eight tasks under one mutex and \<^emph>\<open>one\<close> condition
  variable, on which the callers of \<open>Enqueue\<close> wait for room and the workers for a task. Every thread is at a
  program point (\<open>pc\<close>) of \<open>Enqueue\<close>, \<open>WorkThread\<close> or \<open>~Pool\<close>; what a thread does between taking and releasing the
  mutex is one step, and \<open>notify_one\<close> wakes any one of the threads that wait. The two lists \<open>put\<close> and \<open>taken\<close>
  record what went into and out of the queue.
\<close>

section \<open>Threads and the pool\<close>

datatype 't pc =
    Idle              \<comment> \<open>a client outside the pool\<close>
  | EnqTest 't        \<comment> \<open>\<open>Enqueue\<close>, about to take the mutex and test the condition\<close>
  | EnqWait 't        \<comment> \<open>\<open>Enqueue\<close>, blocked in \<open>cond_.wait\<close>\<close>
  | EnqNotify         \<comment> \<open>\<open>Enqueue\<close>, the task is queued and the mutex released\<close>
  | Threw             \<comment> \<open>\<open>Enqueue\<close> left by its exception\<close>
  | WorkTest          \<comment> \<open>\<open>WorkThread\<close>, about to take the mutex and test the condition\<close>
  | WorkWait          \<comment> \<open>\<open>WorkThread\<close>, blocked in \<open>cond_.wait\<close>\<close>
  | Running 't        \<comment> \<open>\<open>WorkThread\<close>, in \<open>handler()\<close>\<close>
  | Ended             \<comment> \<open>\<open>WorkThread\<close> has returned\<close>
  | DtorSet           \<comment> \<open>\<open>~Pool\<close>, about to set \<open>terminated_\<close>\<close>
  | DtorNotify        \<comment> \<open>\<open>~Pool\<close>, before \<open>notify_all\<close>\<close>
  | DtorJoin          \<comment> \<open>\<open>~Pool\<close>, joining the workers\<close>
  | Destroyed         \<comment> \<open>\<open>~Pool\<close> has returned\<close>

record 't Pool =
  pl_queue :: "'t list"
  terminated :: bool
  threads :: "'t pc list"
  put :: "'t list"
  taken :: "'t list"

definition Pool_new :: "nat \<Rightarrow> nat \<Rightarrow> 't Pool" where
  "Pool_new clients n =
     \<lparr>pl_queue = [], terminated = False, threads = replicate clients Idle @ replicate n WorkTest, put = [], taken = []\<rparr>"

fun is_waiting :: "'t pc \<Rightarrow> bool" where
  "is_waiting (EnqWait t) = True"
| "is_waiting WorkWait = True"
| "is_waiting _ = False"

fun wake :: "'t pc \<Rightarrow> 't pc" where
  "wake (EnqWait t) = EnqTest t"
| "wake WorkWait = WorkTest"
| "wake p = p"

fun is_worker :: "'t pc \<Rightarrow> bool" where
  "is_worker WorkTest = True"
| "is_worker WorkWait = True"
| "is_worker (Running t) = True"
| "is_worker Ended = True"
| "is_worker _ = False"

text \<open>\<open>notify_one\<close> wakes the waiting thread \<open>j\<close>, whichever it is, and does nothing only where no thread waits.\<close>

fun notify_one :: "nat option \<Rightarrow> 't pc list \<Rightarrow> 't pc list option" where
  "notify_one None ts = (if list_all (\<lambda>p. \<not> is_waiting p) ts then Some ts else None)"
| "notify_one (Some j) ts = (if j < length ts \<and> is_waiting (ts ! j) then Some (ts[j := wake (ts ! j)]) else None)"

definition notify_all :: "'t pc list \<Rightarrow> 't pc list" where
  "notify_all ts = map wake ts"

definition goto :: "nat \<Rightarrow> 't pc \<Rightarrow> 't Pool \<Rightarrow> 't Pool" where
  "goto i p s = s\<lparr>threads := (threads s)[i := p]\<rparr>"

section \<open>Enqueue, WorkThread, ~Pool\<close>

text \<open>The block of \<open>Enqueue\<close> under the mutex, and the notification after it.\<close>

definition Enqueue_block :: "nat \<Rightarrow> 't \<Rightarrow> 't Pool \<Rightarrow> 't Pool" where
  "Enqueue_block i t s =
     (if \<not> (terminated s \<or> length (pl_queue s) < 8) then goto i (EnqWait t) s
      else if terminated s then goto i Threw s
      else goto i EnqNotify (s\<lparr>pl_queue := pl_queue s @ [t], put := put s @ [t]\<rparr>))"

definition Enqueue_notify :: "nat \<Rightarrow> nat option \<Rightarrow> 't Pool \<Rightarrow> 't Pool option" where
  "Enqueue_notify i j s = map_option (\<lambda>ts. goto i Idle (s\<lparr>threads := ts\<rparr>)) (notify_one j (threads s))"

text \<open>The block of \<open>WorkThread\<close> under the mutex: the notification is inside it.\<close>

definition WorkThread_block :: "nat \<Rightarrow> nat option \<Rightarrow> 't Pool \<Rightarrow> 't Pool option" where
  "WorkThread_block i j s =
     (if \<not> (terminated s \<or> pl_queue s \<noteq> []) then Some (goto i WorkWait s)
      else if terminated s then Some (goto i Ended s)
      else map_option
        (\<lambda>ts. goto i (Running (hd (pl_queue s))) (s\<lparr>pl_queue := tl (pl_queue s), taken := taken s @ [hd (pl_queue s)], threads := ts\<rparr>))
        (notify_one j (threads s)))"

definition Dtor_set :: "nat \<Rightarrow> 't Pool \<Rightarrow> 't Pool" where
  "Dtor_set i s = goto i DtorNotify (s\<lparr>terminated := True\<rparr>)"

definition Dtor_notify :: "nat \<Rightarrow> 't Pool \<Rightarrow> 't Pool" where
  "Dtor_notify i s = goto i DtorJoin (s\<lparr>threads := notify_all (threads s)\<rparr>)"

definition Dtor_join :: "nat \<Rightarrow> 't Pool \<Rightarrow> 't Pool option" where
  "Dtor_join i s = (if list_all (\<lambda>p. is_worker p \<longrightarrow> p = Ended) (threads s) then Some (goto i Destroyed s) else None)"

text \<open>A client calls \<open>Enqueue\<close> or destroys the pool; a thread goes on, its notification waking \<open>j\<close>; a waiting thread
  wakes by itself, as the standard allows.\<close>

datatype 't action = Call nat 't | Destroy nat | Go nat "nat option" | Spurious nat

fun thread_step :: "nat \<Rightarrow> nat option \<Rightarrow> 't pc \<Rightarrow> 't Pool \<Rightarrow> 't Pool option" where
  "thread_step i j (EnqTest t) s = Some (Enqueue_block i t s)"
| "thread_step i j EnqNotify s = Enqueue_notify i j s"
| "thread_step i j WorkTest s = WorkThread_block i j s"
| "thread_step i j (Running t) s = Some (goto i WorkTest s)"
| "thread_step i j DtorSet s = Some (Dtor_set i s)"
| "thread_step i j DtorNotify s = Some (Dtor_notify i s)"
| "thread_step i j DtorJoin s = Dtor_join i s"
| "thread_step i j _ s = None"

fun pool_act :: "'t action \<Rightarrow> 't Pool \<Rightarrow> 't Pool option" where
  "pool_act (Call i t) s = (if i < length (threads s) \<and> threads s ! i = Idle then Some (goto i (EnqTest t) s) else None)"
| "pool_act (Destroy i) s = (if i < length (threads s) \<and> threads s ! i = Idle then Some (goto i DtorSet s) else None)"
| "pool_act (Go i j) s = (if i < length (threads s) then thread_step i j (threads s ! i) s else None)"
| "pool_act (Spurious j) s =
     (if j < length (threads s) \<and> is_waiting (threads s ! j) then Some (goto j (wake (threads s ! j)) s) else None)"

lemmas pool_defs = Enqueue_block_def Enqueue_notify_def WorkThread_block_def Dtor_set_def Dtor_notify_def Dtor_join_def goto_def

section \<open>What goes through the queue\<close>

lemma goto_sel [simp]:
  "pl_queue (goto i p s) = pl_queue s" "terminated (goto i p s) = terminated s" "put (goto i p s) = put s"
  "taken (goto i p s) = taken s" "threads (goto i p s) = (threads s)[i := p]"
  by (simp_all add: goto_def)

lemma notify_one_Some:
  "notify_one j ts = Some ts' \<longleftrightarrow>
     (\<exists>k < length ts. j = Some k \<and> is_waiting (ts ! k) \<and> ts' = ts[k := wake (ts ! k)]) \<or>
     (j = None \<and> list_all (\<lambda>p. \<not> is_waiting p) ts \<and> ts' = ts)"
  by (cases j) auto

lemma wake_Running [simp]: "wake p = Running t \<longleftrightarrow> p = Running t" "Running t = wake p \<longleftrightarrow> p = Running t"
  by (cases p; auto)+

lemma notify_one_Running: "notify_one j ts = Some ts' \<Longrightarrow> Running t \<in> set ts' \<Longrightarrow> Running t \<in> set ts"
  by (auto simp: notify_one_Some dest!: set_update_subset_insert [THEN subsetD] dest: nth_mem)

definition fifo_inv :: "'t Pool \<Rightarrow> bool" where
  "fifo_inv s \<longleftrightarrow> put s = taken s @ pl_queue s \<and> length (pl_queue s) \<le> 8 \<and> (\<forall>t. Running t \<in> set (threads s) \<longrightarrow> t \<in> set (taken s))"

text \<open>Where the running tasks of the new state come from, for a step that takes no task.\<close>

lemma fifo_goto: "fifo_inv s \<Longrightarrow> (\<And>t. p \<noteq> Running t) \<Longrightarrow> fifo_inv (goto i p s)"
  by (auto simp: fifo_inv_def dest!: set_update_subset_insert [THEN subsetD])

lemma fifo_threads: "fifo_inv s \<Longrightarrow> (\<And>t. Running t \<in> set ts \<Longrightarrow> Running t \<in> set (threads s)) \<Longrightarrow> fifo_inv (s\<lparr>threads := ts\<rparr>)"
  by (auto simp: fifo_inv_def)

lemma fifo_Enqueue: "fifo_inv s \<Longrightarrow> fifo_inv (Enqueue_block i t s)"
  by (auto simp: Enqueue_block_def intro!: fifo_goto) (auto simp: fifo_inv_def)

lemma fifo_WorkThread: assumes "fifo_inv s" "WorkThread_block i j s = Some s'" shows "fifo_inv s'"
proof (cases "terminated s \<or> pl_queue s = []")
  case True
  then show ?thesis using assms by (auto simp: WorkThread_block_def intro: fifo_goto split: if_splits)
next
  case False
  then obtain t q ts where q: "pl_queue s = t # q" and ts: "notify_one j (threads s) = Some ts" and
    s': "s' = goto i (Running t) (s\<lparr>pl_queue := q, taken := taken s @ [t], threads := ts\<rparr>)"
    using assms(2) by (auto simp: WorkThread_block_def neq_Nil_conv)
  show ?thesis using assms(1) q notify_one_Running [OF ts]
    by (auto simp: s' fifo_inv_def dest!: set_update_subset_insert [THEN subsetD])
qed

lemma fifo_wake: "fifo_inv s \<Longrightarrow> fifo_inv (goto j (wake (threads s ! j)) s)" if "j < length (threads s)"
  using that by (auto simp: fifo_inv_def dest!: set_update_subset_insert [THEN subsetD] dest: nth_mem)

lemma fifo_thread_step:
  assumes "fifo_inv s" "thread_step i j p s = Some s'" shows "fifo_inv s'"
proof (cases p)
  case EnqNotify
  then obtain ts where ts: "notify_one j (threads s) = Some ts" "s' = goto i Idle (s\<lparr>threads := ts\<rparr>)"
    using assms(2) by (auto simp: Enqueue_notify_def)
  then show ?thesis using fifo_threads [OF assms(1) notify_one_Running [OF ts(1)]] by (auto intro: fifo_goto)
next
  case DtorSet
  have "fifo_inv (s\<lparr>terminated := True\<rparr>)" using assms(1) by (simp add: fifo_inv_def)
  then show ?thesis using assms(2) DtorSet by (auto simp: Dtor_set_def intro: fifo_goto)
next
  case DtorNotify
  have "fifo_inv (s\<lparr>threads := notify_all (threads s)\<rparr>)"
    using assms(1) by (rule fifo_threads) (auto simp: notify_all_def)
  then show ?thesis using assms(2) DtorNotify by (auto simp: Dtor_notify_def intro: fifo_goto)
qed (use assms in \<open>auto simp: Dtor_join_def intro: fifo_goto fifo_Enqueue fifo_WorkThread split: if_splits\<close>)

lemma fifo_act: "fifo_inv s \<Longrightarrow> pool_act a s = Some s' \<Longrightarrow> fifo_inv s'"
  by (cases a) (auto intro: fifo_goto fifo_wake fifo_thread_step split: if_splits)

interpretation pool_fifo: step_invariant pool_act fifo_inv
  by unfold_locales (rule fifo_act)

lemma fifo_new: "fifo_inv (Pool_new clients n)"
  by (simp add: fifo_inv_def Pool_new_def)

section \<open>One client and at most fifteen workers\<close>

text \<open>The workers that wait. A worker that is woken or blocks changes their number by one.\<close>

definition n_waiting :: "'t pc list \<Rightarrow> nat" where
  "n_waiting ts = length (filter is_waiting ts)"

lemma n_waiting_update:
  "i < length ts \<Longrightarrow> n_waiting (ts[i := p]) + of_bool (is_waiting (ts ! i)) = n_waiting ts + of_bool (is_waiting p)"
proof (induction ts arbitrary: i)
  case (Cons t ts)
  then show ?case by (cases i) (auto simp: n_waiting_def)
qed simp

lemma n_waiting_update_eqs:
  assumes "i < length ts"
  shows "is_waiting (ts ! i) = is_waiting p \<Longrightarrow> n_waiting (ts[i := p]) = n_waiting ts"
    and "is_waiting (ts ! i) \<Longrightarrow> \<not> is_waiting p \<Longrightarrow> Suc (n_waiting (ts[i := p])) = n_waiting ts"
    and "\<not> is_waiting (ts ! i) \<Longrightarrow> is_waiting p \<Longrightarrow> n_waiting (ts[i := p]) = Suc (n_waiting ts)"
  using n_waiting_update [OF assms, of p] by simp_all

lemma n_waiting_zero: "n_waiting ts = 0 \<longleftrightarrow> list_all (\<lambda>p. \<not> is_waiting p) ts"
  by (simp add: n_waiting_def list_all_iff filter_empty_conv)

lemma n_waiting_less: "i < length ts \<Longrightarrow> \<not> is_waiting (ts ! i) \<Longrightarrow> n_waiting ts < length ts"
  unfolding n_waiting_def by (rule length_filter_less) auto

lemma not_waiting_wake [simp]: "\<not> is_waiting (wake p)"
  by (cases p) auto

lemma is_worker_wake [simp]: "is_worker (wake p) = is_worker p"
  by (cases p) auto

lemma wake_Ended [simp]: "wake p = Ended \<longleftrightarrow> p = Ended" "Ended = wake p \<longleftrightarrow> p = Ended"
  by (cases p; auto)+

text \<open>With \<open>q\<close> tasks queued at least \<open>min n q\<close> workers are awake, one fewer while the client has still to notify; a
  client that waits sees more tasks queued than workers that wait.\<close>

definition lone_ok :: "nat \<Rightarrow> 't pc \<Rightarrow> 't pc list \<Rightarrow> bool" where
  "lone_ok q c ws \<longleftrightarrow>
     Ended \<notin> set ws \<and>
     min (length ws) (q - of_bool (c = EnqNotify)) + n_waiting ws \<le> length ws \<and>
     (\<forall>t. c = EnqWait t \<longrightarrow> n_waiting ws < q)"

definition lone_inv :: "nat \<Rightarrow> 't Pool \<Rightarrow> bool" where
  "lone_inv n s \<longleftrightarrow> (\<exists>c ws. threads s = c # ws \<and> \<not> is_worker c \<and> list_all is_worker ws \<and> length ws = n \<and>
     (terminated s \<or> lone_ok (length (pl_queue s)) c ws))"

lemma lone_invI:
  "threads s = c # ws \<Longrightarrow> \<not> is_worker c \<Longrightarrow> list_all is_worker ws \<Longrightarrow> length ws = n \<Longrightarrow>
     (\<not> terminated s \<Longrightarrow> lone_ok (length (pl_queue s)) c ws) \<Longrightarrow> lone_inv n s"
  unfolding lone_inv_def by blast

lemma lone_invE:
  assumes "lone_inv n s"
  obtains c ws where "threads s = c # ws" "\<not> is_worker c" "list_all is_worker ws" "length ws = n"
    "terminated s \<or> lone_ok (length (pl_queue s)) c ws"
  using assms unfolding lone_inv_def by blast

lemma list_all_update: "list_all P ts \<Longrightarrow> P p \<Longrightarrow> list_all P (ts[i := p])"
  by (auto simp: list_all_iff dest!: set_update_subset_insert [THEN subsetD])

lemma list_all_wake: "list_all is_worker ts \<Longrightarrow> k < length ts \<Longrightarrow> list_all is_worker (ts[k := wake (ts ! k)])"
  by (rule list_all_update) (auto simp: list_all_length)

text \<open>A step of the client that moves it to a point where it neither waits nor owes a notification.\<close>

lemma lone_client: "lone_ok q c ws \<Longrightarrow> c \<noteq> EnqNotify \<Longrightarrow> (\<And>t. c' \<noteq> EnqWait t) \<Longrightarrow> lone_ok q c' ws"
  by (auto simp: lone_ok_def)

lemma lone_client_wake: "lone_ok q c ws \<Longrightarrow> is_waiting c \<Longrightarrow> lone_ok q (wake c) ws"
  by (cases c) (auto simp: lone_ok_def)

lemma lone_client_wait:
  "lone_ok 8 c ws \<Longrightarrow> c \<noteq> EnqNotify \<Longrightarrow> length ws \<le> 15 \<Longrightarrow> lone_ok 8 (EnqWait t) ws"
  by (auto simp: lone_ok_def min_def split: if_splits)

lemma lone_client_push: "lone_ok q c ws \<Longrightarrow> c \<noteq> EnqNotify \<Longrightarrow> lone_ok (Suc q) EnqNotify ws"
  by (auto simp: lone_ok_def)

lemma lone_worker_wake: "lone_ok q c ws \<Longrightarrow> i < length ws \<Longrightarrow> is_waiting (ws ! i) \<Longrightarrow> lone_ok q c (ws[i := wake (ws ! i)])"
  using n_waiting_update_eqs(2) [of i ws "wake (ws ! i)"]
  by (auto simp: lone_ok_def dest!: set_update_subset_insert [THEN subsetD])

lemma lone_wake_all: "lone_ok q c ws \<Longrightarrow> lone_ok q DtorJoin (map wake ws)"
  by (auto simp: lone_ok_def n_waiting_def filter_empty_conv comp_def)

lemma lone_worker_move:
  "lone_ok q c ws \<Longrightarrow> i < length ws \<Longrightarrow> \<not> is_waiting (ws ! i) \<Longrightarrow> \<not> is_waiting p \<Longrightarrow> p \<noteq> Ended \<Longrightarrow> lone_ok q c (ws[i := p])"
  using n_waiting_update_eqs(1) [of i ws p] by (auto simp: lone_ok_def dest!: set_update_subset_insert [THEN subsetD])

lemma lone_worker_wait:
  "lone_ok 0 c ws \<Longrightarrow> i < length ws \<Longrightarrow> \<not> is_waiting (ws ! i) \<Longrightarrow> lone_ok 0 c (ws[i := WorkWait])"
  using n_waiting_update_eqs(3) [of i ws WorkWait] n_waiting_less [of i ws]
  by (auto simp: lone_ok_def dest!: set_update_subset_insert [THEN subsetD])

text \<open>A worker takes a task and wakes a worker, the client or nobody; the client wakes a worker or nobody.\<close>

lemma lone_take_worker:
  "lone_ok (Suc q) c ws \<Longrightarrow> k < length ws \<Longrightarrow> is_waiting (ws ! k) \<Longrightarrow> lone_ok q c (ws[k := wake (ws ! k)])"
  using n_waiting_update_eqs(2) [of k ws "wake (ws ! k)"]
  by (auto simp: lone_ok_def dest!: set_update_subset_insert [THEN subsetD])

lemma lone_take_client: "lone_ok (Suc q) (EnqWait t) ws \<Longrightarrow> lone_ok q (EnqTest t) ws"
  by (auto simp: lone_ok_def)

lemma lone_take_nobody: "lone_ok (Suc q) c ws \<Longrightarrow> \<not> is_waiting c \<Longrightarrow> lone_ok q c ws"
  by (auto simp: lone_ok_def min_def split: if_splits)

lemma lone_notify_worker:
  "lone_ok q EnqNotify ws \<Longrightarrow> k < length ws \<Longrightarrow> is_waiting (ws ! k) \<Longrightarrow> lone_ok q Idle (ws[k := wake (ws ! k)])"
  using n_waiting_update_eqs(2) [of k ws "wake (ws ! k)"]
  by (auto simp: lone_ok_def dest!: set_update_subset_insert [THEN subsetD])

lemma lone_notify_nobody: "lone_ok q EnqNotify ws \<Longrightarrow> n_waiting ws = 0 \<Longrightarrow> lone_ok q Idle ws"
  by (auto simp: lone_ok_def)

lemma lone_take:
  assumes ok: "lone_ok (Suc q) c ws" and i: "i < length ws" "\<not> is_waiting (ws ! i)" and c: "\<not> is_worker c"
    and w: "list_all is_worker ws" and j: "notify_one j (c # ws) = Some ts"
  shows "\<exists>c' ws'. ts = c' # ws' \<and> \<not> is_worker c' \<and> list_all is_worker ws' \<and> length ws' = length ws \<and>
    lone_ok q c' (ws'[i := Running t])"
proof -
  from j consider (nobody) "ts = c # ws" "\<not> is_waiting c"
    | (client) u where "c = EnqWait u" "ts = EnqTest u # ws"
    | (worker) k where "k < length ws" "is_waiting (ws ! k)" "ts = c # ws[k := wake (ws ! k)]"
    using c by (cases j; cases "the j"; cases c) (auto split: if_splits)
  then show ?thesis
  proof cases
    case nobody
    then show ?thesis using lone_take_nobody [OF ok] c w i by (auto intro: lone_worker_move)
  next
    case client
    then have "lone_ok q (EnqTest u) ws" using ok by (simp add: lone_take_client)
    then show ?thesis using client w i by (auto intro: lone_worker_move)
  next
    case worker
    let ?ws = "ws[k := wake (ws ! k)]"
    have "lone_ok q c ?ws" using lone_take_worker [OF ok worker(1,2)] .
    moreover have "\<not> is_waiting (?ws ! i)" using i by (cases "i = k") auto
    moreover have "list_all is_worker ?ws" using w worker(1) by (rule list_all_wake)
    ultimately show ?thesis using worker(3) c i by (auto intro!: lone_worker_move)
  qed
qed

lemma lone_WorkThread:
  assumes th: "threads s = c # ws" "\<not> is_worker c" "list_all is_worker ws" "length ws = n"
    and ok: "terminated s \<or> lone_ok (length (pl_queue s)) c ws"
    and i: "i < length ws" "ws ! i = WorkTest" and s': "WorkThread_block (Suc i) j s = Some s'"
  shows "lone_inv n s'"
proof (cases "terminated s \<or> pl_queue s = []")
  case True
  define p where "p = (if terminated s then Ended else WorkWait :: 'a pc)"
  have "s' = goto (Suc i) p s" using True s' by (auto simp: WorkThread_block_def p_def split: if_splits)
  then show ?thesis using th ok i True
    by (intro lone_invI [where c = c and ws = "ws[i := p]"]) (auto simp: p_def intro!: list_all_update lone_worker_wait)
next
  case False
  then obtain t q ts where q: "pl_queue s = t # q" and ts: "notify_one j (c # ws) = Some ts" and
    eq: "s' = goto (Suc i) (Running t) (s\<lparr>pl_queue := q, taken := taken s @ [t], threads := ts\<rparr>)"
    using s' th(1) by (auto simp: WorkThread_block_def neq_Nil_conv)
  have "lone_ok (Suc (length q)) c ws" using ok False q by simp
  from lone_take [OF this i(1) _ th(2,3) ts, of t] obtain c' ws' where
    "ts = c' # ws'" "\<not> is_worker c'" "list_all is_worker ws'" "length ws' = length ws" "lone_ok (length q) c' (ws'[i := Running t])"
    using i(2) by auto
  then show ?thesis using eq th(4)
    by (intro lone_invI [where c = c' and ws = "ws'[i := Running t]"]) (auto intro!: list_all_update)
qed

lemma lone_Enqueue_notify:
  assumes th: "threads s = EnqNotify # ws" "list_all is_worker ws" "length ws = n"
    and ok: "terminated s \<or> lone_ok (length (pl_queue s)) EnqNotify ws"
    and s': "Enqueue_notify 0 j s = Some s'"
  shows "lone_inv n s'"
proof -
  obtain ts where ts: "notify_one j (EnqNotify # ws) = Some ts" "s' = goto 0 Idle (s\<lparr>threads := ts\<rparr>)"
    using s' th(1) by (auto simp: Enqueue_notify_def)
  then consider (nobody) "ts = EnqNotify # ws" "n_waiting ws = 0"
    | (worker) k where "k < length ws" "is_waiting (ws ! k)" "ts = EnqNotify # ws[k := wake (ws ! k)]"
    by (cases j; cases "the j") (auto simp: n_waiting_zero split: if_splits)
  then show ?thesis
  proof cases
    case nobody
    then show ?thesis using ts(2) th(2,3) ok
      by (intro lone_invI [where c = Idle and ws = ws]) (auto intro: lone_notify_nobody)
  next
    case worker
    then have "list_all is_worker (ws[k := wake (ws ! k)])" using th(2) by (auto intro: list_all_wake)
    then show ?thesis using ts(2) th(3) ok worker
      by (intro lone_invI [where c = Idle and ws = "ws[k := wake (ws ! k)]"]) (auto intro: lone_notify_worker)
  qed
qed

lemma lone_client_step:
  assumes th: "threads s = c # ws" "\<not> is_worker c" "list_all is_worker ws" "length ws = n" and n: "n \<le> 15"
    and q: "length (pl_queue s) \<le> 8"
    and ok: "terminated s \<or> lone_ok (length (pl_queue s)) c ws" and s': "thread_step 0 j c s = Some s'"
  shows "lone_inv n s'"
proof (cases c)
  case (EnqTest t)
  have full: "\<not> length (pl_queue s) < 8 \<Longrightarrow> length (pl_queue s) = 8" using q by simp
  show ?thesis using s' th ok n lone_client_wait [of "EnqTest t" ws t] lone_client_push [of "length (pl_queue s)" "EnqTest t" ws] unfolding EnqTest
    by (auto simp: Enqueue_block_def full lone_inv_def)
next
  case EnqNotify
  then show ?thesis using lone_Enqueue_notify [of s ws n j s'] th ok s' by simp
next
  case DtorNotify
  have "list_all is_worker (map wake ws)" using th(3) by (simp add: list_all_iff)
  then show ?thesis using s' th ok DtorNotify
    by (intro lone_invI [where c = DtorJoin and ws = "map wake ws"]) (auto simp: Dtor_notify_def notify_all_def lone_wake_all)
qed (use s' th ok in \<open>auto simp: Dtor_set_def Dtor_join_def lone_inv_def intro: lone_client split: if_splits\<close>)

lemma lone_worker_step:
  assumes th: "threads s = c # ws" "\<not> is_worker c" "list_all is_worker ws" "length ws = n"
    and ok: "terminated s \<or> lone_ok (length (pl_queue s)) c ws"
    and i: "i < length ws" and s': "thread_step (Suc i) j (ws ! i) s = Some s'"
  shows "lone_inv n s'"
proof -
  have "is_worker (ws ! i)" using th(3) i by (simp add: list_all_length)
  then show ?thesis
  proof (cases "ws ! i")
    case WorkTest
    then show ?thesis using lone_WorkThread [OF th ok i] s' by simp
  next
    case (Running t)
    then show ?thesis using th ok i s'
      by (intro lone_invI [where c = c and ws = "ws[i := WorkTest]"]) (auto intro!: list_all_update lone_worker_move)
  qed (use s' in auto)
qed

lemma lone_act:
  assumes "lone_inv n s \<and> fifo_inv s \<and> n \<le> 15" "pool_act a s = Some s'"
  shows "lone_inv n s' \<and> fifo_inv s' \<and> n \<le> 15"
proof -
  from assms(1) have f: "fifo_inv s" and n: "n \<le> 15" and q: "length (pl_queue s) \<le> 8" by (auto simp: fifo_inv_def)
  from assms(1) obtain c ws where th: "threads s = c # ws" "\<not> is_worker c" "list_all is_worker ws" "length ws = n"
    and ok: "terminated s \<or> lone_ok (length (pl_queue s)) c ws" by (blast elim: lone_invE)
  have "lone_inv n s'"
  proof (cases a)
    case (Go i j)
    then show ?thesis using assms(2) th(1) lone_client_step [OF th n q ok] lone_worker_step [OF th ok]
      by (cases i) (auto split: if_splits)
  next
    case (Spurious i)
    show ?thesis
    proof (cases i)
      case 0
      then show ?thesis using assms(2) Spurious th ok
        by (intro lone_invI [where c = "wake c" and ws = ws]) (auto split: if_splits intro: lone_client_wake)
    next
      case (Suc k)
      then show ?thesis using assms(2) Spurious th ok
        by (intro lone_invI [where c = c and ws = "ws[k := wake (ws ! k)]"]) (auto split: if_splits intro: lone_worker_wake list_all_wake)
    qed
  next
    case (Call i t)
    then have "i = 0" "c = Idle" using assms(2) th by (cases i; auto simp: list_all_length split: if_splits)+
    then show ?thesis using assms(2) Call th ok lone_client [of "length (pl_queue s)" Idle ws "EnqTest t"] by (auto simp: lone_inv_def)
  next
    case (Destroy i)
    then have "i = 0" "c = Idle" using assms(2) th by (cases i; auto simp: list_all_length split: if_splits)+
    then show ?thesis using assms(2) Destroy th ok by (auto simp: lone_inv_def intro: lone_client)
  qed
  then show ?thesis using fifo_act [OF f assms(2)] n by simp
qed

interpretation pool_lone: step_invariant pool_act "\<lambda>s. lone_inv n s \<and> fifo_inv s \<and> n \<le> 15"
  by unfold_locales (rule lone_act)

lemma lone_new: "n \<le> 15 \<Longrightarrow> lone_inv n (Pool_new 1 n) \<and> fifo_inv (Pool_new 1 n) \<and> n \<le> 15"
  using fifo_new [of 1 n] by (auto simp: Pool_new_def lone_inv_def lone_ok_def n_waiting_def list_all_iff)

text \<open>Where some worker does not wait, it is about to test or runs a task.\<close>

lemma lone_awake:
  assumes "lone_ok q c ws" "list_all is_worker ws" "n_waiting ws < length ws"
  shows "\<exists>i < length ws. ws ! i = WorkTest \<or> (\<exists>t. ws ! i = Running t)"
proof -
  have "\<not> list_all is_waiting ws" using assms(3) filter_id_conv [of is_waiting ws] by (auto simp: n_waiting_def list_all_iff)
  then obtain i where i: "i < length ws" "\<not> is_waiting (ws ! i)" by (auto simp: list_all_length)
  moreover have "is_worker (ws ! i)" "ws ! i \<noteq> Ended" using assms(1,2) i(1) by (auto simp: list_all_length lone_ok_def dest: nth_mem)
  ultimately show ?thesis by (cases "ws ! i") auto
qed

text \<open>C18. A pool with one client and at most fifteen workers, the way \<open>Server\<close> uses it, loses no notification,
  though clients and workers share one condition variable. In every reachable state before destruction: while
  the client waits for room, tasks are queued and a worker is awake that will take one; and while a task is
  queued, a worker is awake or the client is about to wake one.\<close>

theorem Pool_no_lost_wakeup:
  assumes "reach pool_act (Pool_new 1 n) s" and "0 < n" and "n \<le> 15" and "\<not> terminated s"
  shows "(\<forall>t. threads s ! 0 = EnqWait t \<longrightarrow> pl_queue s \<noteq> []) \<and>
    (pl_queue s \<noteq> [] \<longrightarrow> threads s ! 0 = EnqNotify \<or>
       (\<exists>i < length (threads s). threads s ! i = WorkTest \<or> (\<exists>t. threads s ! i = Running t)))"
proof -
  have "lone_inv n s" using pool_lone.inv_reach [OF assms(1) lone_new [OF assms(3)]] by simp
  then obtain c ws where th: "threads s = c # ws" "list_all is_worker ws" "length ws = n"
    and ok: "lone_ok (length (pl_queue s)) c ws" using assms(4) by (blast elim: lone_invE)
  have "n_waiting ws < length ws" if "pl_queue s \<noteq> []" "c \<noteq> EnqNotify"
    using ok that assms(2) th(3) by (auto simp: lone_ok_def min_def neq_Nil_conv split: if_splits)
  then show ?thesis using lone_awake [OF ok th(2)] ok th(1) by (fastforce simp: lone_ok_def)
qed

text \<open>Eight tasks are queued and a ninth \<open>Enqueue\<close> waits, the only worker being away.\<close>

definition full_run :: "nat action list" where
  "full_run = concat (map (\<lambda>t. [Call 0 t, Go 0 None, Go 0 None]) [1..<9]) @ [Call 0 9, Go 0 None]"

lemma full_run_ends:
  "run_acts pool_act full_run (Pool_new 1 1) =
     Some \<lparr>pl_queue = [1..<9], terminated = False, threads = [EnqWait 9, WorkTest], put = [1..<9], taken = []\<rparr>"
  by code_simp

theorem Pool_no_lost_wakeup_witness:
  "\<exists>s. reach pool_act (Pool_new 1 1) s \<and> threads s ! 0 = EnqWait (9 :: nat) \<and> pl_queue s \<noteq> [] \<and>
     (\<exists>i < length (threads s). threads s ! i = WorkTest \<or> (\<exists>t. threads s ! i = Running t))"
  using Pool_no_lost_wakeup [OF run_acts_reach [OF full_run_ends]] run_acts_reach [OF full_run_ends]
  by (intro exI [of _ "\<lparr>pl_queue = [1..<9], terminated = False, threads = [EnqWait 9, WorkTest], put = [1..<9], taken = []\<rparr>"])
    simp

section \<open>Sixteen workers\<close>

text \<open>All workers wait; eight tasks wake eight of them; the ninth \<open>Enqueue\<close> waits; each of the eight takes a task
  and wakes one of the other workers, who finds nothing in the end and waits again, as do the first eight.\<close>

definition lost_run :: "nat action list" where
  "lost_run = map (\<lambda>i. Go i None) [1..<17] @
     concat (map (\<lambda>t. [Call 0 t, Go 0 None, Go 0 (Some t)]) [1..<9]) @ [Call 0 9, Go 0 None] @
     map (\<lambda>i. Go i (Some (8 + i))) [1..<9] @ map (\<lambda>i. Go i None) [9..<17] @
     concat (map (\<lambda>i. [Go i None, Go i None]) [1..<9])"

definition lost_state :: "nat Pool" where
  "lost_state = \<lparr>pl_queue = [], terminated = False, threads = EnqWait 9 # replicate 16 WorkWait, put = [1..<9], taken = [1..<9]\<rparr>"

lemma lost_run_ends: "run_acts pool_act lost_run (Pool_new 1 16) = Some lost_state"
  by code_simp

lemma all_waiting_stuck:
  assumes "list_all is_waiting (threads s)" "pool_act a s = Some s'"
  shows "\<exists>j. a = Spurious j"
proof (cases a)
  case (Go i j)
  then have "is_waiting (threads s ! i)" "thread_step i j (threads s ! i) s = Some s'"
    using assms by (auto simp: list_all_length split: if_splits)
  then show ?thesis by (cases "threads s ! i") auto
qed (use assms in \<open>auto simp: list_all_length split: if_splits\<close>)

text \<open>C19. With sixteen workers the pool can come to a stop: a state is reachable in which the client waits
  for room while the queue is empty and all workers wait for a task, the pool is not terminated, and no
  thread can take a step unless the system wakes one without a notification.\<close>

theorem Pool_lost_wakeup:
  "\<exists>s. reach pool_act (Pool_new 1 16) s \<and> threads s ! 0 = EnqWait (9 :: nat) \<and> pl_queue s = [] \<and> \<not> terminated s \<and>
     (\<nexists>a s'. pool_act a s = Some s' \<and> (\<nexists>j. a = Spurious j))"
proof -
  have "list_all is_waiting (threads lost_state)" by (simp add: lost_state_def list_all_iff)
  then have "\<nexists>a s'. pool_act a lost_state = Some s' \<and> (\<nexists>j. a = Spurious j)" using all_waiting_stuck by blast
  moreover have "threads lost_state ! 0 = EnqWait 9 \<and> pl_queue lost_state = [] \<and> \<not> terminated lost_state"
    by (simp add: lost_state_def)
  ultimately show ?thesis using run_acts_reach [OF lost_run_ends] by blast
qed

section \<open>Destruction\<close>

text \<open>Once the flag is set a thread that waits is still to be woken by the destructor.\<close>

definition stop_inv :: "'t Pool \<Rightarrow> bool" where
  "stop_inv s \<longleftrightarrow> (terminated s \<longrightarrow> (\<exists>p \<in> set (threads s). is_waiting p) \<longrightarrow> DtorNotify \<in> set (threads s))"

fun pc_weight :: "'t pc \<Rightarrow> nat" where
  "pc_weight Idle = 4"
| "pc_weight (EnqTest t) = 1"
| "pc_weight (EnqWait t) = 2"
| "pc_weight EnqNotify = 5"
| "pc_weight Threw = 0"
| "pc_weight WorkTest = 1"
| "pc_weight WorkWait = 2"
| "pc_weight (Running t) = 2"
| "pc_weight Ended = 0"
| "pc_weight DtorSet = 3"
| "pc_weight DtorNotify = 2"
| "pc_weight DtorJoin = 1"
| "pc_weight Destroyed = 0"

definition pool_weight :: "'t Pool \<Rightarrow> nat" where
  "pool_weight s = sum_list (map pc_weight (threads s))"

lemma keeps_DtorNotify: "DtorNotify \<in> set ts \<Longrightarrow> ts ! i \<noteq> DtorNotify \<Longrightarrow> DtorNotify \<in> set (ts[i := p])"
  by (metis in_set_conv_nth length_list_update nth_list_update_neq)

lemma stop_goto:
  "stop_inv s \<Longrightarrow> threads s ! i \<noteq> DtorNotify \<Longrightarrow> terminated s \<longrightarrow> \<not> is_waiting p \<Longrightarrow> stop_inv (goto i p s)"
  by (auto simp: stop_inv_def dest!: set_update_subset_insert [THEN subsetD] intro: keeps_DtorNotify)

lemma stop_not_terminated: "\<not> terminated s \<Longrightarrow> stop_inv s"
  by (simp add: stop_inv_def)

lemma stop_notify_one: "stop_inv s \<Longrightarrow> notify_one j (threads s) = Some ts \<Longrightarrow> stop_inv (s\<lparr>threads := ts\<rparr>)"
  using stop_goto [where i = "the j" and p = "wake (threads s ! the j)" and s = s]
  by (cases j; cases "threads s ! the j") (auto simp: goto_def split: if_splits)

lemma notify_one_nth: "notify_one j ts = Some ts' \<Longrightarrow> \<not> is_waiting (ts ! i) \<Longrightarrow> ts' ! i = ts ! i"
  by (cases j) (auto simp: nth_list_update split: if_splits)

lemma notify_one_length: "notify_one j ts = Some ts' \<Longrightarrow> length ts' = length ts"
  by (cases j) (auto split: if_splits)

lemma not_waiting_notify_all: "p \<in> set (notify_all ts) \<Longrightarrow> \<not> is_waiting p"
  by (auto simp: notify_all_def)

lemma stop_thread_step:
  assumes inv: "stop_inv s" and i: "i < length (threads s)" and s': "thread_step i j (threads s ! i) s = Some s'"
  shows "stop_inv s'"
proof (cases "threads s ! i")
  case EnqNotify
  then obtain ts where ts: "notify_one j (threads s) = Some ts" "s' = goto i Idle (s\<lparr>threads := ts\<rparr>)"
    using s' by (auto simp: Enqueue_notify_def)
  then show ?thesis using stop_goto [OF stop_notify_one [OF inv ts(1)], of i Idle] notify_one_nth [OF ts(1), of i] EnqNotify by simp
next
  case (EnqTest t)
  then show ?thesis using s' stop_goto [OF inv, of i]
    by (cases "terminated s") (auto simp: Enqueue_block_def stop_not_terminated)
next
  case WorkTest
  then show ?thesis using s' stop_goto [OF inv, of i]
    by (cases "terminated s") (auto simp: WorkThread_block_def stop_not_terminated split: if_splits)
next
  case DtorSet
  then show ?thesis using s' i by (auto simp: Dtor_set_def stop_inv_def set_update_memI)
next
  case DtorNotify
  then show ?thesis using s' i
    by (auto simp: Dtor_notify_def stop_inv_def dest!: set_update_subset_insert [THEN subsetD] not_waiting_notify_all)
qed (use s' inv in \<open>auto simp: Dtor_join_def intro!: stop_goto split: if_splits\<close>)

lemma stop_act: assumes "stop_inv s" "pool_act a s = Some s'" shows "stop_inv s'"
proof (cases a)
  case (Spurious j)
  then show ?thesis using assms by (cases "threads s ! j") (auto intro!: stop_goto split: if_splits)
qed (use assms in \<open>auto intro: stop_thread_step stop_goto split: if_splits\<close>)

interpretation pool_stop: step_invariant pool_act stop_inv
  by unfold_locales (rule stop_act)

lemma stop_new: "stop_inv (Pool_new m n)"
  by (simp add: stop_inv_def Pool_new_def)

text \<open>After termination every step of any thread lowers the weight.\<close>

lemma weight_update:
  "i < length ts \<Longrightarrow> sum_list (map pc_weight (ts[i := p])) + pc_weight (ts ! i) = sum_list (map pc_weight ts) + pc_weight p"
proof (induction ts arbitrary: i)
  case (Cons t ts)
  then show ?case by (cases i) auto
qed simp

lemma weight_goto: "i < length (threads s) \<Longrightarrow> pc_weight p < pc_weight (threads s ! i) \<Longrightarrow> pool_weight (goto i p s) < pool_weight s"
  using weight_update [of i "threads s" p] by (simp add: pool_weight_def)

lemma weight_wake: "pc_weight (wake p) \<le> pc_weight p" "is_waiting p \<Longrightarrow> pc_weight (wake p) < pc_weight p"
  by (cases p; simp)+

lemma weight_notify_one: "notify_one j (threads s) = Some ts \<Longrightarrow> pool_weight (s\<lparr>threads := ts\<rparr>) \<le> pool_weight s"
  using weight_goto [of "the j" s "wake (threads s ! the j)"] weight_wake(2) [of "threads s ! the j"]
  by (cases j) (auto simp: goto_def split: if_splits)

lemma weight_notify_all: "pool_weight (s\<lparr>threads := notify_all (threads s)\<rparr>) \<le> pool_weight s"
  by (auto simp: pool_weight_def notify_all_def comp_def intro!: sum_list_mono weight_wake)

lemma weight_thread_step:
  assumes t: "terminated s" and i: "i < length (threads s)" and s': "thread_step i j (threads s ! i) s = Some s'"
  shows "pool_weight s' < pool_weight s"
proof (cases "threads s ! i")
  case EnqNotify
  then obtain ts where ts: "notify_one j (threads s) = Some ts" "s' = goto i Idle (s\<lparr>threads := ts\<rparr>)"
    using s' by (auto simp: Enqueue_notify_def)
  then have "pool_weight s' < pool_weight (s\<lparr>threads := ts\<rparr>)"
    using weight_goto [of i "s\<lparr>threads := ts\<rparr>" Idle] notify_one_nth [OF ts(1), of i] notify_one_length [OF ts(1)] EnqNotify i by simp
  then show ?thesis using weight_notify_one [OF ts(1)] by simp
next
  case DtorNotify
  let ?s = "s\<lparr>threads := notify_all (threads s)\<rparr>"
  have "pool_weight s' < pool_weight ?s"
    using weight_goto [of i ?s DtorJoin] s' i DtorNotify by (simp add: Dtor_notify_def notify_all_def)
  then show ?thesis using weight_notify_all [of s] by simp
next
  case DtorSet
  then show ?thesis using s' i weight_goto [of i s DtorNotify] t by (auto simp: Dtor_set_def pool_weight_def)
qed (use s' t i in \<open>auto simp: Enqueue_block_def WorkThread_block_def Dtor_join_def intro!: weight_goto split: if_splits\<close>)

lemma terminated_act: "terminated s \<Longrightarrow> pool_act a s = Some s' \<Longrightarrow>
    terminated s' \<and> pl_queue s' = pl_queue s \<and> taken s' = taken s \<and> put s' = put s"
  by (cases a) (auto simp: pool_defs map_option_case elim!: thread_step.elims split: if_splits option.splits)

lemma weight_act: "terminated s \<Longrightarrow> pool_act a s = Some s' \<Longrightarrow> pool_weight s' < pool_weight s"
  by (cases a) (auto intro!: weight_goto weight_wake intro: weight_thread_step split: if_splits)

interpretation pool_end: step_measure pool_act terminated pool_weight
  by unfold_locales (auto dest: terminated_act weight_act)

interpretation pool_kept: step_invariant pool_act "\<lambda>s. terminated s \<and> pl_queue s = q \<and> taken s = ts \<and> put s = ps"
  by unfold_locales (auto dest: terminated_act)

lemma act_length: "pool_act a s = Some s' \<Longrightarrow> length (threads s') = length (threads s)"
  by (cases a) (auto simp: pool_defs map_option_case notify_all_def dest: notify_one_length
      elim!: thread_step.elims split: if_splits option.splits)

interpretation pool_length: step_invariant pool_act "\<lambda>s. length (threads s) = k"
  by unfold_locales (simp add: act_length)

lemma pool_weight_bound: "pool_weight s \<le> 5 * length (threads s)"
proof -
  have "pc_weight p \<le> 5" for p :: "'a pc" by (cases p) simp_all
  then have "sum_list (map pc_weight ts) \<le> 5 * length ts" for ts :: "'a pc list"
    by (induction ts) (simp_all add: add_mono)
  then show ?thesis by (simp add: pool_weight_def)
qed

lemma notify_one_enabled: "\<exists>j ts'. notify_one j ts = Some ts'"
proof (cases "list_all (\<lambda>p. \<not> is_waiting p) ts")
  case True
  then have "notify_one None ts = Some ts" by simp
  then show ?thesis by blast
next
  case False
  then obtain k where "k < length ts" "is_waiting (ts ! k)" by (auto simp: list_all_length)
  then have "notify_one (Some k) ts = Some (ts[k := wake (ts ! k)])" by simp
  then show ?thesis by blast
qed

text \<open>After termination a thread that is neither outside the pool nor done can go on, unless it waits to be
  woken or is the destructor waiting for a worker.\<close>

definition at_rest :: "'t pc \<Rightarrow> bool" where
  "at_rest p \<longleftrightarrow> p = Idle \<or> p = Threw \<or> p = Ended \<or> p = Destroyed"

lemma enabled_step:
  assumes "terminated s" "i < length (threads s)" "\<not> at_rest (threads s ! i)" "\<not> is_waiting (threads s ! i)"
    "threads s ! i \<noteq> DtorJoin"
  shows "\<exists>j s'. pool_act (Go i j) s = Some s'"
  using assms notify_one_enabled [of "threads s"]
  by (cases "threads s ! i") (auto simp: at_rest_def Enqueue_notify_def WorkThread_block_def)

lemma enabled_end:
  assumes t: "terminated s" and inv: "stop_inv s" and p: "p \<in> set (threads s)" "\<not> at_rest p"
  shows "\<exists>i j s'. pool_act (Go i j) s = Some s'"
proof (cases "\<exists>p \<in> set (threads s). \<not> at_rest p \<and> \<not> is_waiting p \<and> p \<noteq> DtorJoin")
  case True
  then show ?thesis using enabled_step [OF t] by (metis in_set_conv_nth)
next
  case False
  then have "DtorNotify \<notin> set (threads s)" by (auto simp: at_rest_def)
  then have nowait: "\<not> is_waiting q" if "q \<in> set (threads s)" for q using inv t that by (auto simp: stop_inv_def)
  then have "p = DtorJoin" using False p by blast
  then obtain i where i: "i < length (threads s)" "threads s ! i = DtorJoin" using p(1) by (auto simp: in_set_conv_nth)
  have "q = Ended" if "q \<in> set (threads s)" "is_worker q" for q
    using False nowait that by (cases q) (auto simp: at_rest_def)
  then have "pool_act (Go i None) s = Some (goto i Destroyed s)" using i by (auto simp: Dtor_join_def list_all_iff)
  then show ?thesis by blast
qed

text \<open>C20. The destructor of the pool returns, and drops the tasks that are still queued. Once it has set the flag, in
  any pool and under any schedule: no run is longer than five steps per thread, wherever not every thread is
  outside the pool or done some thread can go on, and no queued task is taken any more.\<close>

theorem Pool_destructor_returns:
  assumes "reach pool_act (Pool_new m n) s" and "terminated s" and "run_acts pool_act as s = Some s'"
  shows "length as \<le> 5 * (m + n) \<and> pl_queue s' = pl_queue s \<and> taken s' = taken s \<and>
    ((\<exists>i j s''. pool_act (Go i j) s' = Some s'') \<or>
     list_all (\<lambda>p. p = Idle \<or> p = Threw \<or> p = Ended \<or> p = Destroyed) (threads s'))"
proof -
  have "length (threads s) = m + n" using pool_length.inv_reach [OF assms(1)] by (simp add: Pool_new_def)
  then have "length as \<le> 5 * (m + n)"
    using pool_end.run_bounded [OF assms(2,3)] pool_weight_bound [of s] by simp
  moreover have s': "terminated s' \<and> pl_queue s' = pl_queue s \<and> taken s' = taken s \<and> put s' = put s"
    using pool_kept.inv_run_acts [OF assms(3)] assms(2) by simp
  moreover have "stop_inv s'" using pool_stop.inv_run_acts [OF assms(3)] pool_stop.inv_reach [OF assms(1) stop_new] by blast
  ultimately show ?thesis using enabled_end [of s'] unfolding list_all_iff at_rest_def by blast
qed

text \<open>A pool with one worker is destroyed while two tasks are queued: the worker ends without taking them.\<close>

theorem Pool_destructor_returns_witness:
  "run_acts pool_act [Go 0 None, Go 1 None, Go 0 None] \<lparr>pl_queue = [1, 2 :: nat], terminated = True,
       threads = [DtorNotify, WorkTest], put = [1, 2], taken = []\<rparr> =
     Some \<lparr>pl_queue = [1, 2], terminated = True, threads = [Destroyed, Ended], put = [1, 2], taken = []\<rparr> \<and> 3 \<le> 5 * (1 + (1 :: nat))"
proof -
  let ?s = "\<lparr>pl_queue = [1, 2 :: nat], terminated = True, threads = [DtorNotify, WorkTest], put = [1, 2], taken = []\<rparr>"
  have "run_acts pool_act [Call 0 1, Go 0 None, Go 0 None, Call 0 2, Go 0 None, Go 0 None, Destroy 0, Go 0 None] (Pool_new 1 1) = Some ?s"
    by code_simp
  then have r: "reach pool_act (Pool_new 1 1) ?s" by (rule run_acts_reach)
  have run: "run_acts pool_act [Go 0 None, Go 1 None, Go 0 None] ?s =
     Some \<lparr>pl_queue = [1, 2], terminated = True, threads = [Destroyed, Ended], put = [1, 2], taken = []\<rparr>"
    by code_simp
  show ?thesis using Pool_destructor_returns [OF r _ run] run by simp
qed

text \<open>The queue of the pool is first-in first-out under any interleaving of any number of clients and workers:
  what was queued is what was taken followed by what is still queued, in this order; it never holds more
  than eight tasks; and a worker only runs a task that it has taken from the queue.\<close>

theorem Pool_fifo:
  assumes "reach pool_act (Pool_new m n) s"
  shows "put s = taken s @ pl_queue s \<and> length (pl_queue s) \<le> 8 \<and>
    (\<forall>t. Running t \<in> set (threads s) \<longrightarrow> t \<in> set (taken s))"
  using pool_fifo.inv_reach [OF assms fifo_new] by (simp add: fifo_inv_def)

theorem Pool_fifo_witness:
  "\<exists>s. reach pool_act (Pool_new 1 2) s \<and> Running ''a'' \<in> set (threads s) \<and> put s = [''a'', ''b''] \<and> ''a'' \<in> set (taken s) \<and> pl_queue s = [''b'']"
proof -
  let ?s = "\<lparr>pl_queue = [''b''], terminated = False, threads = [Idle, Running ''a'', WorkTest], put = [''a'', ''b''], taken = [''a'']\<rparr>"
  have "run_acts pool_act [Call 0 ''a'', Go 0 None, Go 0 None, Call 0 ''b'', Go 0 None, Go 0 None, Go 1 None] (Pool_new 1 2) = Some ?s"
    by code_simp
  then have r: "reach pool_act (Pool_new 1 2) ?s" by (rule run_acts_reach)
  show ?thesis using Pool_fifo [OF r] r by (intro exI [of _ ?s]) simp
qed

end
