(* ===== verification/As_Server.thy ===== *)
theory As_Server
  imports As_Pool
begin

text \<open>
  The rest of \<open>asio_lab\<close>: \<open>Connection\<close>, which sends messages over a socket one at a time, and the timers of
  \<open>Server\<close>. The library's part is the environment of the model: a strand runs the posted handlers one after the
  other and in the order of posting, the handler given to \<open>async_write\<close> is called once when the write has ended,
  with or without an error, and the handler given to \<open>async_wait\<close> is called once when the time has come.
\<close>

section \<open>Connection\<close>

text \<open>The outbox, the handlers posted to the strand, the buffers handed to \<open>async_write\<close> whose handler has not
  been called, and what was accepted and completed so far, with its success.\<close>

record Connection =
  posted :: "string list"
  outbox :: "string list"
  writing :: "string list"
  accepted :: "string list"
  completed :: "(string \<times> bool) list"

definition Connection_new :: Connection where
  "Connection_new = \<lparr>posted = [], outbox = [], writing = [], accepted = [], completed = []\<rparr>"

definition Write :: "string \<Rightarrow> Connection \<Rightarrow> Connection" where
  "Write message s = s\<lparr>posted := posted s @ [message]\<rparr>"

text \<open>\<open>outbox_[0]\<close> of an empty outbox is an access out of bounds.\<close>

definition DoWrite :: "Connection \<Rightarrow> Connection outcome" where
  "DoWrite s = (case outbox s of [] \<Rightarrow> Inl OutOfBounds | message # ms \<Rightarrow> Inr (s\<lparr>writing := writing s @ [message]\<rparr>))"

definition WriteImpl :: "string \<Rightarrow> Connection \<Rightarrow> Connection outcome" where
  "WriteImpl message s =
     (let s = s\<lparr>outbox := outbox s @ [message], accepted := accepted s @ [message]\<rparr>
      in if 1 < length (outbox s) then Inr s else DoWrite s)"

definition WriteHandler :: "bool \<Rightarrow> Connection \<Rightarrow> Connection outcome" where
  "WriteHandler error s =
     (case outbox s of [] \<Rightarrow> Inl OutOfBounds
      | m # ms \<Rightarrow>
          let s = s\<lparr>outbox := ms, completed := completed s @ [(m, \<not> error)]\<rparr>
          in if error then Inr s else if ms \<noteq> [] then DoWrite s else Inr s)"

text \<open>A caller writes, the strand runs the next posted \<open>WriteImpl\<close>, or a write ends.\<close>

datatype conn_action = WriteCall string | RunPosted | WriteDone bool

fun conn_act :: "conn_action \<Rightarrow> Connection outcome \<Rightarrow> Connection outcome option" where
  "conn_act a (Inl f) = None"
| "conn_act (WriteCall m) (Inr s) = Some (Inr (Write m s))"
| "conn_act RunPosted (Inr s) = (case posted s of [] \<Rightarrow> None | m # ms \<Rightarrow> Some (WriteImpl m (s\<lparr>posted := ms\<rparr>)))"
| "conn_act (WriteDone error) (Inr s) =
     (case writing s of [] \<Rightarrow> None | m # ms \<Rightarrow> Some (WriteHandler error (s\<lparr>writing := ms\<rparr>)))"

lemmas conn_defs = Write_def DoWrite_def WriteImpl_def WriteHandler_def

text \<open>The buffer of the write under way is the first message of the outbox, which stays there until its handler
  runs. No write under way with messages in the outbox means that a write has failed.\<close>

definition conn_inv :: "Connection \<Rightarrow> bool" where
  "conn_inv s \<longleftrightarrow>
     accepted s = map fst (completed s) @ outbox s \<and>
     (writing s = [] \<or> writing s = take 1 (outbox s)) \<and>
     (writing s = [] \<longrightarrow> outbox s \<noteq> [] \<longrightarrow> (\<exists>m. (m, False) \<in> set (completed s)))"

lemma conn_inv_act:
  assumes "\<exists>s. r = Inr s \<and> conn_inv s" "conn_act a r = Some r'"
  shows "\<exists>s. r' = Inr s \<and> conn_inv s"
proof -
  from assms(1) obtain s where s: "r = Inr s" "conn_inv s" by blast
  show ?thesis
  proof (cases a)
    case (WriteCall m)
    then show ?thesis using s assms(2) by (auto simp: conn_inv_def conn_defs)
  next
    case RunPosted
    then show ?thesis using s assms(2)
      by (cases "outbox s") (auto simp: conn_inv_def conn_defs split: list.splits)
  next
    case (WriteDone e)
    then obtain m ms where w: "writing s = [m]" "outbox s = m # ms"
      using s assms(2) by (cases "outbox s") (auto simp: conn_inv_def split: list.splits)
    then show ?thesis using s assms(2) WriteDone
      by (cases e; cases ms) (auto simp: conn_inv_def conn_defs)
  qed
qed

interpretation conn: step_invariant conn_act "\<lambda>r. \<exists>s. r = Inr s \<and> conn_inv s"
  by unfold_locales (rule conn_inv_act)

text \<open>All messages given to \<open>Write\<close>.\<close>

definition conn_calls :: "conn_action list \<Rightarrow> string list" where
  "conn_calls as = List.map_filter (\<lambda>a. case a of WriteCall m \<Rightarrow> Some m | _ \<Rightarrow> None) as"

lemma conn_calls_simps [simp]:
  "conn_calls [] = []" "conn_calls (WriteCall m # as) = m # conn_calls as" "conn_calls (RunPosted # as) = conn_calls as"
  "conn_calls (WriteDone e # as) = conn_calls as"
  by (simp_all add: conn_calls_def map_filter_simps)

lemma accepted_act:
  "conn_act a (Inr s) = Some (Inr s') \<Longrightarrow> accepted s' @ posted s' = accepted s @ posted s @ conn_calls [a]"
  by (cases a) (auto simp: conn_defs Let_def split: list.splits if_splits)

lemma conn_act_fault: "conn_act a r = Some r' \<Longrightarrow> \<exists>s. r = Inr s"
  by (cases r) auto

lemma accepted_run:
  "run_acts conn_act as (Inr s) = Some (Inr s') \<Longrightarrow> accepted s' @ posted s' = accepted s @ posted s @ conn_calls as"
proof (induction as arbitrary: s)
  case (Cons a as)
  then obtain r where r: "conn_act a (Inr s) = Some r" "run_acts conn_act as r = Some (Inr s')" by (auto split: bind_splits)
  then obtain s1 where s1: "r = Inr s1"
    by (cases as; cases r) (auto split: bind_splits)
  have "conn_calls (a # as) = conn_calls [a] @ conn_calls as" by (cases a) simp_all
  then show ?case using Cons.IH [of s1] r s1 accepted_act [of a s s1] by simp
qed simp
text \<open>C27. Messages leave a connection one at a time and in order: whatever the order in which calls, posted
  handlers and ended writes interleave, no handler finds the outbox empty, at most one write is under way and
  its buffer is the first message of the outbox, and the messages whose write has ended, those in the
  outbox and those still posted are together all messages of \<open>Write\<close>, in the order of the calls. Where no write has
  failed and nothing is posted or under way, every message has been written.\<close>

theorem Connection_in_order:
  assumes "run_acts conn_act as (Inr Connection_new) = Some r"
  shows "\<exists>s. r = Inr s \<and> writing s = take (length (writing s)) (outbox s) \<and> length (writing s) \<le> 1 \<and>
    map fst (completed s) @ outbox s @ posted s = conn_calls as \<and>
    (list_all snd (completed s) \<and> posted s = [] \<and> writing s = [] \<longrightarrow> map fst (completed s) = conn_calls as)"
proof -
  have "conn_inv Connection_new" by (simp add: conn_inv_def Connection_new_def)
  then obtain s where s: "r = Inr s" "conn_inv s" using conn.inv_run_acts [OF assms] by blast
  have "accepted s @ posted s = conn_calls as" using accepted_run [of as Connection_new s] assms s(1) by (simp add: Connection_new_def)
  then show ?thesis using s by (intro exI [of _ s], cases "outbox s") (auto simp: conn_inv_def list_all_iff)
qed

theorem Connection_in_order_witness:
  "\<exists>s. run_acts conn_act [WriteCall ''a'', WriteCall ''b'', RunPosted, RunPosted, WriteDone False, WriteDone False] (Inr Connection_new) = Some (Inr s) \<and>
     map fst (completed s) = [''a'', ''b'']"
proof -
  let ?s = "\<lparr>posted = [], outbox = [], writing = [], accepted = [''a'', ''b''], completed = [(''a'', True), (''b'', True)]\<rparr>"
  have run: "run_acts conn_act [WriteCall ''a'', WriteCall ''b'', RunPosted, RunPosted, WriteDone False, WriteDone False] (Inr Connection_new) = Some (Inr ?s)"
    by code_simp
  show ?thesis using Connection_in_order [OF run] run by (intro exI [of _ ?s]) simp
qed

text \<open>A connection whose outbox holds messages while no write is under way.\<close>

definition stalled :: "(string \<times> bool) list \<Rightarrow> string list \<Rightarrow> Connection outcome \<Rightarrow> bool" where
  "stalled done ob r \<longleftrightarrow> (\<exists>s. r = Inr s \<and> writing s = [] \<and> ob \<noteq> [] \<and> completed s = done \<and> (\<exists>more. outbox s = ob @ more))"

lemma stalled_act: "stalled done ob r \<Longrightarrow> conn_act a r = Some r' \<Longrightarrow> stalled done ob r'"
  by (cases a) (auto simp: stalled_def conn_defs Let_def split: list.splits)

interpretation conn_stall: step_invariant conn_act "stalled done ob"
  by unfold_locales (rule stalled_act)

text \<open>C40. One failed write silences the connection: if its handler runs while another message is in the outbox, then
  from then on, whatever is written later, no write is ever started again and all later messages pile up
  behind those that were waiting.\<close>

theorem Connection_stalls:
  assumes "outbox s = m # m' # ms" and "writing s = [m]"
  shows "\<exists>s1. conn_act (WriteDone True) (Inr s) = Some (Inr s1) \<and>
    (\<forall>as r. run_acts conn_act as (Inr s1) = Some r \<longrightarrow>
      (\<exists>s'. r = Inr s' \<and> writing s' = [] \<and> completed s' = completed s @ [(m, False)] \<and> (\<exists>more. outbox s' = m' # ms @ more)))"
proof -
  let ?s = "s\<lparr>writing := [], outbox := m' # ms, completed := completed s @ [(m, False)]\<rparr>"
  have step: "conn_act (WriteDone True) (Inr s) = Some (Inr ?s)" using assms by (simp add: WriteHandler_def)
  have "stalled (completed s @ [(m, False)]) (m' # ms) (Inr ?s)" by (simp add: stalled_def)
  then have "stalled (completed s @ [(m, False)]) (m' # ms) r" if "run_acts conn_act as (Inr ?s) = Some r" for as r
    using conn_stall.inv_run_acts [OF that] by blast
  then show ?thesis using step by (auto simp: stalled_def)
qed

theorem Connection_stalls_witness:
  "\<exists>s. run_acts conn_act [WriteCall ''a'', WriteCall ''b'', RunPosted, RunPosted, WriteDone True, WriteCall ''c'', RunPosted] (Inr Connection_new) = Some (Inr s) \<and>
     writing s = [] \<and> outbox s = [''b'', ''c''] \<and> completed s = [(''a'', False)]"
proof -
  let ?s = "\<lparr>posted = [], outbox = [''a'', ''b''], writing = [''a''], accepted = [''a'', ''b''], completed = []\<rparr>"
  have run: "run_acts conn_act [WriteCall ''a'', WriteCall ''b'', RunPosted, RunPosted] (Inr Connection_new) = Some (Inr ?s)"
    by code_simp
  obtain s1 where s1: "conn_act (WriteDone True) (Inr ?s) = Some (Inr s1)" and
    after: "\<forall>as r. run_acts conn_act as (Inr s1) = Some r \<longrightarrow>
      (\<exists>s'. r = Inr s' \<and> writing s' = [] \<and> completed s' = completed ?s @ [(''a'', False)] \<and> (\<exists>more. outbox s' = ''b'' # [] @ more))"
    using Connection_stalls [of ?s "''a''" "''b''" "[]"] by fastforce
  have s1_eq: "s1 = ?s\<lparr>outbox := [''b''], writing := [], completed := [(''a'', False)]\<rparr>" using s1 by (simp add: WriteHandler_def)
  have run1: "run_acts conn_act [WriteDone True] (Inr ?s) = Some (Inr s1)" by (simp only: run_acts.simps s1 bind.bind_lunit)
  have run2: "run_acts conn_act [WriteCall ''c'', RunPosted] (Inr s1) =
     Some (Inr (s1\<lparr>outbox := [''b'', ''c''], accepted := [''a'', ''b'', ''c'']\<rparr>))"
    by (simp add: s1_eq conn_defs)
  have "run_acts conn_act ([WriteCall ''a'', WriteCall ''b'', RunPosted, RunPosted] @ [WriteDone True] @ [WriteCall ''c'', RunPosted]) (Inr Connection_new) =
     Some (Inr (s1\<lparr>outbox := [''b'', ''c''], accepted := [''a'', ''b'', ''c'']\<rparr>))"
    unfolding run_acts_append run bind.bind_lunit run1 run2 ..
  then show ?thesis using after [rule_format, OF run2] by auto
qed

section \<open>Timers\<close>

text \<open>The deadline of a timer in microseconds, and whether a handler waits for it.\<close>

record TimerContext =
  tc_interval :: int
  tc_expires :: int
  tc_waiting :: bool

text \<open>The constructor starts the deadline at the time of construction.\<close>

definition TimerContext_new :: "int \<Rightarrow> int \<Rightarrow> TimerContext" where
  "TimerContext_new now interval_us = \<lparr>tc_interval = interval_us, tc_expires = now + interval_us, tc_waiting = False\<rparr>"

text \<open>\<open>Reschedule\<close> gives the handler to the pool, whatever its error code says, and waits for the deadline one interval after the last one.\<close>

definition TimerContext_Reschedule :: "TimerContext \<Rightarrow> TimerContext" where
  "TimerContext_Reschedule t = t\<lparr>tc_expires := tc_expires t + tc_interval t, tc_waiting := True\<rparr>"

record Server =
  sv_timer :: TimerContext
  sv_handlers :: "TimerContext list"
  sv_enqueued :: "(nat option \<times> int) list"      \<comment> \<open>calls of \<open>Enqueue\<close>: the timer, \<open>None\<close> for \<open>timer_\<close>, and the time\<close>

definition Server_new :: "int \<Rightarrow> Server" where
  "Server_new now = \<lparr>sv_timer = TimerContext_new now 100000, sv_handlers = [], sv_enqueued = []\<rparr>"

definition RegisterTimerHandler :: "int \<Rightarrow> int \<Rightarrow> Server \<Rightarrow> Server" where
  "RegisterTimerHandler now interval_ms s = s\<lparr>sv_handlers := sv_handlers s @ [TimerContext_new now interval_ms]\<rparr>"

definition Start :: "Server \<Rightarrow> Server" where
  "Start s = s\<lparr>sv_handlers := map (\<lambda>t. t\<lparr>tc_waiting := True\<rparr>) (sv_handlers s)\<rparr>"

text \<open>\<open>timer_.cancel()\<close> ends the wait on \<open>timer_\<close>, the timer of the server itself.\<close>

definition ShutDown :: "Server \<Rightarrow> Server" where
  "ShutDown s = s\<lparr>sv_timer := (sv_timer s)\<lparr>tc_waiting := False\<rparr>\<rparr>"

text \<open>\<open>Refresh\<close>, the handler of the server's own timer, gives the pool a task and waits again.\<close>

definition Server_Reschedule :: "int \<Rightarrow> Server \<Rightarrow> Server" where
  "Server_Reschedule now s = s\<lparr>sv_timer := TimerContext_Reschedule (sv_timer s), sv_enqueued := sv_enqueued s @ [(None, now)]\<rparr>"

definition Refresh :: "int \<Rightarrow> Server \<Rightarrow> Server" where "Refresh now s = Server_Reschedule now s"

text \<open>\<open>io_service.run\<close> at time \<open>now\<close> calls the handler of timer \<open>i\<close> or of the server's own timer, or the program shuts the server down.\<close>

datatype server_action = Fire nat int | FireOwn int | ShutDownCall

fun server_act :: "server_action \<Rightarrow> Server \<Rightarrow> Server option" where
  "server_act (Fire i now) s =
     (if i < length (sv_handlers s) \<and> tc_waiting (sv_handlers s ! i) \<and> tc_expires (sv_handlers s ! i) \<le> now
      then Some (s\<lparr>sv_handlers := (sv_handlers s)[i := TimerContext_Reschedule (sv_handlers s ! i)],
                   sv_enqueued := sv_enqueued s @ [(Some i, now)]\<rparr>)
      else None)"
| "server_act (FireOwn now) s = (if tc_waiting (sv_timer s) \<and> tc_expires (sv_timer s) \<le> now then Some (Refresh now s) else None)"
| "server_act ShutDownCall s = Some (ShutDown s)"

text \<open>The state of timer \<open>i\<close> follows from how often it has fired.\<close>

definition fired :: "nat \<Rightarrow> Server \<Rightarrow> nat" where
  "fired i s = length (filter (\<lambda>(k, now). k = Some i) (sv_enqueued s))"

definition timers_ok :: "TimerContext list \<Rightarrow> Server \<Rightarrow> bool" where
  "timers_ok ts s \<longleftrightarrow> length (sv_handlers s) = length ts \<and>
     (\<forall>i < length ts. sv_handlers s ! i = (ts ! i)\<lparr>tc_expires := tc_expires (ts ! i) + int (fired i s) * tc_interval (ts ! i), tc_waiting := True\<rparr>) \<and>
     \<not> tc_waiting (sv_timer s) \<and> None \<notin> fst ` set (sv_enqueued s)"

lemma timers_ok_act: assumes "timers_ok ts s" "server_act a s = Some s'" shows "timers_ok ts s'"
proof (cases a)
  case (Fire i now)
  then show ?thesis using assms
    by (auto simp: timers_ok_def fired_def TimerContext_Reschedule_def nth_list_update algebra_simps split: if_splits)
next
  case ShutDownCall
  then show ?thesis using assms by (auto simp: timers_ok_def fired_def ShutDown_def)
qed (use assms in \<open>auto simp: timers_ok_def split: if_splits\<close>)

interpretation timers: step_invariant server_act "timers_ok ts"
  by unfold_locales (rule timers_ok_act)

text \<open>The timers of a started server do not drift and do not stop: after any run of firings and of calls of \<open>ShutDown\<close>, each
  timer waits for its first deadline plus one interval for every time it has fired, however late the
  handlers ran. \<open>ShutDown\<close> cancels the server's own timer, on which nothing waits and which never fires.\<close>

theorem Server_timers:
  assumes "sv_enqueued s = []" and "\<not> tc_waiting (sv_timer s)" and "run_acts server_act as (Start s) = Some s'" and "i < length (sv_handlers s)"
  shows "sv_handlers s' ! i = (sv_handlers s ! i)\<lparr>tc_waiting := True,
    tc_expires := tc_expires (sv_handlers s ! i) + int (fired i s') * tc_interval (sv_handlers s ! i)\<rparr> \<and>
    None \<notin> fst ` set (sv_enqueued s')"
proof -
  have "timers_ok (sv_handlers s) (Start s)" using assms(1,2) by (auto simp: timers_ok_def Start_def fired_def)
  then have "timers_ok (sv_handlers s) s'" using timers.inv_run_acts [OF assms(3)] by blast
  then show ?thesis using assms(4) by (simp add: timers_ok_def)
qed

section \<open>DoAfter\<close>

text \<open>The handler that \<open>DoAfter\<close> hands to its timer: the function is called unless the wait was aborted or there is no function.\<close>

definition DoAfter_handler :: "bool \<Rightarrow> ('s \<Rightarrow> 's) option \<Rightarrow> 's \<Rightarrow> 's" where
  "DoAfter_handler aborted fn s = (case fn of Some f \<Rightarrow> if \<not> aborted then f s else s | None \<Rightarrow> s)"

end
