(* ===== verification/Gr_Server.thy ===== *)
theory Gr_Server
  imports Prelude Steps
begin

text \<open>
  The asynchronous server of \<open>grpc_lab\<close>: one heap object \<open>CallData\<close> per call, a state machine driven by the completion queue
  (\<open>calldata.cpp\<close>, \<open>server.cpp\<close>), and its client (\<open>async_client.cpp\<close>). The queue is the environment of the model: an
  event carries the address that was given with the request or with the answer and says whether it went well.
  A deleted object is an address without an object, and a use of it is a fault, as is a failed \<open>assert\<close>.
\<close>

section \<open>CallData\<close>

datatype CallStatus = CREATE | PROCESS | FINISH

type_synonym QueryParam = "32 word"        \<comment> \<open>\<open>index_type\<close>\<close>

record Index =
  index_type :: "32 word"
  index_name :: string

record CallData =
  cd_status :: CallStatus
  cd_request :: QueryParam

text \<open>The heap, the next free address, the addresses registered with \<open>RequestGet\<close> and those given to \<open>Finish\<close>; then
  what has happened: the requests received and the answers handed to \<open>Finish\<close>.\<close>

record RpcServer =
  objects :: "nat \<rightharpoonup> CallData"
  fresh :: nat
  requested :: "nat list"
  finishing :: "nat list"
  received :: "QueryParam list"
  answers :: "Index list"

definition OnCreate :: "nat \<Rightarrow> RpcServer \<Rightarrow> RpcServer outcome" where
  "OnCreate this s = bnd (of_opt DanglingUse (objects s this)) (\<lambda>d.
     bnd (guard AssertFailed (cd_status d = CREATE)) (\<lambda>_.
     Inr (s\<lparr>objects := (objects s)(this \<mapsto> d\<lparr>cd_status := PROCESS\<rparr>), requested := requested s @ [this]\<rparr>)))"

text \<open>\<open>new CallData\<close>: the constructor calls \<open>proceed\<close>, which finds the status \<open>CREATE\<close>.\<close>

definition CallData_new :: "RpcServer \<Rightarrow> RpcServer outcome" where
  "CallData_new s = OnCreate (fresh s)
     (s\<lparr>objects := (objects s)(fresh s \<mapsto> \<lparr>cd_status = CREATE, cd_request = 0\<rparr>), fresh := fresh s + 1\<rparr>)"

definition answer :: "QueryParam \<Rightarrow> Index" where
  "answer request = \<lparr>index_type = request, index_name = ''index_'' @ show_integer (sint request)\<rparr>"

definition OnProcess :: "nat \<Rightarrow> RpcServer \<Rightarrow> RpcServer outcome" where
  "OnProcess this s = bnd (of_opt DanglingUse (objects s this)) (\<lambda>d.
     bnd (guard AssertFailed (cd_status d = PROCESS)) (\<lambda>_.
     bnd (CallData_new s) (\<lambda>s.
     Inr (s\<lparr>objects := (objects s)(this \<mapsto> d\<lparr>cd_status := FINISH\<rparr>), finishing := finishing s @ [this],
       answers := answers s @ [answer (cd_request d)]\<rparr>))))"

definition OnFinish :: "nat \<Rightarrow> RpcServer \<Rightarrow> RpcServer outcome" where
  "OnFinish this s = bnd (of_opt DanglingUse (objects s this)) (\<lambda>d.
     bnd (guard AssertFailed (cd_status d = FINISH)) (\<lambda>_.
     Inr (s\<lparr>objects := (objects s)(this := None)\<rparr>)))"

definition proceed :: "nat \<Rightarrow> RpcServer \<Rightarrow> RpcServer outcome" where
  "proceed this s = bnd (of_opt DanglingUse (objects s this)) (\<lambda>d.
     case cd_status d of CREATE \<Rightarrow> OnCreate this s | PROCESS \<Rightarrow> OnProcess this s | FINISH \<Rightarrow> OnFinish this s)"

section \<open>HandleRpcs\<close>

text \<open>The events of the queue: a request has arrived for a registered object, whose request it fills in; the
  registration ended without one; an answer has been sent, or could not be.\<close>

datatype rpc_event = Arrived nat QueryParam | NoRequest nat | Sent nat | NotSent nat

definition store_request :: "nat \<Rightarrow> QueryParam \<Rightarrow> RpcServer \<Rightarrow> RpcServer" where
  "store_request tag q s = s\<lparr>objects := (objects s)(tag := map_option (\<lambda>d. d\<lparr>cd_request := q\<rparr>) (objects s tag)),
     requested := remove1 tag (requested s), received := received s @ [q]\<rparr>"

text \<open>One round of the loop: \<open>proceed\<close> where the event went well, a line of output otherwise.\<close>

fun HandleRpcs_round :: "rpc_event \<Rightarrow> RpcServer outcome \<Rightarrow> RpcServer outcome option" where
  "HandleRpcs_round e (Inl f) = None"
| "HandleRpcs_round (Arrived tag q) (Inr s) = (if tag \<in> set (requested s) then Some (proceed tag (store_request tag q s)) else None)"
| "HandleRpcs_round (NoRequest tag) (Inr s) =
     (if tag \<in> set (requested s) then Some (Inr (s\<lparr>requested := remove1 tag (requested s)\<rparr>)) else None)"
| "HandleRpcs_round (Sent tag) (Inr s) =
     (if tag \<in> set (finishing s) then Some (proceed tag (s\<lparr>finishing := remove1 tag (finishing s)\<rparr>)) else None)"
| "HandleRpcs_round (NotSent tag) (Inr s) =
     (if tag \<in> set (finishing s) then Some (Inr (s\<lparr>finishing := remove1 tag (finishing s)\<rparr>)) else None)"

definition RpcServer_empty :: RpcServer where
  "RpcServer_empty = \<lparr>objects = Map.empty, fresh = 0, requested = [], finishing = [], received = [], answers = []\<rparr>"

definition HandleRpcs_start :: "RpcServer outcome" where
  "HandleRpcs_start = CallData_new RpcServer_empty"

lemmas rpc_defs = OnCreate_def CallData_new_def OnProcess_def OnFinish_def proceed_def store_request_def

section \<open>The life of a call\<close>

text \<open>The requests that have arrived, and the objects whose event did not go well.\<close>

fun arrivals :: "rpc_event list \<Rightarrow> QueryParam list" where
  "arrivals [] = []"
| "arrivals (Arrived tag q # es) = q # arrivals es"
| "arrivals (e # es) = arrivals es"

fun failures :: "rpc_event list \<Rightarrow> nat set" where
  "failures [] = {}"
| "failures (NoRequest tag # es) = insert tag (failures es)"
| "failures (NotSent tag # es) = insert tag (failures es)"
| "failures (e # es) = failures es"

definition refused :: "rpc_event list \<Rightarrow> bool" where
  "refused es \<longleftrightarrow> (\<exists>tag. NoRequest tag \<in> set es)"

lemma arrivals_append: "arrivals (es @ es') = arrivals es @ arrivals es'"
  by (induction es rule: arrivals.induct) simp_all

lemma failures_append: "failures (es @ es') = failures es \<union> failures es'"
  by (induction es rule: failures.induct) auto

lemma refused_append: "refused (es @ es') \<longleftrightarrow> refused es \<or> refused es'"
  by (auto simp: refused_def)

text \<open>Every registered object waits for its request and every object given to \<open>Finish\<close> is finished; besides these only the
  objects of failed events are alive.\<close>

definition rpc_inv :: "rpc_event list \<Rightarrow> RpcServer \<Rightarrow> bool" where
  "rpc_inv es s \<longleftrightarrow>
     distinct (requested s @ finishing s) \<and> (set (requested s) \<union> set (finishing s)) \<inter> failures es = {} \<and>
     length (requested s) = (if refused es then 0 else 1) \<and>
     (\<forall>i \<in> set (requested s). map_option cd_status (objects s i) = Some PROCESS) \<and>
     (\<forall>i \<in> set (finishing s). map_option cd_status (objects s i) = Some FINISH) \<and>
     dom (objects s) = set (requested s) \<union> set (finishing s) \<union> failures es \<and>
     (\<forall>i \<in> dom (objects s). i < fresh s) \<and>
     received s = arrivals es \<and> answers s = map answer (arrivals es)"

lemma CallData_new_eq:
  "CallData_new s = Inr (s\<lparr>objects := (objects s)(fresh s \<mapsto> \<lparr>cd_status = PROCESS, cd_request = 0\<rparr>), fresh := fresh s + 1,
     requested := requested s @ [fresh s]\<rparr>)"
  by (simp add: CallData_new_def OnCreate_def)

lemma Arrived_eq:
  assumes "objects s tag = Some d" "cd_status d = PROCESS"
  shows "proceed tag (store_request tag q s) =
    Inr (s\<lparr>objects := (objects s)(tag \<mapsto> d\<lparr>cd_request := q\<rparr>, fresh s \<mapsto> \<lparr>cd_status = PROCESS, cd_request = 0\<rparr>,
         tag \<mapsto> d\<lparr>cd_status := FINISH, cd_request := q\<rparr>),
      fresh := fresh s + 1, requested := remove1 tag (requested s) @ [fresh s], finishing := finishing s @ [tag],
      received := received s @ [q], answers := answers s @ [answer q]\<rparr>)"
  using assms by (cases s; cases d) (simp add: proceed_def OnProcess_def store_request_def CallData_new_eq)

lemma Sent_eq:
  assumes "objects s tag = Some d" "cd_status d = FINISH"
  shows "proceed tag (s\<lparr>finishing := fs\<rparr>) = Inr (s\<lparr>objects := (objects s)(tag := None), finishing := fs\<rparr>)"
  using assms by (simp add: proceed_def OnFinish_def)

lemmas history_append = arrivals_append failures_append refused_append

lemma rpc_Arrived:
  assumes inv: "rpc_inv es s" and tag: "tag \<in> set (requested s)"
  shows "\<exists>s'. proceed tag (store_request tag q s) = Inr s' \<and> rpc_inv (es @ [Arrived tag q]) s'"
proof -
  obtain d where d: "objects s tag = Some d" "cd_status d = PROCESS" using inv tag by (auto simp: rpc_inv_def)
  have req: "requested s = [tag]" "\<not> refused es"
    using inv tag by (auto simp: rpc_inv_def length_Suc_conv split: if_splits)
  have "fresh s \<notin> dom (objects s)" using inv by (auto simp: rpc_inv_def)
  then have new: "fresh s \<noteq> tag" "fresh s \<notin> set (finishing s)" "fresh s \<notin> failures es" using inv req by (auto simp: rpc_inv_def)
  have tag': "tag \<notin> set (finishing s)" "tag \<notin> failures es" using inv req by (auto simp: rpc_inv_def)
  show ?thesis unfolding Arrived_eq [OF d] using inv req new tag'
    by (auto simp: rpc_inv_def history_append refused_def less_Suc_eq)
qed

lemma rpc_Sent:
  assumes inv: "rpc_inv es s" and tag: "tag \<in> set (finishing s)"
  shows "\<exists>s'. proceed tag (s\<lparr>finishing := remove1 tag (finishing s)\<rparr>) = Inr s' \<and> rpc_inv (es @ [Sent tag]) s'"
proof -
  obtain d where d: "objects s tag = Some d" "cd_status d = FINISH" using inv tag by (auto simp: rpc_inv_def)
  have "set (remove1 tag (finishing s)) = set (finishing s) - {tag}" using inv by (simp add: rpc_inv_def)
  then show ?thesis unfolding Sent_eq [OF d] using inv tag
    by (auto simp: rpc_inv_def history_append refused_def)
qed

lemma rpc_failed:
  assumes "rpc_inv es s"
  shows "tag \<in> set (requested s) \<Longrightarrow> rpc_inv (es @ [NoRequest tag]) (s\<lparr>requested := remove1 tag (requested s)\<rparr>)"
    and "tag \<in> set (finishing s) \<Longrightarrow> rpc_inv (es @ [NotSent tag]) (s\<lparr>finishing := remove1 tag (finishing s)\<rparr>)"
  using assms by (auto simp: rpc_inv_def history_append refused_def length_remove1 split: if_splits)

lemma rpc_act:
  assumes "\<exists>s. r = Inr s \<and> rpc_inv es s" "HandleRpcs_round e r = Some r'"
  shows "\<exists>s. r' = Inr s \<and> rpc_inv (es @ [e]) s"
proof -
  from assms(1) obtain s where s: "r = Inr s" "rpc_inv es s" by blast
  show ?thesis using assms(2) rpc_Arrived [OF s(2)] rpc_Sent [OF s(2)] rpc_failed [OF s(2)]
    by (cases e) (auto simp: s(1) split: if_splits)
qed

interpretation rpc: step_history HandleRpcs_round "\<lambda>es r. \<exists>s. r = Inr s \<and> rpc_inv es s"
  by unfold_locales (rule rpc_act)

lemma rpc_start: "\<exists>s. HandleRpcs_start = Inr s \<and> rpc_inv [] s"
  by (auto simp: HandleRpcs_start_def CallData_new_eq RpcServer_empty_def rpc_inv_def refused_def)

text \<open>C28. The asynchronous server handles every sequence of completion events without a failed assertion and
  without touching a deleted call. Each request is answered exactly once and in order, with its own type
  and the name \<open>index_\<close> followed by it; the calls alive are the one registered for the next request, which there is
  as long as no registration failed, those whose answer is being sent, and those of failed events,
  which are never deleted.\<close>

theorem HandleRpcs_correct:
  assumes "run_acts HandleRpcs_round es HandleRpcs_start = Some r"
  shows "\<exists>s. r = Inr s \<and> answers s = map answer (arrivals es) \<and>
    length (requested s) = (if refused es then 0 else 1) \<and>
    dom (objects s) = set (requested s) \<union> set (finishing s) \<union> failures es \<and>
    (set (requested s) \<union> set (finishing s)) \<inter> failures es = {}"
proof -
  obtain s0 where "HandleRpcs_start = Inr s0" "rpc_inv [] s0" using rpc_start by blast
  then obtain s where "r = Inr s" "rpc_inv es s" using rpc.inv_run_acts [OF assms, of "[]"] by auto
  then show ?thesis by (auto simp: rpc_inv_def)
qed

text \<open>Two requests, of types 7 and -1; the first answer is sent, the second is not.\<close>

theorem HandleRpcs_correct_witness:
  "\<exists>s. run_acts HandleRpcs_round [Arrived 0 7, Arrived 1 (- 1), Sent 0, NotSent 1] HandleRpcs_start = Some (Inr s) \<and>
     map index_name (answers s) = [''index_7'', ''index_-1''] \<and> dom (objects s) = {1, 2}"
proof -
  have run: "\<exists>r. run_acts HandleRpcs_round [Arrived 0 7, Arrived 1 (- 1), Sent 0, NotSent 1] HandleRpcs_start = Some r \<and>
      (\<forall>s. r = Inr s \<longrightarrow> requested s = [2] \<and> finishing s = [])"
    by (simp add: HandleRpcs_start_def CallData_new_eq RpcServer_empty_def rpc_defs)
  have name: "map index_name (map answer [7, - 1]) = [''index_7'', ''index_-1'']"
    by (simp add: answer_def show_integer_def show_nat.simps digit_char_def)
  show ?thesis using run HandleRpcs_correct [of "[Arrived 0 7, Arrived 1 (- 1), Sent 0, NotSent 1]"] name by auto
qed

section \<open>AsyncClient\<close>

text \<open>The responses on the heap, by address, and the calls under way; the lines written.\<close>

record RpcResponse =
  request_id :: int
  query :: QueryParam

record AsyncClient =
  responses :: "nat \<rightharpoonup> RpcResponse"
  next_response :: nat
  under_way :: "nat list"
  lines_out :: "string list"

definition AsyncClient_new :: AsyncClient where
  "AsyncClient_new = \<lparr>responses = Map.empty, next_response = 0, under_way = [], lines_out = []\<rparr>"

definition AsyncGetIndex :: "int \<Rightarrow> QueryParam \<Rightarrow> AsyncClient \<Rightarrow> AsyncClient" where
  "AsyncGetIndex rid index c =
     c\<lparr>responses := (responses c)(next_response c \<mapsto> \<lparr>request_id = rid, query = index\<rparr>), next_response := next_response c + 1,
       under_way := under_way c @ [next_response c]\<rparr>"

definition RpcResponse_ToString :: "RpcResponse \<Rightarrow> string" where
  "RpcResponse_ToString r = ''Response of request '' @ show_integer (request_id r)"

text \<open>One round of \<open>DoRun\<close>: the response is printed, whether or not the call went well, and deleted.\<close>

definition DoRun_round :: "nat \<Rightarrow> bool \<Rightarrow> AsyncClient \<Rightarrow> AsyncClient outcome" where
  "DoRun_round tag ok c =
     (let c = (if ok then c else c\<lparr>lines_out := lines_out c @ [''not ok'']\<rparr>) in
      bnd (of_opt DanglingUse (responses c tag)) (\<lambda>r.
      Inr (c\<lparr>lines_out := lines_out c @ [RpcResponse_ToString r], responses := (responses c)(tag := None)\<rparr>)))"

datatype client_event = Ask int QueryParam | Completed nat bool

fun client_act :: "client_event \<Rightarrow> AsyncClient outcome \<Rightarrow> AsyncClient outcome option" where
  "client_act e (Inl f) = None"
| "client_act (Ask rid index) (Inr c) = Some (Inr (AsyncGetIndex rid index c))"
| "client_act (Completed tag ok) (Inr c) =
     (if tag \<in> set (under_way c) then Some (DoRun_round tag ok (c\<lparr>under_way := remove1 tag (under_way c)\<rparr>)) else None)"

definition client_inv :: "AsyncClient \<Rightarrow> bool" where
  "client_inv c \<longleftrightarrow> dom (responses c) = set (under_way c) \<and> distinct (under_way c) \<and> (\<forall>i \<in> set (under_way c). i < next_response c)"

lemma client_inv_act:
  assumes "\<exists>c. r = Inr c \<and> client_inv c" "client_act e r = Some r'"
  shows "\<exists>c. r' = Inr c \<and> client_inv c"
proof -
  from assms(1) obtain c where c: "r = Inr c" "client_inv c" by blast
  show ?thesis
  proof (cases e)
    case (Ask rid index)
    then show ?thesis using assms(2) c by (auto simp: AsyncGetIndex_def client_inv_def less_Suc_eq)
  next
    case (Completed tag ok)
    then obtain r where "responses c tag = Some r" using assms(2) c by (auto simp: client_inv_def split: if_splits)
    moreover have "set (remove1 tag (under_way c)) = set (under_way c) - {tag}" using c(2) by (simp add: client_inv_def)
    ultimately show ?thesis using assms(2) c Completed by (auto simp: DoRun_round_def Let_def client_inv_def split: if_splits)
  qed
qed

interpretation client: step_invariant client_act "\<lambda>r. \<exists>c. r = Inr c \<and> client_inv c"
  by unfold_locales (rule client_inv_act)

text \<open>The client never touches a deleted response, and the responses on its heap are those of the calls under way.\<close>

theorem AsyncClient_no_leak:
  assumes "run_acts client_act es (Inr AsyncClient_new) = Some r"
  shows "\<exists>c. r = Inr c \<and> dom (responses c) = set (under_way c)"
proof -
  have "client_inv AsyncClient_new" by (simp add: client_inv_def AsyncClient_new_def)
  then show ?thesis using client.inv_run_acts [OF assms] by (auto simp: client_inv_def)
qed

text \<open>\<open>GetIndex\<close>, which waits for its answer: the assertions on the tag and on the flag, then the reply or nothing.\<close>

definition GetIndex :: "(nat \<times> bool) \<Rightarrow> bool \<Rightarrow> Index \<Rightarrow> (32 word \<times> string) option outcome" where
  "GetIndex ev status_ok reply = (case ev of (got_tag, ok) \<Rightarrow>
     bnd (guard AssertFailed (got_tag = 1)) (\<lambda>_. bnd (guard AssertFailed ok) (\<lambda>_.
     Inr (if status_ok then Some (index_type reply, index_name reply) else None))))"

text \<open>The client of \<open>main\<close>: nine calls, then \<open>Stop\<close>.\<close>

definition main_client :: "QueryParam \<Rightarrow> AsyncClient" where
  "main_client flags_index = fold (\<lambda>i. AsyncGetIndex (int i) (flags_index + word_of_nat i)) [1..<10] AsyncClient_new"

end
