(* ===== verification/Jl_Load.thy ===== *)
theory Jl_Load
  imports Prelude
begin

text \<open>
  \<open>just_lab/main.cpp\<close>: a program that writes a matrix of random vectors to a file and reads such a file back in
  slices of rows. Floats are opaque: their random source, the addition to the first column and their printing
  are arguments. Memory holds \<open>None\<close> where nothing was written yet.
\<close>

section \<open>MakeData and Print\<close>

text \<open>Row \<open>i\<close> takes \<open>dim\<close> numbers from the source; its first is changed by \<open>i/1000\<close>.\<close>

definition MakeData :: "(nat \<Rightarrow> 'f) \<Rightarrow> ('f \<Rightarrow> nat \<Rightarrow> 'f) \<Rightarrow> nat \<Rightarrow> nat \<Rightarrow> 'f list" where
  "MakeData drand48 bump dim sz =
     concat (map (\<lambda>i. map (\<lambda>j. if j = 0 then bump (drand48 (dim * i)) i else drand48 (dim * i + j)) [0..<dim]) [0..<sz])"

definition Print :: "('f \<Rightarrow> string) \<Rightarrow> (nat \<Rightarrow> 'f option) \<Rightarrow> nat \<Rightarrow> nat \<Rightarrow> string outcome" where
  "Print show_float repo dim sz =
     map_sum id (\<lambda>s. s @ ''\<newline>'') (fold (\<lambda>i r. bnd (fold (\<lambda>j r. bnd r (\<lambda>s. bnd (of_opt Uninitialised (repo (dim * i + j))) (\<lambda>x.
        Inr (s @ show_float x @ '', '')))) [0..<dim] r) (\<lambda>s. Inr (s @ ''\<newline>''))) [0..<sz] (Inr ''''))"

section \<open>The file\<close>

record 'f matrix_file =
  mf_dim :: nat
  mf_size :: nat
  mf_floats :: "'f list"

definition dump_file :: "nat \<Rightarrow> nat \<Rightarrow> 'f list \<Rightarrow> 'f matrix_file" where
  "dump_file dim sz repo = \<lparr>mf_dim = dim, mf_size = sz, mf_floats = take (dim * sz) repo\<rparr>"

text \<open>\<open>f.read(repo + at, n floats)\<close> into an array of \<open>cap\<close> floats: the numbers left in the file, at most \<open>n\<close>.\<close>

definition read_floats :: "nat \<Rightarrow> nat \<Rightarrow> nat \<Rightarrow> (nat \<Rightarrow> 'f option) \<times> 'f list \<Rightarrow> ((nat \<Rightarrow> 'f option) \<times> 'f list) outcome" where
  "read_floats cap at n = (\<lambda>(repo, fl).
     if cap < at + min n (length fl) then Inl OutOfBounds
     else Inr (\<lambda>i. if at \<le> i \<and> i < at + min n (length fl) then Some (fl ! (i - at)) else repo i, drop n fl))"

text \<open>The loop over slices. The offset \<open>pos*sizeof(float)\<close> counts floats, since \<open>repo\<close> points to floats; \<open>pos\<close> is a 32-bit
  integer. With a slice that is not positive \<open>left\<close> never gets smaller.\<close>

function load_loop ::
  "nat \<Rightarrow> nat \<Rightarrow> int \<Rightarrow> int \<Rightarrow> int \<Rightarrow> nat \<Rightarrow> (nat \<Rightarrow> 'f option) \<times> 'f list \<Rightarrow> ((nat \<Rightarrow> 'f option) \<times> nat) outcome" where
  "load_loop cap dim slc remaining pos cnt m =
     (if remaining \<le> 0 then Inr (fst m, cnt)
      else if slc \<le> 0 then Inl Diverges
      else let to_load = (if slc \<le> remaining then slc else remaining) in
        if pos < 0 then Inl OutOfBounds
        else bnd (read_floats cap (nat pos * 4) (dim * nat to_load) m) (\<lambda>m.
          load_loop cap dim slc (remaining - to_load) (sint (word_of_int (pos + to_load) :: 32 word)) (cnt + 1) m))"
  by pat_completeness auto
termination by (relation "measure (\<lambda>(cap, dim, slc, remaining, pos, cnt, m). nat remaining)") auto

declare load_loop.simps [simp del]

definition load_file :: "int \<Rightarrow> 'f matrix_file \<Rightarrow> ((nat \<Rightarrow> 'f option) \<times> nat) outcome" where
  "load_file slc f =
     load_loop (mf_dim f * mf_size f) (mf_dim f) slc (int (mf_size f)) 0 0 (\<lambda>_. None, mf_floats f)"

section \<open>Which matrices survive\<close>

lemma pos_small: "0 \<le> p \<Longrightarrow> p < 2 ^ 31 \<Longrightarrow> sint (word_of_int p :: 32 word) = p"
  by (simp add: signed_of_int signed_take_bit_int_eq_self)
lemma read_floats_ok:
  "length fl = n + k \<Longrightarrow> at + n \<le> cap \<Longrightarrow>
     read_floats cap at n (repo, fl) = Inr (\<lambda>i. if at \<le> i \<and> i < at + n then Some (fl ! (i - at)) else repo i, drop n fl)"
  by (simp add: read_floats_def min_def)

lemma read_floats_overflow: "length fl = n + k \<Longrightarrow> cap < at + n \<Longrightarrow> read_floats cap at n (repo, fl) = Inl OutOfBounds"
  by (simp add: read_floats_def min_def)

text \<open>One round, in natural numbers: \<open>n\<close> rows are loaded at row \<open>p\<close>, \<open>k\<close> rows are left.\<close>

lemma load_round:
  assumes "0 < n" "p + n + k < 2 ^ 31" "k = 0 \<and> int n \<le> slc \<or> int n = slc"
  shows "load_loop cap dim slc (int (n + k)) (int p) cnt m =
    bnd (read_floats cap (p * 4) (dim * n) m) (load_loop cap dim slc (int k) (int (p + n)) (cnt + 1))"
proof -
  have "sint (word_of_int (int p + int n) :: 32 word) = int (p + n)" using pos_small [of "int (p + n)"] assms(2) by simp
  then show ?thesis using assms by (subst load_loop.simps) (auto simp: Let_def)
qed

lemma load_done: "load_loop cap dim slc 0 p cnt m = Inr (fst m, cnt)"
  by (subst load_loop.simps) simp

text \<open>How many rows the next round takes.\<close>

lemma next_rows:
  assumes "0 < rows" "0 < slc"
  obtains n k where "rows = n + k" "0 < n" "k = 0 \<and> int n \<le> slc \<or> int n = slc"
proof (cases "int rows \<le> slc")
  case True
  then show ?thesis using assms that [of rows 0] by simp
next
  case False
  then show ?thesis using assms that [of "nat slc" "rows - nat slc"] by simp
qed

text \<open>Rows of four numbers arrive where they belong.\<close>

lemma load_four:
  assumes "0 < slc" "length xs = 4 * sz" "p + rows = sz" "sz < 2 ^ 31"
  shows "\<exists>cnt'. load_loop (4 * sz) 4 slc (int rows) (int p) cnt (\<lambda>i. if i < 4 * p then Some (xs ! i) else None, drop (4 * p) xs) =
    Inr (\<lambda>i. if i < 4 * sz then Some (xs ! i) else None, cnt')"
  using assms(3)
proof (induction rows arbitrary: p cnt rule: less_induct)
  case (less rows)
  show ?case
  proof (cases "rows = 0")
    case True
    then show ?thesis using less.prems by (simp add: load_done)
  next
    case False
    then obtain n k where nk: "rows = n + k" "0 < n" "k = 0 \<and> int n \<le> slc \<or> int n = slc" using next_rows assms(1) by blast
    have "(\<lambda>i. if p * 4 \<le> i \<and> i < p * 4 + 4 * n then Some (drop (4 * p) xs ! (i - p * 4)) else if i < 4 * p then Some (xs ! i) else None) =
        (\<lambda>i. if i < 4 * (p + n) then Some (xs ! i) else None)"
      using assms(2) less.prems nk(1) by (auto simp: fun_eq_iff)
    moreover have "drop (4 * n) (drop (4 * p) xs) = drop (4 * (p + n)) xs" by (simp add: algebra_simps)
    ultimately have "read_floats (4 * sz) (p * 4) (4 * n) (\<lambda>i. if i < 4 * p then Some (xs ! i) else None, drop (4 * p) xs) =
        Inr (\<lambda>i. if i < 4 * (p + n) then Some (xs ! i) else None, drop (4 * (p + n)) xs)"
      using assms(2) less.prems nk(1) by (simp only: read_floats_ok [where k = "4 * k"] length_drop)
    then show ?thesis using less.IH [of k "p + n" "cnt + 1"] nk less.prems assms(4)
      by (simp add: load_round [OF nk(2) _ nk(3), of p, simplified])
  qed
qed

text \<open>Shorter rows run over the end of the array, in the last round at the latest.\<close>

lemma load_short:
  assumes "0 < slc" "0 < dim" "dim < 4" "sz < 2 ^ 31"
  shows "0 < p \<Longrightarrow> 0 < rows \<Longrightarrow> p + rows = sz \<Longrightarrow> length fl = dim * rows \<Longrightarrow>
    load_loop (dim * sz) dim slc (int rows) (int p) cnt (repo, fl) = Inl OutOfBounds"
proof (induction rows arbitrary: p cnt repo fl rule: less_induct)
  case (less rows)
  obtain n k where nk: "rows = n + k" "0 < n" "k = 0 \<and> int n \<le> slc \<or> int n = slc" using next_rows assms(1) less.prems by blast
  have fl: "length fl = dim * n + dim * k" using less.prems nk(1) by (simp add: algebra_simps)
  have small: "p + n + k < 2 ^ 31" using less.prems nk(1) assms(4) by simp
  show ?case
  proof (cases "dim * sz < p * 4 + dim * n")
    case True
    then show ?thesis using nk(1) by (simp add: load_round [OF nk(2) small nk(3), simplified] read_floats_overflow [OF fl True])
  next
    case False
    then have "0 < k" using nk less.prems assms(3) by (cases "k = 0") (auto simp: algebra_simps)
    have "length (drop (dim * n) fl) = dim * k" using fl by simp
    moreover have "p * 4 + dim * n \<le> dim * sz" using False by simp
    ultimately show ?thesis unfolding nk(1) load_round [OF nk(2) small nk(3)] using \<open>0 < k\<close> nk less.prems
      by (simp add: read_floats_ok [OF fl] less.IH del: of_nat_add)
  qed
qed

text \<open>Longer rows are written too far to the front: the last number of the array is never written.\<close>

lemma load_long:
  assumes "0 < slc" "4 < dim" "sz < 2 ^ 31"
  shows "0 < p \<Longrightarrow> p + rows = sz \<Longrightarrow> length fl = dim * rows \<Longrightarrow> repo (dim * sz - 1) = None \<Longrightarrow>
    \<exists>repo' cnt'. load_loop (dim * sz) dim slc (int rows) (int p) cnt (repo, fl) = Inr (repo', cnt') \<and> repo' (dim * sz - 1) = None"
proof (induction rows arbitrary: p cnt repo fl rule: less_induct)
  case (less rows)
  show ?case
  proof (cases "rows = 0")
    case True
    then show ?thesis using less.prems by (simp add: load_done)
  next
    case False
    then obtain n k where nk: "rows = n + k" "0 < n" "k = 0 \<and> int n \<le> slc \<or> int n = slc" using next_rows assms(1) by blast
    have fl: "length fl = dim * n + dim * k" using less.prems nk(1) by (simp add: algebra_simps)
    have "p * 4 < p * dim" using assms(2) less.prems(1) by simp
    moreover have "p * dim + n * dim \<le> sz * dim" using less.prems(2) nk(1) by (metis add_mult_distrib le_add1 add.assoc mult_le_mono1)
    ultimately have "p * 4 + n * dim < sz * dim" by linarith
    then have room: "p * 4 + dim * n < dim * sz" by (simp only: mult.commute)
    have small: "p + n + k < 2 ^ 31" using less.prems nk(1) assms(3) by simp
    have "length (drop (dim * n) fl) = dim * k" using fl by simp
    moreover let ?repo = "\<lambda>i. if p * 4 \<le> i \<and> i < p * 4 + dim * n then Some (fl ! (i - p * 4)) else repo i"
    have "\<not> dim * sz - 1 < p * 4 + dim * n" using room by linarith
    then have "?repo (dim * sz - 1) = None" using less.prems(4) by simp
    ultimately have "\<exists>repo' cnt'. load_loop (dim * sz) dim slc (int k) (int (p + n)) (cnt + 1) (?repo, drop (dim * n) fl) = Inr (repo', cnt') \<and>
        repo' (dim * sz - 1) = None"
      using nk(1,2) less.prems(1,2) by (intro less.IH) auto
    then show ?thesis unfolding nk(1) load_round [OF nk(2) small nk(3)] read_floats_ok [OF fl less_imp_le [OF room]] bnd_Inr .
  qed
qed

lemma load_once:
  assumes "0 < sz" "int sz \<le> slc" "length xs = dim * sz" "sz < 2 ^ 31"
  shows "load_loop (dim * sz) dim slc (int sz) 0 0 (\<lambda>_. None, xs) = Inr (\<lambda>i. if i < dim * sz then Some (xs ! i) else None, 1)"
  using load_round [of sz 0 0 slc "dim * sz" dim 0 "(\<lambda>_. None, xs)"] read_floats_ok [of xs "dim * sz" 0 0 "dim * sz" "\<lambda>_. None"] assms
  by (simp add: load_done cong: if_cong)

text \<open>After the first of several slices.\<close>

lemma load_first:
  assumes "0 < slc" "slc < int sz" "length xs = dim * sz" "sz < 2 ^ 31"
  shows "load_loop (dim * sz) dim slc (int sz) 0 0 (\<lambda>_. None, xs) =
    load_loop (dim * sz) dim slc (int (sz - nat slc)) (int (nat slc)) 1
      (\<lambda>i. if i < dim * nat slc then Some (xs ! i) else None, drop (dim * nat slc) xs)"
proof -
  have len: "length xs = dim * nat slc + dim * (sz - nat slc)" using assms by (simp add: distrib_left [symmetric])
  have "dim * nat slc \<le> dim * sz" using assms(2) by (intro mult_le_mono2) linarith
  then show ?thesis
    using load_round [of "nat slc" 0 "sz - nat slc" slc "dim * sz" dim 0 "(\<lambda>_. None, xs)"] assms
      read_floats_ok [OF len, of 0 "dim * sz" "\<lambda>_. None"] by (simp cong: if_cong)
qed

lemma load_last_free: "0 < slc \<Longrightarrow> slc < int sz \<Longrightarrow> 4 < dim \<Longrightarrow> \<not> dim * sz - 1 < dim * nat slc"
proof -
  assume "0 < slc" "slc < int sz" "4 < (dim :: nat)"
  then have "dim * nat slc < dim * sz" by (intro mult_less_mono2) auto
  then show ?thesis by linarith
qed



end
