(* ===== verification/Rk_Demo.thy ===== *)
theory Rk_Demo
  imports Ad_Doc
begin

text \<open>
  The programs around the stores of \<open>rocksdb_lab\<close>: \<open>document_demo\<close> and the ranges of \<open>MT_CREATE_TABLE\<close> in \<open>main.cpp\<close>, the table of vector
  indexes (\<open>index.h\<close>, \<open>index.cpp\<close>), and the filling and searching of segments (\<open>db_op.cpp\<close>). RocksDB is a type \<open>'db\<close> with a put and a get
  for a column family \<open>'h\<close>; times are not modelled.
\<close>

section \<open>document_demo\<close>

text \<open>The float 12.5 by its bits.\<close>

definition demo_f1 :: ad_field where "demo_f1 = Ad_NumericField_value AFloat ''f1'' 0x41480000"
definition demo_f2 :: ad_field where "demo_f2 = Ad_StringField_value ''f2'' ''hello world''"
definition demo_f3 :: ad_field where "demo_f3 = Ad_NumericField_value ALong ''f3'' 10000"
definition demo_f4 :: ad_field where "demo_f4 = Ad_NumericField_value AInt ''f4'' 20000"

definition demo_schema :: ad_doc where
  "demo_schema = Ad_AddField demo_f2 (Ad_AddField demo_f1 Ad_empty)"

text \<open>The lines before the schema is printed, and those after it.\<close>

definition demo_head :: "(float32 \<Rightarrow> string) \<Rightarrow> string list outcome" where
  "demo_head show_float =
     bnd (Ad_Field_ToPrintableString show_float demo_f1) (\<lambda>s1.
     bnd (Ad_Field_ToPrintableString show_float demo_f2) (\<lambda>s2.
     bnd (Ad_Field_ToPrintableString show_float demo_f3) (\<lambda>s3.
     bnd (Ad_Field_ToPrintableString show_float demo_f4) (\<lambda>s4.
     Inr ([s1, s1, s2, s2, s3, s4] @ map (show_nat \<circ> Ad_CodeSize) [demo_f1, demo_f2, demo_f3, demo_f4])))))"

definition demo_tail :: "(float32 \<Rightarrow> string) \<Rightarrow> string list outcome" where
  "demo_tail show_float =
     (let tdoc = snd (Ad_Doc_AddField demo_f2 (snd (Ad_Doc_AddField demo_f1 (Ad_Doc_new demo_schema)))) in
      let sf1 = Ad_Field_Serialize demo_f1 [] in
      bnd (Ad_Field_Deserialize sf1) (\<lambda>(ff1, consumed).
      bnd (of_opt NullDeref ff1) (\<lambda>ff1.
      bnd (Ad_Field_ToPrintableString show_float ff1) (\<lambda>p.
      case Ad_GetField_name ''f3'' (ad_base tdoc) of
        None \<Rightarrow> Inr [map char_of_byte sf1, p, ''Cannot get field f3'']
      | Some gf3 \<Rightarrow> bnd (Ad_Field_ToPrintableString show_float gf3) (\<lambda>g.
          Inr [map char_of_byte sf1, p, ad_name gf3, g])))))"

definition document_demo :: "(float32 \<Rightarrow> string) \<Rightarrow> string list outcome" where
  "document_demo show_float =
     bnd (demo_head show_float) (\<lambda>head.
     bnd (Ad_Schema_Serialize demo_schema []) (\<lambda>schema_serialized.
     bnd (Ad_Schema_Deserialize schema_serialized Ad_empty) (\<lambda>ttschema.
     bnd (Ad_Schema_ToPrintableString show_float ttschema) (\<lambda>printed.
     bnd (demo_tail show_float) (\<lambda>tail.
     Inr (head @ [''schema serialized='' @ map char_of_byte schema_serialized,
       ''size of schema_serialized is '' @ show_nat (length schema_serialized), printed] @ tail))))))"

lemmas demo_fields = demo_f1_def demo_f2_def demo_f3_def demo_f4_def Ad_NumericField_value_def Ad_StringField_value_def Ad_Field_new_def

lemma demo_fid: "fid_field demo_schema = [demo_f1, demo_f2]"
  by (simp add: demo_schema_def Ad_AddField_def Ad_empty_def demo_fields)

lemma demo_print: "\<exists>s. Ad_Field_ToPrintableString show_float f = Inr s" if "f \<in> {demo_f1, demo_f2, demo_f3, demo_f4}"
  using that by (auto simp: Ad_Field_ToPrintableString_def demo_fields ad_numeric_def Deserialize_num_def Serialize_num_bytes)

lemma Schema_Deserialize_Cons: "Ad_Schema_Deserialize (b # data) d = Ad_Deserialize_loop (unat b) data d"
  by (simp add: Ad_Schema_Deserialize_def Deserialize_u8 [unfolded One_nat_def])

text \<open>Reading back the schema of the demonstration gives its two fields without values.\<close>

lemma demo_read:
  "\<exists>data d. Ad_Schema_Serialize demo_schema [] = Inr data \<and> Ad_Schema_Deserialize data Ad_empty = Inr d \<and>
     fid_field d = map ad_bare [demo_f1, demo_f2]"
proof -
  let ?fs = "[demo_f1, demo_f2]"
  have w: "\<forall>f \<in> set ?fs. ad_writable f" by (simp add: ad_writable_def demo_fields)
  have two: "unat (2 :: u8) = length ?fs" by simp
  have "Ad_Schema_Serialize demo_schema [] = Inr (2 # ad_enc 0 ?fs)"
    using Serialize_loop_enc [of ?fs 0] unfolding Ad_Schema_Serialize_def Let_def Serialize_u8 demo_fid by simp
  moreover have "Ad_Schema_Deserialize (2 # ad_enc 0 ?fs) Ad_empty = Inr (fold Ad_AddField (map ad_bare ?fs) Ad_empty)"
    using Ad_Deserialize_loop_enc [OF w, of 0 "[]" Ad_empty] unfolding Schema_Deserialize_Cons two append_Nil2 .
  moreover have "fid_field (fold Ad_AddField (map ad_bare ?fs) Ad_empty) = map ad_bare ?fs"
    by (simp add: Ad_AddField_def Ad_empty_def ad_bare_def demo_fields)
  ultimately show ?thesis by blast
qed

text \<open>C0. The demonstration of documents cannot run to its end: after writing and reading its schema it prints the
  schema it has read, whose float field has no value, and reads outside the empty string.\<close>

theorem document_demo_faults: "document_demo show_float = Inl OutOfBounds"
proof -
  obtain head where head: "demo_head show_float = Inr head"
    using demo_print [of demo_f1 show_float] demo_print [of demo_f2 show_float] demo_print [of demo_f3 show_float] demo_print [of demo_f4 show_float]
    by (auto simp: demo_head_def)
  obtain data d where "Ad_Schema_Serialize demo_schema [] = Inr data" "Ad_Schema_Deserialize data Ad_empty = Inr d"
    "fid_field d = map ad_bare [demo_f1, demo_f2]" using demo_read by blast
  moreover from this have "Ad_Schema_ToPrintableString show_float d = Inl OutOfBounds"
    using print_bare [of "[demo_f1, demo_f2]"] by (simp add: Ad_Schema_ToPrintableString_def demo_fields ad_numeric_def)
  ultimately show ?thesis using head by (simp add: document_demo_def)
qed

section \<open>The ranges of MT_CREATE_TABLE\<close>

definition mt_ranges :: "nat \<Rightarrow> nat \<Rightarrow> (nat \<times> nat) list outcome" where
  "mt_ranges sz tnum =
     (if tnum = 0 then Inl DivByZero
      else let step = sz div tnum in
        Inr (map (\<lambda>i. (i * step, if i + 1 = tnum then sz else (i + 1) * step)) [0..<tnum]))"

text \<open>The threads together create every table exactly once.\<close>

theorem mt_ranges_cover:
  assumes "0 < tnum"
  shows "\<exists>rs. mt_ranges sz tnum = Inr rs \<and> length rs = tnum \<and> concat (map (\<lambda>(a, b). [a..<b]) rs) = [0..<sz]"
proof -
  let ?step = "sz div tnum"
  have pre: "concat (map (\<lambda>i. [i * ?step..<(i + 1) * ?step]) [0..<k]) = [0..<k * ?step]" for k
  proof (induction k)
    case (Suc k)
    then show ?case using upt_add_eq_append [of 0 "k * ?step" ?step] by (simp add: add.commute)
  qed simp
  obtain k where k: "tnum = Suc k" using assms gr0_implies_Suc by blast
  have "k * ?step \<le> sz" using k div_times_less_eq_dividend [of sz "Suc k"] by (simp add: mult.commute)
  then have "[0..<k * ?step] @ [k * ?step..<sz] = [0..<sz]" using upt_add_eq_append [of 0 "k * ?step" "sz - k * ?step"] by simp
  moreover have "concat (map (\<lambda>(a, b). [a..<b]) (map (\<lambda>i. (i * ?step, if i + 1 = tnum then sz else (i + 1) * ?step)) [0..<tnum])) =
      concat (map (\<lambda>i. [i * ?step..<(i + 1) * ?step]) [0..<k]) @ [k * ?step..<sz]"
    unfolding k upt_Suc_append [OF le0] by (auto simp: comp_def intro!: arg_cong [where f = concat] map_cong)
  ultimately show ?thesis using assms pre [of k] by (simp add: mt_ranges_def Let_def)
qed

section \<open>IndexHub\<close>

type_synonym 'i IndexHub = "(u64 \<times> u64) \<rightharpoonup> 'i option"       \<comment> \<open>a pointer to an index may be null\<close>

definition SetIndex :: "u64 \<Rightarrow> u64 \<Rightarrow> 'i option \<Rightarrow> 'i IndexHub \<Rightarrow> bool \<times> 'i IndexHub" where
  "SetIndex tid sid index hub = (True, hub((tid, sid) \<mapsto> index))"

definition GetIndex_hub :: "u64 \<Rightarrow> u64 \<Rightarrow> 'i IndexHub \<Rightarrow> 'i option" where
  "GetIndex_hub tid sid hub = (case hub (tid, sid) of None \<Rightarrow> None | Some index \<Rightarrow> index)"

lemma GetIndex_SetIndex:
  "GetIndex_hub t s (snd (SetIndex tid sid index hub)) = (if t = tid \<and> s = sid then index else GetIndex_hub t s hub)"
  by (simp add: GetIndex_hub_def SetIndex_def)
section \<open>Segments\<close>

definition segment_names :: "string \<Rightarrow> nat \<Rightarrow> string list" where
  "segment_names db_path_prefix n = map (\<lambda>i. db_path_prefix @ ''segment_'' @ show_nat i) [0..<n]"

definition mock_key :: "string \<Rightarrow> nat \<Rightarrow> string" where "mock_key pre i = pre @ ''mock_prefix_user_key:'' @ show_nat i"
definition mock_value :: "nat \<Rightarrow> string" where "mock_value i = ''mock_prefix_user_value:'' @ show_nat i"

definition mock_data :: "('h \<Rightarrow> string \<Rightarrow> string \<Rightarrow> 'db \<Rightarrow> 'db) \<Rightarrow> 'h \<Rightarrow> nat \<Rightarrow> string \<Rightarrow> 'db \<Rightarrow> 'db" where
  "mock_data put_kv handle num pre db = fold (\<lambda>i. put_kv handle (mock_key pre i) (mock_value i)) [0..<num] db"

text \<open>What the searches find; the program drops it unless its \<open>debug\<close> flag is set.\<close>

definition search_seg :: "('h \<Rightarrow> string \<Rightarrow> 'db \<Rightarrow> string option) \<Rightarrow> 'h \<Rightarrow> nat \<Rightarrow> string \<Rightarrow> 'db \<Rightarrow> string option list" where
  "search_seg get_kv handle n pre db = map (\<lambda>i. get_kv handle (mock_key pre i) db) [0..<n]"

definition segment_prefix :: "string \<Rightarrow> string \<Rightarrow> string" where
  "segment_prefix segment pre = segment @ (if pre \<noteq> [] then '':'' @ pre else [])"

text \<open>Both loops over the segments. Each works on its own database, so that with a thread per segment the result is the same.
  \<open>operator[]\<close> gives a null handle for a segment that was not selected, and \<open>GetName\<close> on it is a fault.\<close>

fun mock_segments_data ::
  "('h \<Rightarrow> string \<Rightarrow> string \<Rightarrow> 'db \<Rightarrow> 'db) \<Rightarrow> (string \<rightharpoonup> 'h) \<Rightarrow> nat \<Rightarrow> string \<Rightarrow> (string \<times> 'db) list \<Rightarrow> (string \<times> 'db) list outcome" where
  "mock_segments_data put_kv sel sz pre [] = Inr []"
| "mock_segments_data put_kv sel sz pre ((seg, db) # dbs) =
     bnd (of_opt NullDeref (sel seg)) (\<lambda>handle.
     bnd (mock_segments_data put_kv sel sz pre dbs) (\<lambda>dbs.
     Inr ((seg, mock_data put_kv handle sz (segment_prefix seg pre) db) # dbs)))"

fun search_segments ::
  "('h \<Rightarrow> string \<Rightarrow> 'db \<Rightarrow> string option) \<Rightarrow> (string \<rightharpoonup> 'h) \<Rightarrow> nat \<Rightarrow> string \<Rightarrow> (string \<times> 'db) list \<Rightarrow> string option list list outcome" where
  "search_segments get_kv sel n pre [] = Inr []"
| "search_segments get_kv sel n pre ((seg, db) # dbs) =
     bnd (of_opt NullDeref (sel seg)) (\<lambda>handle.
     bnd (search_segments get_kv sel n pre dbs) (\<lambda>rs.
     Inr (search_seg get_kv handle n (segment_prefix seg pre) db # rs)))"

text \<open>A key and its value end in the same number, so that a key that is written twice keeps its value.\<close>

lemma mock_data_get:
  assumes kv: "\<And>h k v db h' k'. get_kv h' k' (put_kv h k v db) = (if h' = h \<and> k' = k then Some v else get_kv h' k' db)" and "i < num"
  shows "get_kv handle (mock_key pre i) (mock_data put_kv handle num pre db) = Some (mock_value i)"
  using assms(2)
proof (induction num)
  case (Suc num)
  then show ?case by (cases "i = num") (auto simp: mock_data_def kv mock_key_def mock_value_def less_Suc_eq)
qed simp

text \<open>Searching the segments right after they were filled finds every value.\<close>

theorem search_after_mock:
  assumes kv: "\<And>h k v db h' k'. get_kv h' k' (put_kv h k v db) = (if h' = h \<and> k' = k then Some v else get_kv h' k' db)"
    and "n \<le> sz" and "\<forall>seg \<in> fst ` set dbs. sel seg \<noteq> None"
  shows "\<exists>dbs'. mock_segments_data put_kv sel sz pre dbs = Inr dbs' \<and>
    search_segments get_kv sel n pre dbs' = Inr (map (\<lambda>_. map (Some \<circ> mock_value) [0..<n]) dbs)"
  using assms(3)
proof (induction dbs)
  case (Cons d dbs)
  obtain seg db handle where d: "d = (seg, db)" "sel seg = Some handle" using Cons.prems by (cases d) auto
  then show ?case using Cons assms(2) by (auto simp: search_seg_def mock_data_get [OF kv])
qed simp

end
