(* ===== verification/Kf_Lab.thy ===== *)
theory Kf_Lab
  imports Prelude
begin

text \<open>
  \<open>kafka_lab\<close>: a producer that sends the lines of its input to a topic (\<open>main.cpp\<close>, \<open>producer.cpp\<close>) and a consumer that prints what it
  receives until it reaches the end of the partition or an error (\<open>consumer.cpp\<close>). The Kafka library is the environment: a list of
  messages to consume, and the answer of \<open>rd_kafka_produce\<close> to each message sent.
\<close>

section \<open>The consumer\<close>

datatype ErrorCode_kafka = ERR_TIMED_OUT | ERR_NO_ERROR | ERR_PARTITION_EOF | ERR_UNKNOWN_TOPIC | ERR_UNKNOWN_PARTITION | ERR_OTHER

record Message =
  m_err :: ErrorCode_kafka
  m_offset :: int
  m_key :: "string option"
  m_payload :: "string option"
  m_errstr :: string

record Consumer =
  run_flag :: bool
  out_lines :: "string list"
  err_lines :: "string list"

definition print_message :: "Message \<Rightarrow> string list outcome" where
  "print_message m = bnd (of_opt NullDeref (m_payload m)) (\<lambda>p.
     Inr ([''Read msg at offset '' @ show_integer (m_offset m)] @ (case m_key m of None \<Rightarrow> [] | Some k \<Rightarrow> [''Key: '' @ k]) @ [p]))"

definition consume_failed :: "Message \<Rightarrow> Consumer \<Rightarrow> Consumer" where
  "consume_failed m c = c\<lparr>err_lines := err_lines c @ [''Consume failed: '' @ m_errstr m], run_flag := False\<rparr>"

text \<open>The cases of an unknown topic or partition fall through to the default. \<open>exit_eof\<close> is true.\<close>

definition msg_consume :: "Message \<Rightarrow> Consumer \<Rightarrow> Consumer outcome" where
  "msg_consume m c = (case m_err m of
       ERR_TIMED_OUT \<Rightarrow> Inr c
     | ERR_NO_ERROR \<Rightarrow> bnd (print_message m) (\<lambda>ls. Inr (c\<lparr>out_lines := out_lines c @ ls\<rparr>))
     | ERR_PARTITION_EOF \<Rightarrow> Inr (c\<lparr>out_lines := out_lines c @ [''reach last message''], run_flag := False\<rparr>)
     | ERR_UNKNOWN_TOPIC \<Rightarrow> Inr (consume_failed m (consume_failed m c))
     | ERR_UNKNOWN_PARTITION \<Rightarrow> Inr (consume_failed m (consume_failed m c))
     | ERR_OTHER \<Rightarrow> Inr (consume_failed m c))"

text \<open>The loop on the messages that arrive: \<open>None\<close> while it waits for more, otherwise what it leaves unread.\<close>

fun pull_loop :: "Message list \<Rightarrow> Consumer \<Rightarrow> (Consumer \<times> Message list) option outcome" where
  "pull_loop ms c =
     (if \<not> run_flag c then Inr (Some (c, ms))
      else case ms of [] \<Rightarrow> Inr None | m # ms \<Rightarrow> bnd (msg_consume m c) (pull_loop ms))"

declare pull_loop.simps [simp del]

definition Consumer_new :: Consumer where
  "Consumer_new = \<lparr>run_flag = True, out_lines = [], err_lines = []\<rparr>"

text \<open>A message that the loop goes on after, and what it prints.\<close>

definition goes_on :: "Message \<Rightarrow> bool" where
  "goes_on m \<longleftrightarrow> m_err m = ERR_TIMED_OUT \<or> m_err m = ERR_NO_ERROR"

definition printed :: "Message \<Rightarrow> string list" where
  "printed m = (if m_err m = ERR_NO_ERROR then projr (print_message m) else [])"

lemma pull_goes_on:
  "list_all (\<lambda>m. goes_on m \<and> m_payload m \<noteq> None) ms \<Longrightarrow> run_flag c \<Longrightarrow>
     pull_loop (ms @ rest) c = pull_loop rest (c\<lparr>out_lines := out_lines c @ concat (map printed ms)\<rparr>)"
proof (induction ms arbitrary: c)
  case (Cons m ms)
  let ?c = "c\<lparr>out_lines := out_lines c @ printed m\<rparr>"
  have "msg_consume m c = Inr ?c"
    using Cons.prems by (auto simp: msg_consume_def goes_on_def printed_def print_message_def)
  then have "pull_loop ((m # ms) @ rest) c = pull_loop (ms @ rest) ?c"
    using Cons.prems(2) by (subst pull_loop.simps) simp
  then show ?case using Cons.IH [of ?c] Cons.prems by simp
qed simp

text \<open>The consumer prints the messages before the first that ends the loop, in order, and reads nothing
  after that one; without such a message it goes on waiting.\<close>

lemma pull_data_prints:
  assumes "list_all (\<lambda>m. goes_on m \<and> m_payload m \<noteq> None) ms"
  shows "\<not> goes_on m \<Longrightarrow> \<exists>c. pull_loop (ms @ m # rest) Consumer_new = Inr (Some (c, rest)) \<and> \<not> run_flag c \<and>
      out_lines c = concat (map printed ms) @ (if m_err m = ERR_PARTITION_EOF then [''reach last message''] else [])"
    and "pull_loop ms Consumer_new = Inr None"
proof -
  show "pull_loop ms Consumer_new = Inr None"
    using pull_goes_on [OF assms, of Consumer_new "[]"] by (simp add: Consumer_new_def pull_loop.simps)
  assume "\<not> goes_on m"
  let ?c = "Consumer_new\<lparr>out_lines := concat (map printed ms)\<rparr>"
  obtain c where c: "msg_consume m ?c = Inr c" "\<not> run_flag c"
    "out_lines c = concat (map printed ms) @ (if m_err m = ERR_PARTITION_EOF then [''reach last message''] else [])"
    using \<open>\<not> goes_on m\<close> by (cases "m_err m") (auto simp: msg_consume_def goes_on_def consume_failed_def)
  have "pull_loop (ms @ m # rest) Consumer_new = pull_loop (m # rest) ?c"
    using pull_goes_on [OF assms, of Consumer_new "m # rest"] by (simp add: Consumer_new_def)
  also have "\<dots> = Inr (Some (c, rest))" using c by (simp add: pull_loop.simps Consumer_new_def)
  finally show "\<exists>c. pull_loop (ms @ m # rest) Consumer_new = Inr (Some (c, rest)) \<and> \<not> run_flag c \<and>
      out_lines c = concat (map printed ms) @ (if m_err m = ERR_PARTITION_EOF then [''reach last message''] else [])"
    using c by blast
qed

section \<open>The producer\<close>

text \<open>\<open>fgets\<close> with a buffer of 100 characters: at most 99 characters, up to and with the end of the line; \<open>None\<close> at the end of the input.\<close>

definition newline :: char where "newline = CHR 0x0A"

fun fgets_take :: "nat \<Rightarrow> string \<Rightarrow> string \<times> string" where
  "fgets_take 0 s = ([], s)"
| "fgets_take (Suc n) [] = ([], [])"
| "fgets_take (Suc n) (c # s) = (if c = newline then ([c], s) else map_prod (Cons c) id (fgets_take n s))"

definition fgets :: "string \<Rightarrow> (string \<times> string) option" where
  "fgets s = (if s = [] then None else Some (fgets_take 99 s))"

text \<open>The C string in a buffer ends before its first null character.\<close>

definition c_string :: "string \<Rightarrow> string" where
  "c_string buf = takeWhile (\<lambda>c. c \<noteq> CHR 0x00) buf"

text \<open>The text of a round: \<open>test_data[len-1]\<close> of an empty string lies before the array.\<close>

definition line_text :: "string \<Rightarrow> string outcome" where
  "line_text buf =
     (let s = c_string buf in
      if s = [] then Inl OutOfBounds else Inr (if last s = newline then butlast s else s))"

text \<open>The messages sent and the lines of standard output; the note about a sent message on the error stream is left out.\<close>

record Producer =
  sent :: "string list"
  said :: "string list"

definition push_data_to_kafka :: "bool \<Rightarrow> string \<Rightarrow> Producer \<Rightarrow> bool \<times> Producer" where
  "push_data_to_kafka produced buf p = (if produced then (True, p\<lparr>sent := sent p @ [buf]\<rparr>) else (False, p))"

definition push_line :: "bool \<Rightarrow> string \<Rightarrow> Producer \<Rightarrow> Producer" where
  "push_line produced text p =
     (let (ok, p) = push_data_to_kafka produced text p in
      p\<lparr>said := said p @ [(if ok then ''push data success '' else ''push data failed '') @ text]\<rparr>)"

lemma fgets_take_length: "length (snd (fgets_take n s)) \<le> length s"
  by (induction n s rule: fgets_take.induct) auto

lemma fgets_take_less: "s \<noteq> [] \<Longrightarrow> length (snd (fgets_take (Suc n) s)) < length s"
  by (cases s) (auto simp: le_imp_less_Suc fgets_take_length)

lemma fgets_shorter: "fgets s = Some (buf, rest) \<Longrightarrow> length rest < length s"
  using fgets_take_less [of s 98] by (auto simp: fgets_def split: if_splits)

text \<open>The loop of \<open>main\<close>; \<open>produced\<close> are the answers of the library to the messages in order.\<close>

function produce_loop :: "(nat \<Rightarrow> bool) \<Rightarrow> nat \<Rightarrow> string \<Rightarrow> Producer \<Rightarrow> Producer outcome" where
  "produce_loop produced k input p =
     (case fgets input of None \<Rightarrow> Inr p
      | Some (buf, rest) \<Rightarrow> bnd (line_text buf) (\<lambda>text.
          if text = ''end'' then Inr p else produce_loop produced (k + 1) rest (push_line (produced k) text p)))"
  by pat_completeness auto
termination by (relation "measure (\<lambda>(produced, k, input, p). length input)") (auto dest: fgets_shorter)

declare produce_loop.simps [simp del]

definition Producer_new :: Producer where "Producer_new = \<lparr>sent = [], said = []\<rparr>"

text \<open>A line that fits the buffer with its end.\<close>

definition plain_line :: "string \<Rightarrow> bool" where
  "plain_line l \<longleftrightarrow> length l < 99 \<and> newline \<notin> set l \<and> CHR 0x00 \<notin> set l"

lemma fgets_take_line: "newline \<notin> set l \<Longrightarrow> length l < n \<Longrightarrow> fgets_take n (l @ newline # rest) = (l @ [newline], rest)"
proof (induction l arbitrary: n)
  case Nil
  then show ?case by (cases n) auto
next
  case (Cons c l)
  then show ?case by (cases n) auto
qed

lemma fgets_line: "plain_line l \<Longrightarrow> fgets (l @ newline # rest) = Some (l @ [newline], rest)"
  by (simp add: fgets_def plain_line_def fgets_take_line)

lemma line_text_line: "plain_line l \<Longrightarrow> line_text (l @ [newline]) = Inr l"
proof -
  assume "plain_line l"
  then have "c_string (l @ [newline]) = l @ [newline]"
    by (auto simp: c_string_def plain_line_def newline_def takeWhile_eq_all_conv)
  then show ?thesis by (simp add: line_text_def Let_def)
qed

lemma produce_line:
  "plain_line l \<Longrightarrow> produce_loop produced k (l @ newline # rest) p =
     (if l = ''end'' then Inr p else produce_loop produced (k + 1) rest (push_line (produced k) l p))"
  by (subst produce_loop.simps) (simp add: fgets_line line_text_line)

lemma produce_lines:
  "list_all (\<lambda>l. plain_line l \<and> l \<noteq> ''end'') ls \<Longrightarrow>
   \<exists>p'. produce_loop (\<lambda>_. True) k (concat (map (\<lambda>l. l @ [newline]) ls) @ rest) p =
       produce_loop (\<lambda>_. True) (k + length ls) rest p' \<and> sent p' = sent p @ ls"
proof (induction ls arbitrary: k p)
  case Nil
  show ?case by (intro exI [of _ p]) simp
next
  case (Cons l ls)
  let ?p = "push_line True l p"
  have "sent ?p = sent p @ [l]" by (simp add: push_line_def push_data_to_kafka_def)
  moreover obtain p' where "produce_loop (\<lambda>_. True) (k + 1) (concat (map (\<lambda>l. l @ [newline]) ls) @ rest) ?p =
      produce_loop (\<lambda>_. True) (k + 1 + length ls) rest p'" "sent p' = sent ?p @ ls"
    using Cons.IH [of "k + 1" ?p] Cons.prems by auto
  ultimately show ?case using Cons.prems by (intro exI [of _ p']) (simp add: produce_line)
qed

section \<open>From the producer's input to the consumer's output\<close>

text \<open>The lines of a message that was received: its offset, its key if it has one, its text.\<close>

definition shown :: "Message \<Rightarrow> string \<Rightarrow> string list" where
  "shown m l = [''Read msg at offset '' @ show_integer (m_offset m)] @ (case m_key m of None \<Rightarrow> [] | Some k \<Rightarrow> [''Key: '' @ k]) @ [l]"

lemma printed_payload:
  "map m_payload ms = map Some ls \<Longrightarrow> list_all (\<lambda>m. m_err m = ERR_NO_ERROR) ms \<Longrightarrow>
   map printed ms = map2 shown ms ls \<and> list_all (\<lambda>m. goes_on m \<and> m_payload m \<noteq> None) ms"
proof (induction ms arbitrary: ls)
  case (Cons m ms)
  then obtain l ls' where "ls = l # ls'" "m_payload m = Some l" "map m_payload ms = map Some ls'" by (cases ls) auto
  then show ?case using Cons by (auto simp: printed_def print_message_def shown_def goes_on_def)
qed simp

lemma produce_until_end:
  assumes "list_all (\<lambda>l. plain_line l \<and> l \<noteq> ''end'') ls"
  shows "\<exists>p. produce_loop (\<lambda>_. True) 0 (concat (map (\<lambda>l. l @ [newline]) ls) @ ''end'' @ newline # rest) Producer_new = Inr p \<and> sent p = ls"
proof -
  have plain: "plain_line ''end''" by (simp add: plain_line_def newline_def)
  have stop: "produce_loop (\<lambda>_. True) k (''end'' @ newline # rest) p = Inr p" for k p
    unfolding produce_line [OF plain] by (rule if_P) (rule refl)
  obtain p where "produce_loop (\<lambda>_. True) 0 (concat (map (\<lambda>l. l @ [newline]) ls) @ (''end'' @ newline # rest)) Producer_new =
      produce_loop (\<lambda>_. True) (0 + length ls) (''end'' @ newline # rest) p" "sent p = sent Producer_new @ ls"
    using produce_lines [OF assms, of 0 "''end'' @ newline # rest" Producer_new] by blast
  then show ?thesis unfolding stop by (intro exI [of _ p] conjI) (simp_all only: Producer_new_def Producer.simps append_Nil)
qed



end
