(* ===== verification/Tp_Main.thy ===== *)
theory Tp_Main
  imports Tp_Metric Rk_Queue Steps "HOL-Library.Multiset"
begin

text \<open>
  \<open>duckdb_lab/main.cpp\<close> puts the parts together: the main thread registers one driver per worker with the runner, queues the tasks
  of the factory in the thread pool and destroys the pool, whose workers each take a task, ask the runner for a driver, run the
  transaction and give the driver back. The pool notifies all waiting threads after every change, so that a thread waits exactly
  while its condition is false. Contexts are opaque here; what a task does with its driver is in \<open>Tp_Driver\<close>.
\<close>

section \<open>The threads of the program\<close>

datatype 'c lane =
    Waiting              \<comment> \<open>in the loop of a worker of the pool\<close>
  | Holding 'c           \<comment> \<open>in \<open>Task::Run\<close>, asking for a driver\<close>
  | Using 'c nat         \<comment> \<open>in \<open>Task::Run\<close> with a driver\<close>
  | Left                 \<comment> \<open>the worker has returned\<close>

record 'c bench =
  b_todo :: "'c list"
  b_pool :: "'c ThreadPool"
  b_idle :: "nat Runner"
  b_lanes :: "'c lane list"
  b_ran :: "('c \<times> nat) list"

definition bench_new :: "nat \<Rightarrow> 'c list \<Rightarrow> 'c bench" where
  "bench_new n cs = \<lparr>b_todo = cs, b_pool = ThreadPool_new n 1000, b_idle = fold RegisterDriver [0..<n] [],
     b_lanes = replicate n Waiting, b_ran = []\<rparr>"

datatype bench_action = QueueNext | DestroyPool | Lane nat

definition set_lane :: "nat \<Rightarrow> 'c lane \<Rightarrow> 'c bench \<Rightarrow> 'c bench" where
  "set_lane i l s = s\<lparr>b_lanes := (b_lanes s)[i := l]\<rparr>"

text \<open>A turn of a worker: taking a task or returning, getting a driver (while there is none it keeps asking), ending the task.\<close>

fun lane_step :: "nat \<Rightarrow> 'c lane \<Rightarrow> 'c bench \<Rightarrow> 'c bench option" where
  "lane_step i Waiting s = (case worker_round (b_pool s) of None \<Rightarrow> None
     | Some (Inl p) \<Rightarrow> Some (set_lane i Left (s\<lparr>b_pool := p\<rparr>))
     | Some (Inr (c, p)) \<Rightarrow> Some (set_lane i (Holding c) (s\<lparr>b_pool := p\<rparr>)))"
| "lane_step i (Holding c) s = (case Runner_Use (b_idle s) of None \<Rightarrow> None
     | Some (d, idle) \<Rightarrow> Some (set_lane i (Using c d) (s\<lparr>b_idle := idle\<rparr>)))"
| "lane_step i (Using c d) s = Some (set_lane i Waiting (s\<lparr>b_idle := Runner_Release d (b_idle s), b_ran := b_ran s @ [(c, d)]\<rparr>))"
| "lane_step i Left s = None"

fun bench_act :: "bench_action \<Rightarrow> 'c bench \<Rightarrow> 'c bench option" where
  "bench_act QueueNext s = (case b_todo s of [] \<Rightarrow> None
     | c # cs \<Rightarrow> (case enqueue c (b_pool s) of Some (Inr p) \<Rightarrow> Some (s\<lparr>b_todo := cs, b_pool := p\<rparr>) | _ \<Rightarrow> None))"
| "bench_act DestroyPool s = (if b_todo s = [] \<and> \<not> stop_flag (b_pool s) then Some (s\<lparr>b_pool := ThreadPool_stop (b_pool s)\<rparr>) else None)"
| "bench_act (Lane i) s = (if i < length (b_lanes s) then lane_step i (b_lanes s ! i) s else None)"

section \<open>The invariant\<close>

fun lane_task :: "'c lane \<Rightarrow> 'c list" where
  "lane_task (Holding c) = [c]"
| "lane_task (Using c d) = [c]"
| "lane_task _ = []"

fun lane_driver :: "'c lane \<Rightarrow> nat list" where
  "lane_driver (Using c d) = [d]"
| "lane_driver _ = []"

fun lane_weight :: "'c lane \<Rightarrow> nat" where
  "lane_weight Waiting = 1"
| "lane_weight (Holding c) = 3"
| "lane_weight (Using c d) = 2"
| "lane_weight Left = 0"

definition lanes_tasks :: "'c lane list \<Rightarrow> 'c multiset" where "lanes_tasks ls = mset (concat (map lane_task ls))"
definition lanes_drivers :: "'c lane list \<Rightarrow> nat multiset" where "lanes_drivers ls = mset (concat (map lane_driver ls))"

definition bench_inv :: "nat \<Rightarrow> 'c list \<Rightarrow> 'c bench \<Rightarrow> bool" where
  "bench_inv n cs s \<longleftrightarrow>
     length (b_lanes s) = n \<and> max_queue_size (b_pool s) = 1000 \<and>
     mset (b_idle s) + lanes_drivers (b_lanes s) = mset [0..<n] \<and>
     mset (b_todo s) + mset (tasks (b_pool s)) + lanes_tasks (b_lanes s) + mset (map fst (b_ran s)) = mset cs \<and>
     (stop_flag (b_pool s) \<longrightarrow> b_todo s = []) \<and>
     (Left \<in> set (b_lanes s) \<longrightarrow> stop_flag (b_pool s) \<and> tasks (b_pool s) = [])"

definition bench_weight :: "'c bench \<Rightarrow> nat" where
  "bench_weight s = 4 * length (b_todo s) + 3 * length (tasks (b_pool s)) + of_bool (\<not> stop_flag (b_pool s)) +
     sum_list (map lane_weight (b_lanes s))"

lemma mset_concat_update:
  "i < length ls \<Longrightarrow> mset (concat (map f (ls[i := l]))) + mset (f (ls ! i)) = mset (concat (map f ls)) + mset (f l)"
proof (induction ls arbitrary: i)
  case (Cons x xs)
  then show ?case by (cases i) (auto simp: ac_simps)
qed simp

lemma lanes_update:
  assumes "i < length ls"
  shows "lanes_tasks (ls[i := l]) + mset (lane_task (ls ! i)) = lanes_tasks ls + mset (lane_task l)"
    and "lanes_drivers (ls[i := l]) + mset (lane_driver (ls ! i)) = lanes_drivers ls + mset (lane_driver l)"
  using mset_concat_update [OF assms] by (simp_all add: lanes_tasks_def lanes_drivers_def)

lemma lane_weight_update:
  "i < length ls \<Longrightarrow> sum_list (map lane_weight (ls[i := l])) + lane_weight (ls ! i) = sum_list (map lane_weight ls) + lane_weight l"
proof (induction ls arbitrary: i)
  case (Cons x xs)
  then show ?case by (cases i) auto
qed simp

lemma set_lane_sel [simp]:
  "b_todo (set_lane i l s) = b_todo s" "b_pool (set_lane i l s) = b_pool s" "b_idle (set_lane i l s) = b_idle s"
  "b_ran (set_lane i l s) = b_ran s" "b_lanes (set_lane i l s) = (b_lanes s)[i := l]"
  by (simp_all add: set_lane_def)

lemma Left_update: "Left \<in> set (ls[i := l]) \<Longrightarrow> l \<noteq> Left \<Longrightarrow> Left \<in> set ls"
  by (auto dest!: set_update_subset_insert [THEN subsetD])
lemma bench_lane:
  assumes inv: "bench_inv n cs s" and i: "i < length (b_lanes s)" and s': "lane_step i (b_lanes s ! i) s = Some s'"
  shows "bench_inv n cs s' \<and> bench_weight s' < bench_weight s"
proof (cases "b_lanes s ! i")
  case Waiting
  note u = lanes_update [OF i, unfolded Waiting] lane_weight_update [OF i, unfolded Waiting]
  have run: "stop_flag (b_pool s) \<or> tasks (b_pool s) \<noteq> []" using s' Waiting by (auto simp: worker_round_def split: if_splits)
  show ?thesis
  proof (cases "tasks (b_pool s)")
    case Nil
    then have "s' = set_lane i Left (s\<lparr>b_pool := (b_pool s)\<lparr>workers := workers (b_pool s) - 1\<rparr>\<rparr>)"
      using s' Waiting run by (simp add: worker_round_def)
    then show ?thesis using inv run Nil u(1,2) [of Left] u(3) [of Left] by (auto simp: bench_inv_def bench_weight_def)
  next
    case (Cons c ts)
    then have eq: "s' = set_lane i (Holding c) (s\<lparr>b_pool := (b_pool s)\<lparr>tasks := ts\<rparr>\<rparr>)"
      using s' Waiting by (simp add: worker_round_def)
    have "Left \<notin> set (b_lanes s')" using inv Cons eq by (auto simp: bench_inv_def dest!: Left_update)
    then show ?thesis using inv Cons u(1,2) [of "Holding c"] u(3) [of "Holding c"] eq by (auto simp: bench_inv_def bench_weight_def)
  qed
next
  case (Holding c)
  note u = lanes_update [OF i, unfolded Holding] lane_weight_update [OF i, unfolded Holding]
  obtain d where d: "b_idle s \<noteq> []" "d = last (b_idle s)" "s' = set_lane i (Using c d) (s\<lparr>b_idle := butlast (b_idle s)\<rparr>)"
    using s' Holding by (auto simp: Runner_Use_def split: if_splits)
  have "mset (b_idle s) = add_mset d (mset (butlast (b_idle s)))"
    using arg_cong [OF append_butlast_last_id [OF d(1)], of mset] d(2) by simp
  then show ?thesis using inv d(3) u(1,2) [of "Using c d"] u(3) [of "Using c d"]
    by (auto simp: bench_inv_def bench_weight_def dest!: Left_update)
next
  case (Using c d)
  note u = lanes_update [OF i, unfolded Using] lane_weight_update [OF i, unfolded Using]
  have "lanes_tasks (b_lanes s) = add_mset c (lanes_tasks ((b_lanes s)[i := Waiting]))"
    "lanes_drivers (b_lanes s) = add_mset d (lanes_drivers ((b_lanes s)[i := Waiting]))"
    using u(1,2) [of Waiting] by simp_all
  then show ?thesis using inv s' Using u(3) [of Waiting]
    by (auto simp: bench_inv_def bench_weight_def Runner_Release_def dest!: Left_update)
qed (use s' in simp)

lemma bench_step:
  assumes inv: "bench_inv n cs s" and s': "bench_act a s = Some s'"
  shows "bench_inv n cs s' \<and> bench_weight s' < bench_weight s"
proof (cases a)
  case (Lane i)
  then show ?thesis using bench_lane [OF inv] s' by (auto split: if_splits)
next
  case QueueNext
  then obtain c cs' where c: "b_todo s = c # cs'" "s' = s\<lparr>b_todo := cs', b_pool := (b_pool s)\<lparr>tasks := tasks (b_pool s) @ [c]\<rparr>\<rparr>" "\<not> stop_flag (b_pool s)"
    using s' by (auto simp: enqueue_def split: list.splits if_splits)
  then show ?thesis using inv by (auto simp: bench_inv_def bench_weight_def)
next
  case DestroyPool
  then show ?thesis using s' inv by (auto simp: bench_inv_def bench_weight_def ThreadPool_stop_def split: if_splits)
qed

interpretation bench: step_measure bench_act "bench_inv n cs" bench_weight
  by unfold_locales (auto dest: bench_step)

lemma bench_new_ok: "bench_inv n cs (bench_new n cs)" "bench_weight (bench_new n cs) = 4 * length cs + 1 + n"
proof -
  have reg: "fold RegisterDriver ds xs = xs @ ds" for ds xs :: "nat list"
    by (induction ds arbitrary: xs) (simp_all add: RegisterDriver_def)
  show "bench_inv n cs (bench_new n cs)"
    by (auto simp: bench_inv_def bench_new_def ThreadPool_new_def reg lanes_tasks_def lanes_drivers_def)
  show "bench_weight (bench_new n cs) = 4 * length cs + 1 + n"
    by (simp add: bench_weight_def bench_new_def ThreadPool_new_def sum_list_replicate)
qed

text \<open>A task that asks for a driver finds one: the other workers use fewer than there are.\<close>

lemma drivers_le: "length (concat (map lane_driver ls)) \<le> length ls"
proof (induction ls)
  case (Cons l ls)
  then show ?case by (cases l) auto
qed simp

lemma drivers_less: "i < length ls \<Longrightarrow> lane_driver (ls ! i) = [] \<Longrightarrow> length (concat (map lane_driver ls)) < length ls"
proof (induction ls arbitrary: i)
  case (Cons l ls)
  then show ?case using drivers_le [of ls] Cons.IH [of "i - 1"] by (cases i; cases l) auto
qed simp

lemma driver_free:
  assumes inv: "bench_inv n cs s" and i: "i < length (b_lanes s)" "b_lanes s ! i = Holding c"
  shows "b_idle s \<noteq> []"
proof
  assume "b_idle s = []"
  then have "lanes_drivers (b_lanes s) = mset [0..<n]" "length (b_lanes s) = n" using inv by (auto simp: bench_inv_def)
  then have "length (concat (map lane_driver (b_lanes s))) = length (b_lanes s)"
    by (metis lanes_drivers_def length_upt minus_nat.diff_0 size_mset)
  then show False using drivers_less [OF i(1)] i(2) by simp
qed

lemma lane_enabled:
  assumes inv: "bench_inv n cs s" and i: "i < length (b_lanes s)" and l: "b_lanes s ! i \<noteq> Left"
    and ready: "stop_flag (b_pool s) \<or> tasks (b_pool s) \<noteq> []"
  shows "\<exists>s'. bench_act (Lane i) s = Some s'"
proof (cases "b_lanes s ! i")
  case (Holding c)
  then show ?thesis using driver_free [OF inv i] i by (simp add: Runner_Use_def)
qed (use i l ready in \<open>auto simp: worker_round_def\<close>)

lemma bench_progress:
  assumes inv: "bench_inv n cs s" and n: "0 < n"
  shows "(\<exists>a s'. bench_act a s = Some s') \<or>
    (stop_flag (b_pool s) \<and> set (b_lanes s) = {Left} \<and> mset (map fst (b_ran s)) = mset cs \<and> mset (b_idle s) = mset [0..<n])"
proof (cases "stop_flag (b_pool s)")
  case stop: True
  show ?thesis
  proof (cases "\<exists>i < length (b_lanes s). b_lanes s ! i \<noteq> Left")
    case True
    then show ?thesis using lane_enabled [OF inv] stop by blast
  next
    case False
    then have "\<forall>l \<in> set (b_lanes s). l = Left" by (auto simp: in_set_conv_nth)
    moreover have "b_lanes s \<noteq> []" using inv n by (auto simp: bench_inv_def)
    ultimately have left: "set (b_lanes s) = {Left}" by (metis insertI1 last_in_set singletonD subset_singletonD subsetI set_empty)
    have "lanes_tasks (b_lanes s) = {#}" "lanes_drivers (b_lanes s) = {#}" using left by (auto simp: lanes_tasks_def lanes_drivers_def)
    then show ?thesis using inv stop left by (auto simp: bench_inv_def)
  qed
next
  case run: False
  show ?thesis
  proof (cases "b_todo s")
    case Nil
    then have "bench_act DestroyPool s = Some (s\<lparr>b_pool := ThreadPool_stop (b_pool s)\<rparr>)" using run by simp
    then show ?thesis by blast
  next
    case (Cons c cs')
    show ?thesis
    proof (cases "length (tasks (b_pool s)) < max_queue_size (b_pool s)")
      case True
      then have "bench_act QueueNext s = Some (s\<lparr>b_todo := cs', b_pool := (b_pool s)\<lparr>tasks := tasks (b_pool s) @ [c]\<rparr>\<rparr>)"
        using Cons run by (simp add: enqueue_def)
      then show ?thesis by blast
    next
      case False
      then have "tasks (b_pool s) \<noteq> []" "0 < length (b_lanes s)" "Left \<notin> set (b_lanes s)"
        using inv n run by (auto simp: bench_inv_def)
      then show ?thesis using lane_enabled [OF inv, of 0] nth_mem by metis
    qed
  qed
qed


lemmas bench_defs = ThreadPool_new_def RegisterDriver_def Runner_Use_def Runner_Release_def worker_round_def enqueue_def ThreadPool_stop_def set_lane_def


end
