(* ===== verification/Spec2Isabelle.thy ===== *)
theory Spec2Isabelle
  imports Db_Main Ck_Graph Ck_Guard Rk_Request Rk_Executor Meta_Snapshot Tp_Driver Sv_Store Lv_Doc Ad_Doc Hm_Lexer
    As_Server Gr_Server Jl_Load Rk_Demo Kf_Lab Tp_Main
begin

text \<open>
  A verification development for \<open>cxx_lab\<close>, a repository of C++ systems each in a directory of its own. Those that
  have logic of their own are modelled: \<open>db_lab\<close>, a database of one file with a B-tree; \<open>ck_lab\<close>, a pipeline
  of processors after ClickHouse; \<open>rocksdb_lab\<close>, a document store over RocksDB with a request executor;
  \<open>new_meta_lab\<close>, reference-counted metadata snapshots; \<open>duckdb_lab\<close>, a TPC-C benchmark; \<open>rocksdb_service\<close>, a service that creates tables; the documents of
  \<open>leveldb_lab\<close>; the lexer of \<open>home_lab\<close>; \<open>asio_lab\<close>, a thread pool, timers and a connection over boost asio; \<open>grpc_lab\<close>, an asynchronous
  server and its client; \<open>kafka_lab\<close>, a producer and a consumer; and \<open>just_lab\<close>, which dumps and loads matrices. They share no code, so the theories of one system import those of another only where a
  header was copied between them.

  \<^bold>\<open>Conventions.\<close> \<open>Prelude\<close> has the faults an execution can end in (failed \<open>assert\<close>, null pointer, access outside an array,
  a loop that does not end, division by zero), the type \<open>'a outcome\<close> of a result or a fault with its
  sequencing \<open>bnd\<close>, and byte memories with little-endian loads and stores. \<open>Ordered_Map\<close> is \<open>std::map\<close>. \<open>Steps\<close> has state machines given by an executable step function, with locales for their invariants,
  histories and measures. Machine integers are words
  where the width matters; structs are records; a heap or world indexed by addresses stands for
  shared objects. A loop that may not end is a \<open>partial_function (option)\<close> and its not ending the fault \<open>Diverges\<close>; every
  other loop is a total function, so that nothing depends on fuel. That the searches and scans of \<open>db_lab\<close> end on the tables
  that are reached is part of their theorems.
  What the repository only calls is an argument of the model: the operating system's file calls (\<open>sys_env\<close>),
  RocksDB (\<open>ops\<close> with the laws \<open>kv_laws\<close>, met by the store of association lists that the witnesses use), clocks,
  random draws, and the operations on \<open>float\<close>.

  \<^bold>\<open>db_lab.\<close> \<open>Db_Status\<close> (\<open>status.h\<close>, \<open>statement.h\<close>, \<open>consts.h\<close>), \<open>Db_Schema\<close> (\<open>user_schema.h\<close>), \<open>Db_Tokener\<close> (\<open>tokener.h\<close>),
  \<open>Db_Pager\<close> (\<open>pager.h\<close>), \<open>Db_Node\<close> (\<open>node.h\<close>), \<open>Db_Table\<close> (\<open>table.h\<close>) and \<open>Db_Main\<close> (\<open>main.cpp\<close>) hold the operations; a page
  pointer is a page number, so pointers alias as in the program. \<open>Db_Layout\<close> states the page layout and the probing of sorted
  keys as locales, \<open>Db_Search\<close> interprets them on both page kinds and derives the binary searches. \<open>Db_Insert\<close>, \<open>Db_Split\<close>,
  \<open>Db_Tree\<close> and \<open>Db_Level\<close> show that insertion is list insertion, that a split keeps all rows, and that tables of two levels stay
  searchable; \<open>Db_Parent\<close> shows where a second split loses leaves; \<open>Db_Scan\<close> that a scan prints all rows in order.

  \<^bold>\<open>ck_lab.\<close> \<open>Ck_Status\<close> (\<open>Status.h\<close>, \<open>Status.cpp\<close>, \<open>Error.h\<close>): encoding of statuses. \<open>Ck_Port\<close> (\<open>Port.h\<close>, \<open>Chunk.h\<close>): the atomic word two ports share, with
  interference between attempts of its compare-and-swap loops. \<open>Ck_Processor\<close>, \<open>Ck_Pipe\<close>, \<open>Ck_Graph\<close>: processors, pipes, pipelines and
  the graph built from them. \<open>Ck_Guard\<close> (\<open>HierarchyGuard.h\<close>): a step relation of threads, whose invariant gives mutual exclusion.

  \<^bold>\<open>rocksdb_lab.\<close> \<open>Rk_Fields\<close> (\<open>fields.h\<close>, \<open>utils.h\<close>) and \<open>Rk_Doc\<close> (\<open>doc.h\<close>, \<open>doc.cpp\<close>): typed fields, schemas and documents, their
  serialisation and round trips. \<open>Rk_Store\<close> (\<open>rocksdb_util.h\<close>, the cache of \<open>rocksdb_impl.h\<close>): key layout, comparator, cache and the
  laws of the store below. \<open>Rk_Impl\<close> (\<open>rocksdb_impl.cpp\<close>): opening, creating tables, adding and reading documents, indexes.
  \<open>Rk_Coherent\<close>: cache and disk agree after every operation, and what an added document writes. \<open>Rk_Reopen\<close>: closing and opening
  rebuilds the cache that was lost, for every store reached by operations. \<open>Rk_Dump\<close> (the class \<open>KeyHelper\<close>, \<open>Dump\<close>): printing shows what the
  keys were made from. \<open>Rk_Request\<close> (\<open>database.cpp\<close>, \<open>requests.h\<close>, \<open>requests.cpp\<close>): the front end, and \<open>AddDocs\<close> in three parts that a step
  relation interleaves; calls on different tables keep the cache coherent, calls on the same table can lose a document. \<open>Ad_Doc\<close>
  (\<open>advanced_fields.h\<close>, \<open>advanced_doc.h\<close>): the second version of schemas, its lookup, its round trip and when writing it returns. \<open>Rk_Queue\<close> (\<open>BlockingQueue.h\<close>, and \<open>ThreadPool.h\<close> of \<open>duckdb_lab\<close>):
  both are bounded queues in the sense of a locale. \<open>Rk_Executor\<close> (\<open>executor.cpp\<close>, \<open>requests.cpp\<close>): threads and queues as a step
  relation, which refines running each queue in order; \<open>Stop\<close> returns in every interleaving; a request after it is lost.

  \<^bold>\<open>new_meta_lab.\<close> \<open>Meta_Resource\<close> (\<open>Utils.h\<close>, \<open>Proxy.h\<close>, \<open>Resources.h\<close>, \<open>Resources.inl\<close>, \<open>Store.h\<close>) and \<open>Meta_Snapshot\<close> (\<open>Snapshots.h\<close>): reference counts with their
  callbacks, the holders that release resources, and the holder of the newest snapshots.

  \<^bold>\<open>duckdb_lab.\<close> \<open>Tp_Ids\<close> (\<open>Utils.h\<close>, \<open>Utils.cpp\<close>): identifiers are unique whatever the clock does, and generated numbers stay in range.
  \<open>Tp_Metric\<close> (\<open>Collector.h\<close>, \<open>runner.h\<close>, \<open>Task.cpp\<close>): what a summary counts and where a task is recorded. \<open>Tp_Factory\<close>
  (\<open>TpccFactory.h\<close>, \<open>TpccFactory.cpp\<close>, \<open>Context.h\<close>, \<open>consts.h\<close>): the mix and the arguments of the transactions. \<open>Tp_Sql\<close> (\<open>templates.h\<close>) and
  \<open>Tp_Driver\<close> (\<open>driver.cpp\<close>, \<open>Task.cpp\<close>): the statements each transaction sends to an abstract database, every path ending in a commit or a rollback.
  \<open>Tp_Main\<close> (\<open>main.cpp\<close>): main thread, pool, runner and tasks together run every task once and end under every scheduling.

  \<^bold>\<open>rocksdb_service.\<close> \<open>Sv_Store\<close> (\<open>rocksdb_impl.cpp\<close>, \<open>rocksdb_impl.h\<close>, \<open>server.cpp\<close>): the tables a run of requests creates and the answers
  it gets, and that the store it leaves cannot be opened again.

  \<^bold>\<open>leveldb_lab.\<close> \<open>Lv_Doc\<close> (\<open>doc.h\<close>, \<open>doc.cpp\<close>): the earlier documents, simulated by those of \<open>rocksdb_lab\<close> under every sequence of calls.

  \<^bold>\<open>home_lab.\<close> \<open>Hm_Lexer\<close> (\<open>lexer.h\<close>, \<open>lexer.cpp\<close>, \<open>main.cpp\<close>): the lexer, which ends, and the tokens of a text by its lexemes.

  \<^bold>\<open>asio_lab.\<close> \<open>As_Pool\<close> (the class \<open>Pool\<close> of \<open>main.cpp\<close>): threads at program points, a critical section being one step; first in first out, no
  lost notification with one client and up to fifteen workers, a stop with sixteen, and a destructor that always returns. \<open>As_Server\<close> (\<open>Connection\<close>,
  \<open>TimerContext\<close>, \<open>Server\<close>, \<open>asio_util.h\<close>): messages are written one at a time and in order until a write fails with messages waiting;
  timers do not drift and are not stopped by \<open>ShutDown\<close>.

  \<^bold>\<open>grpc_lab.\<close> \<open>Gr_Server\<close> (\<open>calldata.cpp\<close>, \<open>server.cpp\<close>, \<open>async_client.cpp\<close>): calls as heap objects driven by completion events; every request is
  answered once, and exactly the calls of failed events are left on the heap.

  \<^bold>\<open>kafka_lab.\<close> \<open>Kf_Lab\<close> (\<open>main.cpp\<close>, \<open>producer.cpp\<close>, \<open>consumer.cpp\<close>): the loops of producer and consumer, and that what is typed is what is printed.

  \<^bold>\<open>just_lab.\<close> \<open>Jl_Load\<close> (\<open>main.cpp\<close>): for which rows and slices a dumped matrix is read back.

  \<^bold>\<open>Demonstrations.\<close> \<open>Rk_Demo\<close> (\<open>main.cpp\<close>, \<open>db_op.cpp\<close> and \<open>index.cpp\<close> of \<open>rocksdb_lab\<close>): the demonstration of documents ends in a fault, the ranges given to
  threads cover all tables, and a search after filling segments finds every value.

  \<^bold>\<open>Not modelled.\<close> Data races other than those of the step relations above; the transport of \<open>rocksdb_service\<close> and its client; its copies of
  \<open>doc.h\<close> and \<open>fields.h\<close>, which are those of \<open>leveldb_lab\<close>; the syntax trees of \<open>home_lab\<close>, which nothing reads; scanners and parsers
  generated by flex and yacc and generated protobuf code; the exercises around faiss, OpenTracing, boost, folly and Linux
  system calls, which do no work of their own; the \<open>main\<close> functions that only read options, open databases and print times, benchmarks
  and unit tests; the values that the futures of the pool carry.
\<close>

end
